(* ===== verification/Prelude.thy ===== *)
theory Prelude
  imports Main "HOL-Library.Word"
begin

text \<open>
  Shared ground of the development: names for the machine integer types of the C sources, the
  result type of operations that report failure by an error value, the generic lemmas on lists
  and words that several components use, and the theorem collections their proofs draw on.
\<close>

unbundle bit_operations_syntax

section \<open>Machine integers\<close>

text \<open>The fixed-width types of \<^verbatim>\<open>stdint.h\<close>: arithmetic wraps, as C prescribes for unsigned types.\<close>

type_synonym u8 = "8 word"
type_synonym u16 = "16 word"
type_synonym u32 = "32 word"
type_synonym u64 = "64 word"

abbreviation UINT64_MAX :: u64 where
  "UINT64_MAX \<equiv> 0xFFFFFFFFFFFFFFFF"

abbreviation UINT32_MAX :: u32 where
  "UINT32_MAX \<equiv> 0xFFFFFFFF"

abbreviation INT64_MAX :: u64 where
  "INT64_MAX \<equiv> 0x7FFFFFFFFFFFFFFF"

section \<open>Theorem collections\<close>

named_theorems fw_defs \<open>definitions of firmware operations that step proofs unfold\<close>
named_theorems frame_simps \<open>fields of the state that an operation leaves alone\<close>
named_theorems abi_simps \<open>field projections of encoded tokens, slots and packets\<close>

section \<open>Scans over arrays\<close>

text \<open>
  The sources look for the first index of an array with a property by a counted loop with an
  early exit; \<open>find_index\<close> is that loop, starting from index \<open>i\<close>.
\<close>

fun find_index_from :: "nat \<Rightarrow> ('a \<Rightarrow> bool) \<Rightarrow> 'a list \<Rightarrow> nat option" where
  "find_index_from i P [] = None"
| "find_index_from i P (x # xs) = (if P x then Some i else find_index_from (Suc i) P xs)"

abbreviation find_index :: "('a \<Rightarrow> bool) \<Rightarrow> 'a list \<Rightarrow> nat option" where
  "find_index \<equiv> find_index_from 0"

lemma find_index_from_Some:
  "find_index_from i P xs = Some k \<longleftrightarrow>
     i \<le> k \<and> k - i < length xs \<and> P (xs ! (k - i)) \<and> (\<forall>j < k - i. \<not> P (xs ! j))"
proof (induction xs arbitrary: i)
  case Nil
  then show ?case by simp
next
  case (Cons x xs)
  show ?case
  proof (cases "P x")
    case True
    then show ?thesis
      by (cases "k - i") (auto simp: nth_Cons')
  next
    case False
    show ?thesis
    proof (cases "k \<le> i")
      case True
      with False Cons.IH [of "Suc i"] show ?thesis by simp
    next
      case gt: False
      then obtain d where d: "k - i = Suc d" by (cases "k - i") auto
      then have d': "k - Suc i = d" and le: "i \<le> k" "Suc i \<le> k" by auto
      have "(\<forall>j < Suc d. \<not> P ((x # xs) ! j)) \<longleftrightarrow> (\<forall>j < d. \<not> P (xs ! j))"
        using False by (auto simp: less_Suc_eq_0_disj nth_Cons')
      with False Cons.IH [of "Suc i"] le d d' show ?thesis by simp
    qed
  qed
qed

lemma find_index_Some:
  "find_index P xs = Some k \<longleftrightarrow> k < length xs \<and> P (xs ! k) \<and> (\<forall>j < k. \<not> P (xs ! j))"
  by (simp add: find_index_from_Some)

lemma find_index_from_None: "find_index_from i P xs = None \<longleftrightarrow> (\<forall>x \<in> set xs. \<not> P x)"
  by (induction xs arbitrary: i) auto

lemma find_index_SomeD:
  assumes "find_index P xs = Some k"
  shows "k < length xs" "P (xs ! k)"
  using assms by (simp_all add: find_index_Some)

lemma find_index_exists: "x \<in> set xs \<Longrightarrow> P x \<Longrightarrow> \<exists>k. find_index P xs = Some k"
  using find_index_from_None [of 0 P xs] by (cases "find_index P xs") auto

section \<open>Lists\<close>

lemma takeWhile_split:
  assumes "\<forall>x \<in> set xs. P x" and "zs = [] \<or> \<not> P (hd zs)"
  shows "takeWhile P (xs @ zs) = xs" and "dropWhile P (xs @ zs) = zs"
  using assms by (cases zs; simp)+

lemma nth_in_take: "i < n \<Longrightarrow> i < length xs \<Longrightarrow> xs ! i \<in> set (take n xs)"
  by (auto simp: in_set_conv_nth intro!: exI [of _ i])

lemma ball_take: "(\<forall>x \<in> set (take n xs). P x) \<longleftrightarrow> (\<forall>i < n. i < length xs \<longrightarrow> P (xs ! i))"
  using nth_in_take [of _ n xs] by (auto simp: in_set_conv_nth)

text \<open>
  The walk along a linked list that stops at the first node satisfying a test: the nodes passed,
  the node found, and the rest of the chain.
\<close>

fun split_first :: "('a \<Rightarrow> bool) \<Rightarrow> 'a list \<Rightarrow> ('a list \<times> 'a \<times> 'a list) option" where
  "split_first P [] = None"
| "split_first P (x # xs) =
     (if P x then Some ([], x, xs)
      else map_option (\<lambda>(pre, y, post). (x # pre, y, post)) (split_first P xs))"

lemma split_first_None: "split_first P xs = None \<longleftrightarrow> (\<forall>x \<in> set xs. \<not> P x)"
  by (induction xs) auto

lemma split_first_Some:
  "split_first P xs = Some (pre, x, post) \<Longrightarrow> xs = pre @ x # post \<and> P x \<and> (\<forall>y \<in> set pre. \<not> P y)"
  by (induction xs arbitrary: pre) (auto split: if_splits)

lemma set_update_subset: "set (xs[i := x]) \<subseteq> insert x (set xs)"
  by (rule set_update_subset_insert)

lemma nth_list_update_cases:
  "i < length xs \<Longrightarrow> xs[k := v] ! i = (if i = k then v else xs ! i)"
  by (simp add: nth_list_update)

lemma all_nth_update:
  "(\<And>i. i < length xs \<Longrightarrow> P i (xs ! i)) \<Longrightarrow> P k v \<Longrightarrow> i < length (xs[k := v]) \<Longrightarrow> P i (xs[k := v] ! i)"
  by (cases "i = k") auto

lemma sum_list_map_update:
  fixes f :: "'a \<Rightarrow> nat"
  assumes "k < length xs"
  shows "(\<Sum>x\<leftarrow>xs[k := v]. f x) + f (xs ! k) = (\<Sum>x\<leftarrow>xs. f x) + f v"
  using assms by (induction xs arbitrary: k) (auto split: nat.splits)

lemma length_filter_update:
  assumes "k < length xs"
  shows "length (filter P (xs[k := v])) + (if P (xs ! k) then 1 else 0) =
         length (filter P xs) + (if P v then 1 else 0)"
  using assms
proof (induction xs arbitrary: k)
  case Nil
  then show ?case by simp
next
  case (Cons x xs)
  then show ?case
    using Cons.IH [of "k - 1"] by (cases k) (auto split: if_splits)
qed

section \<open>Words\<close>

lemma unat_add_no_wrap:
  fixes a b :: "'a::len word"
  assumes "unat a + unat b < 2 ^ LENGTH('a)"
  shows "unat (a + b) = unat a + unat b"
  using assms by (simp add: unat_word_ariths)

lemma unat_sub_le:
  fixes a b :: "'a::len word"
  assumes "b \<le> a"
  shows "unat (a - b) = unat a - unat b"
  using assms by (rule unat_sub)

lemma word_le_iff_unat: "(a :: 'a::len word) \<le> b \<longleftrightarrow> unat a \<le> unat b"
  by (rule word_le_nat_alt)

lemma word_less_iff_unat: "(a :: 'a::len word) < b \<longleftrightarrow> unat a < unat b"
  by (rule word_less_nat_alt)

lemma word_eq_iff_unat: "(a :: 'a::len word) = b \<longleftrightarrow> unat a = unat b"
  by (rule word_unat_eq_iff)

lemmas word_unat_simps = word_le_iff_unat word_less_iff_unat word_eq_iff_unat

lemma unat_pos_iff: "0 < unat (a :: 'a::len word) \<longleftrightarrow> a \<noteq> 0"
  by (simp add: unat_gt_0)

lemma unat_lt64 [simp]: "unat (a :: u64) < 2 ^ 64"
  using unsigned_less [of a, where ?'a = nat] by simp

lemma and_not_mask_eq: "(w :: 'a::len word) AND NOT (mask n) = push_bit n (drop_bit n w)"
  by (rule bit_word_eqI) (auto simp: bit_simps)

lemma unat_and_not_mask: "unat ((w :: 'a::len word) AND NOT (mask n)) = unat w div 2 ^ n * 2 ^ n"
proof -
  have "unat w div 2 ^ n * 2 ^ n < 2 ^ LENGTH('a)"
    using unsigned_less [of w, where ?'a = nat] div_times_less_eq_dividend [of "unat w" "2 ^ n"]
    by (rule le_less_trans [rotated])
  then show ?thesis
    unfolding and_not_mask_eq unsigned_push_bit_eq unsigned_drop_bit_eq
    by (simp add: push_bit_eq_mult take_bit_nat_eq_self drop_bit_eq_div)
qed

lemma unat_of_nat_lt:
  "n < 2 ^ LENGTH('a::len) \<Longrightarrow> unat (of_nat n :: 'a word) = n"
  by (simp add: unsigned_of_nat take_bit_nat_eq_self)

lemma ucast_ucast_up:
  "LENGTH('a) \<le> LENGTH('b) \<Longrightarrow> ucast (ucast (w :: 'a::len word) :: 'b::len word) = w"
  by (rule bit_word_eqI) (auto simp: bit_simps)

lemma int_less_uint [simp]: "int n < uint w \<longleftrightarrow> n < unat w"
  by (metis of_nat_less_iff uint_nat)

lemma uint_le_int [simp]: "uint w \<le> int n \<longleftrightarrow> unat w \<le> n"
  by (metis of_nat_le_iff uint_nat)

text \<open>The test \<open>w & (w - 1)\<close> singles out the powers of two.\<close>

lemma and_pred_zero_nat:
  fixes n :: nat
  assumes "n AND (n - 1) = 0" and "n \<noteq> 0"
  shows "\<exists>k. n = 2 ^ k"
  using assms
proof (induction n rule: less_induct)
  case (less n)
  show ?case
  proof (cases "even n")
    case True
    then obtain m where m: "n = 2 * m" by blast
    with less.prems have "0 < m" by simp
    have bit: "bit (2 * m - 1) (Suc i) = bit (m - 1) i" for i
    proof -
      have "(2 * m - 1) div 2 = m - 1" using \<open>0 < m\<close> by linarith
      then show ?thesis by (simp add: bit_Suc)
    qed
    have "m AND (m - 1) = 0"
    proof (rule bit_eqI)
      fix i
      have "\<not> bit (n AND (n - 1)) (Suc i)" using less.prems(1) by simp
      then show "bit (m AND (m - 1)) i = bit 0 i" using bit [of i] by (simp add: bit_simps m)
    qed
    with less.IH [of m] m \<open>0 < m\<close> obtain k where "m = 2 ^ k" by auto
    then have "n = 2 ^ Suc k" using m by simp
    then show ?thesis by blast
  next
    case False
    then obtain m where m: "n = 2 * m + 1" by (rule oddE)
    have "m = 0"
    proof (rule bit_eqI)
      fix i
      have "\<not> bit (n AND (n - 1)) (Suc i)" using less.prems(1) by simp
      moreover have "bit (2 * m + 1) (Suc i) = bit m i" "bit (2 * m) (Suc i) = bit m i"
        by (simp_all add: bit_Suc)
      ultimately show "bit m i = bit 0 i" by (simp add: bit_and_iff m del: bit_double_iff)
    qed
    with m have "n = 2 ^ 0" by simp
    then show ?thesis by blast
  qed
qed

lemma and_pred_zero_word:
  fixes w :: "'a::len word"
  assumes "w AND (w - 1) = 0" and "w \<noteq> 0"
  shows "\<exists>k < LENGTH('a). unat w = 2 ^ k \<and> w - 1 = mask k"
proof -
  have one: "1 \<le> w" using assms(2) by (simp add: word_le_iff_unat Suc_le_eq unat_pos_iff)
  have "unat w AND (unat w - 1) = unat (w AND (w - 1))"
    using unat_sub_le [OF one] by (simp add: unsigned_and_eq)
  with assms have "\<exists>k. unat w = 2 ^ k"
    by (intro and_pred_zero_nat) (simp_all add: unsigned_eq_0_iff)
  then obtain k where k: "unat w = 2 ^ k" by blast
  with unsigned_less [of w, where ?'a = nat] have lt: "k < LENGTH('a)" by simp
  have "w = of_nat (unat w)" by simp
  then have "w = 2 ^ k" by (simp add: k)
  then have "w - 1 = mask k" by (simp add: mask_eq_exp_minus_1)
  with k lt show ?thesis by blast
qed

end
