(* ===== verification/Completion_Abi.thy ===== *)
theory Completion_Abi
  imports Prelude
begin

text \<open>
  The completion ABI that host and firmware share (\<^verbatim>\<open>hal/include/formosa-hal/api.h\<close>): the 64-bit
  completion token (boot generation, allocation generation, slot index), the 64-bit completion
  slot (allocation tag, result) and the inline functions that pack and unpack them.
\<close>

section \<open>Types and constants\<close>

type_synonym FsaCompletionToken = u64
type_synonym FsaCompletionAllocTag = u64
type_synonym FsaCompletionSlot = u64
type_synonym FsaCompletionResult = u16

definition FSA_COMPLETION_SLOT_COUNT :: u16 where
  "FSA_COMPLETION_SLOT_COUNT = 64"

definition FSA_COMPLETION_BOOT_GENERATION_MASK :: u64 where
  "FSA_COMPLETION_BOOT_GENERATION_MASK = 0x0000FFFF"

definition FSA_COMPLETION_ALLOC_GENERATION_MASK :: u64 where
  "FSA_COMPLETION_ALLOC_GENERATION_MASK = 0x00000000FFFFFFFF"

definition FSA_COMPLETION_SLOT_INDEX_MASK :: u64 where
  "FSA_COMPLETION_SLOT_INDEX_MASK = 0x000000000000FFFF"

definition FSA_COMPLETION_ALLOC_TAG_MASK :: u64 where
  "FSA_COMPLETION_ALLOC_TAG_MASK = 0x0000FFFFFFFFFFFF"

definition FSA_COMPLETION_TOKEN_BOOT_GENERATION_MASK :: u64 where
  "FSA_COMPLETION_TOKEN_BOOT_GENERATION_MASK = 0xFFFF000000000000"

definition FSA_COMPLETION_TOKEN_ALLOC_GENERATION_MASK :: u64 where
  "FSA_COMPLETION_TOKEN_ALLOC_GENERATION_MASK = 0x0000FFFFFFFF0000"

definition FSA_COMPLETION_TOKEN_SLOT_INDEX_MASK :: u64 where
  "FSA_COMPLETION_TOKEN_SLOT_INDEX_MASK = 0x000000000000FFFF"

definition FSA_COMPLETION_TOKEN_ALLOC_TAG_MASK :: u64 where
  "FSA_COMPLETION_TOKEN_ALLOC_TAG_MASK = 0xFFFFFFFFFFFF0000"

definition FSA_COMPLETION_RESULT_PENDING :: FsaCompletionResult where
  "FSA_COMPLETION_RESULT_PENDING = 0x0000"

definition FSA_COMPLETION_RESULT_SUCCESS :: FsaCompletionResult where
  "FSA_COMPLETION_RESULT_SUCCESS = 0x0001"

definition FSA_COMPLETION_RESULT_COMMAND_FAILURE_MIN :: FsaCompletionResult where
  "FSA_COMPLETION_RESULT_COMMAND_FAILURE_MIN = 0x0002"

definition FSA_COMPLETION_RESULT_COMMAND_FAILURE_MAX :: FsaCompletionResult where
  "FSA_COMPLETION_RESULT_COMMAND_FAILURE_MAX = 0xFFFE"

definition FSA_COMPLETION_RESULT_FIRMWARE_REBOOT :: FsaCompletionResult where
  "FSA_COMPLETION_RESULT_FIRMWARE_REBOOT = 0xFFFF"

definition FSA_COMPLETION_RESULT_MASK :: u64 where
  "FSA_COMPLETION_RESULT_MASK = 0x000000000000FFFF"

definition FSA_COMPLETION_ALLOC_GENERATION_INITIAL :: u32 where
  "FSA_COMPLETION_ALLOC_GENERATION_INITIAL = 1"

lemmas completion_mask_defs =
  FSA_COMPLETION_BOOT_GENERATION_MASK_def FSA_COMPLETION_ALLOC_GENERATION_MASK_def
  FSA_COMPLETION_SLOT_INDEX_MASK_def FSA_COMPLETION_ALLOC_TAG_MASK_def
  FSA_COMPLETION_TOKEN_BOOT_GENERATION_MASK_def FSA_COMPLETION_TOKEN_ALLOC_GENERATION_MASK_def
  FSA_COMPLETION_TOKEN_SLOT_INDEX_MASK_def FSA_COMPLETION_TOKEN_ALLOC_TAG_MASK_def
  FSA_COMPLETION_RESULT_MASK_def

lemmas completion_result_defs =
  FSA_COMPLETION_RESULT_PENDING_def FSA_COMPLETION_RESULT_SUCCESS_def
  FSA_COMPLETION_RESULT_COMMAND_FAILURE_MIN_def FSA_COMPLETION_RESULT_COMMAND_FAILURE_MAX_def
  FSA_COMPLETION_RESULT_FIRMWARE_REBOOT_def

section \<open>Tokens\<close>

definition fsa_completion_token_make :: "u64 \<Rightarrow> u32 \<Rightarrow> u16 \<Rightarrow> FsaCompletionToken" where
  "fsa_completion_token_make boot_generation alloc_generation slot_index =
     (let alloc_generation =
            (if alloc_generation = 0 then FSA_COMPLETION_ALLOC_GENERATION_INITIAL
             else alloc_generation)
      in push_bit 48 (boot_generation AND FSA_COMPLETION_BOOT_GENERATION_MASK) OR
         push_bit 16 (ucast alloc_generation AND FSA_COMPLETION_ALLOC_GENERATION_MASK) OR
         push_bit 0 (ucast slot_index AND FSA_COMPLETION_SLOT_INDEX_MASK))"

definition fsa_completion_token_boot_generation :: "FsaCompletionToken \<Rightarrow> u16" where
  "fsa_completion_token_boot_generation token =
     ucast (drop_bit 48 (token AND FSA_COMPLETION_TOKEN_BOOT_GENERATION_MASK))"

definition fsa_completion_token_alloc_generation :: "FsaCompletionToken \<Rightarrow> u32" where
  "fsa_completion_token_alloc_generation token =
     ucast (drop_bit 16 (token AND FSA_COMPLETION_TOKEN_ALLOC_GENERATION_MASK))"

definition fsa_completion_token_slot_index :: "FsaCompletionToken \<Rightarrow> u16" where
  "fsa_completion_token_slot_index token =
     ucast (drop_bit 0 (token AND FSA_COMPLETION_TOKEN_SLOT_INDEX_MASK))"

definition fsa_completion_token_alloc_tag :: "FsaCompletionToken \<Rightarrow> FsaCompletionAllocTag" where
  "fsa_completion_token_alloc_tag token =
     drop_bit 16 (token AND FSA_COMPLETION_TOKEN_ALLOC_TAG_MASK)"

definition fsa_completion_token_has_valid_slot :: "FsaCompletionToken \<Rightarrow> bool" where
  "fsa_completion_token_has_valid_slot token \<longleftrightarrow>
     token \<noteq> 0 \<and> fsa_completion_token_alloc_generation token \<noteq> 0 \<and>
     fsa_completion_token_slot_index token < FSA_COMPLETION_SLOT_COUNT"

section \<open>Slots\<close>

definition fsa_completion_slot_encode ::
  "FsaCompletionAllocTag \<Rightarrow> FsaCompletionResult \<Rightarrow> FsaCompletionSlot" where
  "fsa_completion_slot_encode alloc_tag result =
     push_bit 16 (alloc_tag AND FSA_COMPLETION_ALLOC_TAG_MASK) OR ucast result"

definition fsa_completion_slot_alloc_tag :: "FsaCompletionSlot \<Rightarrow> FsaCompletionAllocTag" where
  "fsa_completion_slot_alloc_tag slot =
     drop_bit 16 (slot AND FSA_COMPLETION_TOKEN_ALLOC_TAG_MASK)"

definition fsa_completion_slot_result :: "FsaCompletionSlot \<Rightarrow> FsaCompletionResult" where
  "fsa_completion_slot_result slot = ucast (slot AND FSA_COMPLETION_RESULT_MASK)"

definition fsa_completion_next_alloc_generation :: "u32 \<Rightarrow> u32" where
  "fsa_completion_next_alloc_generation alloc_generation =
     (if alloc_generation = 0 \<or> alloc_generation = UINT32_MAX
      then FSA_COMPLETION_ALLOC_GENERATION_INITIAL else alloc_generation + 1)"

section \<open>Masks as runs of bits\<close>

lemma completion_masks:
  "FSA_COMPLETION_BOOT_GENERATION_MASK = mask 16"
  "FSA_COMPLETION_ALLOC_GENERATION_MASK = mask 32"
  "FSA_COMPLETION_SLOT_INDEX_MASK = mask 16"
  "FSA_COMPLETION_ALLOC_TAG_MASK = mask 48"
  "FSA_COMPLETION_TOKEN_BOOT_GENERATION_MASK = push_bit 48 (mask 16)"
  "FSA_COMPLETION_TOKEN_ALLOC_GENERATION_MASK = push_bit 16 (mask 32)"
  "FSA_COMPLETION_TOKEN_SLOT_INDEX_MASK = mask 16"
  "FSA_COMPLETION_TOKEN_ALLOC_TAG_MASK = push_bit 16 (mask 48)"
  "FSA_COMPLETION_RESULT_MASK = mask 16"
  by (simp_all add: completion_mask_defs mask_numeral)

lemmas completion_bits = completion_masks bit_simps

section \<open>Round trips\<close>

lemma token_boot_generation_make [abi_simps]:
  "fsa_completion_token_boot_generation (fsa_completion_token_make b a s) = ucast b"
  by (rule bit_word_eqI)
    (auto simp: fsa_completion_token_boot_generation_def fsa_completion_token_make_def
       Let_def completion_bits dest: bit_imp_le_length)

lemma token_slot_index_make [abi_simps]:
  "fsa_completion_token_slot_index (fsa_completion_token_make b a s) = s"
  by (rule bit_word_eqI)
    (auto simp: fsa_completion_token_slot_index_def fsa_completion_token_make_def
       Let_def completion_bits dest: bit_imp_le_length)

lemma token_alloc_generation_make [abi_simps]:
  "fsa_completion_token_alloc_generation (fsa_completion_token_make b a s) =
     (if a = 0 then 1 else a)"
  by (rule bit_word_eqI)
    (auto simp: fsa_completion_token_alloc_generation_def fsa_completion_token_make_def
       FSA_COMPLETION_ALLOC_GENERATION_INITIAL_def
       Let_def completion_bits dest: bit_imp_le_length)

lemma slot_alloc_tag_encode [abi_simps]:
  "fsa_completion_slot_alloc_tag (fsa_completion_slot_encode t r) = t AND mask 48"
  by (rule bit_word_eqI)
    (auto simp: fsa_completion_slot_alloc_tag_def fsa_completion_slot_encode_def
       completion_bits dest: bit_imp_le_length)

lemma slot_result_encode [abi_simps]:
  "fsa_completion_slot_result (fsa_completion_slot_encode t r) = r"
  by (rule bit_word_eqI)
    (auto simp: fsa_completion_slot_result_def fsa_completion_slot_encode_def
       completion_bits dest: bit_imp_le_length)

lemma token_alloc_tag_mask [abi_simps]:
  "fsa_completion_token_alloc_tag t AND mask 48 = fsa_completion_token_alloc_tag t"
  by (rule bit_word_eqI)
    (auto simp: fsa_completion_token_alloc_tag_def completion_bits dest: bit_imp_le_length)

lemma slot_encode_decode [abi_simps]:
  "fsa_completion_slot_encode (fsa_completion_slot_alloc_tag w) (fsa_completion_slot_result w) = w"
proof (rule bit_word_eqI)
  fix n assume "n < LENGTH(64)"
  then show "bit (fsa_completion_slot_encode (fsa_completion_slot_alloc_tag w)
      (fsa_completion_slot_result w)) n = bit w n"
    by (cases "n < 16")
      (auto simp: fsa_completion_slot_alloc_tag_def fsa_completion_slot_encode_def
        fsa_completion_slot_result_def completion_bits)
qed

text \<open>A token is its slot together with its tag: equal tags in the same slot are the same token.\<close>

lemma token_tag_slot:
  "t = push_bit 16 (fsa_completion_token_alloc_tag t) OR ucast (fsa_completion_token_slot_index t)"
proof (rule bit_word_eqI)
  fix n assume "n < LENGTH(64)"
  then show "bit t n = bit (push_bit 16 (fsa_completion_token_alloc_tag t) OR
      ucast (fsa_completion_token_slot_index t)) n"
    by (cases "n < 16")
      (auto simp: fsa_completion_token_alloc_tag_def fsa_completion_token_slot_index_def completion_bits)
qed

lemma token_eqI:
  assumes "fsa_completion_token_alloc_tag t = fsa_completion_token_alloc_tag t'"
    and "fsa_completion_token_slot_index t = fsa_completion_token_slot_index t'"
  shows "t = t'"
  using assms token_tag_slot [of t] token_tag_slot [of t'] by metis

lemma token_tag_fields:
  "fsa_completion_token_alloc_tag t =
     push_bit 32 (ucast (fsa_completion_token_boot_generation t)) OR
     ucast (fsa_completion_token_alloc_generation t)"
proof (rule bit_word_eqI)
  fix n assume "n < LENGTH(64)"
  then show "bit (fsa_completion_token_alloc_tag t) n =
      bit (push_bit 32 (ucast (fsa_completion_token_boot_generation t)) OR
        ucast (fsa_completion_token_alloc_generation t) :: u64) n"
    by (cases "n < 32"; cases "n < 48")
      (auto simp: fsa_completion_token_alloc_tag_def fsa_completion_token_boot_generation_def
        fsa_completion_token_alloc_generation_def completion_bits)
qed

lemma token_fields_eqI:
  assumes "fsa_completion_token_boot_generation t = fsa_completion_token_boot_generation t'"
    and "fsa_completion_token_alloc_generation t = fsa_completion_token_alloc_generation t'"
    and "fsa_completion_token_slot_index t = fsa_completion_token_slot_index t'"
  shows "t = t'"
proof (rule token_eqI)
  show "fsa_completion_token_alloc_tag t = fsa_completion_token_alloc_tag t'"
    unfolding token_tag_fields [of t] token_tag_fields [of t'] assms ..
qed (rule assms(3))

lemma token_make_decode:
  "fsa_completion_token_alloc_generation t \<noteq> 0 \<Longrightarrow>
     fsa_completion_token_make (ucast (fsa_completion_token_boot_generation t))
       (fsa_completion_token_alloc_generation t) (fsa_completion_token_slot_index t) = t"
  by (rule token_fields_eqI) (simp_all add: abi_simps ucast_ucast_up)

lemma token_make_nonzero: "fsa_completion_token_make b a s \<noteq> 0"
proof
  assume "fsa_completion_token_make b a s = 0"
  then have "fsa_completion_token_alloc_generation (fsa_completion_token_make b a s) = 0"
    by (simp add: fsa_completion_token_alloc_generation_def)
  then show False by (simp add: token_alloc_generation_make split: if_splits)
qed

lemma token_make_valid_slot:
  "s < FSA_COMPLETION_SLOT_COUNT \<Longrightarrow> fsa_completion_token_has_valid_slot (fsa_completion_token_make b a s)"
  by (simp add: fsa_completion_token_has_valid_slot_def token_make_nonzero abi_simps)

section \<open>Allocation generations\<close>

text \<open>Zero is never issued; the other generations form one cycle.\<close>

lemma next_generation_nonzero: "fsa_completion_next_alloc_generation a \<noteq> 0"
proof -
  have "a \<noteq> UINT32_MAX \<Longrightarrow> a + 1 \<noteq> 0"
    using eq_neg_iff_add_eq_0 [of a 1] by auto
  then show ?thesis
    by (auto simp: fsa_completion_next_alloc_generation_def FSA_COMPLETION_ALLOC_GENERATION_INITIAL_def)
qed

lemma unat_next_generation:
  assumes "a \<noteq> 0"
  shows "unat (fsa_completion_next_alloc_generation a) = unat a mod (2 ^ 32 - 1) + 1"
proof (cases "a = UINT32_MAX")
  case True
  then show ?thesis
    by (simp add: fsa_completion_next_alloc_generation_def FSA_COMPLETION_ALLOC_GENERATION_INITIAL_def)
next
  case False
  have "unat (UINT32_MAX :: u32) = 2 ^ 32 - 1" by simp
  with False have ne: "unat a \<noteq> 2 ^ 32 - 1" by (metis word_eq_iff_unat)
  have "unat a < 2 ^ 32" using unsigned_less [of a, where ?'a = nat] by simp
  with ne have lt: "unat a < 2 ^ 32 - 1" by simp
  then have "unat (a + 1) = unat a + 1"
    by (subst unat_add_no_wrap) simp_all
  with lt False assms show ?thesis by (simp add: fsa_completion_next_alloc_generation_def)
qed

lemma unat_next_generation_iter:
  assumes "a \<noteq> 0"
  shows "(fsa_completion_next_alloc_generation ^^ k) a \<noteq> 0 \<and>
         unat ((fsa_completion_next_alloc_generation ^^ k) a) = (unat a - 1 + k) mod (2 ^ 32 - 1) + 1"
proof (induction k)
  case 0
  have "unat a < 2 ^ 32" using unsigned_less [of a, where ?'a = nat] by simp
  moreover have "0 < unat a" using assms by (simp add: unat_pos_iff)
  ultimately show ?case using assms by simp
next
  case (Suc k)
  let ?b = "(fsa_completion_next_alloc_generation ^^ k) a"
  have "unat (fsa_completion_next_alloc_generation ?b) = unat ?b mod (2 ^ 32 - 1) + 1"
    using Suc by (intro unat_next_generation) simp
  also have "\<dots> = ((unat a - 1 + k) mod (2 ^ 32 - 1) + 1) mod (2 ^ 32 - 1) + 1" using Suc by simp
  also have "\<dots> = (unat a - 1 + Suc k) mod (2 ^ 32 - 1) + 1" by (simp only: mod_Suc_eq add_Suc_right Suc_eq_plus1 [symmetric])
  finally show ?case by (simp add: next_generation_nonzero)
qed

section \<open>Enumerations and structures of the host interface\<close>

text \<open>
  The status enumerations are datatypes; those whose members travel as numbers (completion
  results, memory domains, firmware status and fault registers) come with their encoding.
\<close>

datatype FsaMemoryDomain = FsaMemoryDomainHost | FsaMemoryDomainDevice

fun memory_domain_code :: "FsaMemoryDomain \<Rightarrow> u8" where
  "memory_domain_code FsaMemoryDomainHost = 1"
| "memory_domain_code FsaMemoryDomainDevice = 2"

datatype FsaMemoryCopyStatus =
    FsaMemoryCopyStatusInvalidDomainPair | FsaMemoryCopyStatusInvalidAddress
  | FsaMemoryCopyStatusInvalidRange | FsaMemoryCopyStatusOverlap
  | FsaMemoryCopyStatusDmaBusError | FsaMemoryCopyStatusInternalError
  | FsaMemoryCopyStatusNotReady | FsaMemoryCopyStatusTimeout

fun memory_copy_status_code :: "FsaMemoryCopyStatus \<Rightarrow> FsaCompletionResult" where
  "memory_copy_status_code FsaMemoryCopyStatusInvalidDomainPair = 2"
| "memory_copy_status_code FsaMemoryCopyStatusInvalidAddress = 3"
| "memory_copy_status_code FsaMemoryCopyStatusInvalidRange = 4"
| "memory_copy_status_code FsaMemoryCopyStatusOverlap = 5"
| "memory_copy_status_code FsaMemoryCopyStatusDmaBusError = 6"
| "memory_copy_status_code FsaMemoryCopyStatusInternalError = 7"
| "memory_copy_status_code FsaMemoryCopyStatusNotReady = 8"
| "memory_copy_status_code FsaMemoryCopyStatusTimeout = 9"

datatype FsaKernelCompletionStatus =
    FsaKernelCompletionBadDimension | FsaKernelCompletionException | FsaKernelCompletionUnknownError

fun kernel_completion_code :: "FsaKernelCompletionStatus \<Rightarrow> FsaCompletionResult" where
  "kernel_completion_code FsaKernelCompletionBadDimension = 2"
| "kernel_completion_code FsaKernelCompletionException = 3"
| "kernel_completion_code FsaKernelCompletionUnknownError = 4"

datatype FsaFirmwareFault =
    FsaFirmwareFaultNone | FsaFirmwareFaultMemoryCopyTimeout | FsaFirmwareFaultDmaProtocol
  | FsaFirmwareFaultCacheTimeout | FsaFirmwareFaultBootDescriptor | FsaFirmwareFaultBootDma

fun firmware_fault_code :: "FsaFirmwareFault \<Rightarrow> u64" where
  "firmware_fault_code FsaFirmwareFaultNone = 0"
| "firmware_fault_code FsaFirmwareFaultMemoryCopyTimeout = 1"
| "firmware_fault_code FsaFirmwareFaultDmaProtocol = 2"
| "firmware_fault_code FsaFirmwareFaultCacheTimeout = 3"
| "firmware_fault_code FsaFirmwareFaultBootDescriptor = 4"
| "firmware_fault_code FsaFirmwareFaultBootDma = 5"

datatype FsaFirmwareStatus =
    FsaFirmwareStatusReset | FsaFirmwareStatusBooting | FsaFirmwareStatusReady | FsaFirmwareStatusFault

fun firmware_status_code :: "FsaFirmwareStatus \<Rightarrow> u64" where
  "firmware_status_code FsaFirmwareStatusReset = 0"
| "firmware_status_code FsaFirmwareStatusBooting = 1"
| "firmware_status_code FsaFirmwareStatusReady = 2"
| "firmware_status_code FsaFirmwareStatusFault = 3"

datatype FsaCommandSubmitStatus =
    FsaCommandSubmitAccepted | FsaCommandSubmitWouldBlock
  | FsaCommandSubmitInvalidArgument | FsaCommandSubmitTransportError

datatype FsaCompletionPollStatus =
    FsaCompletionPollTerminal | FsaCompletionPollPending
  | FsaCompletionPollInvalidToken | FsaCompletionPollTransportError

datatype FsaCompletionWaitStatus =
    FsaCompletionWaitSuccess | FsaCompletionWaitTimeout
  | FsaCompletionWaitInvalidToken | FsaCompletionWaitTransportError

datatype FsaCompletionReleaseStatus =
    FsaCompletionReleaseAccepted | FsaCompletionReleaseInvalidToken
  | FsaCompletionReleaseTransportError | FsaCompletionReleasePending

record FsaMemoryRange =
  mr_address :: u64
  mr_size :: u64

record FsaMemoryRegion =
  mg_domain :: u32
  mg_range :: FsaMemoryRange

record FsaKernelStatus =
  ks_mcause :: u64
  ks_mepc :: u64
  ks_mtval :: u64

record FsaKernelLaunchInfo =
  kl_struct_size :: u32
  kl_dimensions :: u32
  kl_local_size :: "u32 list"
  kl_num_groups :: "u32 list"
  kl_global_offset :: "u64 list"
  kl_local_mem_size :: u32
  kl_has_printf_meta :: u32
  kl_enable_stack_remap :: u32
  kl_kernel_entry :: u64
  kl_kernarg_address :: u64
  kl_kernel_trampoline :: u64
  kl_kernel_status :: u64

record FsaMemoryCopyInfo =
  mc_struct_size :: u32
  mc_source :: FsaMemoryRegion
  mc_destination :: FsaMemoryRegion

text \<open>Every command-specific failure code lies in the range the ABI reserves for them.\<close>

definition command_failure :: "FsaCompletionResult \<Rightarrow> bool" where
  "command_failure r \<longleftrightarrow>
     FSA_COMPLETION_RESULT_COMMAND_FAILURE_MIN \<le> r \<and> r \<le> FSA_COMPLETION_RESULT_COMMAND_FAILURE_MAX"

lemma memory_copy_status_failure: "command_failure (memory_copy_status_code c)"
  by (cases c) (simp_all add: command_failure_def completion_result_defs)

lemma kernel_completion_failure: "command_failure (kernel_completion_code c)"
  by (cases c) (simp_all add: command_failure_def completion_result_defs)

lemma command_failure_terminal:
  "command_failure r \<Longrightarrow> r \<noteq> FSA_COMPLETION_RESULT_PENDING \<and> r \<noteq> FSA_COMPLETION_RESULT_SUCCESS \<and>
     r \<noteq> FSA_COMPLETION_RESULT_FIRMWARE_REBOOT"
  by (auto simp: command_failure_def completion_result_defs word_le_iff_unat)

section \<open>Properties\<close>

text \<open>
  Completion tokens and slot words are faithful encodings: a token built from a boot generation,
  an allocation generation and a slot index gives back the boot generation modulo 2^16, the
  allocation generation (with 0 replaced by 1) and the index; every token with a nonzero
  allocation generation is rebuilt from its fields; a slot word gives back the low 48 bits of the
  tag and the whole result, and every slot word is rebuilt from its tag and result.
\<close>

lemma completion_encoding:
  "fsa_completion_token_boot_generation (fsa_completion_token_make b a i) = ucast b \<and>
   fsa_completion_token_alloc_generation (fsa_completion_token_make b a i) = (if a = 0 then 1 else a) \<and>
   fsa_completion_token_slot_index (fsa_completion_token_make b a i) = i \<and>
   (fsa_completion_token_alloc_generation t \<noteq> 0 \<longrightarrow>
      fsa_completion_token_make (ucast (fsa_completion_token_boot_generation t))
        (fsa_completion_token_alloc_generation t) (fsa_completion_token_slot_index t) = t) \<and>
   fsa_completion_slot_alloc_tag (fsa_completion_slot_encode g r) = g AND mask 48 \<and>
   fsa_completion_slot_result (fsa_completion_slot_encode g r) = r \<and>
   fsa_completion_slot_encode (fsa_completion_slot_alloc_tag w) (fsa_completion_slot_result w) = w"
  by (simp add: abi_simps token_make_decode)

text \<open>
  Reuse of a slot: starting from any nonzero allocation generation, the next 2^32 - 2 generations
  all differ from it and none of the successors is 0, so two tokens of one slot and one boot are
  equal only after the whole cycle of 2^32 - 1 generations.
\<close>

lemma alloc_generation_cycle:
  assumes "a \<noteq> 0" and "0 < k" and "k < 2 ^ 32 - 1"
  shows "(fsa_completion_next_alloc_generation ^^ k) a \<noteq> 0 \<and>
    (fsa_completion_next_alloc_generation ^^ k) a \<noteq> a \<and>
    (fsa_completion_next_alloc_generation ^^ (2 ^ 32 - 1)) a = a \<and>
    fsa_completion_token_make b ((fsa_completion_next_alloc_generation ^^ k) a) i \<noteq>
      fsa_completion_token_make b a i"
proof -
  let ?N = "2 ^ 32 - 1 :: nat" and ?g = "fsa_completion_next_alloc_generation"
  have u: "0 < unat a" "unat a < 2 ^ 32" using assms(1) unsigned_less [of a, where ?'a = nat]
    by (auto simp: unat_gt_0)
  note it = unat_next_generation_iter [OF assms(1)]
  have full: "(?g ^^ ?N) a = a"
  proof (rule word_unat_eq_iff [THEN iffD2])
    have "unat ((?g ^^ ?N) a) = (unat a - 1 + ?N) mod ?N + 1" using it [of ?N] by blast
    also have "\<dots> = (unat a - 1) mod ?N + 1" by (simp only: mod_add_self2)
    also have "\<dots> = unat a" using u by simp
    finally show "unat ((?g ^^ ?N) a) = unat a" .
  qed
  have ne: "(?g ^^ k) a \<noteq> a"
  proof
    assume e: "(?g ^^ k) a = a"
    have "unat a = (unat a - 1 + k) mod ?N + 1" using it [of k] unfolding e by blast
    then have "(unat a - 1 + k) mod ?N = (unat a - 1) mod ?N" using u by simp
    then have "k mod ?N = 0 mod ?N" using mod_eq_dvd_iff_nat [of "unat a - 1" "unat a - 1 + k" ?N] by auto
    then show False using assms(2,3) by simp
  qed
  have nz: "(?g ^^ k) a \<noteq> 0" using it by blast
  have "fsa_completion_token_make b ((?g ^^ k) a) i \<noteq> fsa_completion_token_make b a i"
    using ne nz assms(1) token_alloc_generation_make [of b "(?g ^^ k) a" i] token_alloc_generation_make [of b a i]
    by metis
  with full ne nz show ?thesis by blast
qed

end
