(* ===== verification/Command_Packet.thy ===== *)
theory Command_Packet
  imports Completion_Abi
begin

text \<open>
  The 64-byte command packets of the ring (\<^verbatim>\<open>hal/src/hal/command_packet.h\<close>). A packet in memory
  is a list of 64 bytes; each struct is a record with a little-endian layout function and a view
  that reads the record back, so the C union of the packet types is the byte list with its four
  views. The theory shows that layout and view are inverse to each other and that the header and
  the completion token sit at the same place in all four packets.
\<close>

section \<open>Little-endian layout\<close>

definition le_bytes :: "nat \<Rightarrow> 'a::len word \<Rightarrow> u8 list" where
  "le_bytes k w = map (\<lambda>i. ucast (drop_bit (8 * i) w)) [0..<k]"

fun le_word :: "u8 list \<Rightarrow> 'a::len word" where
  "le_word [] = 0"
| "le_word (b # bs) = ucast b OR push_bit 8 (le_word bs)"

definition byte_field :: "nat \<Rightarrow> nat \<Rightarrow> u8 list \<Rightarrow> u8 list" where
  "byte_field off k raw = take k (drop off raw)"

lemma length_le_bytes [simp]: "length (le_bytes k w) = k"
  by (simp add: le_bytes_def)

lemma bit_le_word:
  "bit (le_word bs :: 'a::len word) i \<longleftrightarrow>
     i < LENGTH('a) \<and> i div 8 < length bs \<and> bit (bs ! (i div 8)) (i mod 8)"
proof (induction bs arbitrary: i)
  case Nil
  then show ?case by simp
next
  case (Cons b bs)
  show ?case
  proof (cases "i < 8")
    case True
    then show ?thesis by (auto simp: bit_simps dest: bit_imp_le_length)
  next
    case False
    then have i: "i div 8 = Suc ((i - 8) div 8)" "i mod 8 = (i - 8) mod 8"
      using le_div_geq [of 8 i] le_mod_geq [of 8 i] by simp_all
    show ?thesis using False Cons.IH [of "i - 8"] by (auto simp: bit_simps i dest: bit_imp_le_length)
  qed
qed

lemma le_word_le_bytes:
  assumes "LENGTH('a::len) = 8 * k"
  shows "le_word (le_bytes k (w :: 'a word)) = w"
proof (rule bit_word_eqI)
  fix i assume i: "i < LENGTH('a)"
  then have "i div 8 < k" using assms by simp
  moreover have "8 * (i div 8) + i mod 8 = i" by simp
  ultimately show "bit (le_word (le_bytes k w) :: 'a word) i = bit w i"
    using i by (simp add: bit_le_word le_bytes_def bit_simps)
qed

lemma le_bytes_le_word:
  assumes "length bs = k" and "8 * k \<le> LENGTH('a::len)"
  shows "le_bytes k (le_word bs :: 'a word) = bs"
proof (rule nth_equalityI)
  show "length (le_bytes k (le_word bs :: 'a word)) = length bs" using assms by simp
  fix i assume i: "i < length (le_bytes k (le_word bs :: 'a word))"
  show "le_bytes k (le_word bs :: 'a word) ! i = bs ! i"
  proof (rule bit_word_eqI)
    fix n assume "n < LENGTH(8)"
    then have n: "n < 8" by simp
    have "(8 * i + n) div 8 = i" "(8 * i + n) mod 8 = n" "8 * i + n < LENGTH('a)"
      using n i assms by simp_all
    then show "bit (le_bytes k (le_word bs :: 'a word) ! i) n = bit (bs ! i) n"
      using i n assms by (simp add: le_bytes_def bit_simps bit_le_word)
  qed
qed

lemma le_word_le_bytes_width [simp]:
  "le_word (le_bytes 2 w) = (w :: u16)" "le_word (le_bytes 8 x) = (x :: u64)"
  by (rule le_word_le_bytes; simp)+

lemma le_bytes_field [simp]:
  assumes "off + k \<le> length raw"
  shows "k = 2 \<Longrightarrow> le_bytes k (le_word (byte_field off k raw) :: u16) = byte_field off k raw"
    and "k = 8 \<Longrightarrow> le_bytes k (le_word (byte_field off k raw) :: u64) = byte_field off k raw"
  using assms by (auto intro!: le_bytes_le_word simp: byte_field_def)

lemma byte_field_join:
  "off + k \<le> length raw \<Longrightarrow> off' = off + k \<Longrightarrow>
     byte_field off k raw @ byte_field off' k' raw = byte_field off (k + k') raw"
  by (simp add: byte_field_def take_add add.commute)

lemma byte_field_all: "length raw = k \<Longrightarrow> byte_field 0 k raw = raw"
  by (simp add: byte_field_def)

lemma length_byte_field [simp]: "off + k \<le> length raw \<Longrightarrow> length (byte_field off k raw) = k"
  by (simp add: byte_field_def)

section \<open>The packets\<close>

type_synonym packet = "u8 list"

definition FSA_COMMAND_PACKET_BYTES :: nat where
  "FSA_COMMAND_PACKET_BYTES = 64"

definition FSA_COMPLETION_TOKEN_OFFSET :: nat where
  "FSA_COMPLETION_TOKEN_OFFSET = FSA_COMMAND_PACKET_BYTES - 8"

datatype PacketHeader =
    KernelDispatchPacketHeader | CacheFlushPacketHeader | CacheInvalidatePacketHeader
  | BarrierPacketHeader | MemoryCopyPacketHeader

fun packet_header_code :: "PacketHeader \<Rightarrow> u16" where
  "packet_header_code KernelDispatchPacketHeader = 1"
| "packet_header_code CacheFlushPacketHeader = 2"
| "packet_header_code CacheInvalidatePacketHeader = 3"
| "packet_header_code BarrierPacketHeader = 4"
| "packet_header_code MemoryCopyPacketHeader = 6"

definition FSA_KERNEL_DISPATCH_DIM_MASK :: u16 where
  "FSA_KERNEL_DISPATCH_DIM_MASK = 0x3"

definition FSA_KERNEL_DISPATCH_HAS_PRINTF_META :: u16 where
  "FSA_KERNEL_DISPATCH_HAS_PRINTF_META = 4"

definition FSA_KERNEL_DISPATCH_STACK_REMAP :: u16 where
  "FSA_KERNEL_DISPATCH_STACK_REMAP = 8"

record KernelDispatchPacket =
  kp_header :: u16
  kp_dim_reserved0 :: u16
  kp_local_size_x :: u16
  kp_local_size_y :: u16
  kp_local_size_z :: u16
  kp_local_mem_size :: u16
  kp_num_groups_x :: u16
  kp_num_groups_y :: u16
  kp_num_groups_z :: u16
  kp_global_offset_x :: u16
  kp_global_offset_y :: u16
  kp_global_offset_z :: u16
  kp_kernel_object :: u64
  kp_kernarg_address :: u64
  kp_kernel_trampoline :: u64
  kp_kernel_status :: u64
  kp_completion_token :: u64

record CacheOperationPacket =
  cop_header :: u16
  cop_reserved0 :: "u8 list"
  cop_addr :: u64
  cop_size :: u64
  cop_reserved1 :: "u8 list"
  cop_completion_token :: u64

record MemoryCopyPacket =
  mp_header :: u16
  mp_src_domain :: u8
  mp_dst_domain :: u8
  mp_reserved0 :: "u8 list"
  mp_src_addr :: u64
  mp_dst_addr :: u64
  mp_size :: u64
  mp_reserved1 :: "u8 list"
  mp_completion_token :: u64

record HeaderOnlyPacket =
  hp_header :: u16
  hp_reserved :: "u8 list"
  hp_completion_token :: u64

section \<open>Layout and views\<close>

definition kernel_dispatch_packet_bytes :: "KernelDispatchPacket \<Rightarrow> packet" where
  "kernel_dispatch_packet_bytes p =
     le_bytes 2 (kp_header p) @ le_bytes 2 (kp_dim_reserved0 p) @
     le_bytes 2 (kp_local_size_x p) @ le_bytes 2 (kp_local_size_y p) @
     le_bytes 2 (kp_local_size_z p) @ le_bytes 2 (kp_local_mem_size p) @
     le_bytes 2 (kp_num_groups_x p) @ le_bytes 2 (kp_num_groups_y p) @
     le_bytes 2 (kp_num_groups_z p) @ le_bytes 2 (kp_global_offset_x p) @
     le_bytes 2 (kp_global_offset_y p) @ le_bytes 2 (kp_global_offset_z p) @
     le_bytes 8 (kp_kernel_object p) @ le_bytes 8 (kp_kernarg_address p) @
     le_bytes 8 (kp_kernel_trampoline p) @ le_bytes 8 (kp_kernel_status p) @
     le_bytes 8 (kp_completion_token p)"

definition kernel_dispatch_packet :: "packet \<Rightarrow> KernelDispatchPacket" where
  "kernel_dispatch_packet raw = \<lparr>
     kp_header = le_word (byte_field 0 2 raw),
     kp_dim_reserved0 = le_word (byte_field 2 2 raw),
     kp_local_size_x = le_word (byte_field 4 2 raw),
     kp_local_size_y = le_word (byte_field 6 2 raw),
     kp_local_size_z = le_word (byte_field 8 2 raw),
     kp_local_mem_size = le_word (byte_field 10 2 raw),
     kp_num_groups_x = le_word (byte_field 12 2 raw),
     kp_num_groups_y = le_word (byte_field 14 2 raw),
     kp_num_groups_z = le_word (byte_field 16 2 raw),
     kp_global_offset_x = le_word (byte_field 18 2 raw),
     kp_global_offset_y = le_word (byte_field 20 2 raw),
     kp_global_offset_z = le_word (byte_field 22 2 raw),
     kp_kernel_object = le_word (byte_field 24 8 raw),
     kp_kernarg_address = le_word (byte_field 32 8 raw),
     kp_kernel_trampoline = le_word (byte_field 40 8 raw),
     kp_kernel_status = le_word (byte_field 48 8 raw),
     kp_completion_token = le_word (byte_field 56 8 raw)\<rparr>"

definition cache_operation_packet_bytes :: "CacheOperationPacket \<Rightarrow> packet" where
  "cache_operation_packet_bytes p =
     le_bytes 2 (cop_header p) @ cop_reserved0 p @ le_bytes 8 (cop_addr p) @
     le_bytes 8 (cop_size p) @ cop_reserved1 p @ le_bytes 8 (cop_completion_token p)"

definition cache_operation_packet :: "packet \<Rightarrow> CacheOperationPacket" where
  "cache_operation_packet raw = \<lparr>
     cop_header = le_word (byte_field 0 2 raw),
     cop_reserved0 = byte_field 2 6 raw,
     cop_addr = le_word (byte_field 8 8 raw),
     cop_size = le_word (byte_field 16 8 raw),
     cop_reserved1 = byte_field 24 32 raw,
     cop_completion_token = le_word (byte_field 56 8 raw)\<rparr>"

definition memory_copy_packet_bytes :: "MemoryCopyPacket \<Rightarrow> packet" where
  "memory_copy_packet_bytes p =
     le_bytes 2 (mp_header p) @ [mp_src_domain p] @ [mp_dst_domain p] @ mp_reserved0 p @
     le_bytes 8 (mp_src_addr p) @ le_bytes 8 (mp_dst_addr p) @ le_bytes 8 (mp_size p) @
     mp_reserved1 p @ le_bytes 8 (mp_completion_token p)"

definition memory_copy_packet :: "packet \<Rightarrow> MemoryCopyPacket" where
  "memory_copy_packet raw = \<lparr>
     mp_header = le_word (byte_field 0 2 raw),
     mp_src_domain = raw ! 2,
     mp_dst_domain = raw ! 3,
     mp_reserved0 = byte_field 4 4 raw,
     mp_src_addr = le_word (byte_field 8 8 raw),
     mp_dst_addr = le_word (byte_field 16 8 raw),
     mp_size = le_word (byte_field 24 8 raw),
     mp_reserved1 = byte_field 32 24 raw,
     mp_completion_token = le_word (byte_field 56 8 raw)\<rparr>"

definition header_only_packet_bytes :: "HeaderOnlyPacket \<Rightarrow> packet" where
  "header_only_packet_bytes p =
     le_bytes 2 (hp_header p) @ hp_reserved p @ le_bytes 8 (hp_completion_token p)"

definition header_only_packet :: "packet \<Rightarrow> HeaderOnlyPacket" where
  "header_only_packet raw = \<lparr>
     hp_header = le_word (byte_field 0 2 raw),
     hp_reserved = byte_field 2 54 raw,
     hp_completion_token = le_word (byte_field 56 8 raw)\<rparr>"

text \<open>The reserved byte arrays have the lengths the structs declare.\<close>

definition cache_packet_ok :: "CacheOperationPacket \<Rightarrow> bool" where
  "cache_packet_ok p \<longleftrightarrow> length (cop_reserved0 p) = 6 \<and> length (cop_reserved1 p) = 32"

definition memory_copy_packet_ok :: "MemoryCopyPacket \<Rightarrow> bool" where
  "memory_copy_packet_ok p \<longleftrightarrow> length (mp_reserved0 p) = 4 \<and> length (mp_reserved1 p) = 24"

definition header_only_packet_ok :: "HeaderOnlyPacket \<Rightarrow> bool" where
  "header_only_packet_ok p \<longleftrightarrow> length (hp_reserved p) = 54"

section \<open>Round trips\<close>

lemma kernel_packet_roundtrip [abi_simps]:
  "kernel_dispatch_packet (kernel_dispatch_packet_bytes p) = p"
  by (cases p) (simp add: kernel_dispatch_packet_def kernel_dispatch_packet_bytes_def byte_field_def)

lemma cache_packet_roundtrip [abi_simps]:
  "cache_packet_ok p \<Longrightarrow> cache_operation_packet (cache_operation_packet_bytes p) = p"
  by (cases p) (simp add: cache_packet_ok_def cache_operation_packet_def
      cache_operation_packet_bytes_def byte_field_def)

lemma memory_copy_packet_roundtrip [abi_simps]:
  "memory_copy_packet_ok p \<Longrightarrow> memory_copy_packet (memory_copy_packet_bytes p) = p"
  by (cases p) (simp add: memory_copy_packet_ok_def memory_copy_packet_def
      memory_copy_packet_bytes_def byte_field_def nth_append)

lemma header_only_packet_roundtrip [abi_simps]:
  "header_only_packet_ok p \<Longrightarrow> header_only_packet (header_only_packet_bytes p) = p"
  by (cases p) (simp add: header_only_packet_ok_def header_only_packet_def
      header_only_packet_bytes_def byte_field_def)

lemma length_packet_bytes [abi_simps]:
  "length (kernel_dispatch_packet_bytes k) = FSA_COMMAND_PACKET_BYTES"
  "cache_packet_ok c \<Longrightarrow> length (cache_operation_packet_bytes c) = FSA_COMMAND_PACKET_BYTES"
  "memory_copy_packet_ok m \<Longrightarrow> length (memory_copy_packet_bytes m) = FSA_COMMAND_PACKET_BYTES"
  "header_only_packet_ok h \<Longrightarrow> length (header_only_packet_bytes h) = FSA_COMMAND_PACKET_BYTES"
  by (simp_all add: FSA_COMMAND_PACKET_BYTES_def kernel_dispatch_packet_bytes_def
      cache_operation_packet_bytes_def memory_copy_packet_bytes_def header_only_packet_bytes_def
      cache_packet_ok_def memory_copy_packet_ok_def header_only_packet_ok_def)

lemma kernel_view_roundtrip:
  assumes "length raw = FSA_COMMAND_PACKET_BYTES"
  shows "kernel_dispatch_packet_bytes (kernel_dispatch_packet raw) = raw"
proof -
  have len: "length raw = 64" using assms by (simp add: FSA_COMMAND_PACKET_BYTES_def)
  have "kernel_dispatch_packet_bytes (kernel_dispatch_packet raw) = byte_field 0 64 raw"
    by (simp add: kernel_dispatch_packet_bytes_def kernel_dispatch_packet_def len byte_field_join)
  then show ?thesis using len by (simp add: byte_field_all)
qed

lemma cache_view_roundtrip:
  assumes "length raw = FSA_COMMAND_PACKET_BYTES"
  shows "cache_operation_packet_bytes (cache_operation_packet raw) = raw"
proof -
  have len: "length raw = 64" using assms by (simp add: FSA_COMMAND_PACKET_BYTES_def)
  have "cache_operation_packet_bytes (cache_operation_packet raw) = byte_field 0 64 raw"
    by (simp add: cache_operation_packet_bytes_def cache_operation_packet_def len byte_field_join)
  then show ?thesis using len by (simp add: byte_field_all)
qed

lemma memory_copy_view_roundtrip:
  assumes "length raw = FSA_COMMAND_PACKET_BYTES"
  shows "memory_copy_packet_bytes (memory_copy_packet raw) = raw"
proof -
  have len: "length raw = 64" using assms by (simp add: FSA_COMMAND_PACKET_BYTES_def)
  have one: "raw ! 2 # xs = byte_field 2 1 raw @ xs" "raw ! 3 # xs = byte_field 3 1 raw @ xs" for xs
    using len by (simp_all add: byte_field_def take_Suc_conv_app_nth hd_drop_conv_nth take_Suc)
  have "memory_copy_packet_bytes (memory_copy_packet raw) = byte_field 0 64 raw"
    by (simp add: memory_copy_packet_bytes_def memory_copy_packet_def len one byte_field_join)
  then show ?thesis using len by (simp add: byte_field_all)
qed

text \<open>Whatever the packet type, the generic view reads its header and its token.\<close>

lemma packet_header_token [abi_simps]:
  "hp_header (header_only_packet raw) = kp_header (kernel_dispatch_packet raw)"
  "cop_header (cache_operation_packet raw) = kp_header (kernel_dispatch_packet raw)"
  "mp_header (memory_copy_packet raw) = kp_header (kernel_dispatch_packet raw)"
  "hp_completion_token (header_only_packet raw) = kp_completion_token (kernel_dispatch_packet raw)"
  "cop_completion_token (cache_operation_packet raw) = kp_completion_token (kernel_dispatch_packet raw)"
  "mp_completion_token (memory_copy_packet raw) = kp_completion_token (kernel_dispatch_packet raw)"
  by (simp_all add: header_only_packet_def kernel_dispatch_packet_def cache_operation_packet_def
      memory_copy_packet_def)

text \<open>
  Command packets survive the ring: the bytes of each packet kind, read back through the same
  view of the union, give the packet; conversely each 64-byte ring entry is rebuilt from its kernel,
  cache and memory-copy view, and all views agree on the header and the completion token.
\<close>

lemma packet_roundtrip:
  assumes "cache_packet_ok c" and "memory_copy_packet_ok m" and "header_only_packet_ok h"
    and "length raw = FSA_COMMAND_PACKET_BYTES"
  shows "kernel_dispatch_packet (kernel_dispatch_packet_bytes k) = k \<and>
    cache_operation_packet (cache_operation_packet_bytes c) = c \<and>
    memory_copy_packet (memory_copy_packet_bytes m) = m \<and>
    header_only_packet (header_only_packet_bytes h) = h \<and>
    kernel_dispatch_packet_bytes (kernel_dispatch_packet raw) = raw \<and>
    cache_operation_packet_bytes (cache_operation_packet raw) = raw \<and>
    memory_copy_packet_bytes (memory_copy_packet raw) = raw \<and>
    hp_header (header_only_packet raw) = kp_header (kernel_dispatch_packet raw) \<and>
    cop_header (cache_operation_packet raw) = kp_header (kernel_dispatch_packet raw) \<and>
    mp_header (memory_copy_packet raw) = kp_header (kernel_dispatch_packet raw) \<and>
    hp_completion_token (header_only_packet raw) = kp_completion_token (kernel_dispatch_packet raw) \<and>
    cop_completion_token (cache_operation_packet raw) = kp_completion_token (kernel_dispatch_packet raw) \<and>
    mp_completion_token (memory_copy_packet raw) = kp_completion_token (kernel_dispatch_packet raw)"
  using assms kernel_view_roundtrip cache_view_roundtrip memory_copy_view_roundtrip
  by (simp add: abi_simps)

end
