(* ===== verification/Regions.thy ===== *)
theory Regions
  imports Prelude
begin

text \<open>
  The abstract specification that the two address-range allocators of the system refine: the
  firmware's per-SM local-memory allocator and the host's device-memory allocator. A region is a
  base and a size; a free list is a list of regions sorted by address with a gap between any two
  neighbours; the live regions together with the free ones tile a fixed window. The operations
  are first fit (\<open>take_first_fit\<close>) and coalescing return (\<open>give_back\<close>); the locale
  \<open>region_allocator\<close> is the contract a client of either allocator relies on.
\<close>

section \<open>Regions and free lists\<close>

type_synonym region = "nat \<times> nat"

definition cells :: "region \<Rightarrow> nat set" where
  "cells r = {fst r..<fst r + snd r}"

definition free_cells :: "region list \<Rightarrow> nat set" where
  "free_cells fl = (\<Union>r \<in> set fl. cells r)"

definition gap :: "region \<Rightarrow> region \<Rightarrow> bool" where
  "gap r r' \<longleftrightarrow> fst r + snd r < fst r'"

definition wf_free :: "region list \<Rightarrow> bool" where
  "wf_free fl \<longleftrightarrow> sorted_wrt gap fl \<and> (\<forall>r \<in> set fl. 0 < snd r)"

lemma in_cells: "x \<in> cells (b, s) \<longleftrightarrow> b \<le> x \<and> x < b + s"
  by (simp add: cells_def)

lemma base_in_cells: "0 < snd r \<Longrightarrow> fst r \<in> cells r"
  by (cases r) (simp add: in_cells)

lemma free_cells_simps [simp]:
  "free_cells [] = {}"
  "free_cells (r # fl) = cells r \<union> free_cells fl"
  "free_cells (xs @ ys) = free_cells xs \<union> free_cells ys"
  by (simp_all add: free_cells_def)

lemma wf_free_Nil [simp]: "wf_free []"
  by (simp add: wf_free_def)

lemma wf_free_Cons:
  "wf_free (r # fl) \<longleftrightarrow> 0 < snd r \<and> (\<forall>r' \<in> set fl. gap r r') \<and> wf_free fl"
  by (auto simp: wf_free_def)

lemma wf_free_append:
  "wf_free (xs @ ys) \<longleftrightarrow>
     wf_free xs \<and> wf_free ys \<and> (\<forall>x \<in> set xs. \<forall>y \<in> set ys. gap x y)"
  by (auto simp: wf_free_def sorted_wrt_append)

lemma gap_trans: "gap a b \<Longrightarrow> gap b c \<Longrightarrow> gap a c"
  by (simp add: gap_def)

lemma gap_disjoint: "gap a b \<Longrightarrow> cells a \<inter> cells b = {}"
  by (auto simp: gap_def cells_def)

section \<open>First fit\<close>

fun take_first_fit :: "nat \<Rightarrow> region list \<Rightarrow> (nat \<times> region list) option" where
  "take_first_fit n [] = None"
| "take_first_fit n (r # fl) =
     (if n \<le> snd r
      then Some (fst r, if snd r = n then fl else (fst r + n, snd r - n) # fl)
      else map_option (\<lambda>(a, fl'). (a, r # fl')) (take_first_fit n fl))"

lemma take_first_fit_None: "take_first_fit n fl = None \<longleftrightarrow> (\<forall>r \<in> set fl. snd r < n)"
  by (induction fl) auto

lemma take_first_fit_at:
  "(\<forall>r \<in> set xs. snd r < n) \<Longrightarrow> n \<le> m \<Longrightarrow>
     take_first_fit n (xs @ (a, m) # ys) =
       Some (a, xs @ (if m = n then ys else (a + n, m - n) # ys))"
  by (induction xs) auto

lemma take_first_fit_split:
  assumes "take_first_fit n fl = Some (a, fl')"
  obtains xs m ys where "fl = xs @ (a, m) # ys" "\<forall>r \<in> set xs. snd r < n" "n \<le> m"
    "fl' = xs @ (if m = n then ys else (a + n, m - n) # ys)"
  using assms
proof (induction fl arbitrary: fl' thesis)
  case Nil
  then show ?case by simp
next
  case (Cons r fl)
  show ?case
  proof (cases "n \<le> snd r")
    case True
    with Cons.prems(2) show ?thesis
      by (intro Cons.prems(1) [of "[]" "snd r" fl]) (auto simp: prod_eq_iff)
  next
    case False
    with Cons.prems(2) obtain fl'' where tf: "take_first_fit n fl = Some (a, fl'')"
      and e: "fl' = r # fl''" by auto
    from tf obtain xs m ys where "fl = xs @ (a, m) # ys" "\<forall>r \<in> set xs. snd r < n" "n \<le> m"
      "fl'' = xs @ (if m = n then ys else (a + n, m - n) # ys)" by (rule Cons.IH [rotated])
    with False e show ?thesis
      by (intro Cons.prems(1) [of "r # xs" m ys]) auto
  qed
qed

lemma take_first_fit_cells:
  assumes "take_first_fit n fl = Some (a, fl')" and "wf_free fl" and "0 < n"
  shows "cells (a, n) \<subseteq> free_cells fl" and "free_cells fl' = free_cells fl - cells (a, n)"
    and "wf_free fl'"
proof -
  obtain xs m ys where fl: "fl = xs @ (a, m) # ys" and m: "n \<le> m"
    and fl': "fl' = xs @ (if m = n then ys else (a + n, m - n) # ys)"
    using assms(1) by (rule take_first_fit_split)
  have wf: "wf_free xs" "wf_free ys" "\<forall>x \<in> set xs. gap x (a, m)" "\<forall>y \<in> set ys. gap (a, m) y"
    "\<forall>x \<in> set xs. \<forall>y \<in> set ys. gap x y"
    using assms(2) by (auto simp: fl wf_free_append wf_free_Cons)
  show "cells (a, n) \<subseteq> free_cells fl"
    using m by (auto simp: fl in_cells)
  have "free_cells xs \<inter> cells (a, n) = {}" "free_cells ys \<inter> cells (a, n) = {}"
    using wf(3,4) m by (auto simp: free_cells_def gap_def cells_def; force)+
  moreover have "cells (a, m) - cells (a, n) = cells (a + n, m - n)"
    using m by (auto simp: cells_def)
  moreover have "m = n \<Longrightarrow> cells (a + n, m - n) = {}" by (simp add: cells_def)
  ultimately show "free_cells fl' = free_cells fl - cells (a, n)"
    by (auto simp: fl fl')
  show "wf_free fl'"
    using wf m by (auto simp: fl' wf_free_append wf_free_Cons gap_def split: prod.splits)
qed

section \<open>Taking a given range\<close>

definition carve_at :: "nat \<Rightarrow> nat \<Rightarrow> region \<Rightarrow> region list" where
  "carve_at a n r =
     (if fst r < a then [(fst r, a - fst r)] else []) @
     (if a + n < fst r + snd r then [(a + n, fst r + snd r - (a + n))] else [])"

fun take_at :: "nat \<Rightarrow> nat \<Rightarrow> region list \<Rightarrow> region list option" where
  "take_at a n [] = None"
| "take_at a n (r # fl) =
     (if fst r \<le> a \<and> a < fst r + snd r \<and> a + n \<le> fst r + snd r then Some (carve_at a n r @ fl)
      else map_option (Cons r) (take_at a n fl))"

lemma take_at_split:
  assumes "take_at a n fl = Some fl'"
  obtains xs b m ys where "fl = xs @ (b, m) # ys" "b \<le> a" "a < b + m" "a + n \<le> b + m"
    "fl' = xs @ carve_at a n (b, m) @ ys"
  using assms
proof (induction fl arbitrary: fl' thesis)
  case Nil
  then show ?case by simp
next
  case (Cons r fl)
  show ?case
  proof (cases "fst r \<le> a \<and> a < fst r + snd r \<and> a + n \<le> fst r + snd r")
    case True
    with Cons.prems(2) show ?thesis
      by (intro Cons.prems(1) [of "[]" "fst r" "snd r" fl]) auto
  next
    case False
    with Cons.prems(2) obtain fl'' where tf: "take_at a n fl = Some fl''" and e: "fl' = r # fl''" by auto
    from tf obtain xs b m ys where "fl = xs @ (b, m) # ys" "b \<le> a" "a < b + m" "a + n \<le> b + m"
      "fl'' = xs @ carve_at a n (b, m) @ ys" by (rule Cons.IH [rotated])
    with e show ?thesis by (intro Cons.prems(1) [of "r # xs" b m ys]) auto
  qed
qed

lemma take_at_cells:
  assumes "take_at a n fl = Some fl'" and "wf_free fl" and "0 < n"
  shows "cells (a, n) \<subseteq> free_cells fl" and "free_cells fl' = free_cells fl - cells (a, n)"
    and "wf_free fl'"
proof -
  obtain xs b m ys where fl: "fl = xs @ (b, m) # ys" and b: "b \<le> a" "a < b + m" "a + n \<le> b + m"
    and fl': "fl' = xs @ carve_at a n (b, m) @ ys"
    using assms(1) by (rule take_at_split)
  have wf: "wf_free xs" "wf_free ys" "\<forall>x \<in> set xs. gap x (b, m)" "\<forall>y \<in> set ys. gap (b, m) y"
    "\<forall>x \<in> set xs. \<forall>y \<in> set ys. gap x y"
    using assms(2) by (auto simp: fl wf_free_append wf_free_Cons)
  have in_b: "cells (a, n) \<subseteq> cells (b, m)" using b by (auto simp: in_cells)
  then show "cells (a, n) \<subseteq> free_cells fl" by (auto simp: fl)
  have "free_cells xs \<inter> cells (b, m) = {}" "free_cells ys \<inter> cells (b, m) = {}"
    using wf(3,4) gap_disjoint by (fastforce simp: free_cells_def)+
  moreover have "free_cells (carve_at a n (b, m)) = cells (b, m) - cells (a, n)"
    using b by (auto simp: carve_at_def in_cells)
  ultimately show "free_cells fl' = free_cells fl - cells (a, n)"
    using in_b by (auto simp: fl fl')
  have "wf_free (carve_at a n (b, m))" using assms(3) by (auto simp: carve_at_def wf_free_Cons gap_def)
  moreover have "\<forall>x \<in> set xs. \<forall>y \<in> set (carve_at a n (b, m)). gap x y"
    using wf(3) b by (fastforce simp: carve_at_def gap_def)
  moreover have "\<forall>x \<in> set (carve_at a n (b, m)). \<forall>y \<in> set ys. gap x y"
    using wf(4) b by (fastforce simp: carve_at_def gap_def split: if_splits)
  ultimately show "wf_free fl'"
    using wf(1,2,5) by (auto simp: fl' wf_free_append)
qed

text \<open>It succeeds exactly when the whole range is free.\<close>

lemma take_at_free:
  assumes "wf_free fl" and "0 < n" and "cells (a, n) \<subseteq> free_cells fl"
  shows "\<exists>fl'. take_at a n fl = Some fl'"
  using assms(1,3)
proof (induction fl)
  case Nil
  with assms(2) show ?case by (simp add: cells_def)
next
  case (Cons r fl)
  let ?e = "fst r + snd r"
  have g: "\<forall>x \<in> set fl. ?e < fst x" and wf: "wf_free fl"
    using Cons.prems(1) by (auto simp: wf_free_Cons gap_def)
  have e: "?e \<notin> cells (a, n)"
    using Cons.prems(2) g by (force simp: cells_def free_cells_def)
  show ?case
  proof (cases "a < ?e")
    case True
    have "a \<in> cells (a, n)" using assms(2) by (simp add: in_cells)
    then have "a \<in> cells r \<union> free_cells fl" using Cons.prems(2) by auto
    then have "fst r \<le> a" using True g by (force simp: cells_def free_cells_def)
    moreover have "a + n \<le> ?e" using e True by (simp add: in_cells)
    ultimately show ?thesis using True by simp
  next
    case False
    then have "cells (a, n) \<inter> cells r = {}" by (auto simp: cells_def)
    with Cons.prems(2) have "cells (a, n) \<subseteq> free_cells fl" by auto
    with Cons.IH [OF wf] False show ?thesis by auto
  qed
qed

section \<open>Coalescing return\<close>

fun merge_next :: "region \<Rightarrow> region list \<Rightarrow> region list" where
  "merge_next r [] = [r]"
| "merge_next r (r' # fl) =
     (if fst r + snd r = fst r' then (fst r, snd r + snd r') # fl else r # r' # fl)"

definition give_back :: "region \<Rightarrow> region list \<Rightarrow> region list" where
  "give_back r fl =
     (let xs = takeWhile (\<lambda>x. fst x < fst r) fl; ys = dropWhile (\<lambda>x. fst x < fst r) fl
      in if xs \<noteq> [] \<and> fst (last xs) + snd (last xs) = fst r
         then butlast xs @ merge_next (fst (last xs), snd (last xs) + snd r) ys
         else xs @ merge_next r ys)"

lemma merge_next_cells:
  "free_cells (merge_next r fl) = cells r \<union> free_cells fl"
  by (cases fl) (auto simp: cells_def)

lemma merge_next_wf:
  assumes "wf_free fl" and "0 < snd r" and "\<forall>x \<in> set fl. fst r + snd r \<le> fst x"
  shows "wf_free (merge_next r fl)"
proof (cases fl)
  case Nil
  with assms(2) show ?thesis by (simp add: wf_free_Cons)
next
  case (Cons r' fl')
  with assms show ?thesis
    by (fastforce simp: wf_free_Cons gap_def)
qed

lemma merge_next_bases: "x \<in> set (merge_next r fl) \<Longrightarrow> fst x = fst r \<or> x \<in> set fl"
  by (cases fl) (auto split: if_splits)

lemma disjoint_after:
  assumes "cells (b, s) \<inter> cells (b', s') = {}" and "0 < s" and "b < b'" and "0 < s'"
  shows "b + s \<le> b'"
proof (rule ccontr)
  assume "\<not> b + s \<le> b'"
  with assms(2,3,4) have "b' \<in> cells (b, s)" "b' \<in> cells (b', s')" by (simp_all add: in_cells)
  with assms(1) show False by blast
qed

lemma give_back_split:
  assumes wf: "wf_free fl" and s: "0 < snd r" and d: "\<forall>x \<in> set fl. cells r \<inter> cells x = {}"
  defines "xs \<equiv> takeWhile (\<lambda>x. fst x < fst r) fl" and "ys \<equiv> dropWhile (\<lambda>x. fst x < fst r) fl"
  shows "fl = xs @ ys" "\<forall>x \<in> set xs. fst x + snd x \<le> fst r" "\<forall>y \<in> set ys. fst r + snd r \<le> fst y"
    "wf_free xs" "wf_free ys" "\<forall>x \<in> set xs. \<forall>y \<in> set ys. gap x y"
proof -
  show fl: "fl = xs @ ys" by (simp add: xs_def ys_def)
  show "wf_free xs" "wf_free ys" and g: "\<forall>x \<in> set xs. \<forall>y \<in> set ys. gap x y"
    using wf by (simp_all add: fl wf_free_append)
  show "\<forall>x \<in> set xs. fst x + snd x \<le> fst r"
  proof
    fix x assume x: "x \<in> set xs"
    then have "fst x < fst r" by (auto simp: xs_def dest: set_takeWhileD)
    moreover have "0 < snd x" using wf x by (auto simp: fl wf_free_def)
    moreover have "cells x \<inter> cells r = {}" using d x fl by auto
    ultimately show "fst x + snd x \<le> fst r"
      using disjoint_after [of "fst x" "snd x" "fst r" "snd r"] s by simp
  qed
  show "\<forall>y \<in> set ys. fst r + snd r \<le> fst y"
  proof
    fix y assume y: "y \<in> set ys"
    then obtain h t where h: "ys = h # t" by (cases ys) auto
    then have hb: "\<not> fst h < fst r"
      using hd_dropWhile [of "\<lambda>x. fst x < fst r" fl] by (auto simp: ys_def)
    have "fst h \<le> fst y"
      using y h wf by (auto simp: fl wf_free_append wf_free_Cons gap_def)
    moreover have "fst h \<noteq> fst r"
    proof
      assume "fst h = fst r"
      moreover have "0 < snd h" using wf h by (auto simp: fl wf_free_def)
      ultimately have "fst r \<in> cells r \<inter> cells h" using s by (simp add: cells_def)
      with d h fl show False by auto
    qed
    moreover have "0 < snd y" "cells r \<inter> cells y = {}" using wf y d fl by (auto simp: wf_free_def)
    ultimately show "fst r + snd r \<le> fst y"
      using hb s disjoint_after [of "fst r" "snd r" "fst y" "snd y"] by simp
  qed
qed

lemma give_back_wf_cells:
  assumes wf: "wf_free fl" and s: "0 < snd r" and d: "\<forall>x \<in> set fl. cells r \<inter> cells x = {}"
  shows "wf_free (give_back r fl)" and "free_cells (give_back r fl) = free_cells fl \<union> cells r"
proof -
  let ?xs = "takeWhile (\<lambda>x. fst x < fst r) fl" and ?ys = "dropWhile (\<lambda>x. fst x < fst r) fl"
  note sp = give_back_split [OF wf s d]
  have goal: "wf_free (give_back r fl) \<and> free_cells (give_back r fl) = free_cells ?xs \<union> free_cells ?ys \<union> cells r"
  proof (cases "?xs \<noteq> [] \<and> fst (last ?xs) + snd (last ?xs) = fst r")
    case True
    then obtain p ps where ps: "?xs = ps @ [p]" and pe: "fst p + snd p = fst r"
      by (metis append_butlast_last_id)
    have gb: "give_back r fl = ps @ merge_next (fst p, snd p + snd r) ?ys"
      using True by (simp add: give_back_def ps pe)
    have "wf_free (merge_next (fst p, snd p + snd r) ?ys)"
      using sp(3,5) s pe by (intro merge_next_wf) auto
    moreover have "\<forall>x \<in> set ps. \<forall>y \<in> set (merge_next (fst p, snd p + snd r) ?ys). gap x y"
    proof (intro ballI)
      fix x y assume x: "x \<in> set ps" and "y \<in> set (merge_next (fst p, snd p + snd r) ?ys)"
      then have "fst y = fst p \<or> y \<in> set ?ys" by (auto dest: merge_next_bases)
      moreover have "gap x p" using sp(4) x by (simp add: ps wf_free_append)
      ultimately show "gap x y" using sp(6) x by (auto simp: ps gap_def)
    qed
    moreover have "cells (fst p, snd p + snd r) = cells p \<union> cells r"
      using pe by (auto simp: cells_def)
    ultimately show ?thesis
      using sp(4) by (auto simp: gb wf_free_append merge_next_cells ps)
  next
    case False
    have gb: "give_back r fl = ?xs @ merge_next r ?ys"
      using False by (auto simp: give_back_def Let_def)
    have "wf_free (merge_next r ?ys)" using sp(3,5) s by (intro merge_next_wf) auto
    moreover have "\<forall>x \<in> set ?xs. gap x r"
    proof
      fix x assume x: "x \<in> set ?xs"
      then obtain ps p where ps: "?xs = ps @ [p]" by (metis rev_exhaust list.set_cases append_is_Nil_conv list.distinct(1))
      show "gap x r"
      proof (cases "x = p")
        case True
        then show ?thesis using False sp(2) x by (force simp: ps gap_def)
      next
        case xp: False
        then have "gap x p" using sp(4) x by (auto simp: ps wf_free_append)
        moreover have "fst p + snd p \<le> fst r" using sp(2) by (simp add: ps)
        ultimately show ?thesis by (simp add: gap_def)
      qed
    qed
    moreover have "\<forall>x \<in> set ?xs. \<forall>y \<in> set (merge_next r ?ys). gap x y"
      using calculation(2) sp(6) by (auto simp: gap_def dest!: merge_next_bases)
    ultimately show ?thesis
      using sp(4) by (auto simp: gb wf_free_append merge_next_cells)
  qed
  then show "wf_free (give_back r fl)" by simp
  have "free_cells fl = free_cells ?xs \<union> free_cells ?ys"
    using sp(1) free_cells_simps(3) by metis
  with goal show "free_cells (give_back r fl) = free_cells fl \<union> cells r" by simp
qed

lemma give_back_take_first_fit:
  assumes "take_first_fit n fl = Some (a, fl')" and "wf_free fl" and "0 < n"
  shows "give_back (a, n) fl' = fl"
proof -
  obtain xs m ys where fl: "fl = xs @ (a, m) # ys" and m: "n \<le> m"
    and fl': "fl' = xs @ (if m = n then ys else (a + n, m - n) # ys)"
    using assms(1) by (rule take_first_fit_split)
  let ?zs = "if m = n then ys else (a + n, m - n) # ys"
  have g: "\<forall>x \<in> set xs. fst x + snd x < a" "\<forall>y \<in> set ys. a + m < fst y"
    using assms(2) by (auto simp: fl wf_free_append wf_free_Cons gap_def)
  have "\<forall>x \<in> set xs. fst x < a" using g(1) by force
  moreover have "?zs = [] \<or> \<not> fst (hd ?zs) < a"
    using g(2) assms(3) by (cases ys) auto
  ultimately have tw: "takeWhile (\<lambda>x. fst x < a) fl' = xs" "dropWhile (\<lambda>x. fst x < a) fl' = ?zs"
    using assms(3) by (auto simp: fl' takeWhile_append2 dropWhile_append2 takeWhile_eq_Nil_iff
        dropWhile_eq_self_iff)
  have "xs \<noteq> [] \<Longrightarrow> fst (last xs) + snd (last xs) \<noteq> a" using g(1) last_in_set by fastforce
  moreover have "merge_next (a, n) ?zs = (a, m) # ys"
    using m g(2) by (cases ys) auto
  ultimately show ?thesis
    by (auto simp: give_back_def tw fl Let_def)
qed

lemma give_back_take_at:
  assumes "take_at a n fl = Some fl'" and "wf_free fl" and "0 < n"
  shows "give_back (a, n) fl' = fl"
proof -
  obtain xs b m ys where fl: "fl = xs @ (b, m) # ys" and b: "b \<le> a" "a < b + m" "a + n \<le> b + m"
    and fl': "fl' = xs @ carve_at a n (b, m) @ ys"
    using assms(1) by (rule take_at_split)
  let ?l = "if b < a then [(b, a - b)] else []"
  let ?zs = "(if a + n < b + m then [(a + n, b + m - (a + n))] else []) @ ys"
  have g: "\<forall>x \<in> set xs. fst x + snd x < b" "\<forall>y \<in> set ys. b + m < fst y"
    using assms(2) by (auto simp: fl wf_free_append wf_free_Cons gap_def)
  have split: "fl' = (xs @ ?l) @ ?zs" by (simp add: fl' carve_at_def)
  have "\<forall>x \<in> set (xs @ ?l). fst x < a" using g(1) b(1) by fastforce
  moreover have "?zs = [] \<or> \<not> fst (hd ?zs) < a"
    using g(2) b by (cases ys) auto
  ultimately have tw: "takeWhile (\<lambda>x. fst x < a) fl' = xs @ ?l" "dropWhile (\<lambda>x. fst x < a) fl' = ?zs"
    unfolding split by (fact takeWhile_split)+
  have mz: "merge_next (c, a + n - c) ?zs = (c, b + m - c) # ys" if "c \<le> a" for c
    using b g(2) that by (cases ys) auto
  show ?thesis
  proof (cases "b < a")
    case True
    then show ?thesis using mz [of b] by (simp add: give_back_def tw fl Let_def del: append.simps)
  next
    case False
    then have ab: "a = b" using b by simp
    have "xs \<noteq> [] \<Longrightarrow> fst (last xs) + snd (last xs) \<noteq> a" using g(1) last_in_set ab by fastforce
    then show ?thesis
      unfolding give_back_def Let_def fst_conv snd_conv tw fl using mz [of a] ab by auto
  qed
qed

section \<open>Tilings of a window\<close>

text \<open>
  The allocator invariant: the free list is well formed and lies in the window \<open>[B, B + S)\<close>, the
  live regions are non-empty and pairwise disjoint, and they cover exactly the part of the window
  that is not free. Nothing is lost and nothing is owned twice.
\<close>

definition tiling :: "nat \<Rightarrow> nat \<Rightarrow> region list \<Rightarrow> region set \<Rightarrow> bool" where
  "tiling B S fl L \<longleftrightarrow>
     wf_free fl \<and> free_cells fl \<subseteq> {B..<B + S} \<and> finite L \<and> (\<forall>r \<in> L. 0 < snd r) \<and>
     (\<forall>r \<in> L. \<forall>r' \<in> L. r \<noteq> r' \<longrightarrow> cells r \<inter> cells r' = {}) \<and>
     (\<Union>r \<in> L. cells r) = {B..<B + S} - free_cells fl"

lemma tiling_wf: "tiling B S fl L \<Longrightarrow> wf_free fl"
  by (simp add: tiling_def)

lemma tiling_init: "0 < S \<Longrightarrow> tiling B S [(B, S)] {}"
  by (auto simp: tiling_def wf_free_Cons cells_def)

lemma tiling_live_window: "tiling B S fl L \<Longrightarrow> r \<in> L \<Longrightarrow> cells r \<subseteq> {B..<B + S}"
  by (auto simp: tiling_def)

lemma tiling_live_free: "tiling B S fl L \<Longrightarrow> r \<in> L \<Longrightarrow> x \<in> set fl \<Longrightarrow> cells r \<inter> cells x = {}"
  by (auto simp: tiling_def free_cells_def)

lemma tiling_live_disjoint:
  "tiling B S fl L \<Longrightarrow> r \<in> L \<Longrightarrow> r' \<in> L \<Longrightarrow> r \<noteq> r' \<Longrightarrow> cells r \<inter> cells r' = {}"
  by (auto simp: tiling_def)

lemma tiling_live_base:
  assumes "tiling B S fl L" and "(b, s) \<in> L" and "(b, s') \<in> L"
  shows "s = s'"
proof (rule ccontr)
  assume "s \<noteq> s'"
  then have "cells (b, s) \<inter> cells (b, s') = {}"
    using tiling_live_disjoint [OF assms] by simp
  moreover have "b \<in> cells (b, s)" "b \<in> cells (b, s')"
    using assms by (auto simp: tiling_def in_cells)
  ultimately show False by blast
qed

lemma tiling_region_in_window:
  assumes "tiling B S fl L" and "(b, s) \<in> L \<union> set fl"
  shows "B \<le> b" and "b + s \<le> B + S" and "0 < s"
proof -
  have c: "cells (b, s) \<subseteq> {B..<B + S}" and pos: "0 < s"
    using assms by (auto simp: tiling_def free_cells_def wf_free_def)
  show "0 < s" by (rule pos)
  have "b \<in> cells (b, s)" "b + s - 1 \<in> cells (b, s)" using pos by (auto simp: in_cells)
  with c have "b \<in> {B..<B + S}" "b + s - 1 \<in> {B..<B + S}" by blast+
  then show "B \<le> b" "b + s \<le> B + S" using pos by auto
qed

text \<open>Taking any non-empty part of the free cells out of the free list keeps the tiling.\<close>

lemma tiling_carve:
  assumes t: "tiling B S fl L" and n: "0 < n" and c: "cells (a, n) \<subseteq> free_cells fl"
    "free_cells fl' = free_cells fl - cells (a, n)" "wf_free fl'"
  shows "tiling B S fl' (insert (a, n) L)" and "(a, n) \<notin> L"
    and "\<forall>r \<in> L. cells (a, n) \<inter> cells r = {}" and "cells (a, n) \<subseteq> {B..<B + S}"
proof -
  show win: "cells (a, n) \<subseteq> {B..<B + S}" using c(1) t by (auto simp: tiling_def)
  show dj: "\<forall>r \<in> L. cells (a, n) \<inter> cells r = {}" using c(1) t by (auto simp: tiling_def)
  show "(a, n) \<notin> L"
  proof
    assume "(a, n) \<in> L"
    with dj have "cells (a, n) = {}" by blast
    with n show False by (simp add: cells_def)
  qed
  have cov: "(\<Union>r \<in> L. cells r) = {B..<B + S} - free_cells fl"
    and L: "finite L" "\<forall>r \<in> L. 0 < snd r"
      "\<forall>r \<in> L. \<forall>r' \<in> L. r \<noteq> r' \<longrightarrow> cells r \<inter> cells r' = {}"
    and sub: "free_cells fl \<subseteq> {B..<B + S}"
    using t by (auto simp: tiling_def)
  have "(\<Union>r \<in> insert (a, n) L. cells r) = cells (a, n) \<union> ({B..<B + S} - free_cells fl)"
    by (simp only: UN_insert cov)
  also have "\<dots> = {B..<B + S} - free_cells fl'"
    using c(1) win by (simp only: c(2)) blast
  finally have "(\<Union>r \<in> insert (a, n) L. cells r) = {B..<B + S} - free_cells fl'" .
  moreover have "\<forall>r \<in> insert (a, n) L. \<forall>r' \<in> insert (a, n) L. r \<noteq> r' \<longrightarrow> cells r \<inter> cells r' = {}"
    using L(3) dj by (simp add: Int_commute)
  moreover have "free_cells fl' \<subseteq> {B..<B + S}" using sub c(2) by blast
  ultimately show "tiling B S fl' (insert (a, n) L)"
    unfolding tiling_def using c(3) L(1,2) n by simp
qed

lemma tiling_take:
  assumes t: "tiling B S fl L" and a: "take_first_fit n fl = Some (a, fl')" and n: "0 < n"
  shows "tiling B S fl' (insert (a, n) L)" and "(a, n) \<notin> L"
    and "\<forall>r \<in> L. cells (a, n) \<inter> cells r = {}" and "cells (a, n) \<subseteq> {B..<B + S}"
  using tiling_carve [OF t n take_first_fit_cells [OF a tiling_wf [OF t] n]] by simp_all

lemma tiling_give_back:
  assumes t: "tiling B S fl L" and r: "r \<in> L"
  shows "tiling B S (give_back r fl) (L - {r})"
proof -
  have pos: "0 < snd r" using t r by (auto simp: tiling_def)
  have d: "\<forall>x \<in> set fl. cells r \<inter> cells x = {}" using tiling_live_free [OF t r] by blast
  note g = give_back_wf_cells [OF tiling_wf [OF t] pos d]
  have cov: "(\<Union>x \<in> L. cells x) = {B..<B + S} - free_cells fl"
    and L: "finite L" "\<forall>x \<in> L. 0 < snd x"
      "\<forall>x \<in> L. \<forall>x' \<in> L. x \<noteq> x' \<longrightarrow> cells x \<inter> cells x' = {}"
    and sub: "free_cells fl \<subseteq> {B..<B + S}"
    using t by (auto simp: tiling_def)
  have "(\<Union>x \<in> L - {r}. cells x) = (\<Union>x \<in> L. cells x) - cells r"
    using L(3) r by blast
  also have "\<dots> = {B..<B + S} - free_cells (give_back r fl)"
    by (simp only: cov g(2)) blast
  finally have "(\<Union>x \<in> L - {r}. cells x) = {B..<B + S} - free_cells (give_back r fl)" .
  moreover have "free_cells (give_back r fl) \<subseteq> {B..<B + S}"
    using sub tiling_live_window [OF t r] by (simp add: g(2))
  ultimately show ?thesis
    unfolding tiling_def using g(1) L by simp
qed

text \<open>
  Between two neighbours of the free list lies a live region, and a live region lies in at most one
  of these gaps: there is at most one free region more than there are live ones.
\<close>

lemma tiling_gap_owner:
  assumes t: "tiling B S fl L" and i: "Suc i < length fl"
  shows "\<exists>r \<in> L. fst (fl ! i) + snd (fl ! i) \<in> cells r"
proof -
  let ?e = "fst (fl ! i) + snd (fl ! i)"
  have sw: "sorted_wrt gap fl" and pos: "\<forall>r \<in> set fl. 0 < snd r"
    using tiling_wf [OF t] by (auto simp: wf_free_def)
  have lt: "?e < fst (fl ! Suc i)"
    using sorted_wrt_nth_less [OF sw, of i "Suc i"] i by (simp add: gap_def)
  have inS: "fl ! i \<in> set fl" "fl ! Suc i \<in> set fl" using i by auto
  then have "B \<le> fst (fl ! i)" "fst (fl ! Suc i) + snd (fl ! Suc i) \<le> B + S" "0 < snd (fl ! Suc i)"
    using tiling_region_in_window [OF t, of "fst (fl ! i)" "snd (fl ! i)"]
      tiling_region_in_window [OF t, of "fst (fl ! Suc i)" "snd (fl ! Suc i)"] by simp_all
  with lt have "?e \<in> {B..<B + S}" by auto
  moreover have "?e \<notin> free_cells fl"
  proof
    assume "?e \<in> free_cells fl"
    then obtain j where j: "j < length fl" "?e \<in> cells (fl ! j)"
      by (auto simp: free_cells_def in_set_conv_nth)
    consider "j < i" | "j = i" | "j = Suc i" | "Suc i < j" by linarith
    then show False
    proof cases
      case 1
      then have "gap (fl ! j) (fl ! i)" using sorted_wrt_nth_less [OF sw] i by simp
      with j(2) show False by (auto simp: gap_def cells_def)
    next
      case 2
      with j(2) show False by (simp add: cells_def)
    next
      case 3
      with j(2) lt show False by (simp add: cells_def)
    next
      case 4
      then have "gap (fl ! Suc i) (fl ! j)" using sorted_wrt_nth_less [OF sw] j(1) by simp
      with j(2) lt show False by (auto simp: gap_def cells_def)
    qed
  qed
  ultimately show ?thesis using t by (auto simp: tiling_def)
qed

lemma tiling_free_count:
  assumes t: "tiling B S fl L"
  shows "length fl \<le> card L + 1"
proof (cases "length fl \<le> 1")
  case True
  then show ?thesis by simp
next
  case False
  let ?I = "{i. Suc i < length fl}"
  let ?e = "\<lambda>i. fst (fl ! i) + snd (fl ! i)"
  obtain own where own: "\<And>i. i \<in> ?I \<Longrightarrow> own i \<in> L \<and> ?e i \<in> cells (own i)"
    using tiling_gap_owner [OF t] by (metis mem_Collect_eq)
  have sw: "sorted_wrt gap fl" and pos: "\<forall>r \<in> set fl. 0 < snd r"
    using tiling_wf [OF t] by (auto simp: wf_free_def)
  have neq: "own i \<noteq> own j" if "i \<in> ?I" "j \<in> ?I" "i < j" for i j
  proof
    assume eq: "own i = own j"
    have "gap (fl ! i) (fl ! j)" using sorted_wrt_nth_less [OF sw] that by simp
    then have "fst (fl ! j) \<in> cells (own i)"
      using own [OF that(1)] own [OF that(2)] eq by (auto simp: gap_def cells_def)
    moreover have "fl ! j \<in> set fl" using that by simp
    moreover have "fst (fl ! j) \<in> cells (fl ! j)" using pos calculation(2) by (auto intro: base_in_cells)
    ultimately show False
      using tiling_live_free [OF t, of "own i" "fl ! j"] own [OF that(1)] by blast
  qed
  have "inj_on own ?I"
    by (rule inj_onI, rule ccontr) (metis neq linorder_neqE_nat)
  moreover have "own ` ?I \<subseteq> L" using own by blast
  ultimately have "card ?I \<le> card L"
    using t by (auto simp: tiling_def intro: card_inj_on_le)
  moreover have "?I = {..<length fl - 1}" by auto
  ultimately show ?thesis by simp
qed

section \<open>Alignment\<close>

definition aligned_to :: "nat \<Rightarrow> region set \<Rightarrow> bool" where
  "aligned_to k X \<longleftrightarrow> (\<forall>x \<in> X. k dvd fst x \<and> k dvd snd x)"

lemma aligned_to_Un: "aligned_to k (X \<union> Y) \<longleftrightarrow> aligned_to k X \<and> aligned_to k Y"
  by (auto simp: aligned_to_def)

lemma aligned_to_insert:
  "aligned_to k (insert x X) \<longleftrightarrow> k dvd fst x \<and> k dvd snd x \<and> aligned_to k X"
  by (auto simp: aligned_to_def)

lemma aligned_toD: "aligned_to k X \<Longrightarrow> x \<in> X \<Longrightarrow> k dvd fst x \<and> k dvd snd x"
  by (auto simp: aligned_to_def)

lemma aligned_to_mono: "aligned_to k X \<Longrightarrow> Y \<subseteq> X \<Longrightarrow> aligned_to k Y"
  by (auto simp: aligned_to_def)

lemma take_first_fit_starts:
  assumes "take_first_fit n fl = Some (a, fl')" and "\<forall>r \<in> set fl. d dvd fst r" and "d dvd n"
  shows "d dvd a \<and> (\<forall>r \<in> set fl'. d dvd fst r)"
proof -
  obtain xs m ys where fl: "fl = xs @ (a, m) # ys"
    and fl': "fl' = xs @ (if m = n then ys else (a + n, m - n) # ys)"
    using assms(1) by (rule take_first_fit_split)
  show ?thesis using assms(2,3) by (simp add: fl fl' ball_Un)
qed

lemma take_first_fit_aligned:
  assumes "take_first_fit n fl = Some (a, fl')" and "aligned_to k (set fl)" and "k dvd n"
  shows "aligned_to k (set fl')" and "k dvd a"
proof -
  obtain xs m ys where fl: "fl = xs @ (a, m) # ys" and m: "n \<le> m"
    and fl': "fl' = xs @ (if m = n then ys else (a + n, m - n) # ys)"
    using assms(1) by (rule take_first_fit_split)
  show "aligned_to k (set fl')" "k dvd a"
    using assms(2,3) m by (auto simp: fl fl' aligned_to_Un aligned_to_insert)
qed

lemma merge_next_aligned:
  "aligned_to k (set fl) \<Longrightarrow> k dvd fst r \<Longrightarrow> k dvd snd r \<Longrightarrow> aligned_to k (set (merge_next r fl))"
  by (cases fl) (auto simp: aligned_to_insert)

lemma give_back_aligned:
  assumes "aligned_to k (set fl)" and "k dvd fst r" and "k dvd snd r"
  shows "aligned_to k (set (give_back r fl))"
proof -
  let ?xs = "takeWhile (\<lambda>x. fst x < fst r) fl" and ?ys = "dropWhile (\<lambda>x. fst x < fst r) fl"
  have xs: "aligned_to k (set ?xs)" and ys: "aligned_to k (set ?ys)"
    using assms(1) by (auto simp: aligned_to_def dest: set_takeWhileD set_dropWhileD)
  have "aligned_to k (set (butlast ?xs))" using xs by (rule aligned_to_mono) (auto dest: in_set_butlastD)
  moreover have "?xs \<noteq> [] \<Longrightarrow> k dvd fst (last ?xs) \<and> k dvd snd (last ?xs)"
    using xs last_in_set [of ?xs] by (auto simp: aligned_to_def)
  ultimately show ?thesis
    using xs ys assms(2,3)
    by (auto simp: give_back_def Let_def aligned_to_Un intro!: merge_next_aligned)
qed

section \<open>The allocator contract\<close>

text \<open>
  What a client of an address-range allocator relies on. \<open>live\<close> is the set of regions handed out
  and not yet returned, \<open>request_ok\<close> the sizes a client may ask for, \<open>rnd\<close> the rounding of a request, \<open>B\<close> and \<open>S\<close> the window. Failure is
  \<open>None\<close>, and then the state is the old one.
\<close>

definition region_of :: "u64 \<Rightarrow> u64 \<Rightarrow> region" where
  "region_of b s = (unat b, unat s)"

locale region_allocator =
  fixes inv :: "'s \<Rightarrow> bool"
    and live :: "'s \<Rightarrow> region set"
    and request_ok :: "u64 \<Rightarrow> bool"
    and rnd :: "u64 \<Rightarrow> u64"
    and alloc :: "u64 \<Rightarrow> 's \<Rightarrow> (u64 \<times> 's) option"
    and dealloc :: "u64 \<Rightarrow> 's \<Rightarrow> 's option"
    and B :: nat and S :: nat
  assumes live_window: "inv s \<Longrightarrow> r \<in> live s \<Longrightarrow> cells r \<subseteq> {B..<B + S}"
    and live_disjoint: "inv s \<Longrightarrow> r \<in> live s \<Longrightarrow> r' \<in> live s \<Longrightarrow> r \<noteq> r' \<Longrightarrow> cells r \<inter> cells r' = {}"
    and live_finite: "inv s \<Longrightarrow> finite (live s)"
    and live_pos: "inv s \<Longrightarrow> r \<in> live s \<Longrightarrow> 0 < snd r"
    and alloc_inv: "inv s \<Longrightarrow> request_ok n \<Longrightarrow> alloc n s = Some (b, s') \<Longrightarrow> inv s'"
    and alloc_live: "inv s \<Longrightarrow> request_ok n \<Longrightarrow> alloc n s = Some (b, s') \<Longrightarrow>
          live s' = insert (region_of b (rnd n)) (live s) \<and> region_of b (rnd n) \<notin> live s"
    and dealloc_inv: "inv s \<Longrightarrow> dealloc b s = Some s' \<Longrightarrow> inv s'"
    and dealloc_live: "inv s \<Longrightarrow> dealloc b s = Some s' \<Longrightarrow>
          \<exists>n. (unat b, n) \<in> live s \<and> live s' = live s - {(unat b, n)}"
    and dealloc_total: "inv s \<Longrightarrow> (unat b, m) \<in> live s \<Longrightarrow> \<exists>s'. dealloc b s = Some s'"
begin

lemma alloc_disjoint:
  assumes "inv s" and "request_ok n" and "alloc n s = Some (b, s')" and "r \<in> live s"
  shows "cells (region_of b (rnd n)) \<inter> cells r = {}"
  using alloc_live [OF assms(1,2,3)] assms(4)
  by (intro live_disjoint [OF alloc_inv [OF assms(1,2,3)]]) auto

lemma live_card_bound:
  assumes "inv s"
  shows "(\<Sum>r \<in> live s. snd r) \<le> S"
proof -
  have "(\<Sum>r \<in> live s. snd r) = (\<Sum>r \<in> live s. card (cells r))"
    by (simp add: cells_def)
  also have "\<dots> = card (\<Union>r \<in> live s. cells r)"
    using live_finite [OF assms] live_disjoint [OF assms]
    by (intro card_UN_disjoint [symmetric]) (auto simp: cells_def)
  also have "\<dots> \<le> card {B..<B + S}"
    using live_window [OF assms] by (intro card_mono) auto
  finally show ?thesis by simp
qed

lemma alloc_dealloc_live:
  assumes "inv s" and "request_ok n" and "alloc n s = Some (b, s')"
  shows "\<exists>s''. dealloc b s' = Some s'' \<and> live s'' = live s"
proof -
  note inv' = alloc_inv [OF assms] and lv = alloc_live [OF assms]
  have mem: "(unat b, unat (rnd n)) \<in> live s'" using lv by (simp add: region_of_def)
  then obtain s'' where s'': "dealloc b s' = Some s''" using dealloc_total [OF inv'] by blast
  then obtain m where m: "(unat b, m) \<in> live s'" "live s'' = live s' - {(unat b, m)}"
    using dealloc_live [OF inv'] by blast
  have "m = unat (rnd n)"
  proof (rule ccontr)
    assume "m \<noteq> unat (rnd n)"
    then have "cells (unat b, m) \<inter> cells (unat b, unat (rnd n)) = {}"
      using live_disjoint [OF inv' m(1) mem] by simp
    moreover have "0 < m" "0 < unat (rnd n)" using live_pos [OF inv'] m(1) mem by force+
    then have "unat b \<in> cells (unat b, m)" "unat b \<in> cells (unat b, unat (rnd n))"
      by (auto simp: in_cells)
    ultimately show False by blast
  qed
  with m lv s'' show ?thesis by (auto simp: region_of_def)
qed

end

section \<open>Histories of requests\<close>

text \<open>A client's history: requests for a size and returns of a base, failures being no-ops.\<close>

datatype region_op = Alloc u64 | Dealloc u64

fun op_ok :: "(u64 \<Rightarrow> bool) \<Rightarrow> region_op \<Rightarrow> bool" where
  "op_ok ok (Alloc n) = ok n"
| "op_ok ok (Dealloc b) = True"

fun region_step ::
  "(u64 \<Rightarrow> 's \<Rightarrow> (u64 \<times> 's) option) \<Rightarrow> (u64 \<Rightarrow> 's \<Rightarrow> 's option) \<Rightarrow> region_op \<Rightarrow> 's \<Rightarrow> 's" where
  "region_step al de (Alloc n) s = (case al n s of None \<Rightarrow> s | Some (b, s') \<Rightarrow> s')"
| "region_step al de (Dealloc b) s = (case de b s of None \<Rightarrow> s | Some s' \<Rightarrow> s')"

context region_allocator
begin

lemma step_inv: "inv s \<Longrightarrow> op_ok request_ok p \<Longrightarrow> inv (region_step alloc dealloc p s)"
  by (cases p) (auto split: option.splits intro: alloc_inv dealloc_inv)

lemma run_inv:
  "inv s \<Longrightarrow> list_all (op_ok request_ok) ps \<Longrightarrow> inv (fold (region_step alloc dealloc) ps s)"
  by (induction ps arbitrary: s) (auto intro: step_inv)

lemma run_disjoint:
  assumes "inv s" and "list_all (op_ok request_ok) ps"
    and "r \<in> live (fold (region_step alloc dealloc) ps s)"
    and "r' \<in> live (fold (region_step alloc dealloc) ps s)" and "r \<noteq> r'"
  shows "cells r \<inter> cells r' = {} \<and> cells r \<subseteq> {B..<B + S}"
  using live_disjoint [OF run_inv [OF assms(1,2)] assms(3,4,5)]
    live_window [OF run_inv [OF assms(1,2)] assms(3)] by blast

end

end
