(* ===== verification/Addr_Map.thy ===== *)
theory Addr_Map
  imports Prelude
begin

text \<open>
  The constants of \<^verbatim>\<open>formosa_addr_map.h\<close>, a header that the build generates from the platform's
  address map. The firmware and the host library are written against the names only, so the
  constants are a parameter of the model: a value of the record below is an argument of every
  definition that uses one, and what a theorem needs of the numbers is one of its hypotheses.
\<close>

record addr_map =
  FSA_LMEM_BASE :: u64
  FSA_LMEM_SIZE :: u64
  FSA_STACK_BASE :: u64
  FSA_PER_THREAD_STACK_SIZE :: u64
  FSA_STACK_REMAP_VALID_BIT :: u64
  FSA_STACK_REMAP_ADDRESS_MASK :: u64
  FSA_SM_STACK_REMAP_MAX_ENTRIES :: u64
  FSA_SYSTEM_INFO_ABI_VERSION :: u64
  FSA_SYSTEM_INFO_LENGTH :: u64
  FSA_GLOBAL_MEM_BASE :: u64
  FSA_GLOBAL_MEM_SIZE :: u64
  FSA_ONCHIP_GMEM_BASE :: u64
  FSA_ONCHIP_GMEM_SIZE :: u64
  FSA_NONCACHE_ALLOC_BASE :: u64
  FSA_NONCACHE_ALLOC_SIZE :: u64
  FSA_WGI_BUF_BASE :: u64
  FSA_WGI_BUF_SIZE :: u64
  FSA_CP_TCM_SIZE :: u64
  FSA_CP_KERNEL_STATE_BUF_SIZE :: nat
  FSA_SM_MMIO_MAX_SMS :: u64
  FSA_MMIO_SIZE :: u64
  FSA_CLINT_SIZE :: u64

text \<open>One concrete map, the platform's default, at which witnesses evaluate the model.\<close>

definition default_addr_map :: addr_map where
  "default_addr_map = \<lparr>
     FSA_LMEM_BASE = 0x0,
     FSA_LMEM_SIZE = 0xC000,
     FSA_STACK_BASE = 0x81000000,
     FSA_PER_THREAD_STACK_SIZE = 0x800,
     FSA_STACK_REMAP_VALID_BIT = 0x1,
     FSA_STACK_REMAP_ADDRESS_MASK = 0x0000FFFFFFFFFFFF,
     FSA_SM_STACK_REMAP_MAX_ENTRIES = 0x8,
     FSA_SYSTEM_INFO_ABI_VERSION = 1,
     FSA_SYSTEM_INFO_LENGTH = 0x48,
     FSA_GLOBAL_MEM_BASE = 0x80000000,
     FSA_GLOBAL_MEM_SIZE = 0x80000000,
     FSA_ONCHIP_GMEM_BASE = 0x00100000,
     FSA_ONCHIP_GMEM_SIZE = 0x00080000,
     FSA_NONCACHE_ALLOC_BASE = 0x80100000,
     FSA_NONCACHE_ALLOC_SIZE = 0xEC0000,
     FSA_WGI_BUF_BASE = 0x80000000,
     FSA_WGI_BUF_SIZE = 0x100000,
     FSA_CP_TCM_SIZE = 0x00040000,
     FSA_CP_KERNEL_STATE_BUF_SIZE = 4,
     FSA_SM_MMIO_MAX_SMS = 16,
     FSA_MMIO_SIZE = 0x00010000,
     FSA_CLINT_SIZE = 0x00010000\<rparr>"

text \<open>The same map with a buffer of eight work-group slots, to keep evaluated states small.\<close>

definition small_addr_map :: addr_map where
  "small_addr_map = default_addr_map\<lparr>FSA_WGI_BUF_SIZE := 1280\<rparr>"

end
