(* ===== verification/Lmem_Allocator.thy ===== *)
theory Lmem_Allocator
  imports Regions Addr_Map "HOL-Library.Multiset"
begin

text \<open>
  The firmware's local-memory allocator (\<^verbatim>\<open>fw/cp_lmem_allocator.c\<close>): per SM an array of free
  regions kept sorted and coalesced by shifting, and a table of active allocations. The array
  code refines the list operations of the region specification; on top of that the allocator
  satisfies the contract \<open>region_allocator\<close>. Trace counters and the critical-section macros have
  no effect on the data and are left out; a null array pointer is the empty array.
\<close>

section \<open>Data\<close>

definition LMEM_ALLOC_ALIGNMENT :: u64 where
  "LMEM_ALLOC_ALIGNMENT = 256"

definition FORMOSA_MAX_NUM_SM :: nat where
  "FORMOSA_MAX_NUM_SM = 16"

definition FORMOSA_MAX_WG_RESIDENT_LIMIT :: nat where
  "FORMOSA_MAX_WG_RESIDENT_LIMIT = 8"

record lmem_region_t =
  rg_base :: u64
  rg_size :: u64

record lmem_active_alloc_t =
  aa_base :: u64
  aa_size :: u64
  aa_valid :: u8

record lmem_allocator_t =
  free_regions :: "lmem_region_t list"
  free_count :: nat
  free_capacity :: nat
  active_allocs :: "lmem_active_alloc_t list"
  active_count :: nat
  active_capacity :: nat
  usage_bytes :: u64

definition zero_region :: lmem_region_t where
  "zero_region = \<lparr>rg_base = 0, rg_size = 0\<rparr>"

definition zero_active :: lmem_active_alloc_t where
  "zero_active = \<lparr>aa_base = 0, aa_size = 0, aa_valid = 0\<rparr>"

section \<open>Operations\<close>

definition align_up_u64 :: "u64 \<Rightarrow> u64 \<Rightarrow> u64" where
  "align_up_u64 addr alignment =
     (if alignment = 0 then addr else (addr + alignment - 1) AND NOT (alignment - 1))"

text \<open>The three array loops: the search for the insertion point and the two shifts.\<close>

function insert_idx_loop :: "lmem_region_t list \<Rightarrow> nat \<Rightarrow> u64 \<Rightarrow> nat \<Rightarrow> nat" where
  "insert_idx_loop regs n base i =
     (if i < n \<and> rg_base (regs ! i) < base then insert_idx_loop regs n base (Suc i) else i)"
  by pat_completeness auto
termination
  by (relation "measure (\<lambda>(regs, n, base, i). n - i)") auto

function shift_left_loop :: "'a list \<Rightarrow> nat \<Rightarrow> nat \<Rightarrow> 'a list" where
  "shift_left_loop xs i n =
     (if i < n then shift_left_loop (xs[i := xs ! (i + 1)]) (Suc i) n else xs)"
  by pat_completeness auto
termination
  by (relation "measure (\<lambda>(xs, i, n). n - i)") auto

fun shift_right_loop :: "'a list \<Rightarrow> nat \<Rightarrow> nat \<Rightarrow> 'a list" where
  "shift_right_loop xs i idx =
     (if idx < i then shift_right_loop (xs[i := xs ! (i - 1)]) (i - 1) idx else xs)"

declare insert_idx_loop.simps [simp del]
declare shift_left_loop.simps [simp del]
declare shift_right_loop.simps [simp del]

definition free_region_insert_and_coalesce ::
  "lmem_allocator_t \<Rightarrow> u64 \<Rightarrow> u64 \<Rightarrow> int \<times> lmem_allocator_t" where
  "free_region_insert_and_coalesce alloc base sz =
     (let regs = free_regions alloc;
          n = free_count alloc;
          insert_idx = insert_idx_loop regs n base 0;
          prev = regs ! (insert_idx - 1);
          nxt = regs ! insert_idx
      in if 0 < insert_idx \<and> base < rg_base prev + rg_size prev then (-1, alloc)
         else if insert_idx < n \<and> rg_base nxt < base + sz then (-1, alloc)
         else if 0 < insert_idx \<and> rg_base prev + rg_size prev = base then
           (let prev' = prev\<lparr>rg_size := rg_size prev + sz\<rparr>;
                regs' = regs[insert_idx - 1 := prev']
            in if insert_idx < n \<and> rg_base prev' + rg_size prev' = rg_base (regs' ! insert_idx) then
                 (let regs2 = regs'[insert_idx - 1 :=
                                prev'\<lparr>rg_size := rg_size prev' + rg_size (regs' ! insert_idx)\<rparr>];
                      regs3 = shift_left_loop regs2 insert_idx (n - 1)
                  in (0, alloc\<lparr>free_regions := regs3[n - 1 := zero_region], free_count := n - 1\<rparr>))
               else (0, alloc\<lparr>free_regions := regs'\<rparr>))
         else if insert_idx < n \<and> base + sz = rg_base nxt then
           (0, alloc\<lparr>free_regions :=
                 regs[insert_idx := nxt\<lparr>rg_base := base, rg_size := rg_size nxt + sz\<rparr>]\<rparr>)
         else if free_capacity alloc \<le> n then (-1, alloc)
         else (0, alloc\<lparr>free_regions :=
                    (shift_right_loop regs n insert_idx)
                      [insert_idx := \<lparr>rg_base = base, rg_size = sz\<rparr>],
                  free_count := n + 1\<rparr>))"

text \<open>
  Initialisation of the allocators of SMs \<open>i, i + 1, \<dots>\<close>; \<open>limits\<close> are the resident limits that
  the hardware description reports for the SMs still to be done.
\<close>

definition lmem_init_one :: "addr_map \<Rightarrow> nat \<Rightarrow> lmem_allocator_t" where
  "lmem_init_one am resident_limit = \<lparr>
     free_regions =
       (replicate (FORMOSA_MAX_WG_RESIDENT_LIMIT + 1) zero_region)
         [0 := \<lparr>rg_base = FSA_LMEM_BASE am, rg_size = FSA_LMEM_SIZE am\<rparr>],
     free_count = 1,
     free_capacity = resident_limit + 1,
     active_allocs = replicate FORMOSA_MAX_WG_RESIDENT_LIMIT zero_active,
     active_count = 0,
     active_capacity = resident_limit,
     usage_bytes = 0\<rparr>"

fun lmem_init_from ::
  "addr_map \<Rightarrow> nat \<Rightarrow> u64 list \<Rightarrow> lmem_allocator_t list \<Rightarrow> int \<times> lmem_allocator_t list" where
  "lmem_init_from am i [] allocs = (0, allocs)"
| "lmem_init_from am i (resident_limit # limits) allocs =
     (if resident_limit = 0 \<or> of_nat FORMOSA_MAX_WG_RESIDENT_LIMIT < resident_limit
      then (-1, allocs)
      else lmem_init_from am (Suc i) limits (allocs[i := lmem_init_one am (unat resident_limit)]))"

definition cp_lmem_allocator_init ::
  "addr_map \<Rightarrow> u64 list \<Rightarrow> lmem_allocator_t list \<Rightarrow> int \<times> lmem_allocator_t list" where
  "cp_lmem_allocator_init am limits allocs = lmem_init_from am 0 limits allocs"

definition lmem_deinit_one :: "lmem_allocator_t \<Rightarrow> lmem_allocator_t" where
  "lmem_deinit_one a = a\<lparr>free_regions := [], free_count := 0, free_capacity := 0,
     active_allocs := [], active_count := 0, active_capacity := 0, usage_bytes := 0\<rparr>"

definition cp_lmem_allocator_deinit :: "u64 \<Rightarrow> lmem_allocator_t list \<Rightarrow> lmem_allocator_t list" where
  "cp_lmem_allocator_deinit g_num_sm allocs =
     map lmem_deinit_one (take (unat g_num_sm) allocs) @ drop (unat g_num_sm) allocs"

text \<open>The part of the allocation under the critical section: first fit, split, table entry.\<close>

definition lmem_take_region :: "lmem_allocator_t \<Rightarrow> nat \<Rightarrow> u64 \<Rightarrow> lmem_allocator_t" where
  "lmem_take_region allocator target_idx req_size =
     (let regs = free_regions allocator;
          n = free_count allocator;
          region = regs ! target_idx
      in if rg_size region = req_size
         then allocator\<lparr>free_regions := (shift_left_loop regs target_idx (n - 1))[n - 1 := zero_region],
                        free_count := n - 1\<rparr>
         else allocator\<lparr>free_regions :=
                 regs[target_idx := region\<lparr>rg_base := rg_base region + req_size,
                                           rg_size := rg_size region - req_size\<rparr>]\<rparr>)"

definition lmem_alloc_critical :: "lmem_allocator_t \<Rightarrow> u64 \<Rightarrow> int \<times> u64 \<times> lmem_allocator_t" where
  "lmem_alloc_critical allocator req_size =
     (if active_capacity allocator \<le> active_count allocator then (-1, 0, allocator)
      else case find_index (\<lambda>r. req_size \<le> rg_size r)
                  (take (free_count allocator) (free_regions allocator)) of
        None \<Rightarrow> (-1, 0, allocator)
      | Some target_idx \<Rightarrow>
          (let alloc_base = rg_base (free_regions allocator ! target_idx);
               allocator' = lmem_take_region allocator target_idx req_size
           in case find_index (\<lambda>a. aa_valid a = 0)
                     (take (active_capacity allocator') (active_allocs allocator')) of
             None \<Rightarrow> (-1, alloc_base,
                      snd (free_region_insert_and_coalesce allocator' alloc_base req_size))
           | Some slot \<Rightarrow>
               (0, alloc_base,
                allocator'\<lparr>active_allocs := (active_allocs allocator')
                               [slot := \<lparr>aa_base = alloc_base, aa_size = req_size, aa_valid = 1\<rparr>],
                           active_count := active_count allocator' + 1,
                           usage_bytes := usage_bytes allocator' + req_size\<rparr>)))"

text \<open>\<open>base_out\<close> tells whether the caller's out-pointer is non-null; the second result is what it receives.\<close>

definition cp_lmem_allocator_alloc ::
  "addr_map \<Rightarrow> u64 \<Rightarrow> lmem_allocator_t list \<Rightarrow> nat \<Rightarrow> u64 \<Rightarrow> bool \<Rightarrow>
     int \<times> u64 option \<times> lmem_allocator_t list" where
  "cp_lmem_allocator_alloc am g_num_sm allocs sm_id sz base_out =
     (if unat g_num_sm \<le> sm_id \<or> sz = 0 \<or> \<not> base_out then (-1, None, allocs)
      else let req_size = align_up_u64 sz LMEM_ALLOC_ALIGNMENT
           in if FSA_LMEM_SIZE am < req_size then (-1, None, allocs)
              else case lmem_alloc_critical (allocs ! sm_id) req_size of
                (rc, alloc_base, allocator) \<Rightarrow>
                  (rc, if rc = 0 then Some alloc_base else None, allocs[sm_id := allocator]))"

definition lmem_free_critical :: "lmem_allocator_t \<Rightarrow> u64 \<Rightarrow> int \<times> lmem_allocator_t" where
  "lmem_free_critical alloc base =
     (case find_index (\<lambda>a. aa_valid a \<noteq> 0 \<and> aa_base a = base)
             (take (active_capacity alloc) (active_allocs alloc)) of
        None \<Rightarrow> (-1, alloc)
      | Some slot \<Rightarrow>
          (let sz = aa_size (active_allocs alloc ! slot)
           in case free_region_insert_and_coalesce alloc base sz of
             (rc, alloc') \<Rightarrow>
               if rc \<noteq> 0 then (-1, alloc')
               else (0, alloc'\<lparr>active_allocs := (active_allocs alloc')[slot := zero_active],
                               active_count := active_count alloc' - 1,
                               usage_bytes := usage_bytes alloc' - sz\<rparr>)))"

definition cp_lmem_allocator_free ::
  "u64 \<Rightarrow> lmem_allocator_t list \<Rightarrow> nat \<Rightarrow> u64 \<Rightarrow> int \<times> lmem_allocator_t list" where
  "cp_lmem_allocator_free g_num_sm allocs sm_id base =
     (if unat g_num_sm \<le> sm_id then (-1, allocs)
      else case lmem_free_critical (allocs ! sm_id) base of
        (rc, allocator) \<Rightarrow> (rc, allocs[sm_id := allocator]))"

section \<open>The array loops\<close>

lemma insert_idx_loop_eq:
  assumes "regs = xs @ ys @ zs" and "n = length xs + length ys" and "i \<le> length xs"
    and "\<forall>r \<in> set xs. rg_base r < base" and "ys \<noteq> [] \<Longrightarrow> \<not> rg_base (hd ys) < base"
  shows "insert_idx_loop regs n base i = length xs"
  using assms(3)
proof (induction "length xs - i" arbitrary: i)
  case 0
  then have "i = length xs" by simp
  then show ?case
    using assms(1,2,5) by (subst insert_idx_loop.simps) (cases ys; simp add: nth_append)
next
  case (Suc d)
  then have i: "i < length xs" by simp
  have "rg_base (regs ! i) < base" using i assms(1,4) by (simp add: nth_append)
  moreover have "insert_idx_loop regs n base (Suc i) = length xs"
    using Suc.hyps(2) i by (intro Suc.hyps(1)) auto
  ultimately show ?case using i assms(2) by (subst insert_idx_loop.simps) simp
qed

lemma shift_left_loop_eq:
  "length xs = i \<Longrightarrow> n = i + length ys \<Longrightarrow>
     shift_left_loop (xs @ y # ys @ zs) i n = xs @ ys @ last (y # ys) # zs"
proof (induction ys arbitrary: xs y i)
  case Nil
  then show ?case by (subst shift_left_loop.simps) simp
next
  case (Cons a ys)
  have "(xs @ y # (a # ys) @ zs)[i := (xs @ y # (a # ys) @ zs) ! (i + 1)] = (xs @ [a]) @ a # ys @ zs"
    using Cons.prems(1) by (simp add: nth_append list_update_append)
  moreover have "shift_left_loop ((xs @ [a]) @ a # ys @ zs) (Suc i) n
      = (xs @ [a]) @ ys @ last (a # ys) # zs"
    using Cons.prems by (intro Cons.IH) auto
  ultimately show ?case using Cons.prems by (subst shift_left_loop.simps) simp
qed

lemma shift_right_loop_eq:
  "length xs = idx \<Longrightarrow> i = idx + length ys \<Longrightarrow>
     shift_right_loop (xs @ ys @ z # zs) i idx = xs @ hd (ys @ [z]) # ys @ zs"
proof (induction ys arbitrary: z zs i rule: rev_induct)
  case Nil
  then show ?case by (subst shift_right_loop.simps) simp
next
  case (snoc a ys)
  have "(xs @ (ys @ [a]) @ z # zs)[i := (xs @ (ys @ [a]) @ z # zs) ! (i - 1)] = xs @ ys @ a # a # zs"
    using snoc.prems by (simp add: nth_append list_update_append)
  moreover have "shift_right_loop (xs @ ys @ a # (a # zs)) (i - 1) idx
      = xs @ hd (ys @ [a]) # ys @ a # zs"
    using snoc.prems by (intro snoc.IH) auto
  ultimately show ?case using snoc.prems by (subst shift_right_loop.simps) (cases ys; simp)
qed

section \<open>Abstraction\<close>

definition abs_region :: "lmem_region_t \<Rightarrow> region" where
  "abs_region r = (unat (rg_base r), unat (rg_size r))"

definition abs_active :: "lmem_active_alloc_t \<Rightarrow> region" where
  "abs_active a = (unat (aa_base a), unat (aa_size a))"

definition abs_free :: "lmem_allocator_t \<Rightarrow> region list" where
  "abs_free al = map abs_region (take (free_count al) (free_regions al))"

definition active_list :: "lmem_allocator_t \<Rightarrow> lmem_active_alloc_t list" where
  "active_list al =
     filter (\<lambda>a. aa_valid a \<noteq> 0) (take (active_capacity al) (active_allocs al))"

definition lmem_live :: "lmem_allocator_t \<Rightarrow> region set" where
  "lmem_live al = abs_active ` set (active_list al)"

lemma abs_region_sel [simp]:
  "fst (abs_region r) = unat (rg_base r)" "snd (abs_region r) = unat (rg_size r)"
  by (simp_all add: abs_region_def)

section \<open>Refinement of the coalescing insertion\<close>

text \<open>
  At an insertion site the array is split at the insertion point into \<open>xs @ ys @ zs\<close>, and no end
  address passes the top of the address space. Each of the four outcomes of the code is one
  lemma: merge with both neighbours, with the previous one, with the next one, or insert.
\<close>

definition coalesce_site ::
  "lmem_allocator_t \<Rightarrow> u64 \<Rightarrow> u64 \<Rightarrow> lmem_region_t list \<Rightarrow> lmem_region_t list \<Rightarrow>
     lmem_region_t list \<Rightarrow> bool" where
  "coalesce_site al base sz xs ys zs \<longleftrightarrow>
     free_regions al = xs @ ys @ zs \<and> free_count al = length xs + length ys \<and>
     (\<forall>r \<in> set xs. rg_base r < base \<and> unat (rg_base r) + unat (rg_size r) \<le> unat base) \<and>
     (\<forall>r \<in> set ys. unat base + unat sz \<le> unat (rg_base r) \<and>
        unat (rg_base r) + unat (rg_size r) < 2 ^ 64) \<and>
     unat base + unat sz < 2 ^ 64 \<and> 0 < unat sz"

lemma site_array:
  "coalesce_site al base sz xs ys zs \<Longrightarrow> free_regions al = xs @ ys @ zs"
  "coalesce_site al base sz xs ys zs \<Longrightarrow> free_count al = length xs + length ys"
  by (simp_all add: coalesce_site_def)

lemma site_idx:
  assumes "coalesce_site al base sz xs ys zs"
  shows "insert_idx_loop (free_regions al) (free_count al) base 0 = length xs"
proof (rule insert_idx_loop_eq [OF site_array [OF assms]])
  show "\<forall>r \<in> set xs. rg_base r < base" using assms by (simp add: coalesce_site_def)
  show "\<not> rg_base (hd ys) < base" if "ys \<noteq> []"
    using assms that by (cases ys) (auto simp: coalesce_site_def word_less_iff_unat)
qed simp

lemma site_end_left:
  assumes "coalesce_site al base sz xs ys zs" and "r \<in> set xs"
  shows "unat (rg_base r + rg_size r) = unat (rg_base r) + unat (rg_size r)"
    and "\<not> base < rg_base r + rg_size r"
proof -
  have le: "unat (rg_base r) + unat (rg_size r) \<le> unat base"
    using assms by (simp add: coalesce_site_def)
  then show e: "unat (rg_base r + rg_size r) = unat (rg_base r) + unat (rg_size r)"
    using unat_lt64 [of base] by (intro unat_add_no_wrap) simp
  show "\<not> base < rg_base r + rg_size r" using le e by (simp add: word_less_iff_unat)
qed

lemma site_end_right:
  assumes "coalesce_site al base sz xs ys zs"
  shows "unat (base + sz) = unat base + unat sz"
    and "r \<in> set ys \<Longrightarrow> \<not> rg_base r < base + sz"
proof -
  show e: "unat (base + sz) = unat base + unat sz"
    using assms by (intro unat_add_no_wrap) (simp add: coalesce_site_def)
  show "r \<in> set ys \<Longrightarrow> \<not> rg_base r < base + sz"
    using assms e by (auto simp: coalesce_site_def word_less_iff_unat)
qed

lemma lmem_count_same:
  "free_count al = n \<Longrightarrow> al\<lparr>free_regions := regs, free_count := n\<rparr> = al\<lparr>free_regions := regs\<rparr>"
  by auto

lemma site_merge_both:
  assumes st: "coalesce_site al base sz (xs @ [p]) (y # ys) zs"
    and pb: "rg_base p + rg_size p = base" and yb: "base + sz = rg_base y"
  defines "q \<equiv> p\<lparr>rg_size := rg_size p + sz + rg_size y\<rparr>"
  shows "free_region_insert_and_coalesce al base sz =
           (0, al\<lparr>free_regions := xs @ q # ys @ zero_region # zs, free_count := free_count al - 1\<rparr>)"
    and "abs_region q = (unat (rg_base p), unat (rg_size p) + unat sz + unat (rg_size y))"
proof -
  have sh: "shift_left_loop ((xs @ [q]) @ y # ys @ zs) (Suc (length xs)) (Suc (length xs + length ys))
      = (xs @ [q]) @ ys @ last (y # ys) # zs"
    by (rule shift_left_loop_eq) simp_all
  have t2: "rg_base p + (rg_size p + sz) = rg_base y"
    using pb yb by (simp add: add.assoc [symmetric])
  show "free_region_insert_and_coalesce al base sz =
           (0, al\<lparr>free_regions := xs @ q # ys @ zero_region # zs, free_count := free_count al - 1\<rparr>)"
    using sh t2 pb yb unfolding free_region_insert_and_coalesce_def Let_def site_idx [OF st]
    unfolding site_array [OF st]
    by (simp add: site_array [OF st] nth_append list_update_append q_def)
  have "unat (rg_base p) + unat (rg_size p) = unat base"
    using site_end_left(1) [OF st, of p] pb by simp
  moreover have "unat base + unat sz = unat (rg_base y)"
    using site_end_right(1) [OF st] yb by simp
  moreover have "unat (rg_base y) + unat (rg_size y) < 2 ^ 64"
    using st by (simp add: coalesce_site_def)
  ultimately show "abs_region q = (unat (rg_base p), unat (rg_size p) + unat sz + unat (rg_size y))"
    by (simp add: q_def abs_region_def unat_add_no_wrap)
qed

lemma site_merge_prev:
  assumes st: "coalesce_site al base sz (xs @ [p]) ys zs"
    and pb: "rg_base p + rg_size p = base" and yb: "ys \<noteq> [] \<longrightarrow> base + sz \<noteq> rg_base (hd ys)"
  defines "q \<equiv> p\<lparr>rg_size := rg_size p + sz\<rparr>"
  shows "free_region_insert_and_coalesce al base sz = 
    (0, al\<lparr>free_regions := xs @ q # ys @ zs, free_count := free_count al\<rparr>)"
    and "abs_region q = (unat (rg_base p), unat (rg_size p) + unat sz)"
proof -
  have t2: "ys \<noteq> [] \<Longrightarrow> rg_base p + (rg_size p + sz) \<noteq> rg_base (hd ys)"
    using pb yb by (simp add: add.assoc [symmetric])
  show "free_region_insert_and_coalesce al base sz = 
    (0, al\<lparr>free_regions := xs @ q # ys @ zs, free_count := free_count al\<rparr>)"
    using t2 pb site_end_right(2) [OF st, of "hd ys"] unfolding free_region_insert_and_coalesce_def Let_def site_idx [OF st]
    unfolding site_array [OF st]
    by (cases ys) (auto simp: nth_append list_update_append q_def lmem_count_same site_array [OF st])
  have "unat (rg_base p) + unat (rg_size p) = unat base"
    using site_end_left(1) [OF st, of p] pb by simp
  moreover have "unat base + unat sz < 2 ^ 64" using st by (simp add: coalesce_site_def)
  ultimately show "abs_region q = (unat (rg_base p), unat (rg_size p) + unat sz)"
    by (simp add: q_def abs_region_def unat_add_no_wrap)
qed

lemma site_merge_next:
  assumes st: "coalesce_site al base sz xs (y # ys) zs"
    and pb: "xs \<noteq> [] \<longrightarrow> rg_base (last xs) + rg_size (last xs) \<noteq> base"
    and yb: "base + sz = rg_base y"
  defines "q \<equiv> y\<lparr>rg_base := base, rg_size := rg_size y + sz\<rparr>"
  shows "free_region_insert_and_coalesce al base sz = 
    (0, al\<lparr>free_regions := xs @ q # ys @ zs, free_count := free_count al\<rparr>)"
    and "abs_region q = (unat base, unat sz + unat (rg_size y))"
proof -
  show "free_region_insert_and_coalesce al base sz = 
    (0, al\<lparr>free_regions := xs @ q # ys @ zs, free_count := free_count al\<rparr>)"
    using pb yb site_end_left(2) [OF st, of "last xs"] unfolding free_region_insert_and_coalesce_def Let_def site_idx [OF st]
    unfolding site_array [OF st]
    by (cases "xs = []")
      (auto simp: nth_append list_update_append q_def last_conv_nth lmem_count_same site_array [OF st])
  have "unat base + unat sz = unat (rg_base y)"
    using site_end_right(1) [OF st] yb by simp
  moreover have "unat (rg_base y) + unat (rg_size y) < 2 ^ 64"
    using st by (simp add: coalesce_site_def)
  ultimately show "abs_region q = (unat base, unat sz + unat (rg_size y))"
    by (simp add: q_def abs_region_def unat_add_no_wrap)
qed

lemma site_insert:
  assumes st: "coalesce_site al base sz xs ys (z # zs)"
    and pb: "xs \<noteq> [] \<longrightarrow> rg_base (last xs) + rg_size (last xs) \<noteq> base"
    and yb: "ys \<noteq> [] \<longrightarrow> base + sz \<noteq> rg_base (hd ys)"
    and room: "free_count al < free_capacity al"
  defines "q \<equiv> \<lparr>rg_base = base, rg_size = sz\<rparr>"
  shows "free_region_insert_and_coalesce al base sz =
           (0, al\<lparr>free_regions := xs @ q # ys @ zs, free_count := free_count al + 1\<rparr>)"
proof -
  have sh: "shift_right_loop (xs @ ys @ z # zs) (length xs + length ys) (length xs)
      = xs @ hd (ys @ [z]) # ys @ zs"
    by (rule shift_right_loop_eq) simp_all
  have c1: "\<not> (0 < length xs \<and> base < rg_base ((xs @ ys @ z # zs) ! (length xs - 1)) +
        rg_size ((xs @ ys @ z # zs) ! (length xs - 1)))"
    and c2: "\<not> (0 < length xs \<and> rg_base ((xs @ ys @ z # zs) ! (length xs - 1)) +
        rg_size ((xs @ ys @ z # zs) ! (length xs - 1)) = base)"
    using pb site_end_left(2) [OF st, of "last xs"] by (auto simp: nth_append last_conv_nth)
  have c5: "\<not> free_capacity al \<le> length xs + length ys"
    using room by (simp add: site_array [OF st])
  have c3: "\<not> (length xs < length xs + length ys \<and> rg_base ((xs @ ys @ z # zs) ! length xs) < base + sz)"
    and c4: "\<not> (length xs < length xs + length ys \<and> base + sz = rg_base ((xs @ ys @ z # zs) ! length xs))"
    using yb site_end_right(2) [OF st, of "hd ys"] by (cases ys; auto simp: nth_append)+
  show ?thesis
    unfolding free_region_insert_and_coalesce_def Let_def site_idx [OF st]
    unfolding site_array [OF st]
    by (simp only: c1 c2 c3 c4 c5 if_False sh) (simp add: list_update_append q_def)
qed

lemma coalesce_site_ex:
  assumes fc: "free_count al \<le> length (free_regions al)"
    and wf: "wf_free (abs_free al)" and pos: "0 < unat sz"
    and dj: "\<forall>x \<in> set (abs_free al). cells (region_of base sz) \<inter> cells x = {}"
    and bnd: "\<forall>x \<in> set (abs_free al). fst x + snd x < 2 ^ 64" and bnd': "unat base + unat sz < 2 ^ 64"
  obtains xs ys zs where "coalesce_site al base sz xs ys zs"
    "takeWhile (\<lambda>x. fst x < unat base) (abs_free al) = map abs_region xs"
    "dropWhile (\<lambda>x. fst x < unat base) (abs_free al) = map abs_region ys"
proof
  define R where "R = take (free_count al) (free_regions al)"
  define xs where "xs = takeWhile (\<lambda>r. rg_base r < base) R"
  define ys where "ys = dropWhile (\<lambda>r. rg_base r < base) R"
  have R: "R = xs @ ys" by (simp add: xs_def ys_def)
  have af: "abs_free al = map abs_region R" by (simp add: abs_free_def R_def)
  have comp: "(\<lambda>x. fst x < unat base) \<circ> abs_region = (\<lambda>r. rg_base r < base)"
    by (auto simp: word_less_iff_unat)
  show tw: "takeWhile (\<lambda>x. fst x < unat base) (abs_free al) = map abs_region xs"
    and dw: "dropWhile (\<lambda>x. fst x < unat base) (abs_free al) = map abs_region ys"
    by (simp_all add: af takeWhile_map dropWhile_map comp xs_def ys_def)
  note sp = give_back_split [OF wf, of "region_of base sz", OF _ dj]
  have "\<forall>r \<in> set xs. unat (rg_base r) + unat (rg_size r) \<le> unat base"
    "\<forall>r \<in> set ys. unat base + unat sz \<le> unat (rg_base r)"
    using sp(2,3) pos by (simp_all add: region_of_def tw dw)
  moreover have "\<forall>r \<in> set ys. unat (rg_base r) + unat (rg_size r) < 2 ^ 64"
    using bnd by (simp add: af R ball_Un)
  moreover have "free_regions al = xs @ ys @ drop (free_count al) (free_regions al)"
    using append_take_drop_id [of "free_count al" "free_regions al"] by (simp add: R_def [symmetric] R)
  moreover have "free_count al = length xs + length ys"
    using fc arg_cong [OF R, of length] by (simp add: R_def)
  moreover have "\<forall>r \<in> set xs. rg_base r < base" by (auto simp: xs_def dest: set_takeWhileD)
  ultimately show "coalesce_site al base sz xs ys (drop (free_count al) (free_regions al))"
    using bnd' pos by (simp add: coalesce_site_def)
qed

lemma coalesce_refines:
  assumes fc: "free_count al \<le> length (free_regions al)"
    and wf: "wf_free (abs_free al)" and pos: "0 < unat sz"
    and dj: "\<forall>x \<in> set (abs_free al). cells (region_of base sz) \<inter> cells x = {}"
    and bnd: "\<forall>x \<in> set (abs_free al). fst x + snd x < 2 ^ 64" and bnd': "unat base + unat sz < 2 ^ 64"
    and cap: "length (give_back (region_of base sz) (abs_free al)) \<le> free_capacity al"
    and fcap: "free_capacity al \<le> length (free_regions al)"
  shows "\<exists>regs' n'. free_region_insert_and_coalesce al base sz =
             (0, al\<lparr>free_regions := regs', free_count := n'\<rparr>) \<and>
           length regs' = length (free_regions al) \<and> n' \<le> length regs' \<and>
           map abs_region (take n' regs') = give_back (region_of base sz) (abs_free al)"
    (is "\<exists>regs' n'. ?P regs' n'")
proof -
  obtain xs ys zs where st: "coalesce_site al base sz xs ys zs"
    and tw: "takeWhile (\<lambda>x. fst x < unat base) (abs_free al) = map abs_region xs"
    and dw: "dropWhile (\<lambda>x. fst x < unat base) (abs_free al) = map abs_region ys"
    using coalesce_site_ex [OF fc wf pos dj bnd bnd'] .
  note ends = site_end_left(1) [OF st] site_end_right(1) [OF st]
  note arr = site_array [OF st]
  show ?thesis
  proof (cases "xs \<noteq> [] \<and> rg_base (last xs) + rg_size (last xs) = base")
    case True
    then obtain xs' p where xs: "xs = xs' @ [p]" and pb: "rg_base p + rg_size p = base"
      by (metis append_butlast_last_id)
    have pe: "unat (rg_base p) + unat (rg_size p) = unat base" using ends(1) [of p] pb xs by simp
    then have gb: "give_back (region_of base sz) (abs_free al) = map abs_region xs' @
        merge_next (unat (rg_base p), unat (rg_size p) + unat sz) (map abs_region ys)"
      by (simp add: give_back_def tw dw region_of_def xs)
    show ?thesis
    proof (cases "ys \<noteq> [] \<and> base + sz = rg_base (hd ys)")
      case True
      then obtain y ys' where ys: "ys = y # ys'" and yb: "base + sz = rg_base y" by (cases ys) auto
      note m = site_merge_both [OF st [unfolded xs ys] pb yb]
      have e: "unat base + unat sz = unat (rg_base y)" using ends(2) yb by simp
      have "unat (rg_base p) + (unat (rg_size p) + unat sz) = unat (rg_base y)" using e pe by simp
      with m(2) show ?thesis
        by (intro exI [of _ "xs' @ p\<lparr>rg_size := rg_size p + sz + rg_size y\<rparr> # ys' @ zero_region # zs"]
            exI [of _ "free_count al - 1"]) (simp add: m(1) gb arr xs ys)
    next
      case False
      then have yb: "ys \<noteq> [] \<longrightarrow> base + sz \<noteq> rg_base (hd ys)" by blast
      note m = site_merge_prev [OF st [unfolded xs] pb yb]
      have e: "merge_next (unat (rg_base p), unat (rg_size p) + unat sz) (map abs_region ys) =
          (unat (rg_base p), unat (rg_size p) + unat sz) # map abs_region ys"
        using yb ends(2) pe by (cases ys) (auto simp: word_eq_iff_unat)
      show ?thesis
        by (intro exI conjI, rule m(1)) (simp_all add: gb arr xs m(2) e)
    qed
  next
    case False
    then have pb: "xs \<noteq> [] \<longrightarrow> rg_base (last xs) + rg_size (last xs) \<noteq> base" by blast
    have gb: "give_back (region_of base sz) (abs_free al) =
        map abs_region xs @ merge_next (unat base, unat sz) (map abs_region ys)"
      using pb ends(1) [of "last xs"]
      by (cases "xs = []") (auto simp: give_back_def tw dw region_of_def last_map word_eq_iff_unat Let_def)
    show ?thesis
    proof (cases "ys \<noteq> [] \<and> base + sz = rg_base (hd ys)")
      case True
      then obtain y ys' where ys: "ys = y # ys'" and yb: "base + sz = rg_base y" by (cases ys) auto
      note m = site_merge_next [OF st [unfolded ys] pb yb]
      have e: "unat base + unat sz = unat (rg_base y)" using ends(2) yb by simp
      show ?thesis
        by (intro exI conjI, rule m(1)) (simp_all add: gb arr ys m(2) e)
    next
      case False
      then have yb: "ys \<noteq> [] \<longrightarrow> base + sz \<noteq> rg_base (hd ys)" by blast
      have gb': "give_back (region_of base sz) (abs_free al) =
          map abs_region xs @ (unat base, unat sz) # map abs_region ys"
        using yb ends(2) by (cases ys) (auto simp: gb word_eq_iff_unat)
      have room: "free_count al < free_capacity al" using cap by (simp add: gb' arr)
      then obtain z zs' where zs: "zs = z # zs'" using fcap by (cases zs) (auto simp: arr)
      show ?thesis
        by (intro exI conjI, rule site_insert [OF st [unfolded zs] pb yb room])
          (simp_all add: gb' arr zs abs_region_def)
    qed
  qed
qed

section \<open>Refinement of first fit\<close>

lemma align_up_u64_eq:
  assumes "unat n + 255 < 2 ^ 64"
  shows "unat (align_up_u64 n LMEM_ALLOC_ALIGNMENT) = (unat n + 255) div 256 * 256"
proof -
  have "(256 :: u64) - 1 = mask 8" by (simp add: mask_numeral)
  moreover have "unat (n + 256 - 1) = unat n + 255"
    using assms by (simp add: add_diff_eq [symmetric] unat_word_ariths)
  ultimately show ?thesis
    using unat_and_not_mask [of "n + 256 - 1" 8] by (simp add: align_up_u64_def LMEM_ALLOC_ALIGNMENT_def)
qed

lemma align_up_u64_bounds:
  assumes "unat n + 255 < 2 ^ 64"
  shows "n \<le> align_up_u64 n LMEM_ALLOC_ALIGNMENT"
    and "unat (align_up_u64 n LMEM_ALLOC_ALIGNMENT) < unat n + 256"
    and "256 dvd unat (align_up_u64 n LMEM_ALLOC_ALIGNMENT)"
    and "n \<noteq> 0 \<Longrightarrow> 0 < unat (align_up_u64 n LMEM_ALLOC_ALIGNMENT)"
proof -
  note e = align_up_u64_eq [OF assms]
  have m: "(unat n + 255) div 256 * 256 = unat n + 255 - (unat n + 255) mod 256"
    by (rule minus_mod_eq_div_mult [symmetric])
  have "(unat n + 255) mod 256 < 256" by simp
  then show "n \<le> align_up_u64 n LMEM_ALLOC_ALIGNMENT"
    "unat (align_up_u64 n LMEM_ALLOC_ALIGNMENT) < unat n + 256"
    by (simp_all add: word_le_iff_unat e m)
  then show "n \<noteq> 0 \<Longrightarrow> 0 < unat (align_up_u64 n LMEM_ALLOC_ALIGNMENT)"
    by (auto simp: word_le_iff_unat word_eq_iff_unat)
  show "256 dvd unat (align_up_u64 n LMEM_ALLOC_ALIGNMENT)" by (simp add: e)
qed

lemma take_region_None:
  assumes "find_index (\<lambda>r. req \<le> rg_size r) (take (free_count al) (free_regions al)) = None"
  shows "take_first_fit (unat req) (abs_free al) = None"
  using assms by (auto simp: find_index_from_None take_first_fit_None abs_free_def word_le_iff_unat not_le)

lemma take_region_refines:
  assumes fc: "free_count al \<le> length (free_regions al)"
    and bnd: "\<forall>x \<in> set (abs_free al). fst x + snd x < 2 ^ 64"
    and fi: "find_index (\<lambda>r. req \<le> rg_size r) (take (free_count al) (free_regions al)) = Some t"
  shows "\<exists>regs' n'. lmem_take_region al t req = al\<lparr>free_regions := regs', free_count := n'\<rparr> \<and>
           length regs' = length (free_regions al) \<and> n' \<le> length regs' \<and>
           take_first_fit (unat req) (abs_free al) =
             Some (unat (rg_base (free_regions al ! t)), map abs_region (take n' regs'))"
proof -
  define n where "n = free_count al"
  define xs where "xs = take t (free_regions al)"
  define r where "r = free_regions al ! t"
  define ys where "ys = take (n - Suc t) (drop (Suc t) (free_regions al))"
  define zs where "zs = drop n (free_regions al)"
  have t: "t < n" "req \<le> rg_size r" "\<forall>j < t. \<not> req \<le> rg_size (free_regions al ! j)"
    using fi fc by (auto simp: find_index_Some n_def r_def)
  have tk: "take n (free_regions al) = xs @ r # ys"
    using t fc id_take_nth_drop [of t "take n (free_regions al)"]
    by (simp add: xs_def r_def ys_def n_def drop_take min_def)
  have regs: "free_regions al = xs @ r # ys @ zs"
    using append_take_drop_id [of n "free_regions al"] by (simp add: tk zs_def)
  have len: "length xs = t" "n = Suc (t + length ys)"
    using t fc by (auto simp: xs_def ys_def n_def)
  have af: "abs_free al = map abs_region xs @ abs_region r # map abs_region ys"
    using tk by (simp add: abs_free_def n_def)
  have rt: "(xs @ r # ys @ zs) ! t = r" using len(1) by (simp add: nth_append)
  have small: "\<forall>x \<in> set (map abs_region xs). snd x < unat req"
    using t(3) len(1) fc t(1)
    by (auto simp: xs_def in_set_conv_nth n_def word_le_iff_unat not_le)
  have ff: "take_first_fit (unat req) (abs_free al) = Some (unat (rg_base r), map abs_region xs @
      (if unat (rg_size r) = unat req then map abs_region ys
       else (unat (rg_base r) + unat req, unat (rg_size r) - unat req) # map abs_region ys))"
    using take_first_fit_at [OF small, of "unat (rg_size r)" "unat (rg_base r)" "map abs_region ys"] t(2)
    by (simp add: af abs_region_def word_le_iff_unat)
  show ?thesis
  proof (cases "rg_size r = req")
    case True
    have sh: "shift_left_loop (xs @ r # ys @ zs) t (n - 1) = xs @ ys @ last (r # ys) # zs"
      by (rule shift_left_loop_eq) (simp_all add: len)
    have lt: "lmem_take_region al t req =
        al\<lparr>free_regions := xs @ ys @ zero_region # zs, free_count := n - 1\<rparr>"
      using True sh by (simp add: lmem_take_region_def Let_def n_def [symmetric] regs rt
          list_update_append len)
    show ?thesis
      by (intro exI conjI, rule lt) (simp_all add: ff regs rt len True)
  next
    case False
    have u1: "unat (rg_base r + req) = unat (rg_base r) + unat req"
      using bnd t(2) by (intro unat_add_no_wrap) (simp add: af ball_Un abs_region_def word_le_iff_unat)
    have u2: "unat (rg_size r - req) = unat (rg_size r) - unat req"
      using t(2) by (rule unat_sub_le)
    have lt: "lmem_take_region al t req = al\<lparr>free_regions := xs @
        r\<lparr>rg_base := rg_base r + req, rg_size := rg_size r - req\<rparr> # ys @ zs, free_count := n\<rparr>"
      using False by (simp add: lmem_take_region_def Let_def n_def [symmetric] regs rt
          list_update_append len lmem_count_same)
    show ?thesis
      by (intro exI conjI, rule lt)
        (use False in \<open>simp_all add: ff regs rt len u1 u2 abs_region_def word_eq_iff_unat\<close>)
  qed
qed

section \<open>Invariant\<close>

text \<open>
  The window does not wrap and is aligned; the arrays have their static sizes; free regions and
  active allocations tile the window; the counters agree with the tables.
\<close>

definition lmem_window_ok :: "addr_map \<Rightarrow> bool" where
  "lmem_window_ok am \<longleftrightarrow>
     FSA_LMEM_SIZE am \<noteq> 0 \<and> unat (FSA_LMEM_BASE am) + unat (FSA_LMEM_SIZE am) < 2 ^ 64 \<and>
     256 dvd unat (FSA_LMEM_BASE am) \<and> 256 dvd unat (FSA_LMEM_SIZE am)"

definition lmem_inv :: "addr_map \<Rightarrow> lmem_allocator_t \<Rightarrow> bool" where
  "lmem_inv am al \<longleftrightarrow>
     lmem_window_ok am \<and>
     length (free_regions al) = FORMOSA_MAX_WG_RESIDENT_LIMIT + 1 \<and>
     length (active_allocs al) = FORMOSA_MAX_WG_RESIDENT_LIMIT \<and>
     active_capacity al \<le> FORMOSA_MAX_WG_RESIDENT_LIMIT \<and>
     free_capacity al = active_capacity al + 1 \<and>
     free_count al \<le> length (free_regions al) \<and>
     tiling (unat (FSA_LMEM_BASE am)) (unat (FSA_LMEM_SIZE am)) (abs_free al) (lmem_live al) \<and>
     aligned_to 256 (set (abs_free al) \<union> lmem_live al) \<and>
     distinct (map abs_active (active_list al)) \<and>
     active_count al = length (active_list al) \<and>
     usage_bytes al = (\<Sum>a\<leftarrow>active_list al. aa_size a)"

lemma filter_update_add:
  assumes "k < length xs" and "\<not> P (xs ! k)" and "P v"
  shows "mset (filter P (xs[k := v])) = add_mset v (mset (filter P xs))"
proof -
  have "filter P xs = filter P (take k xs) @ filter P (drop (Suc k) xs)"
    using assms by (subst id_take_nth_drop [of k xs]) simp_all
  then show ?thesis using assms by (simp add: upd_conv_take_nth_drop)
qed

lemma filter_update_remove:
  assumes "k < length xs" and "P (xs ! k)" and "\<not> P v"
  shows "add_mset (xs ! k) (mset (filter P (xs[k := v]))) = mset (filter P xs)"
proof -
  have "filter P xs = filter P (take k xs) @ xs ! k # filter P (drop (Suc k) xs)"
    using assms by (subst id_take_nth_drop [of k xs]) simp_all
  then show ?thesis using assms by (simp add: upd_conv_take_nth_drop)
qed

lemma active_table_add:
  assumes "mset L' = add_mset v (mset L)"
  shows "set L' = insert v (set L)" "length L' = Suc (length L)"
    "distinct (map abs_active L') \<longleftrightarrow> abs_active v \<notin> abs_active ` set L \<and> distinct (map abs_active L)"
    "(\<Sum>a\<leftarrow>L'. aa_size a) = (\<Sum>a\<leftarrow>L. aa_size a) + aa_size v"
proof -
  have m: "mset L' = mset (v # L)" using assms by simp
  show "set L' = insert v (set L)" using mset_eq_setD [OF m] by simp
  show "length L' = Suc (length L)" using mset_eq_length [OF m] by simp
  have "mset (map abs_active L') = mset (map abs_active (v # L))" using assms by simp
  from mset_eq_imp_distinct_iff [OF this]
  show "distinct (map abs_active L') \<longleftrightarrow> abs_active v \<notin> abs_active ` set L \<and> distinct (map abs_active L)"
    by simp
  have "mset (map aa_size L') = mset (map aa_size (v # L))" using assms by simp
  then have "sum_mset (mset (map aa_size L')) = sum_mset (mset (map aa_size (v # L)))" by (rule arg_cong)
  then show "(\<Sum>a\<leftarrow>L'. aa_size a) = (\<Sum>a\<leftarrow>L. aa_size a) + aa_size v"
    unfolding sum_mset_sum_list by simp
qed

lemma lmem_inv_active_bound: "lmem_inv am al \<Longrightarrow> active_count al \<le> active_capacity al"
proof -
  assume "lmem_inv am al"
  then have "active_count al = length (active_list al)" by (simp add: lmem_inv_def)
  also have "\<dots> \<le> length (take (active_capacity al) (active_allocs al))"
    by (simp only: active_list_def length_filter_le)
  also have "\<dots> \<le> active_capacity al" by simp
  finally show ?thesis .
qed

lemma lmem_inv_region_bound:
  assumes "lmem_inv am al" and "x \<in> set (abs_free al) \<union> lmem_live al"
  shows "fst x + snd x < 2 ^ 64"
proof -
  have "fst x + snd x \<le> unat (FSA_LMEM_BASE am) + unat (FSA_LMEM_SIZE am)"
    using assms tiling_region_in_window(2) [of _ _ "abs_free al" "lmem_live al" "fst x" "snd x"]
    by (auto simp: lmem_inv_def)
  also have "\<dots> < 2 ^ 64" using assms by (simp add: lmem_inv_def lmem_window_ok_def)
  finally show ?thesis .
qed

text \<open>The components of the invariant that an operation leaves alone, and those it must re-establish.\<close>

lemma lmem_inv_update:
  assumes inv: "lmem_inv am al"
    and frame: "length (free_regions al') = length (free_regions al)"
      "length (active_allocs al') = length (active_allocs al)"
      "active_capacity al' = active_capacity al" "free_capacity al' = free_capacity al"
    and cnt: "free_count al' \<le> length (free_regions al')"
    and til: "tiling (unat (FSA_LMEM_BASE am)) (unat (FSA_LMEM_SIZE am)) (abs_free al') (lmem_live al')"
    and ali: "aligned_to 256 (set (abs_free al'))" "aligned_to 256 (lmem_live al')"
    and tab: "distinct (map abs_active (active_list al'))" "active_count al' = length (active_list al')"
      "usage_bytes al' = (\<Sum>a\<leftarrow>active_list al'. aa_size a)"
  shows "lmem_inv am al'"
  unfolding lmem_inv_def aligned_to_Un
  by (intro conjI til ali tab cnt) (use inv in \<open>simp_all only: lmem_inv_def frame\<close>)

lemma lmem_inv_init_one:
  assumes "lmem_window_ok am" and "lim \<le> FORMOSA_MAX_WG_RESIDENT_LIMIT"
  shows "lmem_inv am (lmem_init_one am lim)"
proof -
  have "abs_free (lmem_init_one am lim) = [(unat (FSA_LMEM_BASE am), unat (FSA_LMEM_SIZE am))]"
    by (simp add: abs_free_def lmem_init_one_def abs_region_def)
  moreover have "active_list (lmem_init_one am lim) = []"
    by (auto simp: active_list_def lmem_init_one_def filter_empty_conv zero_active_def dest!: in_set_takeD)
  ultimately show ?thesis
    using assms tiling_init [of "unat (FSA_LMEM_SIZE am)" "unat (FSA_LMEM_BASE am)"]
    by (simp add: lmem_inv_def lmem_live_def lmem_window_ok_def aligned_to_def unat_pos_iff)
      (simp add: lmem_init_one_def)
qed

lemma lmem_init_one_free:
  "abs_free (lmem_init_one am lim) = [(unat (FSA_LMEM_BASE am), unat (FSA_LMEM_SIZE am))]"
  by (simp add: abs_free_def lmem_init_one_def abs_region_def)

lemma lmem_init_one_live: "lmem_live (lmem_init_one am lim) = {}"
  by (auto simp: lmem_live_def active_list_def lmem_init_one_def zero_active_def dest!: in_set_takeD)

lemma lmem_init_one_capacity: "active_capacity (lmem_init_one am lim) = lim"
  by (simp add: lmem_init_one_def)

section \<open>Allocation\<close>

text \<open>With a spare table entry the scan for one succeeds: the rollback branch is dead.\<close>

lemma lmem_slot_exists:
  assumes "lmem_inv am al" and "active_count al < active_capacity al"
  shows "\<exists>slot. find_index (\<lambda>a. aa_valid a = 0) (take (active_capacity al) (active_allocs al)) = Some slot"
proof (rule ccontr)
  assume "\<nexists>slot. find_index (\<lambda>a. aa_valid a = 0) (take (active_capacity al) (active_allocs al)) = Some slot"
  then have "\<forall>a \<in> set (take (active_capacity al) (active_allocs al)). aa_valid a \<noteq> 0"
    by (simp add: find_index_from_None)
  then have "active_list al = take (active_capacity al) (active_allocs al)"
    by (simp add: active_list_def)
  with assms show False by (simp add: lmem_inv_def)
qed

lemma lmem_alloc_critical_ok:
  assumes inv: "lmem_inv am al" and req: "256 dvd unat req" "0 < unat req"
    and room: "active_count al < active_capacity al"
    and ff: "take_first_fit (unat req) (abs_free al) = Some (a, fl')"
  shows "\<exists>b al'. lmem_alloc_critical al req = (0, b, al') \<and> unat b = a \<and> lmem_inv am al' \<and>
           abs_free al' = fl' \<and> lmem_live al' = insert (region_of b req) (lmem_live al)"
proof -
  have fc: "free_count al \<le> length (free_regions al)" using inv by (simp add: lmem_inv_def)
  have bnd: "\<forall>x \<in> set (abs_free al). fst x + snd x < 2 ^ 64"
    using lmem_inv_region_bound [OF inv] by blast
  obtain t where t: "find_index (\<lambda>r. req \<le> rg_size r) (take (free_count al) (free_regions al)) = Some t"
    using take_region_None [of req al] ff by fastforce
  define b where "b = rg_base (free_regions al ! t)"
  obtain regs' n' where tr: "lmem_take_region al t req = al\<lparr>free_regions := regs', free_count := n'\<rparr>"
    and len: "length regs' = length (free_regions al)" "n' \<le> length regs'"
    and ff': "take_first_fit (unat req) (abs_free al) = Some (unat b, map abs_region (take n' regs'))"
    using take_region_refines [OF fc bnd t] by (auto simp: b_def)
  have ab: "unat b = a" and fl': "fl' = map abs_region (take n' regs')" using ff ff' by simp_all
  obtain slot where slot: "find_index (\<lambda>a. aa_valid a = 0)
      (take (active_capacity al) (active_allocs al)) = Some slot"
    using lmem_slot_exists [OF inv room] by blast
  define v where "v = \<lparr>aa_base = b, aa_size = req, aa_valid = 1\<rparr>"
  define al' where "al' = al\<lparr>free_regions := regs', free_count := n',
      active_allocs := (active_allocs al)[slot := v], active_count := active_count al + 1,
      usage_bytes := usage_bytes al + req\<rparr>"
  have code: "lmem_alloc_critical al req = (0, b, al')"
    using room t slot by (simp add: lmem_alloc_critical_def b_def [symmetric] tr v_def al'_def)
  have "active_list al' = filter (\<lambda>a. aa_valid a \<noteq> 0)
      ((take (active_capacity al) (active_allocs al))[slot := v])"
    by (simp add: active_list_def al'_def take_update_swap)
  then have "mset (active_list al') = add_mset v (mset (active_list al))"
    using find_index_SomeD [OF slot]
    by (simp only: active_list_def) (rule filter_update_add, simp_all add: v_def)
  note tab = active_table_add [OF this]
  have va: "abs_active v = region_of b req" by (simp add: v_def abs_active_def region_of_def)
  have live: "lmem_live al' = insert (region_of b req) (lmem_live al)"
    by (simp add: lmem_live_def tab va)
  have free: "abs_free al' = fl'" by (simp add: abs_free_def al'_def fl')
  have til: "tiling (unat (FSA_LMEM_BASE am)) (unat (FSA_LMEM_SIZE am)) (abs_free al) (lmem_live al)"
    using inv by (simp add: lmem_inv_def)
  note tt = tiling_take [OF til ff req(2)]
  note at = take_first_fit_aligned [OF ff, of 256, OF _ req(1)]
  have "lmem_inv am al'"
    using inv tt(1,2) at len room live free tab va ab req(1)
    unfolding lmem_inv_def
    by (auto simp: aligned_to_Un aligned_to_insert lmem_live_def region_of_def al'_def v_def)
  then show ?thesis using code ab free live by blast
qed

lemma lmem_alloc_critical_fail:
  assumes "active_capacity al \<le> active_count al \<or> take_first_fit (unat req) (abs_free al) = None"
  shows "lmem_alloc_critical al req = (-1, 0, al)"
proof -
  have "take_first_fit (unat req) (abs_free al) = None \<Longrightarrow>
      find_index (\<lambda>r. req \<le> rg_size r) (take (free_count al) (free_regions al)) = None"
    by (auto simp: find_index_from_None take_first_fit_None abs_free_def word_le_iff_unat not_le)
  with assms show ?thesis by (auto simp: lmem_alloc_critical_def)
qed

section \<open>Release\<close>

lemma lmem_free_critical_ok:
  assumes inv: "lmem_inv am al" and live: "(unat base, m) \<in> lmem_live al"
  shows "\<exists>al'. lmem_free_critical al base = (0, al') \<and> lmem_inv am al' \<and>
           abs_free al' = give_back (unat base, m) (abs_free al) \<and>
           lmem_live al' = lmem_live al - {(unat base, m)}"
proof -
  let ?A = "take (active_capacity al) (active_allocs al)"
  let ?P = "\<lambda>a. aa_valid a \<noteq> 0"
  have til: "tiling (unat (FSA_LMEM_BASE am)) (unat (FSA_LMEM_SIZE am)) (abs_free al) (lmem_live al)"
    using inv by (simp add: lmem_inv_def)
  obtain a where a: "a \<in> set ?A" "aa_valid a \<noteq> 0" "aa_base a = base"
    using live by (force simp: lmem_live_def active_list_def abs_active_def word_eq_iff_unat)
  then obtain slot where slot: "find_index (\<lambda>a. aa_valid a \<noteq> 0 \<and> aa_base a = base) ?A = Some slot"
    using find_index_exists [of a ?A "\<lambda>a. aa_valid a \<noteq> 0 \<and> aa_base a = base"] by blast
  note sl = find_index_SomeD [OF slot]
  define e where "e = active_allocs al ! slot"
  have e: "?A ! slot = e" "aa_valid e \<noteq> 0" "aa_base e = base" using sl by (auto simp: e_def)
  then have "abs_active e \<in> lmem_live al"
    using sl(1) nth_mem [OF sl(1)] by (auto simp: lmem_live_def active_list_def)
  then have m: "m = unat (aa_size e)"
    using tiling_live_base [OF til live, of "unat (aa_size e)"] e by (simp add: abs_active_def)
  have reg: "region_of base (aa_size e) = (unat base, m)" by (simp add: region_of_def m)
  have tg: "tiling (unat (FSA_LMEM_BASE am)) (unat (FSA_LMEM_SIZE am))
      (give_back (unat base, m) (abs_free al)) (lmem_live al - {(unat base, m)})"
    by (rule tiling_give_back [OF til live])
  have fin: "finite (lmem_live al)" by (simp add: lmem_live_def)
  have card: "card (lmem_live al) = active_count al"
    using inv by (simp add: lmem_live_def lmem_inv_def distinct_card flip: set_map)
  have cap: "length (give_back (unat base, m) (abs_free al)) \<le> free_capacity al"
  proof -
    have "0 < card (lmem_live al)" using live fin by (auto simp: card_gt_0_iff)
    then have "card (lmem_live al - {(unat base, m)}) + 1 = active_count al"
      using live fin card by simp
    with tiling_free_count [OF tg] lmem_inv_active_bound [OF inv] inv show ?thesis
      by (simp add: lmem_inv_def)
  qed
  obtain regs' n' where co: "free_region_insert_and_coalesce al base (aa_size e) =
      (0, al\<lparr>free_regions := regs', free_count := n'\<rparr>)"
    and len: "length regs' = length (free_regions al)" "n' \<le> length regs'"
    and fl: "map abs_region (take n' regs') = give_back (unat base, m) (abs_free al)"
  proof -
    have "\<exists>regs' n'. free_region_insert_and_coalesce al base (aa_size e) =
             (0, al\<lparr>free_regions := regs', free_count := n'\<rparr>) \<and>
           length regs' = length (free_regions al) \<and> n' \<le> length regs' \<and>
           map abs_region (take n' regs') = give_back (region_of base (aa_size e)) (abs_free al)"
    proof (rule coalesce_refines)
      show "\<forall>x \<in> set (abs_free al). cells (region_of base (aa_size e)) \<inter> cells x = {}"
        unfolding reg using tiling_live_free [OF til live] by blast
      show "\<forall>x \<in> set (abs_free al). fst x + snd x < 2 ^ 64"
        using lmem_inv_region_bound [OF inv] by blast
      show "unat base + unat (aa_size e) < 2 ^ 64"
        using lmem_inv_region_bound [OF inv, of "(unat base, m)"] live by (simp add: m)
      show "0 < unat (aa_size e)"
        using til live by (auto simp: tiling_def m)
    qed (use inv cap til reg in \<open>auto simp: lmem_inv_def tiling_def\<close>)
    with that show ?thesis unfolding reg by blast
  qed
  define al' where "al' = al\<lparr>free_regions := regs', free_count := n',
      active_allocs := (active_allocs al)[slot := zero_active], active_count := active_count al - 1,
      usage_bytes := usage_bytes al - aa_size e\<rparr>"
  have code: "lmem_free_critical al base = (0, al')"
    using slot co by (simp add: lmem_free_critical_def e_def [symmetric] al'_def)
  have al'l: "active_list al' = filter ?P (?A[slot := zero_active])"
    by (simp add: active_list_def al'_def take_update_swap)
  have "add_mset (?A ! slot) (mset (filter ?P (?A[slot := zero_active]))) = mset (filter ?P ?A)"
    by (rule filter_update_remove) (use sl(1) e in \<open>auto simp: zero_active_def\<close>)
  then have ms: "mset (active_list al) = add_mset e (mset (active_list al'))"
    by (simp only: al'l active_list_def [of al] e(1))
  note tab = active_table_add [OF ms]
  have ea: "abs_active e = (unat base, m)" using e by (simp add: abs_active_def m)
  have live': "lmem_live al' = lmem_live al - {(unat base, m)}"
    using tab(3) inv ea by (auto simp: lmem_inv_def lmem_live_def tab(1))
  have free': "abs_free al' = give_back (unat base, m) (abs_free al)"
    by (simp add: abs_free_def al'_def fl)
  have al: "aligned_to 256 (set (abs_free al))" "aligned_to 256 (lmem_live al)"
    using inv by (simp_all add: lmem_inv_def aligned_to_Un)
  have ali: "aligned_to 256 (set (give_back (unat base, m) (abs_free al)))"
    using aligned_toD [OF al(2) live] by (intro give_back_aligned al(1)) simp_all
  have alv: "aligned_to 256 (lmem_live al - {(unat base, m)})"
    using al(2) by (rule aligned_to_mono) blast
  have cnt: "active_count al - 1 = length (active_list al')"
    using inv tab(2) by (simp add: lmem_inv_def)
  have use: "usage_bytes al - aa_size e = (\<Sum>a\<leftarrow>active_list al'. aa_size a)"
    using inv tab(4) by (simp add: lmem_inv_def)
  have "lmem_inv am al'"
  proof (rule lmem_inv_update [OF inv])
    show "distinct (map abs_active (active_list al'))" using inv tab(3) by (simp add: lmem_inv_def)
    show "tiling (unat (FSA_LMEM_BASE am)) (unat (FSA_LMEM_SIZE am)) (abs_free al') (lmem_live al')"
      unfolding live' free' by (rule tg)
    show "aligned_to 256 (set (abs_free al'))" unfolding free' by (rule ali)
    show "aligned_to 256 (lmem_live al')" unfolding live' by (rule alv)
    show "active_count al' = length (active_list al')" unfolding cnt [symmetric] by (simp add: al'_def)
    show "usage_bytes al' = (\<Sum>a\<leftarrow>active_list al'. aa_size a)"
      unfolding use [symmetric] by (simp add: al'_def)
  qed (use len in \<open>simp_all add: al'_def\<close>)
  then show ?thesis using code live' free' by blast
qed

lemma lmem_free_critical_unknown:
  assumes "\<nexists>m. (unat base, m) \<in> lmem_live al"
  shows "lmem_free_critical al base = (-1, al)"
proof -
  have "find_index (\<lambda>a. aa_valid a \<noteq> 0 \<and> aa_base a = base)
      (take (active_capacity al) (active_allocs al)) = None"
    using assms by (auto simp: find_index_from_None lmem_live_def active_list_def abs_active_def)
  then show ?thesis by (simp add: lmem_free_critical_def)
qed

section \<open>The interface\<close>

text \<open>
  The two entry points as a client sees them, on the allocator of one SM of the global table,
  and the contract they satisfy.
\<close>

definition lmem_alloc_op ::
  "addr_map \<Rightarrow> u64 \<Rightarrow> nat \<Rightarrow> u64 \<Rightarrow> lmem_allocator_t list \<Rightarrow> (u64 \<times> lmem_allocator_t list) option" where
  "lmem_alloc_op am g_num_sm sm n s =
     (case cp_lmem_allocator_alloc am g_num_sm s sm n True of
        (rc, base, s') \<Rightarrow> (case base of None \<Rightarrow> None | Some b \<Rightarrow> Some (b, s')))"

definition lmem_free_op ::
  "u64 \<Rightarrow> nat \<Rightarrow> u64 \<Rightarrow> lmem_allocator_t list \<Rightarrow> lmem_allocator_t list option" where
  "lmem_free_op g_num_sm sm b s =
     (case cp_lmem_allocator_free g_num_sm s sm b of
        (rc, s') \<Rightarrow> if rc = 0 then Some s' else None)"

definition lmem_table_inv :: "addr_map \<Rightarrow> u64 \<Rightarrow> nat \<Rightarrow> lmem_allocator_t list \<Rightarrow> bool" where
  "lmem_table_inv am g_num_sm sm s \<longleftrightarrow>
     sm < unat g_num_sm \<and> sm < length s \<and> lmem_inv am (s ! sm)"

definition lmem_request_ok :: "u64 \<Rightarrow> bool" where
  "lmem_request_ok n \<longleftrightarrow> unat n + 255 < 2 ^ 64"

abbreviation lmem_round :: "u64 \<Rightarrow> u64" where
  "lmem_round n \<equiv> align_up_u64 n LMEM_ALLOC_ALIGNMENT"

lemma lmem_alloc_cases:
  assumes inv: "lmem_table_inv am g_num_sm sm s" and ok: "lmem_request_ok n"
  shows "(cp_lmem_allocator_alloc am g_num_sm s sm n True = (-1, None, s) \<and>
           (n = 0 \<or> FSA_LMEM_SIZE am < lmem_round n \<or>
            active_count (s ! sm) = active_capacity (s ! sm) \<or>
            (\<forall>r \<in> set (abs_free (s ! sm)). snd r < unat (lmem_round n)))) \<or>
         (\<exists>b al'. cp_lmem_allocator_alloc am g_num_sm s sm n True = (0, Some b, s[sm := al']) \<and>
            n \<noteq> 0 \<and> lmem_inv am al' \<and>
            take_first_fit (unat (lmem_round n)) (abs_free (s ! sm)) = Some (unat b, abs_free al') \<and>
            lmem_live al' = insert (region_of b (lmem_round n)) (lmem_live (s ! sm)))"
proof -
  have sm: "\<not> unat g_num_sm \<le> sm" and al: "lmem_inv am (s ! sm)" and len: "sm < length s"
    using inv by (auto simp: lmem_table_inv_def)
  note bounds = align_up_u64_bounds [OF ok [unfolded lmem_request_ok_def]]
  consider (bad) "n = 0 \<or> FSA_LMEM_SIZE am < lmem_round n"
    | (full) "n \<noteq> 0" "\<not> FSA_LMEM_SIZE am < lmem_round n"
        "active_capacity (s ! sm) \<le> active_count (s ! sm) \<or>
         take_first_fit (unat (lmem_round n)) (abs_free (s ! sm)) = None"
    | (fit) a fl' where "n \<noteq> 0" "\<not> FSA_LMEM_SIZE am < lmem_round n"
        "active_count (s ! sm) < active_capacity (s ! sm)"
        "take_first_fit (unat (lmem_round n)) (abs_free (s ! sm)) = Some (a, fl')"
    by fastforce
  then show ?thesis
  proof cases
    case bad
    then show ?thesis by (auto simp: cp_lmem_allocator_alloc_def Let_def)
  next
    case full
    with lmem_alloc_critical_fail [OF full(3)] sm lmem_inv_active_bound [OF al] show ?thesis
      by (auto simp: cp_lmem_allocator_alloc_def Let_def take_first_fit_None)
  next
    case fit
    from lmem_alloc_critical_ok [OF al bounds(3) bounds(4) [OF fit(1)] fit(3,4)] fit sm show ?thesis
      by (fastforce simp: cp_lmem_allocator_alloc_def Let_def)
  qed
qed

lemma lmem_free_cases:
  assumes inv: "lmem_table_inv am g_num_sm sm s"
  shows "((\<nexists>m. (unat b, m) \<in> lmem_live (s ! sm)) \<and> cp_lmem_allocator_free g_num_sm s sm b = (-1, s)) \<or>
         (\<exists>m al'. (unat b, m) \<in> lmem_live (s ! sm) \<and>
            cp_lmem_allocator_free g_num_sm s sm b = (0, s[sm := al']) \<and> lmem_inv am al' \<and>
            abs_free al' = give_back (unat b, m) (abs_free (s ! sm)) \<and>
            lmem_live al' = lmem_live (s ! sm) - {(unat b, m)})"
proof -
  have sm: "\<not> unat g_num_sm \<le> sm" and al: "lmem_inv am (s ! sm)"
    using inv by (auto simp: lmem_table_inv_def)
  show ?thesis
  proof (cases "\<exists>m. (unat b, m) \<in> lmem_live (s ! sm)")
    case True
    then obtain m where m: "(unat b, m) \<in> lmem_live (s ! sm)" by blast
    from lmem_free_critical_ok [OF al m] m sm show ?thesis
      by (fastforce simp: cp_lmem_allocator_free_def)
  next
    case False
    with lmem_free_critical_unknown [OF False] sm show ?thesis
      by (simp add: cp_lmem_allocator_free_def)
  qed
qed

lemma lmem_alloc_op_Some:
  assumes "lmem_table_inv am g_num_sm sm s" and "lmem_request_ok n"
    and "lmem_alloc_op am g_num_sm sm n s = Some (b, s')"
  shows "\<exists>al'. s' = s[sm := al'] \<and> lmem_inv am al' \<and> n \<noteq> 0 \<and>
            take_first_fit (unat (lmem_round n)) (abs_free (s ! sm)) = Some (unat b, abs_free al') \<and>
            lmem_live al' = insert (region_of b (lmem_round n)) (lmem_live (s ! sm))"
proof (rule disjE [OF lmem_alloc_cases [OF assms(1,2)]]; (elim exE conjE)?)
  assume "cp_lmem_allocator_alloc am g_num_sm s sm n True = (-1, None, s)"
  with assms(3) show ?thesis by (simp add: lmem_alloc_op_def)
next
  fix b' al'
  assume "cp_lmem_allocator_alloc am g_num_sm s sm n True = (0, Some b', s[sm := al'])"
  with assms(3) have eq: "s' = s[sm := al']" "b' = b" by (simp_all add: lmem_alloc_op_def)
  assume "n \<noteq> 0" "lmem_inv am al'"
    "take_first_fit (unat (lmem_round n)) (abs_free (s ! sm)) = Some (unat b', abs_free al')"
    "lmem_live al' = insert (region_of b' (lmem_round n)) (lmem_live (s ! sm))"
  with eq show ?thesis by blast
qed

lemma lmem_free_op_Some:
  assumes "lmem_table_inv am g_num_sm sm s" and "lmem_free_op g_num_sm sm b s = Some s'"
  shows "\<exists>m al'. (unat b, m) \<in> lmem_live (s ! sm) \<and> s' = s[sm := al'] \<and> lmem_inv am al' \<and>
            lmem_live al' = lmem_live (s ! sm) - {(unat b, m)}"
  using lmem_free_cases [OF assms(1), of b]
proof (elim disjE exE conjE)
  assume "cp_lmem_allocator_free g_num_sm s sm b = (-1, s)"
  with assms(2) show ?thesis by (simp add: lmem_free_op_def)
next
  fix m al'
  assume "cp_lmem_allocator_free g_num_sm s sm b = (0, s[sm := al'])"
  with assms(2) have "s' = s[sm := al']" by (simp add: lmem_free_op_def)
  moreover assume "(unat b, m) \<in> lmem_live (s ! sm)" "lmem_inv am al'"
    "lmem_live al' = lmem_live (s ! sm) - {(unat b, m)}"
  ultimately show ?thesis by blast
qed

interpretation lmem: region_allocator
  "lmem_table_inv am g_num_sm sm" "\<lambda>s. lmem_live (s ! sm)" lmem_request_ok lmem_round
  "lmem_alloc_op am g_num_sm sm" "lmem_free_op g_num_sm sm"
  "unat (FSA_LMEM_BASE am)" "unat (FSA_LMEM_SIZE am)"
proof
  fix s r assume i: "lmem_table_inv am g_num_sm sm s"
  then have t: "tiling (unat (FSA_LMEM_BASE am)) (unat (FSA_LMEM_SIZE am))
      (abs_free (s ! sm)) (lmem_live (s ! sm))" and sm: "sm < length s" "sm < unat g_num_sm"
    by (auto simp: lmem_table_inv_def lmem_inv_def)
  show "finite (lmem_live (s ! sm))" by (simp add: lmem_live_def)
  show "r \<in> lmem_live (s ! sm) \<Longrightarrow>
      cells r \<subseteq> {unat (FSA_LMEM_BASE am)..<unat (FSA_LMEM_BASE am) + unat (FSA_LMEM_SIZE am)}"
    by (rule tiling_live_window [OF t])
  show "r \<in> lmem_live (s ! sm) \<Longrightarrow> 0 < snd r" using t by (auto simp: tiling_def)
  show "cells r \<inter> cells r' = {}"
    if "r \<in> lmem_live (s ! sm)" "r' \<in> lmem_live (s ! sm)" "r \<noteq> r'" for r'
    by (rule tiling_live_disjoint [OF t that])
  fix n b s'
  show "lmem_table_inv am g_num_sm sm s'"
    if "lmem_request_ok n" "lmem_alloc_op am g_num_sm sm n s = Some (b, s')"
    using lmem_alloc_op_Some [OF i that] sm by (auto simp: lmem_table_inv_def)
  show "lmem_live (s' ! sm) = insert (region_of b (lmem_round n)) (lmem_live (s ! sm)) \<and>
      region_of b (lmem_round n) \<notin> lmem_live (s ! sm)"
    if ok: "lmem_request_ok n" and a: "lmem_alloc_op am g_num_sm sm n s = Some (b, s')"
  proof -
    obtain al' where al': "s' = s[sm := al']" "n \<noteq> 0"
      "take_first_fit (unat (lmem_round n)) (abs_free (s ! sm)) = Some (unat b, abs_free al')"
      "lmem_live al' = insert (region_of b (lmem_round n)) (lmem_live (s ! sm))"
      using lmem_alloc_op_Some [OF i ok a] by blast
    have "0 < unat (lmem_round n)"
      using align_up_u64_bounds(4) ok al'(2) by (simp add: lmem_request_ok_def)
    from tiling_take(2) [OF t al'(3) this] al' sm show ?thesis by (simp add: region_of_def)
  qed
  show "lmem_table_inv am g_num_sm sm s'" if d: "lmem_free_op g_num_sm sm b s = Some s'"
  proof -
    obtain al' where "s' = s[sm := al']" "lmem_inv am al'" using lmem_free_op_Some [OF i d] by blast
    with sm show ?thesis by (simp add: lmem_table_inv_def)
  qed
  show "\<exists>n. (unat b, n) \<in> lmem_live (s ! sm) \<and> lmem_live (s' ! sm) = lmem_live (s ! sm) - {(unat b, n)}"
    if d: "lmem_free_op g_num_sm sm b s = Some s'"
  proof -
    obtain m al' where "(unat b, m) \<in> lmem_live (s ! sm)" "s' = s[sm := al']"
      "lmem_live al' = lmem_live (s ! sm) - {(unat b, m)}"
      using lmem_free_op_Some [OF i d] by blast
    with sm(1) have "lmem_live (s' ! sm) = lmem_live (s ! sm) - {(unat b, m)}" by simp
    with \<open>(unat b, m) \<in> lmem_live (s ! sm)\<close> show ?thesis by blast
  qed
  show "\<exists>s'. lmem_free_op g_num_sm sm b s = Some s'" if "(unat b, m) \<in> lmem_live (s ! sm)" for m
    using lmem_free_cases [OF i, of b] that by (auto simp: lmem_free_op_def)
qed

section \<open>Initialisation of the table\<close>

definition limit_ok :: "u64 \<Rightarrow> bool" where
  "limit_ok l \<longleftrightarrow> l \<noteq> 0 \<and> l \<le> of_nat FORMOSA_MAX_WG_RESIDENT_LIMIT"

lemma limit_ok_unat: "limit_ok l \<Longrightarrow> unat l \<le> FORMOSA_MAX_WG_RESIDENT_LIMIT"
  by (simp add: limit_ok_def FORMOSA_MAX_WG_RESIDENT_LIMIT_def word_le_iff_unat)

lemma lmem_init_from_ok:
  assumes "list_all limit_ok limits" and "i + length limits \<le> length allocs"
  shows "\<exists>allocs'. lmem_init_from am i limits allocs = (0, allocs') \<and> length allocs' = length allocs \<and>
           (\<forall>j < length limits. allocs' ! (i + j) = lmem_init_one am (unat (limits ! j))) \<and>
           (\<forall>j < i. allocs' ! j = allocs ! j)"
  using assms
proof (induction limits arbitrary: i allocs)
  case Nil
  then show ?case by simp
next
  case (Cons l limits)
  let ?a = "allocs[i := lmem_init_one am (unat l)]"
  from Cons.IH [of "Suc i" ?a] Cons.prems obtain allocs' where
    a: "lmem_init_from am (Suc i) limits ?a = (0, allocs')" "length allocs' = length allocs"
      "\<forall>j < length limits. allocs' ! (Suc i + j) = lmem_init_one am (unat (limits ! j))"
      "\<forall>j < Suc i. allocs' ! j = ?a ! j"
    by auto
  have "allocs' ! (i + j) = lmem_init_one am (unat ((l # limits) ! j))" if "j < Suc (length limits)" for j
    using a(3,4) that Cons.prems by (cases j) auto
  then show ?case
    using a Cons.prems by (auto simp: limit_ok_def linorder_not_less)
qed

lemma lmem_init_from_bad:
  "\<not> list_all limit_ok limits \<Longrightarrow> fst (lmem_init_from am i limits allocs) = -1"
  by (induction limits arbitrary: i allocs) (auto simp: limit_ok_def linorder_not_less)

section \<open>Properties\<close>

text \<open>A two-SM table on the default address map, at which the properties are evaluated.\<close>

definition lmem_demo :: "lmem_allocator_t list" where
  "lmem_demo = [lmem_init_one default_addr_map 2, lmem_init_one default_addr_map 2]"

lemma lmem_demo_window: "lmem_window_ok default_addr_map"
  by (simp add: lmem_window_ok_def default_addr_map_def)

lemma lmem_demo_inv: "lmem_table_inv default_addr_map 2 0 lmem_demo"
  using lmem_inv_init_one [OF lmem_demo_window, of 2]
  by (simp add: lmem_table_inv_def lmem_demo_def FORMOSA_MAX_WG_RESIDENT_LIMIT_def)

lemma lmem_demo_alloc:
  "\<exists>s'. cp_lmem_allocator_alloc default_addr_map 2 lmem_demo 0 300 True = (0, Some 0, s')"
proof -
  have "fst (cp_lmem_allocator_alloc default_addr_map 2 lmem_demo 0 300 True) = 0 \<and>
      fst (snd (cp_lmem_allocator_alloc default_addr_map 2 lmem_demo 0 300 True)) = Some 0"
    by code_simp
  then show ?thesis by (metis prod.collapse)
qed

text \<open>
  Initialisation succeeds exactly when every SM reports a resident limit between one and the
  metadata capacity, and then every SM's allocator satisfies the invariant with nothing live and
  the whole local memory as one free region.
\<close>

lemma lmem_init_correct:
  assumes "lmem_window_ok am" and "length limits \<le> length allocs" and "length limits < 2 ^ 64"
  shows "case cp_lmem_allocator_init am limits allocs of (rc, allocs') \<Rightarrow>
           if \<forall>l \<in> set limits. l \<noteq> 0 \<and> l \<le> of_nat FORMOSA_MAX_WG_RESIDENT_LIMIT
           then rc = 0 \<and> (\<forall>sm < length limits.
                  lmem_table_inv am (of_nat (length limits)) sm allocs' \<and>
                  lmem_live (allocs' ! sm) = {} \<and>
                  abs_free (allocs' ! sm) = [(unat (FSA_LMEM_BASE am), unat (FSA_LMEM_SIZE am))] \<and>
                  active_capacity (allocs' ! sm) = unat (limits ! sm))
           else rc = -1"
proof (cases "list_all limit_ok limits")
  case True
  with lmem_init_from_ok [of limits 0 allocs am] assms(2) obtain allocs' where
    a: "lmem_init_from am 0 limits allocs = (0, allocs')" "length allocs' = length allocs"
      "\<forall>j < length limits. allocs' ! j = lmem_init_one am (unat (limits ! j))"
    by auto
  have "limit_ok (limits ! j)" if "j < length limits" for j
    using True that by (simp add: list_all_length)
  then have "lmem_inv am (allocs' ! j)" if "j < length limits" for j
    using lmem_inv_init_one [OF assms(1) limit_ok_unat] a(3) that by simp
  moreover have "unat (of_nat (length limits) :: u64) = length limits"
    using assms(3) by (intro unat_of_nat_lt) simp
  ultimately show ?thesis
    using True a assms(2)
    by (auto simp: cp_lmem_allocator_init_def lmem_table_inv_def list_all_iff limit_ok_def
        lmem_init_one_live lmem_init_one_free lmem_init_one_capacity)
next
  case False
  then show ?thesis
    using lmem_init_from_bad [OF False, of am 0 allocs]
    by (auto simp: cp_lmem_allocator_init_def list_all_iff limit_ok_def split: prod.splits)
qed

text \<open>
  C2. Allocation on one SM: on failure the table is unchanged and the request is too large, the
  table of active allocations is full, or no free region is large enough; on success the block is
  256-byte aligned, inside the local memory window and disjoint from every live block, the
  invariant holds again, the block is recorded as live, and the other SMs are untouched.
\<close>

theorem lmem_alloc_correct:
  assumes "lmem_table_inv am g_num_sm sm s" and "lmem_request_ok n" and "n \<noteq> 0"
  shows "case cp_lmem_allocator_alloc am g_num_sm s sm n True of
           (rc, None, s') \<Rightarrow> rc = -1 \<and> s' = s \<and>
              (FSA_LMEM_SIZE am < lmem_round n \<or> active_count (s ! sm) = active_capacity (s ! sm) \<or>
               (\<forall>r \<in> set (abs_free (s ! sm)). snd r < unat (lmem_round n)))
         | (rc, Some b, s') \<Rightarrow> rc = 0 \<and> lmem_table_inv am g_num_sm sm s' \<and>
              256 dvd unat b \<and>
              cells (region_of b (lmem_round n)) \<subseteq>
                {unat (FSA_LMEM_BASE am)..<unat (FSA_LMEM_BASE am) + unat (FSA_LMEM_SIZE am)} \<and>
              (\<forall>r \<in> lmem_live (s ! sm). cells (region_of b (lmem_round n)) \<inter> cells r = {}) \<and>
              lmem_live (s' ! sm) = insert (region_of b (lmem_round n)) (lmem_live (s ! sm)) \<and>
              (\<exists>r \<in> set (abs_free (s ! sm)). unat (lmem_round n) \<le> snd r) \<and>
              (\<forall>j. j \<noteq> sm \<longrightarrow> s' ! j = s ! j)"
proof (rule disjE [OF lmem_alloc_cases [OF assms(1,2)]]; (elim exE conjE)?)
  assume "cp_lmem_allocator_alloc am g_num_sm s sm n True = (-1, None, s)"
    "n = 0 \<or> FSA_LMEM_SIZE am < lmem_round n \<or> active_count (s ! sm) = active_capacity (s ! sm) \<or>
      (\<forall>r \<in> set (abs_free (s ! sm)). snd r < unat (lmem_round n))"
  with assms(3) show ?thesis by simp
next
  fix b al'
  assume c: "cp_lmem_allocator_alloc am g_num_sm s sm n True = (0, Some b, s[sm := al'])"
    and inv': "lmem_inv am al'"
    and ff: "take_first_fit (unat (lmem_round n)) (abs_free (s ! sm)) = Some (unat b, abs_free al')"
    and live': "lmem_live al' = insert (region_of b (lmem_round n)) (lmem_live (s ! sm))"
  let ?s = "s[sm := al']"
  have op: "lmem_alloc_op am g_num_sm sm n s = Some (b, ?s)" by (simp add: lmem_alloc_op_def c)
  have sm: "sm < length s" using assms(1) by (simp add: lmem_table_inv_def)
  note i' = lmem.alloc_inv [OF assms(1,2) op]
  have mem: "region_of b (lmem_round n) \<in> lmem_live (?s ! sm)" using live' sm by simp
  have "aligned_to 256 (lmem_live al')" using inv' by (simp add: lmem_inv_def aligned_to_Un)
  from aligned_toD [OF this, of "region_of b (lmem_round n)"] live'
  have al: "256 dvd unat b" by (simp add: region_of_def)
  have "\<exists>r \<in> set (abs_free (s ! sm)). unat (lmem_round n) \<le> snd r"
    using ff take_first_fit_None [of "unat (lmem_round n)" "abs_free (s ! sm)"] by force
  with lmem.live_window [OF i' mem] lmem.alloc_disjoint [OF assms(1,2) op] i' al live' sm
  show ?thesis by (simp add: c)
qed

theorem lmem_alloc_correct_witness:
  "fst (cp_lmem_allocator_alloc default_addr_map 2 lmem_demo 0 300 True) = 0 \<and>
   lmem_table_inv default_addr_map 2 0
     (snd (snd (cp_lmem_allocator_alloc default_addr_map 2 lmem_demo 0 300 True)))"
proof -
  obtain s' where s': "cp_lmem_allocator_alloc default_addr_map 2 lmem_demo 0 300 True = (0, Some 0, s')"
    using lmem_demo_alloc by blast
  have "lmem_request_ok 300" by (simp add: lmem_request_ok_def)
  from lmem_alloc_correct [OF lmem_demo_inv this] show ?thesis by (simp add: s')
qed

text \<open>
  C5. Release on one SM: a base that is live is always accepted (the table of free regions never
  runs out of entries), exactly its block stops being live and the invariant holds again; any
  other base, a second release included, is refused without a change.
\<close>

theorem lmem_free_correct:
  assumes "lmem_table_inv am g_num_sm sm s"
  shows "case cp_lmem_allocator_free g_num_sm s sm b of (rc, s') \<Rightarrow>
           if \<exists>m. (unat b, m) \<in> lmem_live (s ! sm)
           then rc = 0 \<and> lmem_table_inv am g_num_sm sm s' \<and>
                lmem_live (s' ! sm) = {r \<in> lmem_live (s ! sm). fst r \<noteq> unat b} \<and>
                (\<forall>j. j \<noteq> sm \<longrightarrow> s' ! j = s ! j)
           else rc = -1 \<and> s' = s"
proof (rule disjE [OF lmem_free_cases [OF assms, of b]]; (elim exE conjE)?)
  assume "\<nexists>m. (unat b, m) \<in> lmem_live (s ! sm)" "cp_lmem_allocator_free g_num_sm s sm b = (-1, s)"
  then show ?thesis by simp
next
  fix m al'
  assume m: "(unat b, m) \<in> lmem_live (s ! sm)"
    and c: "cp_lmem_allocator_free g_num_sm s sm b = (0, s[sm := al'])" and inv': "lmem_inv am al'"
    and live': "lmem_live al' = lmem_live (s ! sm) - {(unat b, m)}"
  have "tiling (unat (FSA_LMEM_BASE am)) (unat (FSA_LMEM_SIZE am)) (abs_free (s ! sm)) (lmem_live (s ! sm))"
    using assms by (simp add: lmem_table_inv_def lmem_inv_def)
  note only = tiling_live_base [OF this m]
  have "lmem_live al' = {r \<in> lmem_live (s ! sm). fst r \<noteq> unat b}"
  proof (rule set_eqI)
    show "r \<in> lmem_live al' \<longleftrightarrow> r \<in> {r \<in> lmem_live (s ! sm). fst r \<noteq> unat b}" for r
      using only [of "snd r"] by (cases r) (auto simp: live')
  qed
  moreover have "\<exists>m. (unat b, m) \<in> lmem_live (s ! sm)" using m by blast
  ultimately show ?thesis using inv' assms by (simp add: c lmem_table_inv_def)
qed

theorem lmem_free_correct_witness:
  "cp_lmem_allocator_free 2 lmem_demo 0 512 = (-1, lmem_demo)"
  using lmem_free_correct [OF lmem_demo_inv, of 512]
  by (auto simp: lmem_demo_def lmem_init_one_live split: prod.splits)

text \<open>
  C15. A successful allocation followed by the release of its base restores the free regions
  exactly, boundaries included, and the set of live blocks.
\<close>

theorem lmem_alloc_free_roundtrip:
  assumes "lmem_table_inv am g_num_sm sm s" and "lmem_request_ok n"
    and "cp_lmem_allocator_alloc am g_num_sm s sm n True = (0, Some b, s')"
  shows "case cp_lmem_allocator_free g_num_sm s' sm b of (rc, s'') \<Rightarrow>
           rc = 0 \<and> abs_free (s'' ! sm) = abs_free (s ! sm) \<and> lmem_live (s'' ! sm) = lmem_live (s ! sm)"
proof -
  have sm: "sm < length s" using assms(1) by (simp add: lmem_table_inv_def)
  have op: "lmem_alloc_op am g_num_sm sm n s = Some (b, s')" by (simp add: lmem_alloc_op_def assms(3))
  obtain al' where al': "s' = s[sm := al']" "n \<noteq> 0"
    "take_first_fit (unat (lmem_round n)) (abs_free (s ! sm)) = Some (unat b, abs_free al')"
    using lmem_alloc_op_Some [OF assms(1,2) op] by blast
  have wf: "wf_free (abs_free (s ! sm))"
    using assms(1) by (auto simp: lmem_table_inv_def lmem_inv_def dest: tiling_wf)
  have pos: "0 < unat (lmem_round n)"
    using align_up_u64_bounds(4) assms(2) al'(2) by (simp add: lmem_request_ok_def)
  have i': "lmem_table_inv am g_num_sm sm s'" by (rule lmem.alloc_inv [OF assms(1,2) op])
  have lv: "lmem_live (s' ! sm) = insert (unat b, unat (lmem_round n)) (lmem_live (s ! sm))"
    "(unat b, unat (lmem_round n)) \<notin> lmem_live (s ! sm)"
    using lmem.alloc_live [OF assms(1,2) op] by (simp_all add: region_of_def)
  have til: "tiling (unat (FSA_LMEM_BASE am)) (unat (FSA_LMEM_SIZE am)) (abs_free (s' ! sm)) (lmem_live (s' ! sm))"
    using i' by (simp add: lmem_table_inv_def lmem_inv_def)
  from lmem_free_cases [OF i', of b] lv obtain m al'' where
    m: "(unat b, m) \<in> lmem_live (s' ! sm)" and c: "cp_lmem_allocator_free g_num_sm s' sm b = (0, s'[sm := al''])"
    and f: "abs_free al'' = give_back (unat b, m) (abs_free (s' ! sm))"
    and l: "lmem_live al'' = lmem_live (s' ! sm) - {(unat b, m)}"
    by auto
  have m_eq: "m = unat (lmem_round n)"
    using tiling_live_base [OF til m, of "unat (lmem_round n)"] lv by simp
  show ?thesis
    unfolding c using give_back_take_first_fit [OF al'(3) wf pos] f l lv al'(1) sm by (simp add: m_eq)
qed

theorem lmem_alloc_free_roundtrip_witness:
  "\<exists>s' s''. cp_lmem_allocator_alloc default_addr_map 2 lmem_demo 0 300 True = (0, Some 0, s') \<and>
     cp_lmem_allocator_free 2 s' 0 0 = (0, s'') \<and>
     abs_free (s'' ! 0) = [(0, 0xC000)]"
proof -
  obtain s' where s': "cp_lmem_allocator_alloc default_addr_map 2 lmem_demo 0 300 True = (0, Some 0, s')"
    using lmem_demo_alloc by blast
  have "lmem_request_ok 300" by (simp add: lmem_request_ok_def)
  from lmem_alloc_free_roundtrip [OF lmem_demo_inv this s'] s' show ?thesis
    by (auto simp: lmem_demo_def lmem_init_one_free default_addr_map_def split: prod.splits)
qed

text \<open>
  C11. Over every history of requests and releases on one SM, starting from the initialised
  allocator, the live blocks stay inside the local memory, pairwise disjoint, and their sizes
  never add up to more than it holds.
\<close>

theorem lmem_history_disjoint:
  assumes "lmem_window_ok am" and "list_all limit_ok limits" and "length limits \<le> length allocs"
    and "length limits < 2 ^ 64" and "sm < length limits"
    and "list_all (op_ok lmem_request_ok) ps"
  shows "let num = of_nat (length limits);
             s = fold (region_step (lmem_alloc_op am num sm) (lmem_free_op num sm)) ps
                   (snd (cp_lmem_allocator_init am limits allocs));
             L = lmem_live (s ! sm)
         in (\<forall>r \<in> L. cells r \<subseteq> {unat (FSA_LMEM_BASE am)..<unat (FSA_LMEM_BASE am) + unat (FSA_LMEM_SIZE am)}) \<and>
            (\<forall>r \<in> L. \<forall>r' \<in> L. r \<noteq> r' \<longrightarrow> cells r \<inter> cells r' = {}) \<and>
            (\<Sum>r \<in> L. snd r) \<le> unat (FSA_LMEM_SIZE am)"
proof -
  obtain allocs' where a: "lmem_init_from am 0 limits allocs = (0, allocs')"
    "length allocs' = length allocs" "allocs' ! sm = lmem_init_one am (unat (limits ! sm))"
    using lmem_init_from_ok [OF assms(2), of 0 allocs am] assms(3,5) by auto
  have "limit_ok (limits ! sm)" using assms(2,5) by (simp add: list_all_length)
  then have "lmem_inv am (allocs' ! sm)"
    using lmem_inv_init_one [OF assms(1) limit_ok_unat] a(3) by simp
  then have "lmem_table_inv am (of_nat (length limits)) sm allocs'"
    using assms(3-5) a(2) by (simp add: lmem_table_inv_def unat_of_nat_lt)
  from lmem.run_inv [OF this assms(6)] show ?thesis
    by (simp add: Let_def cp_lmem_allocator_init_def a(1) lmem.live_disjoint lmem.live_window
        lmem.live_card_bound)
qed

theorem lmem_history_disjoint_witness:
  "let s = fold (region_step (lmem_alloc_op default_addr_map 2 0) (lmem_free_op 2 0))
             [Alloc 300, Alloc 100, Dealloc 0, Alloc 256] (snd (cp_lmem_allocator_init default_addr_map [2, 2] lmem_demo))
   in (\<Sum>r \<in> lmem_live (s ! 0). snd r) \<le> 0xC000"
  using lmem_history_disjoint [OF lmem_demo_window, of "[2, 2]" lmem_demo 0
      "[Alloc 300, Alloc 100, Dealloc 0, Alloc 256]"]
  by (simp add: Let_def lmem_demo_def limit_ok_def FORMOSA_MAX_WG_RESIDENT_LIMIT_def
      lmem_request_ok_def default_addr_map_def)

end
