(* ===== verification/Falloc.thy ===== *)
theory Falloc
  imports Regions Addr_Map
begin

text \<open>
  The host's device-memory allocator (\<^verbatim>\<open>hal/src/common/falloc/falloc.c\<close>): two contexts, each with a
  sorted list of free blocks and a list of allocated ones. A chain of list nodes is the list of
  its nodes without the sentinel. The outcome of the host's \<open>malloc\<close> and \<open>fopen\<close> is an argument of
  the operations that call them. The JSON log is only written, so of it the model keeps whether
  it is open.
\<close>

section \<open>Data\<close>

record Block =
  b_size :: u64
  b_dptr :: u64

record FallocCtx =
  free_list :: "Block list"
  allocated_list :: "Block list"
  alignment :: u64
  logf :: bool

definition FALLOC_CTX_INITIALIZER :: FallocCtx where
  "FALLOC_CTX_INITIALIZER = \<lparr>free_list = [], allocated_list = [], alignment = 1, logf = False\<rparr>"

record falloc_state =
  cache_ctx :: FallocCtx
  noncache_ctx :: FallocCtx

section \<open>Operations\<close>

definition align_size :: "FallocCtx \<Rightarrow> u64 \<Rightarrow> u64 option" where
  "align_size ctx n =
     (if UINT64_MAX - (alignment ctx - 1) < n then None
      else Some ((n + alignment ctx - 1) AND NOT (alignment ctx - 1)))"

definition falloc_init_impl ::
  "bool \<Rightarrow> bool \<Rightarrow> FallocCtx \<Rightarrow> u64 \<Rightarrow> u64 \<Rightarrow> u64 \<Rightarrow> bool \<Rightarrow> int \<times> FallocCtx" where
  "falloc_init_impl malloc_ok fopen_ok ctx start sz align log =
     (if sz = 0 \<or> align = 0 \<or> align AND (align - 1) \<noteq> 0 then (1, ctx)
      else if \<not> malloc_ok then (1, ctx)
      else let ctx' = ctx\<lparr>alignment := align, free_list := [\<lparr>b_size = sz, b_dptr = start\<rparr>]\<rparr>
           in if \<not> log then (0, ctx')
              else if \<not> fopen_ok then (1, ctx'\<lparr>free_list := [], logf := False\<rparr>)
              else (0, ctx'\<lparr>logf := True\<rparr>))"

text \<open>The second result is what the caller's out-pointer receives.\<close>

definition falloc_malloc_impl ::
  "bool \<Rightarrow> FallocCtx \<Rightarrow> bool \<Rightarrow> u64 \<Rightarrow> int \<times> u64 option \<times> FallocCtx" where
  "falloc_malloc_impl malloc_ok ctx dev_ptr sz =
     (if \<not> dev_ptr then (1, None, ctx)
      else case align_size ctx sz of
        None \<Rightarrow> (1, None, ctx)
      | Some n \<Rightarrow>
          (case split_first (\<lambda>b. n \<le> b_size b) (free_list ctx) of
             None \<Rightarrow> (1, None, ctx)
           | Some (pre, b, post) \<Rightarrow>
               if n < b_size b then
                 (if \<not> malloc_ok then (1, None, ctx)
                  else (0, Some (b_dptr b),
                        ctx\<lparr>free_list := pre @ \<lparr>b_size = b_size b - n, b_dptr = b_dptr b + n\<rparr> # post,
                            allocated_list := b\<lparr>b_size := n\<rparr> # allocated_list ctx\<rparr>))
               else (0, Some (b_dptr b),
                     ctx\<lparr>free_list := pre @ post, allocated_list := b # allocated_list ctx\<rparr>)))"

definition falloc_addr_malloc_impl ::
  "bool \<Rightarrow> bool \<Rightarrow> FallocCtx \<Rightarrow> u64 \<Rightarrow> u64 \<Rightarrow> int \<times> FallocCtx" where
  "falloc_addr_malloc_impl right_ok left_ok ctx addr sz =
     (case align_size ctx sz of
        None \<Rightarrow> (1, ctx)
      | Some n \<Rightarrow>
          (case split_first (\<lambda>b. b_dptr b \<le> addr \<and> addr < b_dptr b + b_size b \<and>
                                addr + n \<le> b_dptr b + b_size b) (free_list ctx) of
             None \<Rightarrow> (1, ctx)
           | Some (pre, b, post) \<Rightarrow>
               let need_right = addr + n < b_dptr b + b_size b;
                   need_left = b_dptr b < addr
               in if need_right \<and> \<not> right_ok then (1, ctx)
                  else if need_left \<and> \<not> left_ok then (1, ctx)
                  else let right = (if need_right
                         then [\<lparr>b_size = b_dptr b + b_size b - (addr + n), b_dptr = addr + n\<rparr>] else []);
                       left = (if need_left
                         then [\<lparr>b_size = addr - b_dptr b, b_dptr = b_dptr b\<rparr>] else [])
                     in (0, ctx\<lparr>free_list := pre @ left @ right @ post,
                               allocated_list := \<lparr>b_size = n, b_dptr = addr\<rparr> # allocated_list ctx\<rparr>)))"

fun block_merge_next :: "Block \<Rightarrow> Block list \<Rightarrow> Block list" where
  "block_merge_next b [] = [b]"
| "block_merge_next b (nxt # rest) =
     (if b_dptr b + b_size b = b_dptr nxt then b\<lparr>b_size := b_size b + b_size nxt\<rparr> # rest
      else b # nxt # rest)"

definition falloc_free_impl :: "FallocCtx \<Rightarrow> u64 \<Rightarrow> int \<times> FallocCtx" where
  "falloc_free_impl ctx ptr =
     (case split_first (\<lambda>b. ptr = b_dptr b) (allocated_list ctx) of
        None \<Rightarrow> (1, ctx)
      | Some (apre, alloc, apost) \<Rightarrow>
          (let passed = takeWhile (\<lambda>b. \<not> ptr < b_dptr b) (free_list ctx);
               rest = dropWhile (\<lambda>b. \<not> ptr < b_dptr b) (free_list ctx);
               ins = last passed
           in (0, ctx\<lparr>allocated_list := apre @ apost,
                      free_list :=
                        (if passed \<noteq> [] \<and> b_dptr ins + b_size ins = b_dptr alloc
                         then butlast passed @
                              block_merge_next (ins\<lparr>b_size := b_size ins + b_size alloc\<rparr>) rest
                         else passed @ block_merge_next alloc rest)\<rparr>)))"

definition falloc_clean_impl :: "FallocCtx \<Rightarrow> FallocCtx" where
  "falloc_clean_impl ctx = ctx\<lparr>free_list := [], allocated_list := [], alignment := 1, logf := False\<rparr>"

text \<open>The exported entry points, each on its context.\<close>

definition falloc_init ::
  "bool \<Rightarrow> bool \<Rightarrow> u64 \<Rightarrow> u64 \<Rightarrow> u64 \<Rightarrow> bool \<Rightarrow> falloc_state \<Rightarrow> int \<times> falloc_state" where
  "falloc_init malloc_ok fopen_ok start sz align log s =
     (case falloc_init_impl malloc_ok fopen_ok (cache_ctx s) start sz align log of
        (rc, c) \<Rightarrow> (rc, s\<lparr>cache_ctx := c\<rparr>))"

definition falloc_malloc :: "bool \<Rightarrow> bool \<Rightarrow> u64 \<Rightarrow> falloc_state \<Rightarrow> int \<times> u64 option \<times> falloc_state" where
  "falloc_malloc malloc_ok dev_ptr sz s =
     (case falloc_malloc_impl malloc_ok (cache_ctx s) dev_ptr sz of
        (rc, p, c) \<Rightarrow> (rc, p, s\<lparr>cache_ctx := c\<rparr>))"

definition falloc_addr_malloc ::
  "bool \<Rightarrow> bool \<Rightarrow> u64 \<Rightarrow> u64 \<Rightarrow> falloc_state \<Rightarrow> int \<times> falloc_state" where
  "falloc_addr_malloc right_ok left_ok addr sz s =
     (case falloc_addr_malloc_impl right_ok left_ok (cache_ctx s) addr sz of
        (rc, c) \<Rightarrow> (rc, s\<lparr>cache_ctx := c\<rparr>))"

definition falloc_free :: "u64 \<Rightarrow> falloc_state \<Rightarrow> int \<times> falloc_state" where
  "falloc_free ptr s =
     (case falloc_free_impl (cache_ctx s) ptr of (rc, c) \<Rightarrow> (rc, s\<lparr>cache_ctx := c\<rparr>))"

definition falloc_clean :: "falloc_state \<Rightarrow> falloc_state" where
  "falloc_clean s = s\<lparr>cache_ctx := falloc_clean_impl (cache_ctx s)\<rparr>"

definition falloc_noncache_init ::
  "bool \<Rightarrow> bool \<Rightarrow> u64 \<Rightarrow> u64 \<Rightarrow> u64 \<Rightarrow> bool \<Rightarrow> falloc_state \<Rightarrow> int \<times> falloc_state" where
  "falloc_noncache_init malloc_ok fopen_ok start sz align log s =
     (case falloc_init_impl malloc_ok fopen_ok (noncache_ctx s) start sz align log of
        (rc, c) \<Rightarrow> (rc, s\<lparr>noncache_ctx := c\<rparr>))"

definition falloc_noncache_malloc ::
  "bool \<Rightarrow> bool \<Rightarrow> u64 \<Rightarrow> falloc_state \<Rightarrow> int \<times> u64 option \<times> falloc_state" where
  "falloc_noncache_malloc malloc_ok dev_ptr sz s =
     (case falloc_malloc_impl malloc_ok (noncache_ctx s) dev_ptr sz of
        (rc, p, c) \<Rightarrow> (rc, p, s\<lparr>noncache_ctx := c\<rparr>))"

definition falloc_noncache_free :: "u64 \<Rightarrow> falloc_state \<Rightarrow> int \<times> falloc_state" where
  "falloc_noncache_free ptr s =
     (case falloc_free_impl (noncache_ctx s) ptr of (rc, c) \<Rightarrow> (rc, s\<lparr>noncache_ctx := c\<rparr>))"

definition falloc_noncache_clean :: "falloc_state \<Rightarrow> falloc_state" where
  "falloc_noncache_clean s = s\<lparr>noncache_ctx := falloc_clean_impl (noncache_ctx s)\<rparr>"

section \<open>Abstraction and invariant\<close>

definition abs_block :: "Block \<Rightarrow> region" where
  "abs_block b = (unat (b_dptr b), unat (b_size b))"

definition falloc_live :: "FallocCtx \<Rightarrow> region set" where
  "falloc_live ctx = abs_block ` set (allocated_list ctx)"

definition falloc_free_regions :: "FallocCtx \<Rightarrow> region list" where
  "falloc_free_regions ctx = map abs_block (free_list ctx)"

definition pow2 :: "u64 \<Rightarrow> bool" where
  "pow2 a \<longleftrightarrow> a \<noteq> 0 \<and> a AND (a - 1) = 0"

definition falloc_inv :: "nat \<Rightarrow> nat \<Rightarrow> FallocCtx \<Rightarrow> bool" where
  "falloc_inv B S ctx \<longleftrightarrow>
     B + S < 2 ^ 64 \<and> pow2 (alignment ctx) \<and>
     tiling B S (falloc_free_regions ctx) (falloc_live ctx) \<and>
     distinct (map abs_block (allocated_list ctx))"

lemma abs_block_sel [simp]: "fst (abs_block b) = unat (b_dptr b)" "snd (abs_block b) = unat (b_size b)"
  by (simp_all add: abs_block_def)

lemma abs_block_make [simp]: "abs_block \<lparr>b_size = s, b_dptr = d\<rparr> = (unat d, unat s)"
  by (simp add: abs_block_def)

lemma falloc_block_end:
  assumes "falloc_inv B S ctx" and "b \<in> set (free_list ctx) \<union> set (allocated_list ctx)"
  shows "unat (b_dptr b) + unat (b_size b) < 2 ^ 64"
    and "unat (b_dptr b + b_size b) = unat (b_dptr b) + unat (b_size b)"
proof -
  have "abs_block b \<in> falloc_live ctx \<union> set (falloc_free_regions ctx)"
    using assms(2) by (auto simp: falloc_live_def falloc_free_regions_def)
  then have "unat (b_dptr b) + unat (b_size b) \<le> B + S"
    using tiling_region_in_window(2) [of B S "falloc_free_regions ctx" "falloc_live ctx"
        "unat (b_dptr b)" "unat (b_size b)"] assms(1)
    by (simp add: falloc_inv_def abs_block_def)
  also have "B + S < 2 ^ 64" using assms(1) by (simp add: falloc_inv_def)
  finally show lt: "unat (b_dptr b) + unat (b_size b) < 2 ^ 64" .
  then show "unat (b_dptr b + b_size b) = unat (b_dptr b) + unat (b_size b)"
    by (intro unat_add_no_wrap) simp
qed

section \<open>Rounding\<close>

lemma align_size_None: "pow2 (alignment ctx) \<Longrightarrow>
    align_size ctx n = None \<longleftrightarrow> 2 ^ 64 \<le> unat n + (unat (alignment ctx) - 1)"
proof -
  assume p: "pow2 (alignment ctx)"
  let ?m = "alignment ctx - 1"
  have one: "1 \<le> alignment ctx" using p by (simp add: pow2_def word_le_iff_unat Suc_le_eq unat_pos_iff)
  have m: "unat ?m = unat (alignment ctx) - 1" using unat_sub_le [OF one] by simp
  have "?m \<le> UINT64_MAX" using unat_lt64 [of ?m] by (simp add: word_le_iff_unat)
  from unat_sub_le [OF this] have "unat (UINT64_MAX - ?m) = 2 ^ 64 - 1 - unat ?m" by simp
  then show ?thesis
    using unat_lt64 [of ?m] unat_lt64 [of n] by (auto simp: align_size_def word_less_iff_unat m)
qed

lemma align_size_Some:
  assumes p: "pow2 (alignment ctx)" and a: "align_size ctx n = Some r"
  shows "unat (alignment ctx) dvd unat r" and "unat n \<le> unat r"
    and "unat r < unat n + unat (alignment ctx)"
proof -
  obtain k where k: "k < 64" "unat (alignment ctx) = 2 ^ k" "alignment ctx - 1 = mask k"
    using and_pred_zero_word [of "alignment ctx"] p by (auto simp: pow2_def)
  have one: "1 \<le> alignment ctx" using p by (simp add: pow2_def word_le_iff_unat Suc_le_eq unat_pos_iff)
  have m: "unat (alignment ctx - 1) = 2 ^ k - 1" using unat_sub_le [OF one] by (simp add: k)
  have "unat n + (2 ^ k - 1) < 2 ^ 64"
    using a align_size_None [OF p, of n] by (simp add: k(2) not_le)
  then have e: "unat (n + alignment ctx - 1) = unat n + (2 ^ k - 1)"
    using m by (simp add: add_diff_eq [symmetric] unat_add_no_wrap)
  have "r = (n + alignment ctx - 1) AND NOT (mask k)"
    using a by (auto simp: align_size_def k(3) split: if_splits)
  then have r: "unat r = (unat n + (2 ^ k - 1)) div 2 ^ k * 2 ^ k"
    by (simp add: unat_and_not_mask e)
  then show "unat (alignment ctx) dvd unat r" by (simp add: k)
  have "unat r = unat n + (2 ^ k - 1) - (unat n + (2 ^ k - 1)) mod 2 ^ k"
    unfolding r by (rule minus_mod_eq_div_mult [symmetric])
  moreover have "(unat n + (2 ^ k - 1)) mod 2 ^ k < 2 ^ k" "1 \<le> (2 :: nat) ^ k" by simp_all
  ultimately show "unat n \<le> unat r" "unat r < unat n + unat (alignment ctx)"
    unfolding k(2) by linarith+
qed

section \<open>Refinement\<close>

lemma falloc_malloc_refines:
  assumes inv: "falloc_inv B S ctx" and n: "align_size ctx sz = Some n"
    and ff: "take_first_fit (unat n) (falloc_free_regions ctx) = Some (a, fl')"
  shows "\<exists>pre b post. split_first (\<lambda>b. n \<le> b_size b) (free_list ctx) = Some (pre, b, post) \<and>
           unat (b_dptr b) = a \<and>
           fl' = map abs_block (pre @ (if n < b_size b
                   then \<lparr>b_size = b_size b - n, b_dptr = b_dptr b + n\<rparr> # post else post))"
proof -
  have "split_first (\<lambda>b. n \<le> b_size b) (free_list ctx) \<noteq> None"
  proof
    assume "split_first (\<lambda>b. n \<le> b_size b) (free_list ctx) = None"
    then have "take_first_fit (unat n) (falloc_free_regions ctx) = None"
      by (auto simp: split_first_None take_first_fit_None falloc_free_regions_def word_le_iff_unat not_le)
    with ff show False by simp
  qed
  then obtain pre b post where sp: "split_first (\<lambda>b. n \<le> b_size b) (free_list ctx) = Some (pre, b, post)"
    by auto
  note d = split_first_Some [OF sp]
  have b: "b \<in> set (free_list ctx)" using d by simp
  have le: "n \<le> b_size b" using d by simp
  have "unat (b_dptr b) + unat n < 2 ^ 64"
    using falloc_block_end(1) [OF inv, of b] b le by (simp add: word_le_iff_unat)
  then have "unat (b_dptr b + n) = unat (b_dptr b) + unat n" by (intro unat_add_no_wrap) simp
  moreover have "unat (b_size b - n) = unat (b_size b) - unat n" by (rule unat_sub_le [OF le])
  moreover have "take_first_fit (unat n) (falloc_free_regions ctx) =
      Some (unat (b_dptr b), map abs_block pre @ (if unat (b_size b) = unat n then map abs_block post
        else (unat (b_dptr b) + unat n, unat (b_size b) - unat n) # map abs_block post))"
    unfolding falloc_free_regions_def using d
    by (simp add: abs_block_def [of b] take_first_fit_at word_le_iff_unat not_le)
  moreover have "n < b_size b \<longleftrightarrow> unat (b_size b) \<noteq> unat n"
    using le by (auto simp: word_less_iff_unat word_le_iff_unat)
  ultimately show ?thesis using sp ff by auto
qed

lemma falloc_addr_malloc_refines:
  assumes inv: "falloc_inv B S ctx" and n: "unat addr + unat n < 2 ^ 64"
  defines "P \<equiv> \<lambda>b. b_dptr b \<le> addr \<and> addr < b_dptr b + b_size b \<and> addr + n \<le> b_dptr b + b_size b"
  shows "take_at (unat addr) (unat n) (falloc_free_regions ctx) =
     (case split_first P (free_list ctx) of None \<Rightarrow> None
      | Some (pre, b, post) \<Rightarrow> Some (map abs_block (pre @
          (if b_dptr b < addr then [\<lparr>b_size = addr - b_dptr b, b_dptr = b_dptr b\<rparr>] else []) @
          (if addr + n < b_dptr b + b_size b
           then [\<lparr>b_size = b_dptr b + b_size b - (addr + n), b_dptr = addr + n\<rparr>] else []) @ post)))"
proof -
  have an: "unat (addr + n) = unat addr + unat n" using n by (intro unat_add_no_wrap) simp
  have "take_at (unat addr) (unat n) (map abs_block fs) =
     (case split_first P fs of None \<Rightarrow> None
      | Some (pre, b, post) \<Rightarrow> Some (map abs_block (pre @
          (if b_dptr b < addr then [\<lparr>b_size = addr - b_dptr b, b_dptr = b_dptr b\<rparr>] else []) @
          (if addr + n < b_dptr b + b_size b
           then [\<lparr>b_size = b_dptr b + b_size b - (addr + n), b_dptr = addr + n\<rparr>] else []) @ post)))"
    if "set fs \<subseteq> set (free_list ctx)" for fs
    using that
  proof (induction fs)
    case Nil
    then show ?case by simp
  next
    case (Cons b fs)
    have e: "unat (b_dptr b + b_size b) = unat (b_dptr b) + unat (b_size b)"
      using falloc_block_end(2) [OF inv, of b] Cons.prems by simp
    show ?case
    proof (cases "P b")
      case True
      then have "unat (b_dptr b + b_size b - (addr + n)) = unat (b_dptr b) + unat (b_size b) - (unat addr + unat n)"
        "unat (addr - b_dptr b) = unat addr - unat (b_dptr b)"
        by (simp_all add: P_def unat_sub_le e an)
      with True show ?thesis
        by (auto simp: P_def word_le_iff_unat word_less_iff_unat e an carve_at_def)
    next
      case False
      then have "\<not> (fst (abs_block b) \<le> unat addr \<and> unat addr < fst (abs_block b) + snd (abs_block b) \<and>
          unat addr + unat n \<le> fst (abs_block b) + snd (abs_block b))"
        by (simp add: P_def word_le_iff_unat word_less_iff_unat e an)
      with False Cons show ?thesis by (cases "split_first P fs") auto
    qed
  qed
  then show ?thesis by (simp add: falloc_free_regions_def)
qed

lemma block_merge_next_abs:
  assumes "unat (b_dptr b) + unat (b_size b) < 2 ^ 64"
    and "\<forall>x \<in> set bs. unat (b_dptr b) + unat (b_size b) \<le> unat (b_dptr x) \<and>
          unat (b_dptr x) + unat (b_size x) < 2 ^ 64"
  shows "map abs_block (block_merge_next b bs) = merge_next (abs_block b) (map abs_block bs)"
proof (cases bs)
  case Nil
  then show ?thesis by simp
next
  case (Cons x xs)
  have e: "unat (b_dptr b + b_size b) = unat (b_dptr b) + unat (b_size b)"
    using assms(1) by (intro unat_add_no_wrap) simp
  have "unat (b_size b) + unat (b_size x) < 2 ^ 64" using assms(2) Cons by force
  then have "unat (b_size b + b_size x) = unat (b_size b) + unat (b_size x)"
    by (intro unat_add_no_wrap) simp
  then show ?thesis using Cons by (auto simp: word_eq_iff_unat e abs_block_def)
qed

lemma falloc_free_refines:
  assumes inv: "falloc_inv B S ctx" and al: "alloc \<in> set (allocated_list ctx)"
  defines "P \<equiv> \<lambda>b. \<not> b_dptr alloc < b_dptr b"
  defines "passed \<equiv> takeWhile P (free_list ctx)" and "rest \<equiv> dropWhile P (free_list ctx)"
  shows "map abs_block (if passed \<noteq> [] \<and> b_dptr (last passed) + b_size (last passed) = b_dptr alloc
           then butlast passed @ block_merge_next ((last passed)\<lparr>b_size := b_size (last passed) + b_size alloc\<rparr>) rest
           else passed @ block_merge_next alloc rest) =
         give_back (abs_block alloc) (falloc_free_regions ctx)"
proof -
  let ?r = "abs_block alloc" and ?fl = "falloc_free_regions ctx"
  have t: "tiling B S ?fl (falloc_live ctx)" using inv by (simp add: falloc_inv_def)
  have live: "?r \<in> falloc_live ctx" using al by (simp add: falloc_live_def)
  have pos: "0 < snd ?r" using t live by (auto simp: tiling_def)
  have dj: "\<forall>x \<in> set ?fl. cells ?r \<inter> cells x = {}" using tiling_live_free [OF t live] by blast
  note sp = give_back_split [OF tiling_wf [OF t] pos dj]
  have same: "P b \<longleftrightarrow> unat (b_dptr b) < unat (b_dptr alloc)" if "b \<in> set (free_list ctx)" for b
  proof -
    have m: "abs_block b \<in> set ?fl" using that by (simp add: falloc_free_regions_def)
    then have "0 < snd (abs_block b)" using tiling_wf [OF t] by (auto simp: wf_free_def)
    moreover have "cells ?r \<inter> cells (abs_block b) = {}" using dj m by blast
    ultimately have "fst (abs_block b) \<noteq> fst ?r"
      using pos base_in_cells [of ?r] base_in_cells [of "abs_block b"] by (metis disjoint_iff)
    then show ?thesis by (auto simp: P_def word_less_iff_unat)
  qed
  have tw: "map abs_block passed = takeWhile (\<lambda>x. fst x < fst ?r) ?fl"
    "map abs_block rest = dropWhile (\<lambda>x. fst x < fst ?r) ?fl"
    using same by (auto simp: passed_def rest_def falloc_free_regions_def takeWhile_map dropWhile_map
        comp_def intro!: arg_cong [where f = "map abs_block"] takeWhile_cong dropWhile_cong)
  have gb: "give_back ?r ?fl =
      (if passed \<noteq> [] \<and> unat (b_dptr (last passed)) + unat (b_size (last passed)) = unat (b_dptr alloc)
       then map abs_block (butlast passed) @ merge_next (unat (b_dptr (last passed)),
              unat (b_size (last passed)) + unat (b_size alloc)) (map abs_block rest)
       else map abs_block passed @ merge_next ?r (map abs_block rest))"
    unfolding give_back_def tw [symmetric] Let_def by (auto simp: last_map map_butlast)
  have rest: "\<forall>x \<in> set rest. unat (b_dptr alloc) + unat (b_size alloc) \<le> unat (b_dptr x) \<and>
      unat (b_dptr x) + unat (b_size x) < 2 ^ 64"
  proof
    fix x assume x: "x \<in> set rest"
    then have "abs_block x \<in> set (dropWhile (\<lambda>x. fst x < fst ?r) ?fl)" unfolding tw(2) [symmetric] by simp
    with sp(3) have "fst ?r + snd ?r \<le> fst (abs_block x)" by blast
    moreover have "x \<in> set (free_list ctx)" using x by (auto simp: rest_def dest: set_dropWhileD)
    ultimately show "unat (b_dptr alloc) + unat (b_size alloc) \<le> unat (b_dptr x) \<and>
      unat (b_dptr x) + unat (b_size x) < 2 ^ 64"
      using falloc_block_end(1) [OF inv, of x] by simp
  qed
  note ae = falloc_block_end [OF inv, of alloc]
  show ?thesis
  proof (cases "passed = []")
    case True
    then show ?thesis
      unfolding gb using block_merge_next_abs [OF _ rest] ae(1) al by simp
  next
    case False
    let ?i = "last passed"
    have i: "?i \<in> set (free_list ctx)"
      using last_in_set [OF False] by (auto simp: passed_def dest: set_takeWhileD)
    note ie = falloc_block_end [OF inv, of ?i]
    show ?thesis
    proof (cases "b_dptr ?i + b_size ?i = b_dptr alloc")
      case True
      let ?j = "?i\<lparr>b_size := b_size ?i + b_size alloc\<rparr>"
      have e: "unat (b_dptr ?i) + unat (b_size ?i) = unat (b_dptr alloc)" using True ie(2) i by (metis UnI1)
      have "unat (b_size ?i) + unat (b_size alloc) < 2 ^ 64" using e ae(1) al by simp
      then have j: "unat (b_size ?j) = unat (b_size ?i) + unat (b_size alloc)"
        by (simp add: unat_add_no_wrap)
      then have aj: "abs_block ?j = (unat (b_dptr ?i), unat (b_size ?i) + unat (b_size alloc))"
        by (simp add: abs_block_def)
      have "map abs_block (block_merge_next ?j rest) = merge_next (abs_block ?j) (map abs_block rest)"
        using rest e j ae(1) al by (intro block_merge_next_abs) auto
      then show ?thesis unfolding gb using True False e aj by simp
    next
      case no: False
      then have "unat (b_dptr ?i) + unat (b_size ?i) \<noteq> unat (b_dptr alloc)"
        using ie(2) i by (metis UnI1 word_eq_iff_unat)
      then show ?thesis
        unfolding gb using no False block_merge_next_abs [OF _ rest] ae(1) al by simp
    qed
  qed
qed

section \<open>Outcome of the operations\<close>

lemma falloc_inv_init:
  assumes "unat start + unat sz < 2 ^ 64" and "sz \<noteq> 0" and "pow2 align" and "allocated_list ctx = []"
  shows "falloc_inv (unat start) (unat sz) (ctx\<lparr>alignment := align, free_list := [\<lparr>b_size = sz, b_dptr = start\<rparr>]\<rparr>)"
  using assms tiling_init [of "unat sz" "unat start"]
  by (simp add: falloc_inv_def falloc_live_def falloc_free_regions_def unat_pos_iff)

lemma falloc_malloc_cases:
  assumes inv: "falloc_inv B S ctx" and nz: "sz \<noteq> 0"
  shows "(\<exists>p ctx' n. falloc_malloc_impl mo ctx True sz = (0, Some p, ctx') \<and> align_size ctx sz = Some n \<and>
            falloc_inv B S ctx' \<and> alignment ctx' = alignment ctx \<and>
            take_first_fit (unat n) (falloc_free_regions ctx) = Some (unat p, falloc_free_regions ctx') \<and>
            falloc_live ctx' = insert (unat p, unat n) (falloc_live ctx)) \<or>
         (falloc_malloc_impl mo ctx True sz = (1, None, ctx) \<and>
           (\<not> mo \<or> (case align_size ctx sz of None \<Rightarrow> True
              | Some n \<Rightarrow> \<forall>r \<in> set (falloc_free_regions ctx). snd r < unat n)))"
proof (cases "align_size ctx sz")
  case None
  then show ?thesis by (simp add: falloc_malloc_impl_def)
next
  case (Some n)
  have p2: "pow2 (alignment ctx)" using inv by (simp add: falloc_inv_def)
  have pos: "0 < unat n" using align_size_Some(2) [OF p2 Some] nz by (simp add: unat_pos_iff [symmetric])
  show ?thesis
  proof (cases "take_first_fit (unat n) (falloc_free_regions ctx)")
    case None
    then have all: "\<forall>r \<in> set (falloc_free_regions ctx). snd r < unat n" by (simp add: take_first_fit_None)
    then have "split_first (\<lambda>b. n \<le> b_size b) (free_list ctx) = None"
      by (auto simp: split_first_None falloc_free_regions_def word_le_iff_unat not_le)
    with Some all show ?thesis by (simp add: falloc_malloc_impl_def)
  next
    case ff: (Some r)
    obtain a fl' where r: "r = (a, fl')" by (cases r)
    obtain pre b post where sp: "split_first (\<lambda>b. n \<le> b_size b) (free_list ctx) = Some (pre, b, post)"
      and a: "unat (b_dptr b) = a"
      and fl': "fl' = map abs_block (pre @ (if n < b_size b
                   then \<lparr>b_size = b_size b - n, b_dptr = b_dptr b + n\<rparr> # post else post))"
      using falloc_malloc_refines [OF inv Some ff [unfolded r]] by blast
    have t: "tiling B S (falloc_free_regions ctx) (falloc_live ctx)" using inv by (simp add: falloc_inv_def)
    note tt = tiling_take [OF t ff [unfolded r] pos]
    show ?thesis
    proof (cases "n < b_size b \<and> \<not> mo")
      case True
      then show ?thesis by (simp add: falloc_malloc_impl_def Some sp)
    next
      case False
      define ctx' where "ctx' = ctx\<lparr>free_list := pre @ (if n < b_size b
                   then \<lparr>b_size = b_size b - n, b_dptr = b_dptr b + n\<rparr> # post else post),
            allocated_list := b\<lparr>b_size := n\<rparr> # allocated_list ctx\<rparr>"
      have "n < b_size b \<or> b\<lparr>b_size := n\<rparr> = b"
        using split_first_Some [OF sp] by (cases b) (auto simp: le_less)
      then have code: "falloc_malloc_impl mo ctx True sz = (0, Some (b_dptr b), ctx')"
        using False by (auto simp: falloc_malloc_impl_def Some sp ctx'_def)
      have fr: "falloc_free_regions ctx' = fl'" by (simp add: falloc_free_regions_def ctx'_def fl')
      have ab: "abs_block (b\<lparr>b_size := n\<rparr>) = (a, unat n)" by (simp add: abs_block_def a)
      have lv: "falloc_live ctx' = insert (a, unat n) (falloc_live ctx)"
        by (simp add: falloc_live_def ctx'_def ab)
      have "distinct (map abs_block (allocated_list ctx'))"
        using inv tt(2) by (simp add: ctx'_def ab falloc_inv_def falloc_live_def)
      with tt(1) inv have "falloc_inv B S ctx'"
        unfolding falloc_inv_def fr lv by (simp add: ctx'_def)
      moreover have "alignment ctx' = alignment ctx" by (simp add: ctx'_def)
      ultimately show ?thesis using code Some ff r fr lv a by blast
    qed
  qed
qed

lemma falloc_free_cases:
  assumes inv: "falloc_inv B S ctx"
  shows "((\<nexists>m. (unat ptr, m) \<in> falloc_live ctx) \<and> falloc_free_impl ctx ptr = (1, ctx)) \<or>
         (\<exists>m ctx'. (unat ptr, m) \<in> falloc_live ctx \<and> falloc_free_impl ctx ptr = (0, ctx') \<and>
            falloc_inv B S ctx' \<and> alignment ctx' = alignment ctx \<and>
            falloc_free_regions ctx' = give_back (unat ptr, m) (falloc_free_regions ctx) \<and>
            falloc_live ctx' = falloc_live ctx - {(unat ptr, m)})"
proof (cases "split_first (\<lambda>b. ptr = b_dptr b) (allocated_list ctx)")
  case None
  then have "\<nexists>m. (unat ptr, m) \<in> falloc_live ctx"
    by (auto simp: split_first_None falloc_live_def abs_block_def word_eq_iff_unat)
  with None show ?thesis by (simp add: falloc_free_impl_def)
next
  case (Some r)
  then obtain apre alloc apost where sp: "split_first (\<lambda>b. ptr = b_dptr b) (allocated_list ctx) = Some (apre, alloc, apost)"
    by (cases r) auto
  note d = split_first_Some [OF sp]
  have al: "alloc \<in> set (allocated_list ctx)" and ptr: "ptr = b_dptr alloc" using d by simp_all
  let ?r = "abs_block alloc"
  have r: "?r = (unat ptr, unat (b_size alloc))" using d by (simp add: abs_block_def)
  have t: "tiling B S (falloc_free_regions ctx) (falloc_live ctx)" using inv by (simp add: falloc_inv_def)
  have live: "?r \<in> falloc_live ctx" using al by (simp add: falloc_live_def)
  define ctx' where "ctx' = snd (falloc_free_impl ctx ptr)"
  have code: "falloc_free_impl ctx ptr = (0, ctx')" "allocated_list ctx' = apre @ apost"
    "alignment ctx' = alignment ctx"
    by (simp_all add: ctx'_def falloc_free_impl_def sp Let_def)
  have fr: "falloc_free_regions ctx' = give_back ?r (falloc_free_regions ctx)"
    unfolding falloc_free_regions_def [of ctx'] using falloc_free_refines [OF inv al]
    by (simp add: ctx'_def falloc_free_impl_def sp Let_def ptr [symmetric] cong: if_cong split del: if_split)
  have lv: "falloc_live ctx' = falloc_live ctx - {?r}"
    using inv d by (auto simp: falloc_live_def code(2) falloc_inv_def)
  have "distinct (map abs_block (allocated_list ctx'))" using inv d by (auto simp: code(2) falloc_inv_def)
  with tiling_give_back [OF t live] inv have "falloc_inv B S ctx'"
    unfolding falloc_inv_def fr lv by (simp add: code(3))
  then show ?thesis using live fr lv code unfolding r by blast
qed

lemma falloc_addr_malloc_cases:
  assumes inv: "falloc_inv B S ctx" and n: "align_size ctx sz = Some n"
    and nz: "sz \<noteq> 0" and bound: "unat addr + unat n < 2 ^ 64"
  shows "if cells (unat addr, unat n) \<subseteq> free_cells (falloc_free_regions ctx)
         then \<exists>ctx'. falloc_addr_malloc_impl True True ctx addr sz = (0, ctx') \<and> falloc_inv B S ctx' \<and>
                take_at (unat addr) (unat n) (falloc_free_regions ctx) = Some (falloc_free_regions ctx') \<and>
                falloc_live ctx' = insert (unat addr, unat n) (falloc_live ctx)
         else falloc_addr_malloc_impl ro lo ctx addr sz = (1, ctx)"
proof -
  have p2: "pow2 (alignment ctx)" using inv by (simp add: falloc_inv_def)
  have pos: "0 < unat n" using align_size_Some(2) [OF p2 n] nz by (simp add: unat_pos_iff [symmetric])
  have t: "tiling B S (falloc_free_regions ctx) (falloc_live ctx)" using inv by (simp add: falloc_inv_def)
  note rf = falloc_addr_malloc_refines [OF inv bound]
  show ?thesis
  proof (cases "cells (unat addr, unat n) \<subseteq> free_cells (falloc_free_regions ctx)")
    case True
    then obtain fl' where fl': "take_at (unat addr) (unat n) (falloc_free_regions ctx) = Some fl'"
      using take_at_free [OF tiling_wf [OF t] pos] by blast
    define ctx' where "ctx' = snd (falloc_addr_malloc_impl True True ctx addr sz)"
    have code: "falloc_addr_malloc_impl True True ctx addr sz = (0, ctx')" "alignment ctx' = alignment ctx"
      "allocated_list ctx' = \<lparr>b_size = n, b_dptr = addr\<rparr> # allocated_list ctx" "falloc_free_regions ctx' = fl'"
      using fl' rf by (auto simp: ctx'_def falloc_addr_malloc_impl_def n Let_def falloc_free_regions_def
          split: option.splits)
    note tt = tiling_carve [OF t pos take_at_cells [OF fl' tiling_wf [OF t] pos]]
    have lv: "falloc_live ctx' = insert (unat addr, unat n) (falloc_live ctx)"
      by (simp add: falloc_live_def code(3))
    have "distinct (map abs_block (allocated_list ctx'))"
      using inv tt(2) by (simp add: code(3) falloc_inv_def falloc_live_def)
    with tt(1) inv have "falloc_inv B S ctx'"
      unfolding falloc_inv_def lv code(4) by (simp add: code(2))
    then show ?thesis using True code(1,4) lv fl' by auto
  next
    case False
    have "take_at (unat addr) (unat n) (falloc_free_regions ctx) = None"
    proof (rule ccontr)
      assume "take_at (unat addr) (unat n) (falloc_free_regions ctx) \<noteq> None"
      then obtain fl' where "take_at (unat addr) (unat n) (falloc_free_regions ctx) = Some fl'" by blast
      from take_at_cells(1) [OF this tiling_wf [OF t] pos] False show False by blast
    qed
    with rf False show ?thesis
      by (auto simp: falloc_addr_malloc_impl_def n split: option.splits)
  qed
qed

section \<open>The interface\<close>

definition falloc_alloc_op :: "(FallocCtx \<Rightarrow> bool) \<Rightarrow> u64 \<Rightarrow> FallocCtx \<Rightarrow> (u64 \<times> FallocCtx) option" where
  "falloc_alloc_op mo n ctx =
     (case falloc_malloc_impl (mo ctx) ctx True n of
        (rc, p, ctx') \<Rightarrow> (case p of None \<Rightarrow> None | Some b \<Rightarrow> Some (b, ctx')))"

definition falloc_free_op :: "u64 \<Rightarrow> FallocCtx \<Rightarrow> FallocCtx option" where
  "falloc_free_op b ctx = (case falloc_free_impl ctx b of (rc, ctx') \<Rightarrow> if rc = 0 then Some ctx' else None)"

definition falloc_ctx_inv :: "nat \<Rightarrow> nat \<Rightarrow> u64 \<Rightarrow> FallocCtx \<Rightarrow> bool" where
  "falloc_ctx_inv B S al ctx \<longleftrightarrow> falloc_inv B S ctx \<and> alignment ctx = al"

definition falloc_round :: "u64 \<Rightarrow> u64 \<Rightarrow> u64" where
  "falloc_round al n = (n + al - 1) AND NOT (al - 1)"

lemma align_size_round: "align_size ctx n = Some r \<Longrightarrow> r = falloc_round (alignment ctx) n"
  by (auto simp: align_size_def falloc_round_def split: if_splits)

lemma falloc_alloc_op_Some:
  assumes "falloc_ctx_inv B S al ctx" and "n \<noteq> 0" and "falloc_alloc_op mo n ctx = Some (b, ctx')"
  shows "falloc_ctx_inv B S al ctx'" and "0 < unat (falloc_round al n)"
    and "take_first_fit (unat (falloc_round al n)) (falloc_free_regions ctx) =
           Some (unat b, falloc_free_regions ctx')"
    and "falloc_live ctx' = insert (unat b, unat (falloc_round al n)) (falloc_live ctx)"
    and "(unat b, unat (falloc_round al n)) \<notin> falloc_live ctx"
proof -
  have inv: "falloc_inv B S ctx" and al: "alignment ctx = al"
    using assms(1) by (simp_all add: falloc_ctx_inv_def)
  obtain r where c: "falloc_malloc_impl (mo ctx) ctx True n = (0, Some b, ctx')" "align_size ctx n = Some r"
    "falloc_inv B S ctx'" "alignment ctx' = alignment ctx"
    "take_first_fit (unat r) (falloc_free_regions ctx) = Some (unat b, falloc_free_regions ctx')"
    "falloc_live ctx' = insert (unat b, unat r) (falloc_live ctx)"
    using falloc_malloc_cases [OF inv assms(2), of "mo ctx"] assms(3) by (auto simp: falloc_alloc_op_def)
  have r: "r = falloc_round al n" using align_size_round [OF c(2)] al by simp
  have "pow2 (alignment ctx)" using inv by (simp add: falloc_inv_def)
  from align_size_Some(2) [OF this c(2)] assms(2) show pos: "0 < unat (falloc_round al n)"
    by (simp add: r unat_pos_iff [symmetric])
  show "falloc_ctx_inv B S al ctx'" using c(3,4) al by (simp add: falloc_ctx_inv_def)
  show ff: "take_first_fit (unat (falloc_round al n)) (falloc_free_regions ctx) =
           Some (unat b, falloc_free_regions ctx')" using c(5) r by simp
  show "falloc_live ctx' = insert (unat b, unat (falloc_round al n)) (falloc_live ctx)" using c(6) r by simp
  have "tiling B S (falloc_free_regions ctx) (falloc_live ctx)" using inv by (simp add: falloc_inv_def)
  from tiling_take(2) [OF this ff pos] show "(unat b, unat (falloc_round al n)) \<notin> falloc_live ctx" .
qed

lemma falloc_free_op_Some:
  assumes "falloc_ctx_inv B S al ctx" and "falloc_free_op b ctx = Some ctx'"
  shows "falloc_ctx_inv B S al ctx' \<and>
         (\<exists>m. (unat b, m) \<in> falloc_live ctx \<and> falloc_live ctx' = falloc_live ctx - {(unat b, m)})"
proof -
  have inv: "falloc_inv B S ctx" and al: "alignment ctx = al"
    using assms(1) by (simp_all add: falloc_ctx_inv_def)
  show ?thesis
  proof (rule disjE [OF falloc_free_cases [OF inv, of b]]; (elim exE conjE)?)
    assume "falloc_free_impl ctx b = (1, ctx)"
    with assms(2) show ?thesis by (simp add: falloc_free_op_def)
  next
    fix m c
    assume "falloc_free_impl ctx b = (0, c)"
    with assms(2) have "c = ctx'" by (simp add: falloc_free_op_def)
    moreover assume "(unat b, m) \<in> falloc_live ctx" "falloc_inv B S c" "alignment c = alignment ctx"
      "falloc_live c = falloc_live ctx - {(unat b, m)}"
    ultimately show ?thesis using al unfolding falloc_ctx_inv_def by blast
  qed
qed

interpretation falloc: region_allocator
  "falloc_ctx_inv B S al" falloc_live "\<lambda>n. n \<noteq> 0" "falloc_round al" "falloc_alloc_op mo" falloc_free_op B S
proof
  fix s r assume i: "falloc_ctx_inv B S al s"
  then have t: "tiling B S (falloc_free_regions s) (falloc_live s)" and inv: "falloc_inv B S s"
    by (auto simp: falloc_ctx_inv_def falloc_inv_def)
  show "finite (falloc_live s)" by (simp add: falloc_live_def)
  show "r \<in> falloc_live s \<Longrightarrow> cells r \<subseteq> {B..<B + S}" by (rule tiling_live_window [OF t])
  show "r \<in> falloc_live s \<Longrightarrow> 0 < snd r" using t by (auto simp: tiling_def)
  show "cells r \<inter> cells r' = {}" if "r \<in> falloc_live s" "r' \<in> falloc_live s" "r \<noteq> r'" for r'
    by (rule tiling_live_disjoint [OF t that])
  fix n b s'
  show "falloc_ctx_inv B S al s'" if "n \<noteq> 0" "falloc_alloc_op mo n s = Some (b, s')"
    by (rule falloc_alloc_op_Some(1) [OF i that])
  show "falloc_live s' = insert (region_of b (falloc_round al n)) (falloc_live s) \<and>
      region_of b (falloc_round al n) \<notin> falloc_live s"
    if "n \<noteq> 0" "falloc_alloc_op mo n s = Some (b, s')"
    unfolding region_of_def using falloc_alloc_op_Some(4,5) [OF i that] by blast
  show "falloc_ctx_inv B S al s'" if "falloc_free_op b s = Some s'"
    using falloc_free_op_Some [OF i that] by blast
  show "\<exists>n. (unat b, n) \<in> falloc_live s \<and> falloc_live s' = falloc_live s - {(unat b, n)}"
    if "falloc_free_op b s = Some s'"
    using falloc_free_op_Some [OF i that] by blast
  show "\<exists>s'. falloc_free_op b s = Some s'" if "(unat b, m) \<in> falloc_live s" for m
    using falloc_free_cases [OF inv, of b] that by (auto simp: falloc_free_op_def)
qed

section \<open>Properties\<close>

text \<open>A 4096-byte window with 64-byte alignment, at which the properties are evaluated.\<close>

definition falloc_demo :: FallocCtx where
  "falloc_demo = snd (falloc_init_impl True True FALLOC_CTX_INITIALIZER 0x80000000 4096 64 False)"

lemma falloc_demo_inv: "falloc_inv 0x80000000 4096 falloc_demo" "alignment falloc_demo = 64"
proof -
  have "falloc_inv (unat (0x80000000 :: u64)) (unat (4096 :: u64)) (FALLOC_CTX_INITIALIZER
      \<lparr>alignment := 64, free_list := [\<lparr>b_size = 4096, b_dptr = 0x80000000\<rparr>]\<rparr>)"
    by (rule falloc_inv_init) (simp_all add: pow2_def FALLOC_CTX_INITIALIZER_def)
  then show "falloc_inv 0x80000000 4096 falloc_demo" "alignment falloc_demo = 64"
    by (simp_all add: falloc_demo_def falloc_init_impl_def Let_def)
qed

lemma falloc_demo_malloc: "\<exists>c. falloc_malloc_impl True falloc_demo True 100 = (0, Some 0x80000000, c)"
proof -
  have "fst (falloc_malloc_impl True falloc_demo True 100) = 0 \<and>
      fst (snd (falloc_malloc_impl True falloc_demo True 100)) = Some 0x80000000"
    by code_simp
  then show ?thesis by (metis prod.collapse)
qed

text \<open>
  C37. Allocation of device memory: a non-zero request either fails without a change (the rounded
  size overflows, the host is out of memory, or no free block is large enough), or returns a
  block whose size is the request rounded up to the alignment, inside the window,
  disjoint from every live block, with the invariant kept. As long as every free block starts at
  a multiple of the alignment, so does the returned block, and the free blocks that are left still do; a
  block placed at a fixed address can end that.
\<close>

theorem falloc_malloc_correct:
  assumes "falloc_inv B S ctx" and "sz \<noteq> 0"
  shows "case falloc_malloc_impl mo ctx True sz of
           (rc, None, ctx') \<Rightarrow> rc = 1 \<and> ctx' = ctx \<and>
              (\<not> mo \<or> (case align_size ctx sz of None \<Rightarrow> 2 ^ 64 \<le> unat sz + (unat (alignment ctx) - 1)
                 | Some n \<Rightarrow> \<forall>r \<in> set (falloc_free_regions ctx). snd r < unat n))
         | (rc, Some p, ctx') \<Rightarrow> rc = 0 \<and> falloc_inv B S ctx' \<and>
              (\<exists>n. unat sz \<le> n \<and> n < unat sz + unat (alignment ctx) \<and> unat (alignment ctx) dvd n \<and>
                   cells (unat p, n) \<subseteq> {B..<B + S} \<and>
                   (\<forall>r \<in> falloc_live ctx. cells (unat p, n) \<inter> cells r = {}) \<and>
                   falloc_live ctx' = insert (unat p, n) (falloc_live ctx)) \<and>
              ((\<forall>r \<in> set (falloc_free_regions ctx). unat (alignment ctx) dvd fst r) \<longrightarrow>
                 unat (alignment ctx) dvd unat p \<and>
                 (\<forall>r \<in> set (falloc_free_regions ctx'). unat (alignment ctx) dvd fst r))"
proof -
  have p2: "pow2 (alignment ctx)" using assms(1) by (simp add: falloc_inv_def)
  have t: "tiling B S (falloc_free_regions ctx) (falloc_live ctx)" using assms(1) by (simp add: falloc_inv_def)
  show ?thesis
  proof (rule disjE [OF falloc_malloc_cases [OF assms, of mo]]; (elim exE conjE)?)
    fix p ctx' n
    assume c: "falloc_malloc_impl mo ctx True sz = (0, Some p, ctx')" and n: "align_size ctx sz = Some n"
      and inv': "falloc_inv B S ctx'"
      and ff: "take_first_fit (unat n) (falloc_free_regions ctx) = Some (unat p, falloc_free_regions ctx')"
      and lv: "falloc_live ctx' = insert (unat p, unat n) (falloc_live ctx)"
    note a = align_size_Some [OF p2 n]
    have "0 < unat n" using a(2) assms(2) by (simp add: unat_pos_iff [symmetric])
    note tt = tiling_take [OF t ff this]
    have "(\<forall>r \<in> set (falloc_free_regions ctx). unat (alignment ctx) dvd fst r) \<longrightarrow>
        unat (alignment ctx) dvd unat p \<and> (\<forall>r \<in> set (falloc_free_regions ctx'). unat (alignment ctx) dvd fst r)"
      using take_first_fit_starts [OF ff] a by blast
    then show ?thesis
      unfolding c using a tt(3,4) lv inv' by auto
  qed (use align_size_None [OF p2, of sz] in \<open>auto split: option.splits\<close>)
qed

theorem falloc_malloc_correct_witness:
  "fst (falloc_malloc_impl True falloc_demo True 100) = 0 \<and>
   falloc_inv 0x80000000 4096 (snd (snd (falloc_malloc_impl True falloc_demo True 100)))"
proof -
  obtain c where c: "falloc_malloc_impl True falloc_demo True 100 = (0, Some 0x80000000, c)"
    using falloc_demo_malloc by blast
  from falloc_malloc_correct [OF falloc_demo_inv(1), of 100 True] show ?thesis by (simp add: c)
qed

text \<open>
  Allocation at a given device address: when the rounded range does not wrap around the
  address space, the call succeeds exactly when the whole range is free, and then exactly this
  range becomes live; otherwise nothing changes.
\<close>

lemma falloc_addr_malloc_correct:
  assumes "falloc_inv B S ctx" and "align_size ctx sz = Some n" and "sz \<noteq> 0"
    and "unat addr + unat n < 2 ^ 64"
  shows "case falloc_addr_malloc_impl True True ctx addr sz of (rc, ctx') \<Rightarrow>
           if cells (unat addr, unat n) \<subseteq> free_cells (falloc_free_regions ctx)
           then rc = 0 \<and> falloc_inv B S ctx' \<and>
                falloc_live ctx' = insert (unat addr, unat n) (falloc_live ctx) \<and>
                free_cells (falloc_free_regions ctx') =
                  free_cells (falloc_free_regions ctx) - cells (unat addr, unat n)
           else rc = 1 \<and> ctx' = ctx"
proof -
  have p2: "pow2 (alignment ctx)" and wf: "wf_free (falloc_free_regions ctx)"
    using assms(1) by (auto simp: falloc_inv_def tiling_def)
  have "0 < unat n" using align_size_Some(2) [OF p2 assms(2)] assms(3) by (simp add: unat_pos_iff [symmetric])
  with falloc_addr_malloc_cases [OF assms, of True True] take_at_cells(2) [OF _ wf] show ?thesis
    by (auto split: if_splits)
qed

text \<open>
  C39. Release of device memory: the base of a live block is always accepted, exactly that block
  stops being live and the invariant holds again; any other pointer is refused without a change.
\<close>

theorem falloc_free_correct:
  assumes "falloc_inv B S ctx"
  shows "case falloc_free_impl ctx ptr of (rc, ctx') \<Rightarrow>
           if \<exists>m. (unat ptr, m) \<in> falloc_live ctx
           then rc = 0 \<and> falloc_inv B S ctx' \<and>
                falloc_live ctx' = {r \<in> falloc_live ctx. fst r \<noteq> unat ptr}
           else rc = 1 \<and> ctx' = ctx"
proof (rule disjE [OF falloc_free_cases [OF assms, of ptr]]; (elim exE conjE)?)
  assume "\<nexists>m. (unat ptr, m) \<in> falloc_live ctx" "falloc_free_impl ctx ptr = (1, ctx)"
  then show ?thesis by simp
next
  fix m ctx'
  assume m: "(unat ptr, m) \<in> falloc_live ctx" and c: "falloc_free_impl ctx ptr = (0, ctx')"
    and inv': "falloc_inv B S ctx'" and lv: "falloc_live ctx' = falloc_live ctx - {(unat ptr, m)}"
  have "tiling B S (falloc_free_regions ctx) (falloc_live ctx)" using assms by (simp add: falloc_inv_def)
  note only = tiling_live_base [OF this m]
  have "falloc_live ctx' = {r \<in> falloc_live ctx. fst r \<noteq> unat ptr}"
  proof (rule set_eqI)
    show "r \<in> falloc_live ctx' \<longleftrightarrow> r \<in> {r \<in> falloc_live ctx. fst r \<noteq> unat ptr}" for r
      using only [of "snd r"] by (cases r) (auto simp: lv)
  qed
  moreover have "\<exists>m. (unat ptr, m) \<in> falloc_live ctx" using m by blast
  ultimately show ?thesis using inv' by (simp add: c)
qed

theorem falloc_free_correct_witness:
  "falloc_free_impl falloc_demo 0x80000040 = (1, falloc_demo)"
proof -
  have "falloc_live falloc_demo = {}"
    by (simp add: falloc_demo_def falloc_init_impl_def Let_def falloc_live_def FALLOC_CTX_INITIALIZER_def)
  with falloc_free_correct [OF falloc_demo_inv(1), of "0x80000040"] show ?thesis
    by (auto split: prod.splits)
qed

text \<open>
  C35. Over every history of non-zero requests and releases, whatever the host's own allocator
  answers, live device blocks stay inside the window and pairwise disjoint; and releasing a block
  just allocated restores the free list block for block.
\<close>

theorem falloc_history_disjoint:
  assumes "falloc_ctx_inv B S al ctx" and "list_all (op_ok (\<lambda>n. n \<noteq> 0)) ps"
  shows "let c = fold (region_step (falloc_alloc_op mo) falloc_free_op) ps ctx; L = falloc_live c
         in (\<forall>r \<in> L. \<forall>r' \<in> L. r \<noteq> r' \<longrightarrow> cells r \<inter> cells r' = {}) \<and>
            (\<forall>r \<in> L. cells r \<subseteq> {B..<B + S}) \<and>
            (\<forall>n b c'. n \<noteq> 0 \<and> falloc_alloc_op mo n c = Some (b, c') \<longrightarrow>
               (\<exists>c''. falloc_free_op b c' = Some c'' \<and> falloc_live c'' = L \<and>
                  falloc_free_regions c'' = falloc_free_regions c))"
proof -
  define c where "c = fold (region_step (falloc_alloc_op mo) falloc_free_op) ps ctx"
  have i: "falloc_ctx_inv B S al c" unfolding c_def by (rule falloc.run_inv [OF assms])
  then have wf: "wf_free (falloc_free_regions c)"
    by (auto simp: falloc_ctx_inv_def falloc_inv_def dest: tiling_wf)
  have rt: "\<exists>c''. falloc_free_op b c' = Some c'' \<and> falloc_live c'' = falloc_live c \<and>
      falloc_free_regions c'' = falloc_free_regions c"
    if n: "n \<noteq> 0" and a: "falloc_alloc_op mo n c = Some (b, c')" for n b c'
  proof -
    note al = falloc_alloc_op_Some [OF i n a]
    let ?r = "(unat b, unat (falloc_round al n))"
    have inv': "falloc_inv B S c'" using al(1) by (simp add: falloc_ctx_inv_def)
    then have t: "tiling B S (falloc_free_regions c') (falloc_live c')" by (simp add: falloc_inv_def)
    have "?r \<in> falloc_live c'" using al(4) by simp
    then obtain m c'' where m: "(unat b, m) \<in> falloc_live c'" "falloc_free_impl c' b = (0, c'')"
      "falloc_free_regions c'' = give_back (unat b, m) (falloc_free_regions c')"
      "falloc_live c'' = falloc_live c' - {(unat b, m)}"
      using falloc_free_cases [OF inv', of b] by blast
    have "m = unat (falloc_round al n)" using tiling_live_base [OF t m(1)] al(4) by simp
    with m al(4,5) give_back_take_first_fit [OF al(3) wf al(2)] show ?thesis
      by (simp add: falloc_free_op_def)
  qed
  show ?thesis
    unfolding c_def [symmetric] Let_def
    using falloc.live_disjoint [OF i] falloc.live_window [OF i] rt by blast
qed

theorem falloc_history_disjoint_witness:
  "let c = fold (region_step (falloc_alloc_op (\<lambda>_. True)) falloc_free_op)
             [Alloc 100, Alloc 64, Dealloc 0x80000000, Alloc 10] falloc_demo
   in \<Union> (cells ` falloc_live c) \<subseteq> {0x80000000..<0x80000000 + 4096}"
  using falloc_history_disjoint [of "0x80000000" 4096 64 falloc_demo
      "[Alloc 100, Alloc 64, Dealloc 0x80000000, Alloc 10]" "\<lambda>_. True"] falloc_demo_inv
  by (auto simp: falloc_ctx_inv_def Let_def)

section \<open>Outside the contract\<close>

text \<open>
  A request for zero bytes is accepted and receives an empty block whose address is the base of
  the next block handed out: two live pointers are then equal.
\<close>

lemma falloc_malloc_zero_alias:
  "fst (snd (falloc_malloc_impl True falloc_demo True 0)) = Some 0x80000000"
  "fst (snd (falloc_malloc_impl True (snd (snd (falloc_malloc_impl True falloc_demo True 0))) True 64)) =
     Some 0x80000000"
  by code_simp+

text \<open>
  For a size whose end address wraps, the range test of the fixed-address allocation passes
  although the range is not free.
\<close>

lemma falloc_addr_malloc_wraps:
  "fst (falloc_addr_malloc_impl True True falloc_demo 0x80000400 0xFFFFFFFF80000000) = 0"
  by code_simp

end
