(* ===== verification/Libcomm.thy ===== *)
theory Libcomm
  imports Command_Packet "HOL-Library.Sublist"
begin

text \<open>
  The message protocol between the host library and the simulated device
  (\<^verbatim>\<open>libcomm/include/libcomm/libcomm.h\<close>): messages, their frames, the loops that push a frame through a
  stream socket and pull it out again, and the receiver thread. The socket belongs to the operating
  system: what each call of \<^verbatim>\<open>send\<close> and \<^verbatim>\<open>recv\<close> returns is an argument, a list of events. The
  theory shows that a message survives every way the socket may cut its bytes into pieces.
\<close>

section \<open>Messages\<close>

datatype Cmd = Get | Put | Probe | Terminate | AccessAckData | AccessAck | ProbeAck | TerminateAck | Wait | WaitAck

fun cmd_code :: "Cmd \<Rightarrow> u32" where
  "cmd_code Get = 0"
| "cmd_code Put = 1"
| "cmd_code Probe = 2"
| "cmd_code Terminate = 3"
| "cmd_code AccessAckData = 4"
| "cmd_code AccessAck = 5"
| "cmd_code ProbeAck = 6"
| "cmd_code TerminateAck = 7"
| "cmd_code Wait = 8"
| "cmd_code WaitAck = 9"

datatype Status = Okay | AddrErr | CmdErr | GenericErr

fun status_code :: "Status \<Rightarrow> u32" where
  "status_code Okay = 0"
| "status_code AddrErr = 1"
| "status_code CmdErr = 2"
| "status_code GenericErr = 3"

text \<open>
  An enumeration value read from a frame may be any 32-bit number, so the fields hold the codes. The
  data pointer is the list of bytes it points to, empty for the null pointer.
\<close>

record Msg =
  msg_cmd :: u32
  msg_id :: u32
  msg_addr :: u64
  msg_size :: u64
  msg_status :: u32
  msg_data :: "u8 list"

definition is_request :: "Msg \<Rightarrow> bool" where
  "is_request m \<longleftrightarrow> msg_cmd m = cmd_code Get \<or> msg_cmd m = cmd_code Put \<or> msg_cmd m = cmd_code Probe \<or>
     msg_cmd m = cmd_code Terminate \<or> msg_cmd m = cmd_code Wait"

definition is_response :: "Msg \<Rightarrow> bool" where
  "is_response m \<longleftrightarrow> msg_cmd m = cmd_code AccessAckData \<or> msg_cmd m = cmd_code AccessAck \<or>
     msg_cmd m = cmd_code ProbeAck \<or> msg_cmd m = cmd_code TerminateAck \<or> msg_cmd m = cmd_code WaitAck"

definition has_data :: "Msg \<Rightarrow> bool" where
  "has_data m \<longleftrightarrow> msg_cmd m = cmd_code Put \<or> msg_cmd m = cmd_code AccessAckData"

definition msg_build :: "u32 \<Rightarrow> Msg" where
  "msg_build c = \<lparr>msg_cmd = c, msg_id = 0, msg_addr = 0, msg_size = 0, msg_status = status_code Okay, msg_data = []\<rparr>"

definition msg_respond :: "Msg \<Rightarrow> Msg" where
  "msg_respond m =
     (if msg_cmd m = cmd_code Get then m\<lparr>msg_cmd := cmd_code AccessAckData\<rparr>
      else if msg_cmd m = cmd_code Put then m\<lparr>msg_cmd := cmd_code AccessAck\<rparr>
      else if msg_cmd m = cmd_code Probe then m\<lparr>msg_cmd := cmd_code ProbeAck\<rparr>
      else if msg_cmd m = cmd_code Terminate then m\<lparr>msg_cmd := cmd_code TerminateAck\<rparr>
      else if msg_cmd m = cmd_code Wait then m\<lparr>msg_cmd := cmd_code WaitAck\<rparr>
      else m)"

definition kHeaderSize :: nat where
  "kHeaderSize = 4 + 4 + 8 + 8 + 4"

section \<open>Frames\<close>

fun AppendValue :: "nat \<Rightarrow> 'a::len word \<Rightarrow> u8 list" where
  "AppendValue 0 val = []"
| "AppendValue (Suc n) val = ucast (val AND 0xff) # AppendValue n (drop_bit 8 val)"

fun extract_loop :: "nat \<Rightarrow> 'a::len word \<Rightarrow> u8 list \<Rightarrow> 'a word" where
  "extract_loop i tmp [] = tmp"
| "extract_loop i tmp (b # bs) = extract_loop (Suc i) (tmp OR push_bit (i * 8) (ucast b)) bs"

definition ExtractValue :: "nat \<Rightarrow> u8 list \<Rightarrow> 'a::len word \<times> u8 list" where
  "ExtractValue n p = (extract_loop 0 0 (take n p), drop n p)"

definition Serialize :: "Msg \<Rightarrow> u8 list" where
  "Serialize m =
     (let data_size = (if has_data m then unat (msg_size m) else 0)
      in AppendValue 4 (msg_cmd m) @ AppendValue 4 (msg_id m) @ AppendValue 8 (msg_addr m) @
         AppendValue 8 (msg_size m) @ AppendValue 4 (msg_status m) @ take data_size (msg_data m))"

definition Deserialize :: "u8 list \<Rightarrow> Msg" where
  "Deserialize frame =
     (case ExtractValue 4 frame of (c, p1) \<Rightarrow>
      case ExtractValue 4 p1 of (i, p2) \<Rightarrow>
      case ExtractValue 8 p2 of (a, p3) \<Rightarrow>
      case ExtractValue 8 p3 of (sz, p4) \<Rightarrow>
      case ExtractValue 4 p4 of (st, p5) \<Rightarrow>
        (msg_build c)\<lparr>msg_id := i, msg_addr := a, msg_size := sz, msg_status := st,
          msg_data := (if sz = 0 then [] else take (unat sz) p5)\<rparr>)"

section \<open>The socket\<close>

text \<open>
  One call of \<^verbatim>\<open>send\<close> or \<^verbatim>\<open>recv\<close>: it moves some bytes, at least one and at most what was asked for and is
  there; it is interrupted and tried again; the peer has closed the connection; or it fails. When the list
  of events ends the call has not returned yet.
\<close>

datatype sock_event = Moved nat | Retry | Closed | Failed

datatype 'a sock_result = Done 'a "sock_event list" | Down | Blocked

fun send_loop :: "u8 list \<Rightarrow> sock_event list \<Rightarrow> u8 list \<Rightarrow> u8 list sock_result" where
  "send_loop [] es out = Done out es"
| "send_loop (b # bs) [] out = Blocked"
| "send_loop (b # bs) (Retry # es) out = send_loop (b # bs) es out"
| "send_loop (b # bs) (Closed # es) out = Down"
| "send_loop (b # bs) (Failed # es) out = Down"
| "send_loop (b # bs) (Moved k # es) out = send_loop (drop (Suc k) (b # bs)) es (out @ take (Suc k) (b # bs))"

definition Transceiver_Send :: "Msg \<Rightarrow> sock_event list \<Rightarrow> u8 list \<Rightarrow> u8 list sock_result" where
  "Transceiver_Send m es out = send_loop (Serialize m) es out"

text \<open>The bytes received so far are accumulated in \<open>acc\<close>; \<open>wire\<close> is what the peer has sent.\<close>

fun recv_loop :: "nat \<Rightarrow> sock_event list \<Rightarrow> u8 list \<Rightarrow> u8 list \<Rightarrow> (u8 list \<times> u8 list) sock_result" where
  "recv_loop 0 es wire acc = Done (acc, wire) es"
| "recv_loop (Suc n) [] wire acc = Blocked"
| "recv_loop (Suc n) (Retry # es) wire acc = recv_loop (Suc n) es wire acc"
| "recv_loop (Suc n) (Closed # es) wire acc = Down"
| "recv_loop (Suc n) (Failed # es) wire acc = Down"
| "recv_loop (Suc n) (Moved k # es) wire acc =
     (let got = take (min (Suc k) (Suc n)) wire
      in recv_loop (Suc n - length got) es (drop (length got) wire) (acc @ got))"

text \<open>
  One turn of the receiver thread.  When the header of a message that carries no data has a non-zero
  size, the code points the data of the message behind the received header, at bytes nobody received; in
  the model such a message carries the empty list.
\<close>

definition recv_msg :: "sock_event list \<Rightarrow> u8 list \<Rightarrow> (Msg \<times> u8 list) sock_result" where
  "recv_msg es wire =
     (case recv_loop kHeaderSize es wire [] of
        Down \<Rightarrow> Down
      | Blocked \<Rightarrow> Blocked
      | Done (hdr, wire1) es1 \<Rightarrow>
          let m = Deserialize hdr in
          if has_data m
          then (case recv_loop (unat (msg_size m)) es1 wire1 [] of
                  Down \<Rightarrow> Down
                | Blocked \<Rightarrow> Blocked
                | Done (dat, wire2) es2 \<Rightarrow> Done (Deserialize (hdr @ dat), wire2) es2)
          else Done (m, wire1) es1)"

lemma recv_loop_events:
  "recv_loop n es wire acc = Done r es' \<Longrightarrow> length es' \<le> length es \<and> (n \<noteq> 0 \<longrightarrow> length es' < length es)"
  by (induction n es wire acc rule: recv_loop.induct) (fastforce simp: Let_def)+

lemma recv_msg_events: "recv_msg es wire = Done r es' \<Longrightarrow> length es' < length es"
  unfolding recv_msg_def kHeaderSize_def
  by (auto simp: Let_def split: sock_result.splits if_splits dest!: recv_loop_events)

text \<open>
  The receiver thread: the messages it hands to the handler, in order, and whether the connection is down.
\<close>

function Transceiver_Recv :: "sock_event list \<Rightarrow> u8 list \<Rightarrow> Msg list \<times> bool" where
  "Transceiver_Recv es wire =
     (case recv_msg es wire of
        Done (m, wire') es' \<Rightarrow> (case Transceiver_Recv es' wire' of (ms, down) \<Rightarrow> (m # ms, down))
      | Down \<Rightarrow> ([], True)
      | Blocked \<Rightarrow> ([], False))"
  by pat_completeness auto
termination
  by (relation "measure (\<lambda>(es, wire). length es)") (auto dest: recv_msg_events)

declare Transceiver_Recv.simps [simp del]

section \<open>Values and frames\<close>

lemma AppendValue_le_bytes: "AppendValue k w = le_bytes k w"
proof (induction k arbitrary: w)
  case 0
  then show ?case by (simp add: le_bytes_def)
next
  case (Suc k)
  have "map (\<lambda>i. ucast (drop_bit (8 * i) w)) [0..<Suc k] =
      (ucast w :: u8) # map (\<lambda>i. ucast (drop_bit (8 * i) (drop_bit 8 w))) [0..<k]"
    unfolding upt_conv_Cons [OF zero_less_Suc] by (simp add: map_Suc_upt [symmetric] add.commute del: map_Suc_upt upt_Suc)
  moreover have "(ucast (w AND 0xff) :: u8) = ucast w"
  proof -
    have ff: "(0xff :: 'a word) = mask 8" by (simp add: mask_numeral)
    show ?thesis unfolding ff by (rule bit_word_eqI) (simp add: bit_ucast_iff bit_and_iff bit_mask_iff, auto dest: bit_imp_le_length)
  qed
  ultimately show ?case using Suc by (simp add: le_bytes_def)
qed

lemma extract_loop_le_word: "extract_loop i tmp bs = tmp OR push_bit (i * 8) (le_word bs)"
proof (induction bs arbitrary: i tmp)
  case (Cons b bs)
  have "push_bit (Suc i * 8) (le_word bs :: 'a word) = push_bit (i * 8) (push_bit 8 (le_word bs))"
    by (simp add: add.commute)
  then show ?case by (simp add: Cons push_bit_or or.assoc)
qed simp

lemma extract_append:
  assumes "LENGTH('a::len) = 8 * k"
  shows "ExtractValue k (AppendValue k (w :: 'a word) @ p) = (w, p)"
  using le_word_le_bytes [OF assms, of w]
  by (simp add: ExtractValue_def AppendValue_le_bytes extract_loop_le_word)

lemma extract_widths [simp]:
  "ExtractValue 4 (AppendValue 4 (a :: u32) @ p) = (a, p)" "ExtractValue 8 (AppendValue 8 (b :: u64) @ p) = (b, p)"
  by (rule extract_append; simp)+

definition msg_ok :: "Msg \<Rightarrow> bool" where
  "msg_ok m \<longleftrightarrow> length (msg_data m) = (if has_data m then unat (msg_size m) else 0)"

definition header_bytes :: "Msg \<Rightarrow> u8 list" where
  "header_bytes m = AppendValue 4 (msg_cmd m) @ AppendValue 4 (msg_id m) @ AppendValue 8 (msg_addr m) @
     AppendValue 8 (msg_size m) @ AppendValue 4 (msg_status m)"

lemma length_header [simp]: "length (header_bytes m) = kHeaderSize"
  by (simp add: header_bytes_def AppendValue_le_bytes kHeaderSize_def)

lemma Serialize_ok: "msg_ok m \<Longrightarrow> Serialize m = header_bytes m @ msg_data m"
  by (simp add: Serialize_def msg_ok_def header_bytes_def)

lemma Deserialize_header:
  "Deserialize (header_bytes m @ bs) = m\<lparr>msg_data := (if msg_size m = 0 then [] else take (unat (msg_size m)) bs)\<rparr>"
  by (simp add: Deserialize_def header_bytes_def msg_build_def del: AppendValue.simps)

lemma Deserialize_Serialize:
  assumes "msg_ok m"
  shows "Deserialize (Serialize m) = m"
  using assms by (cases m) (auto simp: Serialize_ok Deserialize_header msg_ok_def unsigned_eq_0_iff split: if_splits)

section \<open>The socket loops\<close>

lemma send_loop_Done: "send_loop bs es out = Done r es' \<Longrightarrow> r = out @ bs"
  by (induction bs es out rule: send_loop.induct) auto

lemma recv_loop_Done:
  "recv_loop n es wire acc = Done (x, w') es' \<Longrightarrow> n \<le> length wire \<and> x = acc @ take n wire \<and> w' = drop n wire"
proof (induction n es wire acc rule: recv_loop.induct)
  case (6 n k es wire acc)
  let ?got = "take (min (Suc k) (Suc n)) wire"
  have len: "length ?got \<le> Suc n" "length ?got \<le> length wire" by auto
  have ih: "Suc n - length ?got \<le> length (drop (length ?got) wire)"
    "x = (acc @ ?got) @ take (Suc n - length ?got) (drop (length ?got) wire)"
    "w' = drop (Suc n - length ?got) (drop (length ?got) wire)"
    using 6 by (simp_all add: Let_def)
  have "?got = take (length ?got) wire" by (metis append_eq_conv_conj append_take_drop_id)
  then have "?got @ take (Suc n - length ?got) (drop (length ?got) wire) = take (Suc n) wire"
    using len(1) by (metis le_add_diff_inverse take_add)
  then show ?case using ih len by (auto simp: min_def split: if_splits)
qed auto

fun good :: "sock_event \<Rightarrow> bool" where
  "good (Moved k) = True"
| "good Retry = True"
| "good _ = False"

definition moves :: "sock_event list \<Rightarrow> nat" where
  "moves es = length (filter (\<lambda>e. e \<noteq> Retry) es)"

lemma moves_simps [simp]: "moves [] = 0" "moves (Moved k # es) = Suc (moves es)" "moves (Retry # es) = moves es"
  by (simp_all add: moves_def)

text \<open>With enough events that move a byte each, the wanted bytes arrive.\<close>

lemma recv_loop_returns:
  "list_all good es \<Longrightarrow> n \<le> length wire \<Longrightarrow> n \<le> moves es \<Longrightarrow>
   \<exists>es'. recv_loop n es wire acc = Done (acc @ take n wire, drop n wire) es' \<and> list_all good es' \<and> moves es \<le> moves es' + n"
proof (induction n es wire acc rule: recv_loop.induct)
  case (6 n k es wire acc)
  let ?m = "min (Suc k) (Suc n)"
  let ?got = "take ?m wire"
  have m: "length ?got = ?m" "1 \<le> ?m" "?m \<le> Suc n" using 6 by auto
  have "\<exists>es'. recv_loop (Suc n - ?m) es (drop ?m wire) (acc @ ?got) =
      Done ((acc @ ?got) @ take (Suc n - ?m) (drop ?m wire), drop (Suc n - ?m) (drop ?m wire)) es' \<and>
      list_all good es' \<and> moves es \<le> moves es' + (Suc n - ?m)"
    using 6(1) [OF refl] 6(2-) m unfolding m(1) by simp
  moreover have "?got @ take (Suc n - ?m) (drop ?m wire) = take (Suc n) wire"
    using m by (metis le_add_diff_inverse take_add)
  ultimately show ?case using m by (auto simp: Let_def simp del: take_Suc_Cons)
qed auto

text \<open>A message on the wire, whatever follows it: what the receiver can get, and that it gets it.\<close>

lemma recv_msg_Done:
  assumes ok: "msg_ok m" and r: "recv_msg es (Serialize m @ rest) = Done (m', wire') es'"
  shows "m' = m \<and> wire' = rest"
proof -
  obtain es1 where h: "recv_loop kHeaderSize es (Serialize m @ rest) [] = Done (header_bytes m, msg_data m @ rest) es1"
  proof (cases "recv_loop kHeaderSize es (Serialize m @ rest) []")
    case (Done p es1)
    then show ?thesis using recv_loop_Done [of kHeaderSize es "Serialize m @ rest" "[]" "fst p" "snd p" es1] that ok
      by (cases p) (simp add: Serialize_ok)
  qed (use r in \<open>simp_all add: recv_msg_def\<close>)
  have hd: "Deserialize (header_bytes m) = m\<lparr>msg_data := []\<rparr>"
    using Deserialize_header [of m "[]"] by simp
  show ?thesis
  proof (cases "has_data m")
    case True
    then have d: "has_data (m\<lparr>msg_data := []\<rparr>)" "unat (msg_size m) = length (msg_data m)"
      using ok by (simp_all add: has_data_def msg_ok_def)
    from r h d obtain dat w2 es2 where "recv_loop (length (msg_data m)) es1 (msg_data m @ rest) [] = Done (dat, w2) es2"
      "m' = Deserialize (header_bytes m @ dat)" "wire' = w2"
      by (auto simp: recv_msg_def Let_def hd split: sock_result.splits)
    with recv_loop_Done [of "length (msg_data m)" es1 "msg_data m @ rest" "[]" dat w2 es2] show ?thesis
      using Deserialize_Serialize [OF ok] ok by (simp add: Serialize_ok)
  next
    case False
    then have e: "msg_data m = []" "Deserialize (header_bytes m) = m"
      using ok Deserialize_Serialize [OF ok] by (simp_all add: Serialize_ok msg_ok_def)
    with r h False show ?thesis by (simp add: recv_msg_def Let_def)
  qed
qed

lemma recv_msg_returns:
  assumes ok: "msg_ok m" and g: "list_all good es" and n: "length (Serialize m) \<le> moves es"
  shows "\<exists>es'. recv_msg es (Serialize m @ rest) = Done (m, rest) es' \<and> list_all good es' \<and>
    moves es \<le> moves es' + length (Serialize m)"
proof -
  have len: "length (Serialize m) = kHeaderSize + length (msg_data m)" using ok by (simp add: Serialize_ok)
  obtain es1 where h: "recv_loop kHeaderSize es (Serialize m @ rest) [] = Done (header_bytes m, msg_data m @ rest) es1"
    "list_all good es1" "moves es \<le> moves es1 + kHeaderSize"
    using recv_loop_returns [OF g, of kHeaderSize "Serialize m @ rest" "[]"] n len ok by (auto simp: Serialize_ok)
  have hd: "Deserialize (header_bytes m) = m\<lparr>msg_data := []\<rparr>" using Deserialize_header [of m "[]"] by simp
  show ?thesis
  proof (cases "has_data m")
    case True
    then have d: "has_data (m\<lparr>msg_data := []\<rparr>)" "unat (msg_size m) = length (msg_data m)"
      using ok by (simp_all add: has_data_def msg_ok_def)
    obtain es2 where "recv_loop (length (msg_data m)) es1 (msg_data m @ rest) [] = Done (msg_data m, rest) es2"
      "list_all good es2" "moves es1 \<le> moves es2 + length (msg_data m)"
      using recv_loop_returns [OF h(2), of "length (msg_data m)" "msg_data m @ rest" "[]"] n h(3) len by auto
    then show ?thesis using h d Deserialize_Serialize [OF ok] ok len
      by (simp add: recv_msg_def Let_def hd Serialize_ok)
  next
    case False
    then have e: "msg_data m = []" "Deserialize (header_bytes m) = m"
      using ok Deserialize_Serialize [OF ok] by (simp_all add: Serialize_ok msg_ok_def)
    then show ?thesis using h len False by (simp add: recv_msg_def Let_def)
  qed
qed

text \<open>Sending several messages, one after the other, over one connection.\<close>

fun send_msgs :: "Msg list \<Rightarrow> sock_event list \<Rightarrow> u8 list \<Rightarrow> u8 list sock_result" where
  "send_msgs [] es out = Done out es"
| "send_msgs (m # ms) es out = (case Transceiver_Send m es out of
     Done out' es' \<Rightarrow> send_msgs ms es' out' | Down \<Rightarrow> Down | Blocked \<Rightarrow> Blocked)"

lemma send_msgs_Done: "send_msgs ms es out = Done wire es' \<Longrightarrow> wire = out @ concat (map Serialize ms)"
  by (induction ms arbitrary: es out)
    (fastforce simp: Transceiver_Send_def dest!: send_loop_Done split: sock_result.splits)+

lemma recv_msg_empty: "recv_msg es [] \<noteq> Done r es'"
proof
  assume r: "recv_msg es [] = Done r es'"
  then obtain h w es1 where "recv_loop kHeaderSize es [] [] = Done (h, w) es1"
    by (auto simp: recv_msg_def split: sock_result.splits)
  from recv_loop_Done [OF this] show False by (simp add: kHeaderSize_def)
qed

lemma Transceiver_Recv_prefix:
  "list_all msg_ok ms \<Longrightarrow> prefix (fst (Transceiver_Recv es (concat (map Serialize ms)))) ms"
proof (induction ms arbitrary: es)
  case Nil
  then show ?case
    using recv_msg_empty [of es] by (simp add: Transceiver_Recv.simps [of es] split: sock_result.splits)
next
  case (Cons m ms)
  show ?case
  proof (cases "recv_msg es (Serialize m @ concat (map Serialize ms))")
    case (Done p es')
    obtain m' w where p: "p = (m', w)" by (cases p)
    with recv_msg_Done [OF _ Done [unfolded p]] Cons.prems have "m' = m" "w = concat (map Serialize ms)" by auto
    then show ?thesis using Done p Cons.IH [of es'] Cons.prems
      by (simp add: Transceiver_Recv.simps [of es] case_prod_unfold)
  qed (simp_all add: Transceiver_Recv.simps [of es])
qed

lemma Transceiver_Recv_all:
  "list_all msg_ok ms \<Longrightarrow> list_all good es \<Longrightarrow> length (concat (map Serialize ms)) \<le> moves es \<Longrightarrow>
   fst (Transceiver_Recv es (concat (map Serialize ms))) = ms"
proof (induction ms arbitrary: es)
  case Nil
  then show ?case
    using recv_msg_empty [of es] by (simp add: Transceiver_Recv.simps [of es] split: sock_result.splits)
next
  case (Cons m ms)
  then obtain es' where "recv_msg es (Serialize m @ concat (map Serialize ms)) = Done (m, concat (map Serialize ms)) es'"
    "list_all good es'" "moves es \<le> moves es' + length (Serialize m)"
    using recv_msg_returns [of m es "concat (map Serialize ms)"] by auto
  then show ?case using Cons by (simp add: Transceiver_Recv.simps [of es] case_prod_unfold)
qed

section \<open>Properties\<close>

text \<open>
  C40. Messages survive the socket: if a sequence of messages was sent, in whatever pieces the socket took the
  bytes, then the receiver thread hands over a prefix of exactly that sequence, in whatever pieces,
  interruptions and failures the bytes arrive; and once the socket has moved all bytes without
  failing, it has handed over the whole sequence.
\<close>

theorem messages_survive_socket:
  assumes "list_all msg_ok ms" and "send_msgs ms ses [] = Done wire ses'"
  shows "prefix (fst (Transceiver_Recv es wire)) ms \<and>
    (list_all good es \<and> length wire \<le> moves es \<longrightarrow> fst (Transceiver_Recv es wire) = ms)"
  using send_msgs_Done [OF assms(2)] Transceiver_Recv_prefix [OF assms(1)] Transceiver_Recv_all [OF assms(1)] by simp

definition demo_put :: Msg where
  "demo_put = (msg_build (cmd_code Put))\<lparr>msg_id := 7, msg_addr := 0x1000, msg_size := 4, msg_data := [0x12, 0x34, 0x56, 0x78]\<rparr>"

theorem messages_survive_socket_witness:
  "fst (Transceiver_Recv (Retry # replicate 40 (Moved 2)) (Serialize demo_put)) = [demo_put]"
proof -
  have ok: "list_all msg_ok [demo_put]" by (simp add: demo_put_def msg_ok_def has_data_def msg_build_def)
  have len: "length (Serialize demo_put) = 32" using ok by (simp add: Serialize_ok kHeaderSize_def) (simp add: demo_put_def)
  have "send_loop bs [Moved 63] [] = Done bs []" if "length bs = 32" for bs
    using that by (cases bs) auto
  with len have "send_msgs [demo_put] [Moved 63] [] = Done (Serialize demo_put) []"
    by (simp add: Transceiver_Send_def)
  from messages_survive_socket [OF ok this, of "Retry # replicate 40 (Moved 2)"] len show ?thesis
    by (simp add: moves_def list_all_iff)
qed

end
