(* ===== verification/Hal_Driver.thy ===== *)
theory Hal_Driver
  imports Libcomm Addr_Map
begin

text \<open>
  The backend of the host library (\<^verbatim>\<open>hal/src/real/lv/lv-driver.cc\<close>, \<^verbatim>\<open>lv-config.cc\<close>): requests to the device over a
  libcomm connection, the table of stored responses, and the device's configuration. What the
  peer does while a request is under way is an argument, one event per request: the connection is down,
  the send fails, or some messages arrive, among them possibly the response, before the wait ends.
  When the list of events is used up the connection is down: a list of events is a connection of finite
  life. Retry loops of the library therefore end in the model at the latest with the connection. A loop that
  polls a live connection for ever, as a wait without a timeout may, is not represented, and no property claims that such a loop ends.
\<close>

section \<open>Addresses\<close>

text \<open>The constants of the generated address map that only the host library uses.\<close>

record hal_map = addr_map +
  FSA_MMIO_BASE :: u64
  FSA_CLINT_BASE :: u64
  FSA_CLINT_MSIP_OFFSET :: u64
  FSA_SYSTEM_INFO_BASE :: u64
  FSA_SYSTEM_INFO_OFF_ABI_VERSION :: u64
  FSA_SYSTEM_INFO_OFF_LENGTH :: u64
  FSA_SYSTEM_INFO_OFF_NUM_SM :: u64
  FSA_SYSTEM_INFO_OFF_THREADS_PER_WARP :: u64
  FSA_SYSTEM_INFO_OFF_WARPS_PER_CORE :: u64
  FSA_SYSTEM_INFO_OFF_LOCAL_MEM_SIZE :: u64
  FSA_SYSTEM_INFO_OFF_SHARED_CACHE_SIZE :: u64
  FSA_SYSTEM_INFO_OFF_CACHE_BLOCK_SIZE :: u64
  FSA_SYSTEM_INFO_OFF_GLOBAL_ALLOC_BASE :: u64
  FSA_CP_OFF_FW_HOST_ADDR :: u64
  FSA_CP_OFF_FW_SIZE :: u64
  FSA_CP_OFF_CMD_RING_BASE :: u64
  FSA_CP_OFF_CMD_RING_SIZE :: u64
  FSA_CP_OFF_RD_PTR :: u64
  FSA_CP_OFF_WR_PTR :: u64
  FSA_CP_OFF_FW_STATUS :: u64
  FSA_CP_OFF_FW_ABI_VERSION :: u64
  FSA_CP_OFF_FW_BOOT_GENERATION :: u64
  FSA_CP_OFF_FW_FAULT_CODE :: u64
  FSA_COMPLETION_POOL_BASE :: u64
  FSA_COMPLETION_POOL_ENTRIES :: nat

section \<open>The client\<close>

record StoredResponse =
  sr_status :: u32
  sr_time_ns :: u64
  sr_data :: "u8 list"

record ConfigurationSnapshot =
  num_cores :: u64
  threads_per_warp :: u64
  warps_per_core :: u64
  local_mem_size :: u64
  shared_cache_size :: u64
  cache_line_size :: u64
  global_mem_base :: u64
  global_mem_alloc_base :: u64
  global_mem_size :: u64
  global_mem_noncache_alloc_base :: u64
  global_mem_noncache_alloc_size :: u64
  fsa_mmio_base :: u64
  clint_base :: u64

datatype peer_event = ConnectionDown | SendError | Arrived "Msg list"

text \<open>
  \<open>sent\<close> lists the messages handed to the transceiver, newest last; \<open>host_mem\<close> is the host memory that
  the device reads and writes by requests of its own; \<open>snapshot\<close> belongs to \<^verbatim>\<open>lv-config.cc\<close>.
\<close>

record LvClient =
  transceiver :: bool
  client_msg_id :: u64
  response :: "u64 \<Rightarrow> StoredResponse option"
  sent :: "Msg list"
  host_mem :: "u64 \<Rightarrow> u8"
  snapshot :: "ConfigurationSnapshot option"
  events :: "peer_event list"

definition host_load :: "(u64 \<Rightarrow> u8) \<Rightarrow> u64 \<Rightarrow> nat \<Rightarrow> u8 list" where
  "host_load hm a n = map (\<lambda>i. hm (a + of_nat i)) [0..<n]"

fun host_store :: "(u64 \<Rightarrow> u8) \<Rightarrow> u64 \<Rightarrow> u8 list \<Rightarrow> (u64 \<Rightarrow> u8)" where
  "host_store hm a [] = hm"
| "host_store hm a (b # bs) = host_store (hm(a := b)) (a + 1) bs"

text \<open>The handler of the receiver thread.\<close>

definition handle_request :: "Msg \<Rightarrow> LvClient \<Rightarrow> LvClient" where
  "handle_request m c =
     (if msg_cmd m = cmd_code Get
      then c\<lparr>sent := sent c @ [(msg_respond m)\<lparr>msg_data := host_load (host_mem c) (msg_addr m) (unat (msg_size m))\<rparr>]\<rparr>
      else if msg_cmd m = cmd_code Put
      then c\<lparr>host_mem := host_store (host_mem c) (msg_addr m) (take (unat (msg_size m)) (msg_data m)),
             sent := sent c @ [msg_respond m]\<rparr>
      else c)"

definition store_response :: "Msg \<Rightarrow> LvClient \<Rightarrow> LvClient" where
  "store_response m c =
     (let resp = \<lparr>sr_status = msg_status m,
            sr_time_ns = (if msg_cmd m = cmd_code WaitAck then msg_addr m else 0),
            sr_data = (if has_data m \<and> 0 < msg_size m then take (unat (msg_size m)) (msg_data m) else [])\<rparr>
      in if response c (ucast (msg_id m)) = None
         then c\<lparr>response := (response c)(ucast (msg_id m) \<mapsto> resp)\<rparr> else c)"

definition sync_handler :: "Msg \<Rightarrow> LvClient \<Rightarrow> LvClient" where
  "sync_handler m c =
     (let c1 = (if is_request m then handle_request m c else c)
      in if is_response m then store_response m c1 else c1)"

definition next_event :: "LvClient \<Rightarrow> peer_event \<times> LvClient" where
  "next_event c = (case events c of [] \<Rightarrow> (ConnectionDown, c) | e # es \<Rightarrow> (e, c\<lparr>events := es\<rparr>))"

text \<open>
  The part that \<open>fsa_real_put\<close>, \<open>fsa_real_get\<close> and \<open>wait_device_time\<close> share: take an identifier, send, wait for the
  response with that identifier and remove it from the table.
\<close>

definition take_response :: "u32 \<Rightarrow> LvClient \<Rightarrow> StoredResponse option \<times> LvClient" where
  "take_response i c = (case response c (ucast i) of
     None \<Rightarrow> (None, c) | Some r \<Rightarrow> (Some r, c\<lparr>response := (response c)(ucast i := None)\<rparr>))"

definition exchange :: "peer_event \<Rightarrow> (u32 \<Rightarrow> Msg) \<Rightarrow> LvClient \<Rightarrow> StoredResponse option \<times> LvClient" where
  "exchange e request c =
     (let i = ucast (client_msg_id c); c1 = c\<lparr>client_msg_id := client_msg_id c + 1\<rparr>
      in case e of
           Arrived ms \<Rightarrow> take_response i (fold sync_handler ms (c1\<lparr>sent := sent c1 @ [request i]\<rparr>))
         | _ \<Rightarrow> (None, c1))"

definition fsa_real_put :: "u64 \<Rightarrow> u8 list \<Rightarrow> LvClient \<Rightarrow> int \<times> LvClient" where
  "fsa_real_put dev_addr bytes c =
     (case next_event c of (e, c) \<Rightarrow>
        if \<not> transceiver c \<or> e = ConnectionDown then (-1, c)
        else if bytes = [] then (0, c)
        else case exchange e (\<lambda>i. (msg_build (cmd_code Put))\<lparr>msg_id := i, msg_addr := dev_addr,
                    msg_size := of_nat (length bytes), msg_data := bytes\<rparr>) c of
               (None, c') \<Rightarrow> (-1, c')
             | (Some r, c') \<Rightarrow> (if sr_status r \<noteq> status_code Okay then -1 else 0, c'))"

definition wait_device_time :: "u64 \<Rightarrow> LvClient \<Rightarrow> int \<times> u64 \<times> LvClient" where
  "wait_device_time duration_ns c =
     (case next_event c of (e, c) \<Rightarrow>
        if \<not> transceiver c \<or> e = ConnectionDown then (-1, 0, c)
        else case exchange e (\<lambda>i. (msg_build (cmd_code Wait))\<lparr>msg_id := i, msg_addr := duration_ns\<rparr>) c of
               (None, c') \<Rightarrow> (-1, 0, c')
             | (Some r, c') \<Rightarrow> (if sr_status r = status_code Okay then 0 else -1, sr_time_ns r, c'))"

definition fsa_real_time_ns :: "LvClient \<Rightarrow> int \<times> u64 \<times> LvClient" where
  "fsa_real_time_ns c = wait_device_time 0 c"

definition fsa_real_poll_backoff :: "LvClient \<Rightarrow> int \<times> u64 \<times> LvClient" where
  "fsa_real_poll_backoff c = wait_device_time 1000 c"

text \<open>A read returns the bytes; on an error the caller's buffer is untouched, here the empty list.\<close>

definition fsa_real_get :: "u64 \<Rightarrow> nat \<Rightarrow> LvClient \<Rightarrow> int \<times> u8 list \<times> LvClient" where
  "fsa_real_get dev_addr n c =
     (case next_event c of (e, c) \<Rightarrow>
        if \<not> transceiver c \<or> e = ConnectionDown then (-1, [], c)
        else if n = 0 then (0, [], c)
        else case exchange e (\<lambda>i. (msg_build (cmd_code Get))\<lparr>msg_id := i, msg_addr := dev_addr,
                    msg_size := of_nat n\<rparr>) c of
               (None, c') \<Rightarrow> (-1, [], c')
             | (Some r, c') \<Rightarrow>
                 if sr_status r \<noteq> status_code Okay then (-1, [], c')
                 else if length (sr_data r) \<noteq> n then (-1, [], c')
                 else (0, sr_data r, c'))"

section \<open>Device access\<close>

definition mmio_write :: "u64 \<Rightarrow> u64 \<Rightarrow> LvClient \<Rightarrow> int \<times> LvClient" where
  "mmio_write off wr_val c = (case snapshot c of
     None \<Rightarrow> (-1, c) | Some config \<Rightarrow> fsa_real_put (fsa_mmio_base config + off) (le_bytes 8 wr_val) c)"

text \<open>\<open>old\<close> is what the output variable held before; a failed read leaves it.\<close>

definition mmio_read :: "u64 \<Rightarrow> u64 \<Rightarrow> LvClient \<Rightarrow> int \<times> u64 \<times> LvClient" where
  "mmio_read off old c = (case snapshot c of
     None \<Rightarrow> (-1, old, c)
   | Some config \<Rightarrow> (case fsa_real_get (fsa_mmio_base config + off) 8 c of
       (rc, bs, c') \<Rightarrow> (rc, if rc = 0 then le_word bs else old, c')))"

definition fsa_real_cp_reset :: "hal_map \<Rightarrow> LvClient \<Rightarrow> int \<times> LvClient" where
  "fsa_real_cp_reset hm c = (case snapshot c of
     None \<Rightarrow> (-1, c)
   | Some config \<Rightarrow> fsa_real_put (clint_base config + FSA_CLINT_MSIP_OFFSET hm) (le_bytes 4 (1 :: u32)) c)"

lemma next_event_events: "next_event c = (e, c') \<Longrightarrow> e \<noteq> ConnectionDown \<Longrightarrow> length (events c') < length (events c)"
  by (auto simp: next_event_def split: list.splits)

lemma handler_frame [simp]:
  "events (sync_handler m c) = events c" "snapshot (sync_handler m c) = snapshot c"
  "transceiver (sync_handler m c) = transceiver c" "client_msg_id (sync_handler m c) = client_msg_id c"
  by (simp_all add: sync_handler_def handle_request_def store_response_def Let_def)

lemma handlers_frame [simp]:
  "events (fold sync_handler ms c) = events c" "snapshot (fold sync_handler ms c) = snapshot c"
  "transceiver (fold sync_handler ms c) = transceiver c" "client_msg_id (fold sync_handler ms c) = client_msg_id c"
  by (induction ms arbitrary: c) simp_all

lemma exchange_frame:
  assumes "exchange e req c = (r, c')"
  shows "events c' = events c" "snapshot c' = snapshot c" "transceiver c' = transceiver c"
  using assms by (auto simp: exchange_def take_response_def Let_def split: peer_event.splits option.splits)

lemma put_events:
  assumes "fsa_real_put a bs c = (rc, c')" and "rc = 0"
  shows "length (events c') < length (events c)"
  using assms
  by (auto simp: fsa_real_put_def next_event_events dest!: exchange_frame(1) split: prod.splits if_splits option.splits)

lemma get_events:
  assumes "fsa_real_get a n c = (rc, bs, c')" and "rc = 0"
  shows "length (events c') < length (events c)"
  using assms
  by (auto simp: fsa_real_get_def next_event_events dest!: exchange_frame(1) split: prod.splits if_splits option.splits)

text \<open>A transfer to or from the scratchpad is cut at the boundaries of cache lines.\<close>

function to_scratchpad_loop :: "u64 \<Rightarrow> u64 \<Rightarrow> u8 list \<Rightarrow> u64 \<Rightarrow> LvClient \<Rightarrow> int \<times> LvClient" where
  "to_scratchpad_loop block_size dev_addr bytes begin_addr c =
     (let end_of_data = dev_addr + of_nat (length bytes)
      in if begin_addr < end_of_data
         then let next_block_addr = (begin_addr div block_size + 1) * block_size;
                  end_addr = min next_block_addr end_of_data;
                  chunk = take (unat (end_addr - begin_addr)) (drop (unat (begin_addr - dev_addr)) bytes)
              in case fsa_real_put begin_addr chunk c of
                   (status, c') \<Rightarrow> if status \<noteq> 0 then (status, c')
                                else to_scratchpad_loop block_size dev_addr bytes end_addr c'
         else (0, c))"
  by pat_completeness auto
termination
  by (relation "measure (\<lambda>(_, _, _, _, c). length (events c))") (auto dest: put_events [OF sym])

definition fsa_real_copy_to_scratchpad :: "u64 \<Rightarrow> u8 list \<Rightarrow> LvClient \<Rightarrow> int \<times> LvClient" where
  "fsa_real_copy_to_scratchpad dev_addr bytes c = (case snapshot c of
     None \<Rightarrow> (-1, c)
   | Some config \<Rightarrow> if cache_line_size config = 0 then (-1, c)
                   else to_scratchpad_loop (cache_line_size config) dev_addr bytes dev_addr c)"

function from_scratchpad_loop :: "u64 \<Rightarrow> u64 \<Rightarrow> nat \<Rightarrow> u64 \<Rightarrow> u8 list \<Rightarrow> LvClient \<Rightarrow> int \<times> u8 list \<times> LvClient" where
  "from_scratchpad_loop block_size dev_addr n begin_addr got c =
     (if begin_addr < dev_addr + of_nat n
      then let next_block_addr = (begin_addr div block_size + 1) * block_size;
               end_addr = min next_block_addr (dev_addr + of_nat n)
           in case fsa_real_get begin_addr (unat (end_addr - begin_addr)) c of
                (status, bs, c') \<Rightarrow> if status \<noteq> 0 then (status, got, c')
                                 else from_scratchpad_loop block_size dev_addr n end_addr (got @ bs) c'
      else (0, got, c))"
  by pat_completeness auto
termination
  by (relation "measure (\<lambda>(_, _, _, _, _, c). length (events c))") (auto dest: get_events [OF sym])

definition fsa_real_copy_from_scratchpad :: "u64 \<Rightarrow> nat \<Rightarrow> LvClient \<Rightarrow> int \<times> u8 list \<times> LvClient" where
  "fsa_real_copy_from_scratchpad dev_addr n c = (case snapshot c of
     None \<Rightarrow> (-1, [], c)
   | Some config \<Rightarrow> if cache_line_size config = 0 then (-1, [], c)
                   else from_scratchpad_loop (cache_line_size config) dev_addr n dev_addr [] c)"

declare to_scratchpad_loop.simps [simp del] from_scratchpad_loop.simps [simp del]

section \<open>Connection and configuration\<close>

text \<open>\<open>attempts\<close> is what the calls of \<^verbatim>\<open>libcomm::Connect\<close> return.\<close>

definition fsa_real_init :: "bool list \<Rightarrow> LvClient \<Rightarrow> int \<times> LvClient" where
  "fsa_real_init attempts c =
     (if True \<in> set (take 5 attempts) then (0, c\<lparr>transceiver := True\<rparr>) else (-1, c\<lparr>transceiver := False\<rparr>))"

text \<open>
  The probe opens a connection of its own: whether it connects, what the send returns, and the status of the
  acknowledgement if one arrives in time.
\<close>

definition fsa_real_probe :: "bool \<Rightarrow> int \<Rightarrow> u32 option \<Rightarrow> int" where
  "fsa_real_probe connected send_rc ack =
     (if \<not> connected then -1
      else if send_rc \<noteq> 0 then send_rc
      else case ack of None \<Rightarrow> -1 | Some st \<Rightarrow> if st \<noteq> status_code Okay then -1 else 0)"

definition fsa_real_abort :: "LvClient \<Rightarrow> LvClient" where
  "fsa_real_abort c = c\<lparr>transceiver := False, response := (\<lambda>_. None), client_msg_id := 0\<rparr>"

definition fsa_real_cleanup :: "LvClient \<Rightarrow> LvClient" where
  "fsa_real_cleanup c =
     fsa_real_abort (if transceiver c then c\<lparr>sent := sent c @ [msg_build (cmd_code Terminate)]\<rparr> else c)"

definition read_capability :: "hal_map \<Rightarrow> u64 \<Rightarrow> LvClient \<Rightarrow> int \<times> u64 \<times> LvClient" where
  "read_capability hm off c = (case fsa_real_get (FSA_SYSTEM_INFO_BASE hm + off) 8 c of
     (rc, bs, c') \<Rightarrow> (rc, if rc = 0 then le_word bs else 0, c'))"

text \<open>The capabilities at a list of offsets, up to the first read that fails.\<close>

fun read_capabilities :: "hal_map \<Rightarrow> u64 list \<Rightarrow> LvClient \<Rightarrow> u64 list option \<times> LvClient" where
  "read_capabilities hm [] c = (Some [], c)"
| "read_capabilities hm (off # offs) c =
     (case read_capability hm off c of (rc, v, c1) \<Rightarrow>
        if rc \<noteq> 0 then (None, c1)
        else case read_capabilities hm offs c1 of (r, c2) \<Rightarrow> (map_option ((#) v) r, c2))"

definition load_configuration_snapshot :: "hal_map \<Rightarrow> LvClient \<Rightarrow> int \<times> LvClient" where
  "load_configuration_snapshot hm c =
     (case read_capabilities hm [FSA_SYSTEM_INFO_OFF_ABI_VERSION hm, FSA_SYSTEM_INFO_OFF_LENGTH hm] c of
        (Some [version, len], c1) \<Rightarrow>
          if version \<noteq> FSA_SYSTEM_INFO_ABI_VERSION hm \<or> len < FSA_SYSTEM_INFO_LENGTH hm
          then (-1, c1\<lparr>snapshot := None\<rparr>)
          else case read_capabilities hm [FSA_SYSTEM_INFO_OFF_NUM_SM hm, FSA_SYSTEM_INFO_OFF_THREADS_PER_WARP hm,
                 FSA_SYSTEM_INFO_OFF_WARPS_PER_CORE hm, FSA_SYSTEM_INFO_OFF_LOCAL_MEM_SIZE hm,
                 FSA_SYSTEM_INFO_OFF_SHARED_CACHE_SIZE hm, FSA_SYSTEM_INFO_OFF_CACHE_BLOCK_SIZE hm,
                 FSA_SYSTEM_INFO_OFF_GLOBAL_ALLOC_BASE hm] c1 of
            (Some [nsm, tpw, wpc, lms, scs, cls, gab], c2) \<Rightarrow>
              (0, c2\<lparr>snapshot := Some \<lparr>num_cores = nsm, threads_per_warp = tpw, warps_per_core = wpc,
                 local_mem_size = lms, shared_cache_size = scs, cache_line_size = cls,
                 global_mem_base = FSA_GLOBAL_MEM_BASE hm, global_mem_alloc_base = gab,
                 global_mem_size = FSA_GLOBAL_MEM_SIZE hm,
                 global_mem_noncache_alloc_base = FSA_NONCACHE_ALLOC_BASE hm,
                 global_mem_noncache_alloc_size = FSA_NONCACHE_ALLOC_SIZE hm,
                 fsa_mmio_base = FSA_MMIO_BASE hm, clint_base = FSA_CLINT_BASE hm\<rparr>\<rparr>)
          | (_, c2) \<Rightarrow> (-1, c2\<lparr>snapshot := None\<rparr>)
      | (_, c1) \<Rightarrow> (-1, c1\<lparr>snapshot := None\<rparr>))"

section \<open>What a scratchpad write sends\<close>

definition puts :: "LvClient \<Rightarrow> Msg list" where
  "puts c = filter (\<lambda>m. msg_cmd m = cmd_code Put) (sent c)"

lemma handler_puts [simp]: "puts (sync_handler m c) = puts c"
  by (simp add: puts_def sync_handler_def handle_request_def store_response_def msg_respond_def Let_def)

lemma handlers_puts [simp]: "puts (fold sync_handler ms c) = puts c"
  by (induction ms arbitrary: c) simp_all

definition put_msg :: "u64 \<Rightarrow> u8 list \<Rightarrow> u32 \<Rightarrow> Msg" where
  "put_msg a bs i = (msg_build (cmd_code Put))\<lparr>msg_id := i, msg_addr := a, msg_size := of_nat (length bs), msg_data := bs\<rparr>"

lemma next_event_frame:
  assumes "next_event c = (e, c')"
  shows "sent c' = sent c" "snapshot c' = snapshot c" "transceiver c' = transceiver c"
  using assms by (auto simp: next_event_def split: list.splits)

lemma put_sent:
  assumes "fsa_real_put a bs c = (0, c')" and "bs \<noteq> []"
  shows "\<exists>i. puts c' = puts c @ [put_msg a bs i]"
proof -
  obtain e c1 where e: "next_event c = (e, c1)" by (cases "next_event c")
  then have s: "sent c1 = sent c" by (rule next_event_frame)
  obtain r where "exchange e (put_msg a bs) c1 = (Some r, c')"
    using assms e by (auto simp: fsa_real_put_def put_msg_def [abs_def] split: if_splits prod.splits option.splits)
  then obtain ms where "puts c' = puts (fold sync_handler ms (c1\<lparr>client_msg_id := client_msg_id c1 + 1,
        sent := sent c1 @ [put_msg a bs (ucast (client_msg_id c1))]\<rparr>))"
    by (auto simp: exchange_def take_response_def puts_def Let_def split: peer_event.splits option.splits)
  then have "puts c' = puts (c1\<lparr>client_msg_id := client_msg_id c1 + 1,
        sent := sent c1 @ [put_msg a bs (ucast (client_msg_id c1))]\<rparr>)" by simp
  then show ?thesis by (auto simp: s puts_def put_msg_def msg_build_def)
qed

text \<open>
  A list of writes that covers a byte range: in order, without gaps, and none crosses a line boundary.
\<close>

fun covers_lines :: "nat \<Rightarrow> nat \<Rightarrow> u8 list \<Rightarrow> Msg list \<Rightarrow> bool" where
  "covers_lines line a bs [] = (bs = [])"
| "covers_lines line a bs (m # ms) =
     (unat (msg_addr m) = a \<and> msg_cmd m = cmd_code Put \<and> msg_data m \<noteq> [] \<and>
      a div line = (a + length (msg_data m) - 1) div line \<and>
      (\<exists>rest. bs = msg_data m @ rest \<and> covers_lines line (a + length (msg_data m)) rest ms))"

lemma covers_ConsI:
  assumes "unat b = a" and "chunk \<noteq> []" and "a div line = (a + length chunk - 1) div line"
    and "bs = chunk @ rest" and "covers_lines line (a + length chunk) rest ms"
  shows "covers_lines line a bs (put_msg b chunk i # ms)"
  using assms by (auto simp: put_msg_def msg_build_def)

lemma next_line:
  fixes b l :: u64
  assumes "l \<noteq> 0" and "unat b + unat l < 2 ^ 64"
  shows "unat ((b div l + 1) * l) = (unat b div unat l + 1) * unat l"
proof -
  have "unat b div unat l * unat l \<le> unat b" by (rule div_times_less_eq_dividend)
  then have lt: "(unat b div unat l + 1) * unat l < 2 ^ 64" unfolding add_mult_distrib using assms(2) by linarith
  have "unat b div unat l \<le> unat b" by simp
  moreover have "0 < unat l" using assms(1) by (simp add: unat_gt_0)
  ultimately have "unat b div unat l + 1 < 2 ^ 64" using assms(2) by linarith
  then have "unat (b div l + 1) = unat b div unat l + 1" by (simp add: unat_word_ariths unat_div)
  then show ?thesis using lt by (simp add: unat_word_ariths)
qed

text \<open>The end of the next chunk: past its start, within the data, and in the same line.\<close>

lemma line_end:
  fixes b e l :: u64
  assumes l: "l \<noteq> 0" and w: "unat e + unat l < 2 ^ 64" and be: "b < e"
  shows "unat b < unat (min ((b div l + 1) * l) e)" and "unat (min ((b div l + 1) * l) e) \<le> unat e"
    and "unat b div unat l = (unat (min ((b div l + 1) * l) e) - 1) div unat l"
proof -
  let ?n = "(unat b div unat l + 1) * unat l"
  have l0: "0 < unat l" and bu: "unat b < unat e" using l be by (simp_all add: unat_gt_0 word_less_iff_unat)
  have "unat ((b div l + 1) * l) = ?n" using next_line [OF l] w bu by simp
  then have m: "unat (min ((b div l + 1) * l) e) = min ?n (unat e)" by (simp add: min_def word_le_iff_unat)
  have bn: "unat b < ?n" using l0 by (simp add: algebra_simps) (metis add.commute dividend_less_times_div mult.commute)
  show "unat b < unat (min ((b div l + 1) * l) e)" "unat (min ((b div l + 1) * l) e) \<le> unat e"
    using bn bu by (simp_all add: m)
  have "(x - 1) div unat l = unat b div unat l" if "unat b < x" "x \<le> ?n" for x
    using that l0 by (intro div_nat_eqI) (auto simp: algebra_simps intro: order_trans [OF times_div_less_eq_dividend])
  then show "unat b div unat l = (unat (min ((b div l + 1) * l) e) - 1) div unat l" using bn bu by (simp add: m)
qed

lemma to_scratchpad_covers:
  assumes "to_scratchpad_loop l d bs b c = (0, c')" and "l \<noteq> 0" and "unat d + length bs + unat l < 2 ^ 64"
    and "b = d + of_nat k" and "k \<le> length bs"
  shows "\<exists>ms. puts c' = puts c @ ms \<and> covers_lines (unat l) (unat d + k) (drop k bs) ms"
  using assms
proof (induction l d bs b c arbitrary: k rule: to_scratchpad_loop.induct)
  case (1 l d bs b c)
  let ?e = "d + of_nat (length bs)" let ?m = "min ((b div l + 1) * l) ?e"
  let ?chunk = "take (unat (?m - b)) (drop (unat (b - d)) bs)"
  have ue: "unat ?e = unat d + length bs" and ub: "unat b = unat d + k"
    using 1(4-6) by (simp_all add: unat_word_ariths unsigned_of_nat take_bit_nat_eq_self)
  show ?case
  proof (cases "b < ?e")
    case False
    then have "k = length bs" using ub ue 1(6) by (simp add: word_less_iff_unat)
    then show ?thesis using 1(2) False by (simp add: to_scratchpad_loop.simps [of l d bs b c])
  next
    case True
    note le = line_end [OF 1(3) _ True]
    have w: "unat ?e + unat l < 2 ^ 64" using 1(4) ue by simp
    let ?n = "unat ?m - unat b"
    have bm: "b \<le> ?m" using le(1) [OF w] by (simp add: word_le_iff_unat)
    have off: "unat (b - d) = k" using ub unat_sub_le [of d b] by (simp add: word_le_iff_unat)
    have n: "unat (?m - b) = ?n" "0 < ?n" "k + ?n \<le> length bs"
      using unat_sub_le [OF bm] le(1,2) [OF w] ub ue by simp_all
    have ch: "?chunk = take ?n (drop k bs)" "length ?chunk = ?n" "?chunk \<noteq> []" using n off by auto
    obtain st c1 where p: "fsa_real_put b ?chunk c = (st, c1)" by (cases "fsa_real_put b ?chunk c")
    have st: "st = 0" and rec: "to_scratchpad_loop l d bs ?m c1 = (0, c')"
      using 1(2) True p by (simp_all add: to_scratchpad_loop.simps [of l d bs b c] Let_def split: if_splits)
    obtain i where pu: "puts c1 = puts c @ [put_msg b ?chunk i]" using put_sent [OF p [unfolded st] ch(3)] by blast
    have m': "?m = d + of_nat (k + ?n)"
      using le(1,2) [OF w] ub ue 1(4) by (simp add: word_eq_iff_unat unat_word_ariths unsigned_of_nat take_bit_nat_eq_self)
    obtain ms where ms: "puts c' = puts c1 @ ms" "covers_lines (unat l) (unat d + (k + ?n)) (drop (k + ?n) bs) ms"
      using 1(1) [OF refl True refl refl refl p [symmetric] _ rec 1(3,4) m' n(3)] st by blast
    have "covers_lines (unat l) (unat d + k) (drop k bs) (put_msg b ?chunk i # ms)"
    proof (rule covers_ConsI [OF ub ch(3)])
      show "(unat d + k) div unat l = (unat d + k + length ?chunk - 1) div unat l"
      proof -
        have "unat d + k + ?n = unat ?m" using less_imp_le [OF le(1) [OF w]] unfolding ub by (rule le_add_diff_inverse)
        then show ?thesis using le(3) [OF w] unfolding ch(2) ub by (simp only:)
      qed
      show "drop k bs = ?chunk @ drop (k + ?n) bs"
        unfolding ch(1) drop_drop [symmetric, of k] add.commute [of k] by (simp only: append_take_drop_id drop_drop [symmetric])
      show "covers_lines (unat l) (unat d + k + length ?chunk) (drop (k + ?n) bs) ms"
        using ms(2) unfolding ch(2) by (simp only: add.assoc)
    qed
    then show ?thesis using ms(1) pu by auto
  qed
qed

text \<open>
  Writing the scratchpad: when \<open>fsa_real_copy_to_scratchpad\<close> reports success, the write requests it sent are, in
  order, exactly the given bytes at the given address: no gap, no overlap, and no request crosses
  the boundary of a cache line. The address range with one line after it must not wrap.
\<close>

lemma scratchpad_write_covers:
  assumes "fsa_real_copy_to_scratchpad dev_addr bytes c = (0, c')" and "snapshot c = Some config"
    and "unat dev_addr + length bytes + unat (cache_line_size config) < 2 ^ 64"
  shows "\<exists>ms. puts c' = puts c @ ms \<and> covers_lines (unat (cache_line_size config)) (unat dev_addr) bytes ms"
  using to_scratchpad_covers [of "cache_line_size config" dev_addr bytes dev_addr c c' 0] assms
  by (simp add: fsa_real_copy_to_scratchpad_def split: if_splits)

text \<open>A connection to a device that acknowledges every write.\<close>

definition demo_config :: ConfigurationSnapshot where
  "demo_config = \<lparr>num_cores = 2, threads_per_warp = 8, warps_per_core = 4, local_mem_size = 0xC000, shared_cache_size = 0x4000,
     cache_line_size = 64, global_mem_base = 0x80000000, global_mem_alloc_base = 0x82000000, global_mem_size = 0x80000000,
     global_mem_noncache_alloc_base = 0x80100000, global_mem_noncache_alloc_size = 0xEC0000,
     fsa_mmio_base = 0x60000, clint_base = 0x50000\<rparr>"

definition demo_ack :: "u32 \<Rightarrow> peer_event" where
  "demo_ack i = Arrived [(msg_build (cmd_code AccessAck))\<lparr>msg_id := i\<rparr>]"

definition demo_client :: LvClient where
  "demo_client = \<lparr>transceiver = True, client_msg_id = 0, response = (\<lambda>_. None), sent = [], host_mem = (\<lambda>_. 0),
     snapshot = Some demo_config, events = [demo_ack 0, demo_ack 1]\<rparr>"

end
