(* ===== verification/Hal.thy ===== *)
theory Hal
  imports Hal_Driver Falloc
begin

text \<open>
  The host library (\<^verbatim>\<open>hal/src/hal/hal.cc\<close>): session state, command submission, completion slots, and the life cycle
  of the firmware session. The global variables of the file are the fields of one record, with the
  backend's client and the two heaps; an operation takes the state and returns its result and the
  new state. A null pointer argument is the value \<open>False\<close> of a flag or \<open>None\<close>; what an
  operation writes through an output pointer is part of its result. One operation runs at a time,
  as under the library's locks.
\<close>

section \<open>State\<close>

record CompletionSlotMetadata =
  slot_in_use :: bool
  slot_token :: FsaCompletionToken

definition empty_slot :: CompletionSlotMetadata where
  "empty_slot = \<lparr>slot_in_use = False, slot_token = 0\<rparr>"

record hal =
  host_cmd_ring :: "packet list"
  host_rd_ptr :: u32
  host_wr_ptr :: u32
  dev_cmd_ring_base :: u64
  next_alloc_generation :: u32
  runtime_boot_generation :: u64
  boot_generation_before_reset :: u64
  firmware_ready :: bool
  transport_failed :: bool
  firmware_reboot_failed :: bool
  noncache_alloc_ready :: bool
  active_configuration :: "ConfigurationSnapshot option"
  completion_slots :: "CompletionSlotMetadata list"
  stale_completion_tokens :: "FsaCompletionToken list"
  heaps :: falloc_state
  lv :: LvClient

record FsaDeviceDescription =
  dd_num_cores :: u64
  dd_max_threads_per_work_group :: u64
  dd_local_mem_size_per_core :: u64
  dd_cache_size :: u64
  dd_cache_line_size :: u64
  dd_global_mem_size :: u64
  dd_max_allocation_size :: u64
  dd_threads_per_warp :: u64

section \<open>Device description\<close>

definition checked_add :: "u64 \<Rightarrow> u64 \<Rightarrow> u64 option" where
  "checked_add lhs rhs = (if UINT64_MAX - rhs < lhs then None else Some (lhs + rhs))"

definition checked_mul :: "u64 \<Rightarrow> u64 \<Rightarrow> u64 option" where
  "checked_mul lhs rhs = (if rhs \<noteq> 0 \<and> UINT64_MAX div rhs < lhs then None else Some (lhs * rhs))"

definition is_power_of_two :: "u64 \<Rightarrow> bool" where
  "is_power_of_two v \<longleftrightarrow> v \<noteq> 0 \<and> v AND (v - 1) = 0"

definition derive_device_description :: "hal_map \<Rightarrow> ConfigurationSnapshot \<Rightarrow> FsaDeviceDescription option" where
  "derive_device_description hm config =
     (if num_cores config = 0 \<or> FSA_SM_MMIO_MAX_SMS hm < num_cores config \<or>
         threads_per_warp config = 0 \<or> warps_per_core config = 0 \<or>
         local_mem_size config = 0 \<or> shared_cache_size config = 0 \<or>
         cache_line_size config = 0 \<or> global_mem_size config = 0 \<or>
         global_mem_noncache_alloc_size config = 0 \<or>
         \<not> is_power_of_two (cache_line_size config) \<or>
         shared_cache_size config < cache_line_size config \<or>
         shared_cache_size config mod cache_line_size config \<noteq> 0 then None
      else case (checked_mul (threads_per_warp config) (warps_per_core config),
                 checked_add (global_mem_base config) (global_mem_size config),
                 checked_add (global_mem_noncache_alloc_base config) (global_mem_noncache_alloc_size config),
                 checked_add (fsa_mmio_base config) (FSA_MMIO_SIZE hm),
                 checked_add (clint_base config) (FSA_CLINT_SIZE hm)) of
        (Some threads_per_core, Some global_mem_end, Some noncache_end, Some _, Some _) \<Rightarrow>
          let stack_end = global_mem_alloc_base config in
          if stack_end \<le> FSA_STACK_BASE hm \<or> stack_end mod cache_line_size config \<noteq> 0 \<or>
             global_mem_end \<le> global_mem_alloc_base config \<or>
             global_mem_noncache_alloc_base config < global_mem_base config \<or>
             global_mem_end < noncache_end \<or>
             global_mem_alloc_base config < noncache_end \<or>
             FSA_STACK_BASE hm < global_mem_base config \<or>
             (global_mem_noncache_alloc_base config < stack_end \<and> FSA_STACK_BASE hm < noncache_end) then None
          else Some \<lparr>dd_num_cores = num_cores config, dd_max_threads_per_work_group = threads_per_core,
                 dd_local_mem_size_per_core = local_mem_size config, dd_cache_size = shared_cache_size config,
                 dd_cache_line_size = cache_line_size config, dd_global_mem_size = global_mem_size config,
                 dd_max_allocation_size = global_mem_end - global_mem_alloc_base config,
                 dd_threads_per_warp = threads_per_warp config\<rparr>
      | _ \<Rightarrow> None)"

section \<open>Session state\<close>

definition reset_configuration_snapshot :: "LvClient \<Rightarrow> LvClient" where
  "reset_configuration_snapshot c = c\<lparr>snapshot := None\<rparr>"

definition reset_runtime_state :: "hal \<Rightarrow> hal" where
  "reset_runtime_state s = s\<lparr>firmware_ready := False, transport_failed := False, firmware_reboot_failed := False,
     completion_slots := [], stale_completion_tokens := [], host_cmd_ring := [], host_rd_ptr := 0, host_wr_ptr := 0,
     runtime_boot_generation := 0, boot_generation_before_reset := 0,
     next_alloc_generation := FSA_COMPLETION_ALLOC_GENERATION_INITIAL, dev_cmd_ring_base := 0,
     noncache_alloc_ready := False, active_configuration := None,
     lv := reset_configuration_snapshot (lv s)\<rparr>"

definition rollback_initialization :: "hal \<Rightarrow> hal" where
  "rollback_initialization s =
     (let s1 = reset_runtime_state s; s2 = s1\<lparr>lv := fsa_real_abort (lv s1)\<rparr>
      in s2\<lparr>heaps := falloc_noncache_clean (falloc_clean (heaps s2))\<rparr>)"

definition mark_transport_failure :: "int \<Rightarrow> hal \<Rightarrow> hal" where
  "mark_transport_failure status s =
     (if status \<noteq> 0 then s\<lparr>transport_failed := True, firmware_ready := False\<rparr> else s)"

definition firmware_session_failed :: "hal \<Rightarrow> bool" where
  "firmware_session_failed s \<longleftrightarrow> transport_failed s \<or> firmware_reboot_failed s"

definition fsa_hal_is_available :: "hal \<Rightarrow> bool" where
  "fsa_hal_is_available s \<longleftrightarrow> active_configuration s \<noteq> None \<and> firmware_ready s \<and> \<not> firmware_session_failed s"

text \<open>The backend's operations on the client, with the failure latch of the library.\<close>

definition copy_from_scratchpad :: "u64 \<Rightarrow> nat \<Rightarrow> hal \<Rightarrow> int \<times> u8 list \<times> hal" where
  "copy_from_scratchpad dev_addr n s = (case fsa_real_copy_from_scratchpad dev_addr n (lv s) of
     (rc, bs, c) \<Rightarrow> (rc, bs, mark_transport_failure rc (s\<lparr>lv := c\<rparr>)))"

definition copy_to_scratchpad :: "u64 \<Rightarrow> u8 list \<Rightarrow> hal \<Rightarrow> int \<times> hal" where
  "copy_to_scratchpad dev_addr bytes s = (case fsa_real_copy_to_scratchpad dev_addr bytes (lv s) of
     (rc, c) \<Rightarrow> (rc, s\<lparr>lv := c\<rparr>))"

definition real_mmio_write :: "u64 \<Rightarrow> u64 \<Rightarrow> hal \<Rightarrow> int \<times> hal" where
  "real_mmio_write off v s = (case mmio_write off v (lv s) of
     (rc, c) \<Rightarrow> (rc, mark_transport_failure rc (s\<lparr>lv := c\<rparr>)))"

definition real_mmio_read :: "u64 \<Rightarrow> u64 \<Rightarrow> bool \<Rightarrow> hal \<Rightarrow> int \<times> u64 \<times> hal" where
  "real_mmio_read off old latch s = (case mmio_read off old (lv s) of
     (rc, v, c) \<Rightarrow> (rc, v, if latch then mark_transport_failure rc (s\<lparr>lv := c\<rparr>) else s\<lparr>lv := c\<rparr>))"

definition real_time_ns :: "hal \<Rightarrow> int \<times> u64 \<times> hal" where
  "real_time_ns s = (case fsa_real_time_ns (lv s) of (rc, t, c) \<Rightarrow> (rc, t, s\<lparr>lv := c\<rparr>))"

definition real_poll_backoff :: "hal \<Rightarrow> int \<times> u64 \<times> hal" where
  "real_poll_backoff s = (case fsa_real_poll_backoff (lv s) of (rc, t, c) \<Rightarrow> (rc, t, s\<lparr>lv := c\<rparr>))"

definition real_cp_reset :: "hal_map \<Rightarrow> hal \<Rightarrow> int \<times> hal" where
  "real_cp_reset hm s = (case fsa_real_cp_reset hm (lv s) of
     (rc, c) \<Rightarrow> let s1 = mark_transport_failure rc (s\<lparr>lv := c\<rparr>)
               in (rc, if rc = 0 then s1\<lparr>host_rd_ptr := 0, host_wr_ptr := 0\<rparr> else s1))"

text \<open>The firmware's boot generation, or \<open>None\<close> when the session has failed.\<close>

definition read_firmware_snapshot :: "hal_map \<Rightarrow> hal \<Rightarrow> u64 option \<times> hal" where
  "read_firmware_snapshot hm s = (case real_mmio_read (FSA_CP_OFF_FW_BOOT_GENERATION hm) 0 True s of
     (rc, g, s1) \<Rightarrow> (if rc = 0 \<and> \<not> firmware_session_failed s1 then Some g else None, s1))"

definition firmware_rebooted :: "u64 \<Rightarrow> FsaCompletionToken \<Rightarrow> bool" where
  "firmware_rebooted generation token \<longleftrightarrow>
     (ucast generation :: u16) \<noteq> fsa_completion_token_boot_generation token"

definition sync_rd_ptr :: "hal_map \<Rightarrow> hal \<Rightarrow> int \<times> hal" where
  "sync_rd_ptr hm s = (case real_mmio_read (FSA_CP_OFF_RD_PTR hm) 0 False s of
     (rc, v, s1) \<Rightarrow> if rc \<noteq> 0 then (-1, s1) else (0, s1\<lparr>host_rd_ptr := ucast v\<rparr>))"

section \<open>Submission\<close>

datatype ReserveCommandStatus = ReserveReady | ReserveWouldBlock | ReservePreWpFailure | ReserveUnavailable

definition next_wr_ptr :: "hal \<Rightarrow> u32" where
  "next_wr_ptr s = of_nat (unat (host_wr_ptr s + 1) mod length (host_cmd_ring s))"

definition zero_packet :: packet where
  "zero_packet = replicate FSA_COMMAND_PACKET_BYTES 0"

definition reserve_command_slot :: "hal_map \<Rightarrow> hal \<Rightarrow> ReserveCommandStatus \<times> hal" where
  "reserve_command_slot hm s =
     (if \<not> fsa_hal_is_available s then (ReserveUnavailable, s)
      else case sync_rd_ptr hm s of (rc, s1) \<Rightarrow>
        if rc \<noteq> 0 then (ReservePreWpFailure, s1)
        else if unat (host_wr_ptr s1 + 1) mod length (host_cmd_ring s1) = unat (host_rd_ptr s1)
        then (ReserveWouldBlock, s1)
        else (ReserveReady, s1\<lparr>host_cmd_ring := (host_cmd_ring s1)[unat (host_wr_ptr s1) := zero_packet]\<rparr>))"

definition find_completion_slot :: "FsaCompletionToken \<Rightarrow> hal \<Rightarrow> nat option" where
  "find_completion_slot token s =
     (if token = 0 \<or> \<not> fsa_completion_token_has_valid_slot token then None
      else let slot_index = unat (fsa_completion_token_slot_index token) in
        if length (completion_slots s) \<le> slot_index then None
        else if slot_in_use (completion_slots s ! slot_index) \<and> slot_token (completion_slots s ! slot_index) = token
        then Some slot_index else None)"

fun allocate_loop :: "nat list \<Rightarrow> hal \<Rightarrow> nat option \<times> hal" where
  "allocate_loop [] s = (None, s)"
| "allocate_loop (i # is) s =
     (if slot_in_use (completion_slots s ! i) then allocate_loop is s
      else let token = fsa_completion_token_make (runtime_boot_generation s) (next_alloc_generation s) (of_nat i);
               next_gen = fsa_completion_next_alloc_generation (next_alloc_generation s) in
        if token \<in> set (stale_completion_tokens s)
        then allocate_loop is (s\<lparr>completion_slots := (completion_slots s)[i := empty_slot], next_alloc_generation := next_gen\<rparr>)
        else (Some i, s\<lparr>completion_slots := (completion_slots s)[i := \<lparr>slot_in_use = True, slot_token = token\<rparr>],
                        next_alloc_generation := next_gen\<rparr>))"

definition allocate_completion_slot :: "hal \<Rightarrow> nat option \<times> hal" where
  "allocate_completion_slot s = allocate_loop [0..<length (completion_slots s)] s"

definition free_slot :: "nat \<Rightarrow> hal \<Rightarrow> hal" where
  "free_slot i s = s\<lparr>completion_slots := (completion_slots s)[i := empty_slot]\<rparr>"

datatype SendCmdStatus = SendOk | SendPreWpFailure | SendWpAttemptedFailure

definition send_cmd :: "hal_map \<Rightarrow> packet \<Rightarrow> hal \<Rightarrow> SendCmdStatus \<times> hal" where
  "send_cmd hm cmd s =
     (let cmd_wr_addr = dev_cmd_ring_base s + ucast (host_wr_ptr s) * of_nat FSA_COMMAND_PACKET_BYTES
      in case copy_to_scratchpad cmd_wr_addr cmd s of (rc, s1) \<Rightarrow>
           if rc \<noteq> 0 then (SendPreWpFailure, s1)
           else let wr = next_wr_ptr s1
                in case real_mmio_write (FSA_CP_OFF_WR_PTR hm) (ucast wr) s1 of (rc', s2) \<Rightarrow>
                     if rc' \<noteq> 0 then (SendWpAttemptedFailure, s2) else (SendOk, s2\<lparr>host_wr_ptr := wr\<rparr>))"

definition put_token :: "FsaCompletionToken \<Rightarrow> packet \<Rightarrow> packet" where
  "put_token token pkt = take FSA_COMPLETION_TOKEN_OFFSET pkt @ le_bytes 8 token @ drop (FSA_COMPLETION_TOKEN_OFFSET + 8) pkt"

text \<open>
  \<open>fill\<close> is what the caller's function writes into the zeroed packet; the second result is what
  the caller's token variable receives.
\<close>

definition submit_filled :: "hal_map \<Rightarrow> packet \<Rightarrow> hal \<Rightarrow> FsaCommandSubmitStatus \<times> FsaCompletionToken \<times> hal" where
  "submit_filled hm pkt s =
     (case allocate_completion_slot s of
        (None, s1) \<Rightarrow> (FsaCommandSubmitWouldBlock, 0, s1)
      | (Some i, s1) \<Rightarrow>
          let token = slot_token (completion_slots s1 ! i);
              slot = fsa_completion_slot_encode (fsa_completion_token_alloc_tag token) FSA_COMPLETION_RESULT_PENDING
          in case copy_to_scratchpad (FSA_COMPLETION_POOL_BASE hm + of_nat i * 8) (le_bytes 8 slot) s1 of (rc, s2) \<Rightarrow>
               if rc \<noteq> 0 then (FsaCommandSubmitTransportError, 0, free_slot i s2)
               else let pkt' = put_token token pkt;
                        s3 = s2\<lparr>host_cmd_ring := (host_cmd_ring s2)[unat (host_wr_ptr s2) := pkt']\<rparr>
                    in case send_cmd hm pkt' s3 of
                         (SendPreWpFailure, s4) \<Rightarrow> (FsaCommandSubmitTransportError, 0, free_slot i s4)
                       | (SendWpAttemptedFailure, s4) \<Rightarrow> (FsaCommandSubmitTransportError, token, s4)
                       | (SendOk, s4) \<Rightarrow> (FsaCommandSubmitAccepted, token, s4))"

definition submit_command ::
  "hal_map \<Rightarrow> bool \<Rightarrow> packet \<Rightarrow> hal \<Rightarrow> FsaCommandSubmitStatus \<times> FsaCompletionToken \<times> hal" where
  "submit_command hm completion fill s =
     (if \<not> completion then (FsaCommandSubmitInvalidArgument, 0, s)
      else if \<not> fsa_hal_is_available s then (FsaCommandSubmitTransportError, 0, s)
      else case reserve_command_slot hm s of
        (ReserveWouldBlock, s1) \<Rightarrow> (FsaCommandSubmitWouldBlock, 0, s1)
      | (ReserveReady, s1) \<Rightarrow>
          let pkt = put_token 0 fill
          in submit_filled hm pkt (s1\<lparr>host_cmd_ring := (host_cmd_ring s1)[unat (host_wr_ptr s1) := pkt]\<rparr>)
      | (_, s1) \<Rightarrow> (FsaCommandSubmitTransportError, 0, s1))"

section \<open>Commands\<close>

definition send_cache_operation_cmd ::
  "hal_map \<Rightarrow> PacketHeader \<Rightarrow> u64 \<Rightarrow> u64 \<Rightarrow> bool \<Rightarrow> hal \<Rightarrow> FsaCommandSubmitStatus \<times> FsaCompletionToken \<times> hal" where
  "send_cache_operation_cmd hm header dev_addr sz completion s =
     submit_command hm completion (cache_operation_packet_bytes \<lparr>cop_header = packet_header_code header,
       cop_reserved0 = replicate 6 0, cop_addr = dev_addr, cop_size = sz, cop_reserved1 = replicate 32 0,
       cop_completion_token = 0\<rparr>) s"

definition valid_memory_domain :: "u32 \<Rightarrow> bool" where
  "valid_memory_domain domain \<longleftrightarrow> domain = ucast (memory_domain_code FsaMemoryDomainHost) \<or>
     domain = ucast (memory_domain_code FsaMemoryDomainDevice)"

definition send_memory_copy_cmd ::
  "hal_map \<Rightarrow> u32 \<Rightarrow> u64 \<Rightarrow> u32 \<Rightarrow> u64 \<Rightarrow> u64 \<Rightarrow> bool \<Rightarrow> hal \<Rightarrow> FsaCommandSubmitStatus \<times> FsaCompletionToken \<times> hal" where
  "send_memory_copy_cmd hm src_domain src_addr dst_domain dst_addr sz completion s =
     submit_command hm completion (memory_copy_packet_bytes \<lparr>mp_header = packet_header_code MemoryCopyPacketHeader,
       mp_src_domain = ucast src_domain, mp_dst_domain = ucast dst_domain, mp_reserved0 = replicate 4 0,
       mp_src_addr = src_addr, mp_dst_addr = dst_addr, mp_size = sz, mp_reserved1 = replicate 24 0,
       mp_completion_token = 0\<rparr>) s"

definition kernel_geometry_fits_packet :: "u32 \<Rightarrow> u32 list \<Rightarrow> u32 list \<Rightarrow> u64 list \<Rightarrow> u32 \<Rightarrow> bool" where
  "kernel_geometry_fits_packet dimensions local_size num_groups global_offset lmem \<longleftrightarrow>
     lmem \<le> 0xFFFF \<and>
     list_all (\<lambda>i. local_size ! i \<noteq> 0 \<and> local_size ! i \<le> 0xFFFF \<and> num_groups ! i \<noteq> 0 \<and> num_groups ! i \<le> 0xFFFF \<and>
       global_offset ! i \<le> 0xFFFF) [0..<unat dimensions]"

definition sizeof_FsaKernelLaunchInfo :: u32 where
  "sizeof_FsaKernelLaunchInfo = 104"

definition launch_packet :: "FsaKernelLaunchInfo \<Rightarrow> KernelDispatchPacket" where
  "launch_packet info =
     (let dim = kl_dimensions info;
          flags0 = ucast dim;
          flags1 = (if kl_has_printf_meta info \<noteq> 0 then flags0 OR FSA_KERNEL_DISPATCH_HAS_PRINTF_META else flags0);
          flags2 = (if kl_enable_stack_remap info \<noteq> 0 then flags1 OR FSA_KERNEL_DISPATCH_STACK_REMAP else flags1)
      in \<lparr>kp_header = packet_header_code KernelDispatchPacketHeader, kp_dim_reserved0 = flags2,
          kp_local_size_x = ucast (kl_local_size info ! 0),
          kp_local_size_y = (if 1 < dim then ucast (kl_local_size info ! 1) else 1),
          kp_local_size_z = (if 2 < dim then ucast (kl_local_size info ! 2) else 1),
          kp_local_mem_size = ucast (kl_local_mem_size info),
          kp_num_groups_x = ucast (kl_num_groups info ! 0),
          kp_num_groups_y = (if 1 < dim then ucast (kl_num_groups info ! 1) else 1),
          kp_num_groups_z = (if 2 < dim then ucast (kl_num_groups info ! 2) else 1),
          kp_global_offset_x = ucast (kl_global_offset info ! 0),
          kp_global_offset_y = (if 1 < dim then ucast (kl_global_offset info ! 1) else 0),
          kp_global_offset_z = (if 2 < dim then ucast (kl_global_offset info ! 2) else 0),
          kp_kernel_object = kl_kernel_entry info, kp_kernarg_address = kl_kernarg_address info,
          kp_kernel_trampoline = kl_kernel_trampoline info, kp_kernel_status = kl_kernel_status info,
          kp_completion_token = 0\<rparr>)"

definition launch_info_ok :: "FsaKernelLaunchInfo \<Rightarrow> bool" where
  "launch_info_ok i \<longleftrightarrow> kl_struct_size i = sizeof_FsaKernelLaunchInfo \<and> 1 \<le> kl_dimensions i \<and> kl_dimensions i \<le> 3 \<and>
     kernel_geometry_fits_packet (kl_dimensions i) (kl_local_size i) (kl_num_groups i) (kl_global_offset i)
       (kl_local_mem_size i)"

definition fsa_cmd_start_kernel ::
  "hal_map \<Rightarrow> FsaKernelLaunchInfo option \<Rightarrow> bool \<Rightarrow> hal \<Rightarrow> FsaCommandSubmitStatus \<times> FsaCompletionToken \<times> hal" where
  "fsa_cmd_start_kernel hm info completion s =
     (if \<not> completion then (FsaCommandSubmitInvalidArgument, 0, s)
      else case info of
        None \<Rightarrow> (FsaCommandSubmitInvalidArgument, 0, s)
      | Some i \<Rightarrow>
          if \<not> launch_info_ok i then (FsaCommandSubmitInvalidArgument, 0, s)
          else submit_command hm completion (kernel_dispatch_packet_bytes (launch_packet i)) s)"

definition fsa_cmd_cache_flush ::
  "hal_map \<Rightarrow> FsaMemoryRange option \<Rightarrow> bool \<Rightarrow> hal \<Rightarrow> FsaCommandSubmitStatus \<times> FsaCompletionToken \<times> hal" where
  "fsa_cmd_cache_flush hm rng completion s = (case rng of
     None \<Rightarrow> (FsaCommandSubmitInvalidArgument, 0, s)
   | Some r \<Rightarrow> if \<not> completion then (FsaCommandSubmitInvalidArgument, 0, s)
              else send_cache_operation_cmd hm CacheFlushPacketHeader (mr_address r) (mr_size r) completion s)"

definition fsa_cmd_cache_invalidate ::
  "hal_map \<Rightarrow> FsaMemoryRange option \<Rightarrow> bool \<Rightarrow> hal \<Rightarrow> FsaCommandSubmitStatus \<times> FsaCompletionToken \<times> hal" where
  "fsa_cmd_cache_invalidate hm rng completion s = (case rng of
     None \<Rightarrow> (FsaCommandSubmitInvalidArgument, 0, s)
   | Some r \<Rightarrow> if \<not> completion then (FsaCommandSubmitInvalidArgument, 0, s)
              else send_cache_operation_cmd hm CacheInvalidatePacketHeader (mr_address r) (mr_size r) completion s)"

definition sizeof_FsaMemoryCopyInfo :: u32 where
  "sizeof_FsaMemoryCopyInfo = 56"

definition fsa_cmd_memory_copy ::
  "hal_map \<Rightarrow> FsaMemoryCopyInfo option \<Rightarrow> bool \<Rightarrow> hal \<Rightarrow> FsaCommandSubmitStatus \<times> FsaCompletionToken \<times> hal" where
  "fsa_cmd_memory_copy hm info completion s = (case info of
     None \<Rightarrow> (FsaCommandSubmitInvalidArgument, 0, s)
   | Some i \<Rightarrow>
       if \<not> completion \<or> mc_struct_size i \<noteq> sizeof_FsaMemoryCopyInfo \<or>
          \<not> valid_memory_domain (mg_domain (mc_source i)) \<or> \<not> valid_memory_domain (mg_domain (mc_destination i)) \<or>
          mr_size (mg_range (mc_source i)) \<noteq> mr_size (mg_range (mc_destination i))
       then (FsaCommandSubmitInvalidArgument, 0, s)
       else send_memory_copy_cmd hm (mg_domain (mc_source i)) (mr_address (mg_range (mc_source i)))
              (mg_domain (mc_destination i)) (mr_address (mg_range (mc_destination i)))
              (mr_size (mg_range (mc_source i))) completion s)"

definition fsa_cmd_barrier :: "hal_map \<Rightarrow> bool \<Rightarrow> hal \<Rightarrow> FsaCommandSubmitStatus \<times> FsaCompletionToken \<times> hal" where
  "fsa_cmd_barrier hm completion s =
     submit_command hm completion (header_only_packet_bytes \<lparr>hp_header = packet_header_code BarrierPacketHeader,
       hp_reserved = replicate 54 0, hp_completion_token = 0\<rparr>) s"

section \<open>Completions\<close>

definition fsa_poll_completion ::
  "hal_map \<Rightarrow> FsaCompletionToken \<Rightarrow> hal \<Rightarrow> FsaCompletionPollStatus \<times> FsaCompletionResult option \<times> hal" where
  "fsa_poll_completion hm token s =
     (if firmware_session_failed s then (FsaCompletionPollTransportError, None, s)
      else case find_completion_slot token s of
        None \<Rightarrow>
          if token \<notin> set (stale_completion_tokens s) then (FsaCompletionPollInvalidToken, None, s)
          else (FsaCompletionPollTerminal, Some FSA_COMPLETION_RESULT_FIRMWARE_REBOOT, s)
      | Some slot_index \<Rightarrow>
          (case read_firmware_snapshot hm s of
             (None, s1) \<Rightarrow> (FsaCompletionPollTransportError, None, s1)
           | (Some generation, s1) \<Rightarrow>
               if firmware_rebooted generation token
               then (FsaCompletionPollTerminal, Some FSA_COMPLETION_RESULT_FIRMWARE_REBOOT, s1)
               else case copy_from_scratchpad (FSA_COMPLETION_POOL_BASE hm + of_nat slot_index * 8) 8 s1 of
                 (rc, bs, s2) \<Rightarrow>
                   if rc \<noteq> 0 \<or> transport_failed s2 then (FsaCompletionPollTransportError, None, s2)
                   else let slot = le_word bs :: FsaCompletionSlot in
                     if fsa_completion_slot_alloc_tag slot \<noteq> fsa_completion_token_alloc_tag token
                     then (FsaCompletionPollInvalidToken, None, s2)
                     else let r = fsa_completion_slot_result slot in
                       (if r = FSA_COMPLETION_RESULT_PENDING then FsaCompletionPollPending else FsaCompletionPollTerminal,
                        Some r, s2)))"

definition fsa_release_completion :: "hal_map \<Rightarrow> FsaCompletionToken \<Rightarrow> hal \<Rightarrow> FsaCompletionReleaseStatus \<times> hal" where
  "fsa_release_completion hm token s =
     (if firmware_session_failed s then (FsaCompletionReleaseTransportError, s)
      else if token \<in> set (stale_completion_tokens s)
      then (FsaCompletionReleaseAccepted, s\<lparr>stale_completion_tokens := remove1 token (stale_completion_tokens s)\<rparr>)
      else if find_completion_slot token s = None then (FsaCompletionReleaseInvalidToken, s)
      else case read_firmware_snapshot hm s of
        (None, s1) \<Rightarrow> (FsaCompletionReleaseTransportError, s1)
      | (Some generation, s1) \<Rightarrow>
          if firmware_rebooted generation token
          then (FsaCompletionReleaseAccepted,
                case find_completion_slot token s1 of None \<Rightarrow> s1 | Some i \<Rightarrow> free_slot i s1)
          else case copy_from_scratchpad
                 (FSA_COMPLETION_POOL_BASE hm + ucast (fsa_completion_token_slot_index token) * 8) 8 s1 of
            (rc, bs, s2) \<Rightarrow>
              if rc \<noteq> 0 \<or> transport_failed s2 then (FsaCompletionReleaseTransportError, s2)
              else let slot = le_word bs :: FsaCompletionSlot in
                if fsa_completion_slot_alloc_tag slot \<noteq> fsa_completion_token_alloc_tag token
                then (FsaCompletionReleaseInvalidToken, s2)
                else if fsa_completion_slot_result slot = FSA_COMPLETION_RESULT_PENDING
                then (FsaCompletionReleasePending, s2)
                else if firmware_reboot_failed s2 then (FsaCompletionReleaseTransportError, s2)
                else case find_completion_slot token s2 of
                  None \<Rightarrow> (FsaCompletionReleaseInvalidToken, s2)
                | Some i \<Rightarrow> (FsaCompletionReleaseAccepted, free_slot i s2))"

section \<open>Waiting\<close>

text \<open>Every successful exchange with the device uses up an event, which bounds the waiting loops.\<close>

abbreviation hal_events :: "hal \<Rightarrow> nat" where
  "hal_events s \<equiv> length (events (lv s))"

lemma wait_time_events: "wait_device_time d c = (0, t, c') \<Longrightarrow> length (events c') < length (events c)"
  by (auto simp: wait_device_time_def dest!: exchange_frame(1) next_event_events split: prod.splits if_splits option.splits)

lemma next_event_le: "next_event c = (e, c') \<Longrightarrow> length (events c') \<le> length (events c)"
  by (auto simp: next_event_def split: list.splits)

lemma put_events_le: "fsa_real_put a bs c = (rc, c') \<Longrightarrow> length (events c') \<le> length (events c)"
  by (auto simp: fsa_real_put_def dest!: exchange_frame(1) next_event_le split: prod.splits if_splits option.splits)

lemma get_events_le: "fsa_real_get a n c = (rc, bs, c') \<Longrightarrow> length (events c') \<le> length (events c)"
  by (auto simp: fsa_real_get_def dest!: exchange_frame(1) next_event_le split: prod.splits if_splits option.splits)

lemma from_scratchpad_events_le:
  "from_scratchpad_loop l d n b got c = (rc, bs, c') \<Longrightarrow> length (events c') \<le> length (events c)"
proof (induction l d n b got c rule: from_scratchpad_loop.induct)
  case (1 l d n b got c)
  show ?case
  proof (cases "b < d + of_nat n")
    case True
    let ?e = "min ((b div l + 1) * l) (d + of_nat n)"
    obtain st x c1 where g: "fsa_real_get b (unat (?e - b)) c = (st, x, c1)" by (cases "fsa_real_get b (unat (?e - b)) c")
    then show ?thesis
      using 1(1) [OF True refl refl g [symmetric] refl] 1(2) True get_events_le [OF g]
      by (auto simp: from_scratchpad_loop.simps [of l d n b got c] Let_def split: if_splits)
  qed (use 1(2) in \<open>simp add: from_scratchpad_loop.simps [of l d n b got c]\<close>)
qed

lemma mark_frame [simp]: "lv (mark_transport_failure rc s) = lv s"
  by (simp add: mark_transport_failure_def)

lemma mmio_read_events: "real_mmio_read off old latch s = (rc, v, s') \<Longrightarrow> hal_events s' \<le> hal_events s"
  by (auto simp: real_mmio_read_def mmio_read_def dest!: get_events_le split: option.splits prod.splits if_splits)

lemma snapshot_events: "read_firmware_snapshot hm s = (r, s') \<Longrightarrow> hal_events s' \<le> hal_events s"
  by (auto simp: read_firmware_snapshot_def dest!: mmio_read_events split: prod.splits)

lemma scratchpad_events: "copy_from_scratchpad a n s = (rc, bs, s') \<Longrightarrow> hal_events s' \<le> hal_events s"
  by (auto simp: copy_from_scratchpad_def fsa_real_copy_from_scratchpad_def dest!: from_scratchpad_events_le
      split: option.splits prod.splits if_splits)

lemma poll_events: "fsa_poll_completion hm token s = (st, r, s') \<Longrightarrow> hal_events s' \<le> hal_events s"
  by (auto simp: fsa_poll_completion_def Let_def dest!: snapshot_events scratchpad_events
      split: if_splits option.splits prod.splits)

lemma backoff_events: "real_poll_backoff s = (0, t, s') \<Longrightarrow> hal_events s' < hal_events s"
  by (auto simp: real_poll_backoff_def fsa_real_poll_backoff_def dest!: wait_time_events split: prod.splits)

text \<open>
  \<open>res\<close> is what the caller's result variable holds: the last value a poll wrote. The loop of the source is
  unbounded; here it ends because every round consumes an event of the connection, and the end of the
  connection is a transport error.
\<close>

function wait_completion_loop ::
  "hal_map \<Rightarrow> FsaCompletionToken \<Rightarrow> u64 \<Rightarrow> u64 \<Rightarrow> FsaCompletionResult option \<Rightarrow> hal \<Rightarrow>
     FsaCompletionWaitStatus \<times> FsaCompletionResult option \<times> hal" where
  "wait_completion_loop hm token timeout_ms start_ns res s =
     (case fsa_poll_completion hm token s of (status, r, s1) \<Rightarrow>
        let res1 = (if r = None then res else r) in
        case status of
          FsaCompletionPollTerminal \<Rightarrow>
            (case fsa_release_completion hm token s1 of
               (FsaCompletionReleaseAccepted, s2) \<Rightarrow> (FsaCompletionWaitSuccess, res1, s2)
             | (FsaCompletionReleaseTransportError, s2) \<Rightarrow> (FsaCompletionWaitTransportError, res1, s2)
             | (_, s2) \<Rightarrow> (FsaCompletionWaitInvalidToken, res1, s2))
        | FsaCompletionPollInvalidToken \<Rightarrow> (FsaCompletionWaitInvalidToken, res1, s1)
        | FsaCompletionPollTransportError \<Rightarrow> (FsaCompletionWaitTransportError, res1, s1)
        | FsaCompletionPollPending \<Rightarrow>
            (case real_poll_backoff s1 of (rc, now_ns, s2) \<Rightarrow>
               if rc \<noteq> 0 then (FsaCompletionWaitTransportError, res1, mark_transport_failure (-1) s2)
               else if 0 < timeout_ms \<and> timeout_ms \<le> (now_ns - start_ns) div 1000000
               then (FsaCompletionWaitTimeout, res1, s2)
               else wait_completion_loop hm token timeout_ms start_ns res1 s2))"
  by pat_completeness auto
termination
  by (relation "measure (\<lambda>(_, _, _, _, _, s). hal_events s)")
    (auto dest!: poll_events [OF sym] backoff_events [OF sym])

declare wait_completion_loop.simps [simp del]

definition fsa_wait_completion ::
  "hal_map \<Rightarrow> FsaCompletionToken \<Rightarrow> u64 \<Rightarrow> hal \<Rightarrow> FsaCompletionWaitStatus \<times> FsaCompletionResult option \<times> hal" where
  "fsa_wait_completion hm token timeout_ms s =
     (case real_time_ns s of (rc, start_ns, s1) \<Rightarrow>
        if rc \<noteq> 0 then (FsaCompletionWaitTransportError, None, mark_transport_failure (-1) s1)
        else wait_completion_loop hm token timeout_ms start_ns None s1)"

definition wait_for_copy_completion :: "hal_map \<Rightarrow> FsaCompletionToken \<Rightarrow> hal \<Rightarrow> int \<times> hal" where
  "wait_for_copy_completion hm completion s =
     (case fsa_wait_completion hm completion 0 s of (st, r, s1) \<Rightarrow>
        (if st = FsaCompletionWaitSuccess \<and> r = Some FSA_COMPLETION_RESULT_SUCCESS then 0 else -1, s1))"

definition copy_info :: "FsaMemoryDomain \<Rightarrow> u64 \<Rightarrow> FsaMemoryDomain \<Rightarrow> u64 \<Rightarrow> u64 \<Rightarrow> FsaMemoryCopyInfo" where
  "copy_info src src_addr dst dst_addr sz = \<lparr>mc_struct_size = sizeof_FsaMemoryCopyInfo,
     mc_source = \<lparr>mg_domain = ucast (memory_domain_code src), mg_range = \<lparr>mr_address = src_addr, mr_size = sz\<rparr>\<rparr>,
     mc_destination = \<lparr>mg_domain = ucast (memory_domain_code dst), mg_range = \<lparr>mr_address = dst_addr, mr_size = sz\<rparr>\<rparr>\<rparr>"

definition fsa_copy_to_dev :: "hal_map \<Rightarrow> u64 \<Rightarrow> u64 \<Rightarrow> u64 \<Rightarrow> hal \<Rightarrow> int \<times> hal" where
  "fsa_copy_to_dev hm dev_addr host_ptr sz s =
     (if \<not> fsa_hal_is_available s then (-1, s)
      else case fsa_cmd_memory_copy hm (Some (copy_info FsaMemoryDomainHost host_ptr FsaMemoryDomainDevice dev_addr sz)) True s of
        (st, completion, s1) \<Rightarrow> if st \<noteq> FsaCommandSubmitAccepted then (-1, s1) else wait_for_copy_completion hm completion s1)"

definition fsa_copy_from_dev :: "hal_map \<Rightarrow> u64 \<Rightarrow> u64 \<Rightarrow> u64 \<Rightarrow> hal \<Rightarrow> int \<times> hal" where
  "fsa_copy_from_dev hm dev_addr host_ptr sz s =
     (if \<not> fsa_hal_is_available s then (-1, s)
      else case fsa_cmd_memory_copy hm (Some (copy_info FsaMemoryDomainDevice dev_addr FsaMemoryDomainHost host_ptr sz)) True s of
        (st, completion, s1) \<Rightarrow> if st \<noteq> FsaCommandSubmitAccepted then (-1, s1) else wait_for_copy_completion hm completion s1)"

section \<open>Device memory\<close>

definition fsa_addr_malloc :: "bool \<Rightarrow> bool \<Rightarrow> u64 \<Rightarrow> u64 \<Rightarrow> hal \<Rightarrow> int \<times> hal" where
  "fsa_addr_malloc right_ok left_ok dev_addr sz s =
     (case falloc_addr_malloc right_ok left_ok dev_addr sz (heaps s) of (rc, h) \<Rightarrow> (rc, s\<lparr>heaps := h\<rparr>))"

definition fsa_malloc :: "bool \<Rightarrow> bool \<Rightarrow> u64 \<Rightarrow> hal \<Rightarrow> int \<times> u64 option \<times> hal" where
  "fsa_malloc malloc_ok dev_addr sz s =
     (case falloc_malloc malloc_ok dev_addr sz (heaps s) of (rc, p, h) \<Rightarrow> (rc, p, s\<lparr>heaps := h\<rparr>))"

text \<open>The output pointer must not be null here: it is written on every path.\<close>

definition fsa_malloc_noncache :: "bool \<Rightarrow> u64 \<Rightarrow> hal \<Rightarrow> int \<times> u64 option \<times> hal" where
  "fsa_malloc_noncache malloc_ok sz s =
     (if \<not> noncache_alloc_ready s then (-1, None, s)
      else case falloc_noncache_malloc malloc_ok True sz (heaps s) of
        (rc, p, h) \<Rightarrow> (rc, if rc = 0 then p else None, s\<lparr>heaps := h\<rparr>))"

definition fsa_free :: "u64 \<Rightarrow> hal \<Rightarrow> int \<times> hal" where
  "fsa_free dev_addr s =
     (case falloc_free dev_addr (heaps s) of (rc, h) \<Rightarrow>
        if rc \<noteq> 0 \<and> noncache_alloc_ready s
        then (case falloc_noncache_free dev_addr h of (rc', h') \<Rightarrow> (rc', s\<lparr>heaps := h'\<rparr>))
        else (rc, s\<lparr>heaps := h\<rparr>))"

section \<open>The firmware session\<close>

lemma cp_reset_events: "real_cp_reset hm s = (rc, s') \<Longrightarrow> hal_events s' \<le> hal_events s"
  by (auto simp: real_cp_reset_def fsa_real_cp_reset_def Let_def dest!: put_events_le split: option.splits prod.splits if_splits)

text \<open>An error of a call is returned as it is; \<open>msip_sent\<close> records that the reset was asked for.\<close>

function rom_reset_loop :: "hal_map \<Rightarrow> u64 \<Rightarrow> u64 \<Rightarrow> bool \<Rightarrow> hal \<Rightarrow> int \<times> hal" where
  "rom_reset_loop hm deadline_ms start_ns msip_sent s =
     (case real_mmio_read (FSA_CP_OFF_FW_STATUS hm) (firmware_status_code FsaFirmwareStatusBooting) True s of
        (rc, fw_status, s1) \<Rightarrow>
          if rc \<noteq> 0 then (rc, s1)
          else if fw_status = firmware_status_code FsaFirmwareStatusReset then (0, s1)
          else let want = \<not> msip_sent \<and> (fw_status = firmware_status_code FsaFirmwareStatusReady \<or>
                                       fw_status = firmware_status_code FsaFirmwareStatusFault)
               in case (if want then real_cp_reset hm s1 else (0, s1)) of (rc1, s2) \<Rightarrow>
                 if rc1 \<noteq> 0 then (rc1, s2)
                 else case real_poll_backoff s2 of (rc2, now_ns, s3) \<Rightarrow>
                   if rc2 \<noteq> 0 then (rc2, s3)
                   else if 0 < deadline_ms \<and> deadline_ms \<le> (now_ns - start_ns) div 1000000 then (-1, s3)
                   else rom_reset_loop hm deadline_ms start_ns (msip_sent \<or> want) s3)"
  by pat_completeness auto
termination
proof (relation "measure (\<lambda>(_, _, _, _, s). hal_events s)", goal_cases)
  case 2
  then show ?case
    by (auto dest!: mmio_read_events [OF sym] backoff_events [OF sym] cp_reset_events [OF sym] split: if_splits)
qed simp

definition ensure_rom_reset_state :: "hal_map \<Rightarrow> u64 \<Rightarrow> hal \<Rightarrow> int \<times> hal" where
  "ensure_rom_reset_state hm deadline_ms s =
     (case real_time_ns s of (rc, start_ns, s1) \<Rightarrow>
        if rc \<noteq> 0 then (rc, s1) else rom_reset_loop hm deadline_ms start_ns False s1)"

function upload_loop :: "hal_map \<Rightarrow> u64 \<Rightarrow> hal \<Rightarrow> int \<times> hal" where
  "upload_loop hm start_ns s =
     (case real_mmio_read (FSA_CP_OFF_FW_SIZE hm) 1 True s of (rc, remaining, s1) \<Rightarrow>
        if rc \<noteq> 0 then (rc, s1)
        else if remaining = 0 then (0, s1)
        else case real_mmio_read (FSA_CP_OFF_FW_STATUS hm) (firmware_status_code FsaFirmwareStatusReset) True s1 of
          (rc1, fw_status, s2) \<Rightarrow>
            if rc1 \<noteq> 0 then (rc1, s2)
            else case real_mmio_read (FSA_CP_OFF_FW_FAULT_CODE hm) (firmware_fault_code FsaFirmwareFaultNone) True s2 of
              (rc2, fault, s3) \<Rightarrow>
                if rc2 \<noteq> 0 then (rc2, s3)
                else if fw_status = firmware_status_code FsaFirmwareStatusFault then (-1, s3)
                else case real_poll_backoff s3 of (rc3, now_ns, s4) \<Rightarrow>
                  if rc3 \<noteq> 0 then (rc3, s4)
                  else if 5000 \<le> (now_ns - start_ns) div 1000000 then (-1, s4)
                  else upload_loop hm start_ns s4)"
  by pat_completeness auto
termination
  by (relation "measure (\<lambda>(_, _, s). hal_events s)")
    (auto dest!: mmio_read_events [OF sym] backoff_events [OF sym])

text \<open>The firmware image is an argument: its host address and its size.\<close>

definition upload_firmware :: "hal_map \<Rightarrow> u64 \<Rightarrow> u64 \<Rightarrow> hal \<Rightarrow> int \<times> hal" where
  "upload_firmware hm fw_ptr fw_size s =
     (if fw_ptr = 0 \<or> fw_size = 0 \<or> FSA_CP_TCM_SIZE hm < fw_size then (-1, s)
      else case real_mmio_write (FSA_CP_OFF_FW_HOST_ADDR hm) fw_ptr (s\<lparr>host_rd_ptr := 0, host_wr_ptr := 0\<rparr>) of
        (rc, s1) \<Rightarrow>
          if rc \<noteq> 0 then (rc, s1)
          else case real_mmio_write (FSA_CP_OFF_FW_SIZE hm) fw_size s1 of (rc1, s2) \<Rightarrow>
            if rc1 \<noteq> 0 then (rc1, s2)
            else case real_time_ns s2 of (rc2, start_ns, s3) \<Rightarrow>
              if rc2 \<noteq> 0 then (rc2, s3) else upload_loop hm start_ns s3)"

datatype FirmwareReadyResult = FirmwareReadySuccess | FirmwareReadyTimeout | FirmwareReadyTransportError | FirmwareReadyFault

text \<open>Registers read one after the other, up to the first read that fails.\<close>

fun mmio_reads :: "u64 list \<Rightarrow> hal \<Rightarrow> u64 list option \<times> hal" where
  "mmio_reads [] s = (Some [], s)"
| "mmio_reads (off # offs) s =
     (case real_mmio_read off 0 True s of (rc, v, s1) \<Rightarrow>
        if rc \<noteq> 0 then (None, s1)
        else case mmio_reads offs s1 of (r, s2) \<Rightarrow> (map_option ((#) v) r, s2))"

lemma mmio_reads_events: "mmio_reads offs s = (r, s') \<Longrightarrow> hal_events s' \<le> hal_events s"
  by (induction offs arbitrary: s r) (fastforce dest: mmio_read_events split: prod.splits if_splits)+

definition ready_registers :: "hal_map \<Rightarrow> u64 list" where
  "ready_registers hm = [FSA_CP_OFF_FW_STATUS hm, FSA_CP_OFF_FW_ABI_VERSION hm, FSA_CP_OFF_FW_BOOT_GENERATION hm,
     FSA_CP_OFF_FW_FAULT_CODE hm]"

function ready_loop :: "hal_map \<Rightarrow> u64 \<Rightarrow> u64 \<Rightarrow> hal \<Rightarrow> FirmwareReadyResult \<times> hal" where
  "ready_loop hm timeout start_ns s =
     (case mmio_reads (ready_registers hm) s of
        (Some [fw_status, abi, generation, fault], s1) \<Rightarrow>
          if transport_failed s1 then (FirmwareReadyTransportError, s1)
          else if fw_status = firmware_status_code FsaFirmwareStatusFault then (FirmwareReadyFault, s1)
          else if fw_status = firmware_status_code FsaFirmwareStatusReady \<and>
                  (abi \<noteq> 3 \<or> fault \<noteq> firmware_fault_code FsaFirmwareFaultNone) then (FirmwareReadyFault, s1)
          else if fw_status = firmware_status_code FsaFirmwareStatusReady \<and> generation \<noteq> 0 \<and>
                  generation \<noteq> boot_generation_before_reset s1
          then (FirmwareReadySuccess, s1\<lparr>runtime_boot_generation := generation, boot_generation_before_reset := generation\<rparr>)
          else (case real_poll_backoff s1 of (rc, now_ns, s2) \<Rightarrow>
                  if rc \<noteq> 0 then (FirmwareReadyTransportError, s2)
                  else if 0 < timeout \<and> timeout \<le> (now_ns - start_ns) div 1000000 then (FirmwareReadyTimeout, s2)
                  else ready_loop hm timeout start_ns s2)
      | (_, s1) \<Rightarrow> (FirmwareReadyTransportError, s1))"
  by pat_completeness auto
termination
  by (relation "measure (\<lambda>(_, _, _, s). hal_events s)")
    (auto dest!: mmio_reads_events [OF sym] backoff_events [OF sym])

declare rom_reset_loop.simps [simp del] upload_loop.simps [simp del] ready_loop.simps [simp del]

definition wait_for_firmware_ready :: "hal_map \<Rightarrow> u64 \<Rightarrow> u64 option \<Rightarrow> hal \<Rightarrow> FirmwareReadyResult \<times> hal" where
  "wait_for_firmware_ready hm timeout reset_start_ns s =
     (if transport_failed s then (FirmwareReadyTransportError, s)
      else case reset_start_ns of
        Some start_ns \<Rightarrow> ready_loop hm timeout start_ns s
      | None \<Rightarrow> (case real_time_ns s of (rc, start_ns, s1) \<Rightarrow>
                  if rc \<noteq> 0 then (FirmwareReadyTransportError, s1) else ready_loop hm timeout start_ns s1))"

section \<open>Initialisation, reset and cleanup\<close>

text \<open>
  The outcomes of the host's calls (connection attempts, allocations of list nodes) and the firmware image
  are arguments. The description is written only on success. \<open>hal_bring_up\<close> is the part after the
  configuration has been accepted.
\<close>

definition hal_bring_up ::
  "hal_map \<Rightarrow> u64 \<Rightarrow> u64 \<Rightarrow> bool \<Rightarrow> ConfigurationSnapshot \<Rightarrow> FsaDeviceDescription \<Rightarrow> hal \<Rightarrow> bool \<times> hal" where
  "hal_bring_up hm fw_ptr fw_size malloc_ok config desc s =
     (case real_mmio_read (FSA_CP_OFF_FW_BOOT_GENERATION hm) (boot_generation_before_reset s) True
             (s\<lparr>active_configuration := Some config\<rparr>) of (rc, g, s1) \<Rightarrow>
        if rc \<noteq> 0 then (False, s1)
        else case real_mmio_read (FSA_CP_OFF_CMD_RING_SIZE hm) 0 True (s1\<lparr>boot_generation_before_reset := g\<rparr>) of
          (rc1, n, s2) \<Rightarrow>
            if rc1 \<noteq> 0 \<or> n = 0 then (False, s2)
            else let s3 = s2\<lparr>host_cmd_ring := replicate (unat n) zero_packet, host_rd_ptr := 0, host_wr_ptr := 0,
                       next_alloc_generation := FSA_COMPLETION_ALLOC_GENERATION_INITIAL,
                       completion_slots := replicate (FSA_COMPLETION_POOL_ENTRIES hm) empty_slot,
                       stale_completion_tokens := [], runtime_boot_generation := 0\<rparr>
                 in case real_mmio_read (FSA_CP_OFF_CMD_RING_BASE hm) (dev_cmd_ring_base s3) True s3 of (rc2, b, s4) \<Rightarrow>
                   if rc2 \<noteq> 0 then (False, s4)
                   else case falloc_init malloc_ok True (global_mem_alloc_base config) (dd_max_allocation_size desc)
                               (cache_line_size config) False (heaps s4) of (rc3, h) \<Rightarrow>
                     if rc3 \<noteq> 0 then (False, s4\<lparr>dev_cmd_ring_base := b, heaps := h\<rparr>)
                     else case falloc_noncache_init malloc_ok True (global_mem_noncache_alloc_base config)
                                 (global_mem_noncache_alloc_size config) (cache_line_size config) False h of (rc4, h') \<Rightarrow>
                       if rc4 \<noteq> 0 then (False, s4\<lparr>dev_cmd_ring_base := b, heaps := h'\<rparr>)
                       else case ensure_rom_reset_state hm 5000
                                   (s4\<lparr>dev_cmd_ring_base := b, heaps := h', noncache_alloc_ready := True\<rparr>) of (rc5, s5) \<Rightarrow>
                         if rc5 \<noteq> 0 then (False, s5)
                         else case upload_firmware hm fw_ptr fw_size s5 of (rc6, s6) \<Rightarrow>
                           if rc6 \<noteq> 0 then (False, s6)
                           else case wait_for_firmware_ready hm 5000 None s6 of (r, s7) \<Rightarrow>
                             if r \<noteq> FirmwareReadySuccess then (False, s7) else (True, s7\<lparr>firmware_ready := True\<rparr>))"

definition fsa_hal_init ::
  "hal_map \<Rightarrow> u64 \<Rightarrow> u64 \<Rightarrow> bool \<Rightarrow> bool list \<Rightarrow> bool \<Rightarrow> hal \<Rightarrow> int \<times> FsaDeviceDescription option \<times> hal" where
  "fsa_hal_init hm fw_ptr fw_size malloc_ok attempts description s =
     (if \<not> description then (-1, None, s)
      else if fsa_hal_is_available s then (-1, None, s)
      else let s0 = (rollback_initialization s)\<lparr>firmware_ready := False, transport_failed := False,
                      firmware_reboot_failed := False\<rparr>
           in case fsa_real_init attempts (lv s0) of (rc, c) \<Rightarrow>
                if rc \<noteq> 0 then (rc, None, rollback_initialization (mark_transport_failure rc (s0\<lparr>lv := c\<rparr>)))
                else case load_configuration_snapshot hm c of (rc1, c1) \<Rightarrow>
                  if rc1 \<noteq> 0 then (-1, None, rollback_initialization (s0\<lparr>lv := c1\<rparr>))
                  else case snapshot c1 of
                    None \<Rightarrow> (-1, None, rollback_initialization (s0\<lparr>lv := c1\<rparr>))
                  | Some config \<Rightarrow>
                      (case derive_device_description hm config of
                         None \<Rightarrow> (-1, None, rollback_initialization (s0\<lparr>lv := c1\<rparr>))
                       | Some desc \<Rightarrow>
                           (case hal_bring_up hm fw_ptr fw_size malloc_ok config desc (s0\<lparr>lv := c1\<rparr>) of
                              (False, s1) \<Rightarrow> (-1, None, rollback_initialization s1)
                            | (True, s1) \<Rightarrow> (0, Some desc, s1))))"

definition fsa_probe :: "bool \<Rightarrow> int \<Rightarrow> u32 option \<Rightarrow> int" where
  "fsa_probe connected send_rc ack = fsa_real_probe connected send_rc ack"

definition in_use_tokens :: "CompletionSlotMetadata list \<Rightarrow> FsaCompletionToken list" where
  "in_use_tokens slots = map slot_token (filter slot_in_use slots)"

text \<open>\<open>reset_adopt\<close> is what a reset does once the new firmware is ready.\<close>

definition reset_adopt :: "hal \<Rightarrow> hal" where
  "reset_adopt s = s\<lparr>stale_completion_tokens := stale_completion_tokens s @ in_use_tokens (completion_slots s),
     completion_slots := map (\<lambda>_. empty_slot) (completion_slots s), host_rd_ptr := 0, host_wr_ptr := 0,
     next_alloc_generation := FSA_COMPLETION_ALLOC_GENERATION_INITIAL, firmware_ready := True\<rparr>"

definition fsa_hal_reset :: "hal_map \<Rightarrow> u64 \<Rightarrow> u64 \<Rightarrow> u64 \<Rightarrow> hal \<Rightarrow> int \<times> hal" where
  "fsa_hal_reset hm fw_ptr fw_size timeout s =
     (if active_configuration s = None \<or> firmware_reboot_failed s then (-1, s)
      else let s0 = s\<lparr>firmware_ready := False, transport_failed := False,
                      boot_generation_before_reset := runtime_boot_generation s\<rparr>
           in case real_time_ns s0 of (rc, start_ns, s1) \<Rightarrow>
                if rc \<noteq> 0 then (-1, s1\<lparr>firmware_reboot_failed := True\<rparr>)
                else case ensure_rom_reset_state hm timeout s1 of (rc1, s2) \<Rightarrow>
                  if rc1 \<noteq> 0 then (-1, s2\<lparr>firmware_reboot_failed := True\<rparr>)
                  else case upload_firmware hm fw_ptr fw_size s2 of (rc2, s3) \<Rightarrow>
                    if rc2 \<noteq> 0 then (-1, s3\<lparr>firmware_reboot_failed := True\<rparr>)
                    else case wait_for_firmware_ready hm timeout (Some start_ns) s3 of (r, s4) \<Rightarrow>
                      if r \<noteq> FirmwareReadySuccess then (-1, s4\<lparr>firmware_reboot_failed := True\<rparr>)
                      else (0, reset_adopt s4))"

definition fsa_hal_cleanup :: "hal \<Rightarrow> int \<times> hal" where
  "fsa_hal_cleanup s =
     (let s1 = reset_runtime_state s; s2 = s1\<lparr>lv := fsa_real_cleanup (lv s1)\<rparr>
      in (0, s2\<lparr>heaps := falloc_noncache_clean (falloc_clean (heaps s2))\<rparr>))"

definition fsa_hal_time_ns :: "bool \<Rightarrow> hal \<Rightarrow> int \<times> u64 option \<times> hal" where
  "fsa_hal_time_ns now_ns s =
     (if \<not> now_ns \<or> \<not> fsa_hal_is_available s then (-1, None, s)
      else case real_time_ns s of (rc, t, s1) \<Rightarrow> (rc, if rc = 0 then Some t else None, s1))"

text \<open>The second result is what the optional output receives.\<close>

definition fsa_hal_check_occupancy :: "u64 \<Rightarrow> u64 \<Rightarrow> bool \<Rightarrow> hal \<Rightarrow> int \<times> u64 option" where
  "fsa_hal_check_occupancy group_size local_mem_per_group max_local_mem s =
     (if \<not> fsa_hal_is_available s then (-1, None)
      else case active_configuration s of
        None \<Rightarrow> (-1, None)
      | Some config \<Rightarrow>
          if group_size = 0 then (-1, None)
          else let threads_per_core = threads_per_warp config * warps_per_core config in
            if threads_per_core < group_size then (-1, None)
            else let warps_per_group = group_size div threads_per_warp config +
                       (if group_size mod threads_per_warp config \<noteq> 0 then 1 else 0);
                     groups_by_threads = warps_per_core config div warps_per_group in
              if groups_by_threads = 0 then (-1, None)
              else if local_mem_per_group \<noteq> 0 \<and> local_mem_size config < local_mem_per_group then (-1, None)
              else let groups_by_local_mem = (if local_mem_per_group \<noteq> 0
                         then local_mem_size config div local_mem_per_group else groups_by_threads) in
                if min groups_by_threads groups_by_local_mem = 0 then (-1, None)
                else (0, if max_local_mem then Some (local_mem_size config div groups_by_threads) else None))"

end
