(* ===== verification/Hal_Slots.thy ===== *)
theory Hal_Slots
  imports Hal "HOL-Library.Multiset"
begin

text \<open>
  The completion tokens of the host library. A token is outstanding from the submission that
  returned it until it is released: it sits in a completion slot, or in the list of stale
  tokens after a reset. The library's calls keep the outstanding tokens apart, and each
  call changes them in the way its result says.
\<close>

section \<open>Frames\<close>

text \<open>What requests to the device leave alone, and what a reset of the ring pointers leaves alone.\<close>

definition slots_view :: "hal \<Rightarrow> CompletionSlotMetadata list \<times> FsaCompletionToken list \<times> u64 \<times> u32" where
  "slots_view s = (completion_slots s, stale_completion_tokens s, runtime_boot_generation s, next_alloc_generation s)"

definition heap_view :: "hal \<Rightarrow> ConfigurationSnapshot option \<times> bool \<times> falloc_state" where
  "heap_view s = (active_configuration s, noncache_alloc_ready s, heaps s)"

definition session_view where
  "session_view s = (active_configuration s, firmware_reboot_failed s, boot_generation_before_reset s, host_cmd_ring s,
     dev_cmd_ring_base s, noncache_alloc_ready s, heaps s)"

definition hal_view where
  "hal_view s = (slots_view s, session_view s)"

lemma mark_view [simp]:
  "hal_view (mark_transport_failure rc s) = hal_view s" "host_wr_ptr (mark_transport_failure rc s) = host_wr_ptr s"
  "host_rd_ptr (mark_transport_failure rc s) = host_rd_ptr s"
  by (simp_all add: mark_transport_failure_def hal_view_def slots_view_def session_view_def)

lemma lv_view [simp]: "hal_view (s\<lparr>lv := c\<rparr>) = hal_view s" "hal_view (s\<lparr>host_rd_ptr := r\<rparr>) = hal_view s"
  "hal_view (s\<lparr>host_wr_ptr := r\<rparr>) = hal_view s"
  by (simp_all add: hal_view_def slots_view_def session_view_def)

named_theorems io_frame \<open>what a request to the device leaves alone\<close>

lemma copy_from_frame [io_frame]:
  "copy_from_scratchpad a n s = (rc, bs, s') \<Longrightarrow> hal_view s' = hal_view s \<and> host_wr_ptr s' = host_wr_ptr s"
  by (auto simp: copy_from_scratchpad_def split: prod.splits)

lemma copy_to_frame [io_frame]:
  "copy_to_scratchpad a bs s = (rc, s') \<Longrightarrow> hal_view s' = hal_view s \<and> host_wr_ptr s' = host_wr_ptr s"
  by (auto simp: copy_to_scratchpad_def split: prod.splits)

lemma mmio_write_frame [io_frame]:
  "real_mmio_write off v s = (rc, s') \<Longrightarrow> hal_view s' = hal_view s \<and> host_wr_ptr s' = host_wr_ptr s"
  by (auto simp: real_mmio_write_def split: prod.splits)

lemma mmio_read_frame [io_frame]:
  "real_mmio_read off old l s = (rc, v, s') \<Longrightarrow> hal_view s' = hal_view s \<and> host_wr_ptr s' = host_wr_ptr s"
  by (auto simp: real_mmio_read_def split: prod.splits if_splits)

lemma time_frame [io_frame]:
  "real_time_ns s = (rc, t, s') \<Longrightarrow> hal_view s' = hal_view s \<and> host_wr_ptr s' = host_wr_ptr s"
  by (auto simp: real_time_ns_def split: prod.splits)

lemma backoff_frame [io_frame]:
  "real_poll_backoff s = (rc, t, s') \<Longrightarrow> hal_view s' = hal_view s \<and> host_wr_ptr s' = host_wr_ptr s"
  by (auto simp: real_poll_backoff_def split: prod.splits)

lemma snapshot_frame [io_frame]:
  "read_firmware_snapshot hm s = (g, s') \<Longrightarrow> hal_view s' = hal_view s \<and> host_wr_ptr s' = host_wr_ptr s"
  by (auto simp: read_firmware_snapshot_def dest!: mmio_read_frame split: prod.splits)

lemma sync_frame [io_frame]:
  "sync_rd_ptr hm s = (rc, s') \<Longrightarrow> hal_view s' = hal_view s \<and> host_wr_ptr s' = host_wr_ptr s"
  by (auto simp: sync_rd_ptr_def dest!: mmio_read_frame split: prod.splits if_splits)

lemma poll_frame [io_frame]:
  "fsa_poll_completion hm t s = (st, r, s') \<Longrightarrow> hal_view s' = hal_view s \<and> host_wr_ptr s' = host_wr_ptr s"
  by (auto simp: fsa_poll_completion_def Let_def dest!: snapshot_frame copy_from_frame
      split: if_splits option.splits prod.splits)

lemma view_slots:
  assumes "hal_view s' = hal_view s"
  shows "completion_slots s' = completion_slots s" "stale_completion_tokens s' = stale_completion_tokens s"
    "runtime_boot_generation s' = runtime_boot_generation s" "next_alloc_generation s' = next_alloc_generation s"
    "active_configuration s' = active_configuration s" "firmware_reboot_failed s' = firmware_reboot_failed s"
    "boot_generation_before_reset s' = boot_generation_before_reset s"
    "host_cmd_ring s' = host_cmd_ring s" "dev_cmd_ring_base s' = dev_cmd_ring_base s"
  using assms by (simp_all add: hal_view_def slots_view_def session_view_def)

lemma find_slots:
  assumes "completion_slots s' = completion_slots s"
  shows "find_completion_slot t s' = find_completion_slot t s"
  unfolding find_completion_slot_def assms by (rule refl)

lemma view_find:
  assumes "hal_view s' = hal_view s"
  shows "find_completion_slot t s' = find_completion_slot t s"
  unfolding find_completion_slot_def view_slots [OF assms] by (rule refl)

section \<open>Outstanding tokens\<close>

definition outstanding :: "hal \<Rightarrow> FsaCompletionToken list" where
  "outstanding s = stale_completion_tokens s @ in_use_tokens (completion_slots s)"

definition slot_ok :: "u64 \<Rightarrow> nat \<Rightarrow> CompletionSlotMetadata \<Rightarrow> bool" where
  "slot_ok generation i x \<longleftrightarrow> slot_in_use x \<longrightarrow>
     slot_token x \<noteq> 0 \<and> fsa_completion_token_has_valid_slot (slot_token x) \<and>
     fsa_completion_token_slot_index (slot_token x) = of_nat i \<and>
     fsa_completion_token_boot_generation (slot_token x) = ucast generation"

definition hal_wf :: "hal \<Rightarrow> bool" where
  "hal_wf s \<longleftrightarrow> length (completion_slots s) \<le> unat FSA_COMPLETION_SLOT_COUNT \<and> distinct (outstanding s) \<and> 0 \<notin> set (outstanding s) \<and>
     list_all (\<lambda>i. slot_ok (runtime_boot_generation s) i (completion_slots s ! i)) [0..<length (completion_slots s)] \<and>
     (host_cmd_ring s = [] \<or> unat (host_wr_ptr s) < length (host_cmd_ring s)) \<and>
     (active_configuration s \<noteq> None \<longrightarrow> host_cmd_ring s \<noteq> [])"

lemma in_use_split:
  assumes "i < length xs"
  shows "in_use_tokens xs = in_use_tokens (take i xs) @ (if slot_in_use (xs ! i) then [slot_token (xs ! i)] else []) @
    in_use_tokens (drop (Suc i) xs)"
  by (subst id_take_nth_drop [OF assms]) (simp add: in_use_tokens_def)

lemma in_use_update:
  assumes "i < length xs"
  shows "in_use_tokens (xs[i := x]) = in_use_tokens (take i xs) @ (if slot_in_use x then [slot_token x] else []) @
    in_use_tokens (drop (Suc i) xs)"
  using in_use_split [of i "xs[i := x]"] assms by simp

lemma in_use_tokens_mem: "t \<in> set (in_use_tokens xs) \<longleftrightarrow> (\<exists>i < length xs. slot_in_use (xs ! i) \<and> slot_token (xs ! i) = t)"
  unfolding in_use_tokens_def set_map set_filter by (fastforce simp: in_set_conv_nth)

lemma view_outstanding:
  assumes "hal_view s' = hal_view s"
  shows "outstanding s' = outstanding s"
  by (simp add: outstanding_def view_slots [OF assms])

lemma view_wf:
  assumes "hal_view s' = hal_view s \<and> host_wr_ptr s' = host_wr_ptr s" and "hal_wf s"
  shows "hal_wf s'"
  using assms(2) unfolding hal_wf_def view_slots [OF conjunct1 [OF assms(1)]] view_outstanding [OF conjunct1 [OF assms(1)]]
    conjunct2 [OF assms(1)] .

text \<open>Taking and freeing a slot.\<close>

lemma take_slot:
  assumes "i < length (completion_slots s)" and "\<not> slot_in_use (completion_slots s ! i)"
    and "completion_slots s' = (completion_slots s)[i := \<lparr>slot_in_use = True, slot_token = t\<rparr>]"
    and "stale_completion_tokens s' = stale_completion_tokens s"
  shows "mset (outstanding s') = add_mset t (mset (outstanding s))"
  using assms by (simp add: outstanding_def in_use_update in_use_split [OF assms(1)])

lemma free_slot_outstanding:
  assumes "find_completion_slot t s = Some i"
  shows "mset (outstanding s) = add_mset t (mset (outstanding (free_slot i s)))" "i < length (completion_slots s)"
proof -
  show i: "i < length (completion_slots s)"
    using assms by (auto simp: find_completion_slot_def Let_def split: if_splits)
  then show "mset (outstanding s) = add_mset t (mset (outstanding (free_slot i s)))"
    using assms in_use_split [OF i] in_use_update [OF i, of empty_slot]
    by (auto simp: find_completion_slot_def Let_def outstanding_def free_slot_def empty_slot_def split: if_splits)
qed

text \<open>\<open>hal_wf\<close> with its parts named, and what keeps each of them.\<close>

lemma hal_wfD:
  assumes "hal_wf s"
  shows "length (completion_slots s) \<le> unat FSA_COMPLETION_SLOT_COUNT" "distinct (outstanding s)" "0 \<notin> set (outstanding s)"
    and "i < length (completion_slots s) \<Longrightarrow> slot_ok (runtime_boot_generation s) i (completion_slots s ! i)"
  using assms by (auto simp: hal_wf_def list_all_iff)

lemma wf_slots:
  assumes "hal_wf s" and "completion_slots s' = (completion_slots s)[i := x]"
    and "runtime_boot_generation s' = runtime_boot_generation s" and "slot_ok (runtime_boot_generation s) i x"
    and "distinct (outstanding s')" and "0 \<notin> set (outstanding s')"
    and "session_view s' = session_view s" and "host_wr_ptr s' = host_wr_ptr s"
  shows "hal_wf s'"
proof -
  have "slot_ok (runtime_boot_generation s) j ((completion_slots s)[i := x] ! j)" if "j < length (completion_slots s)" for j
    using hal_wfD(4) [OF assms(1) that] assms(4) that by (cases "j = i") simp_all
  then show ?thesis
    using assms by (simp add: hal_wf_def list_all_iff session_view_def)
qed

lemma empty_slot_ok [simp]: "slot_ok g i empty_slot"
  by (simp add: slot_ok_def empty_slot_def)

lemma mset_distinct: "mset xs = add_mset x (mset ys) \<Longrightarrow> distinct xs \<longleftrightarrow> x \<notin> set ys \<and> distinct ys"
  using mset_eq_imp_distinct_iff [of xs "x # ys"] by simp

lemma mset_set: "mset xs = add_mset x (mset ys) \<Longrightarrow> set xs = insert x (set ys)"
  using mset_eq_setD [of xs "x # ys"] by simp

lemma free_slot_wf:
  assumes "hal_wf s" and "find_completion_slot t s = Some i"
  shows "hal_wf (free_slot i s)"
  using hal_wfD(2,3) [OF assms(1)] mset_distinct [OF free_slot_outstanding(1) [OF assms(2)]]
    mset_set [OF free_slot_outstanding(1) [OF assms(2)]]
  by (intro wf_slots [OF assms(1), of _ i empty_slot]) (auto simp: free_slot_def session_view_def)

section \<open>Allocation\<close>

lemma slot_index_inj:
  assumes "(of_nat i :: u16) = of_nat j" and "i < unat FSA_COMPLETION_SLOT_COUNT" and "j < unat FSA_COMPLETION_SLOT_COUNT"
  shows "i = j"
proof -
  have "unat (of_nat i :: u16) = i" "unat (of_nat j :: u16) = j"
    using assms(2,3) by (auto simp: FSA_COMPLETION_SLOT_COUNT_def unsigned_of_nat intro: take_bit_nat_eq_self)
  then show ?thesis using assms(1) by metis
qed

lemma in_use_other:
  assumes "hal_wf s" and "i < length (completion_slots s)" and "\<not> slot_in_use (completion_slots s ! i)"
    and "fsa_completion_token_slot_index t = of_nat i"
  shows "t \<notin> set (in_use_tokens (completion_slots s))"
proof
  assume "t \<in> set (in_use_tokens (completion_slots s))"
  then obtain j where j: "j < length (completion_slots s)" "slot_in_use (completion_slots s ! j)" "slot_token (completion_slots s ! j) = t"
    by (auto simp: in_use_tokens_mem)
  then have "(of_nat j :: u16) = of_nat i" using hal_wfD(4) [OF assms(1) j(1)] assms(4) by (simp add: slot_ok_def)
  then have "j = i" using slot_index_inj j(1) assms(2) hal_wfD(1) [OF assms(1)] by (meson order_less_le_trans)
  then show False using j assms(3) by simp
qed

lemma find_slot:
  assumes "i < length (completion_slots s)" and "i < unat FSA_COMPLETION_SLOT_COUNT"
    and "completion_slots s ! i = \<lparr>slot_in_use = True, slot_token = t\<rparr>"
    and "fsa_completion_token_slot_index t = of_nat i" and "t \<noteq> 0" and "fsa_completion_token_has_valid_slot t"
  shows "find_completion_slot t s = Some i"
proof -
  have "unat (of_nat i :: u16) = i"
    using assms(2) by (auto simp: FSA_COMPLETION_SLOT_COUNT_def unsigned_of_nat intro: take_bit_nat_eq_self)
  then show ?thesis
    using assms by (simp add: find_completion_slot_def)
qed

definition allocated :: "hal \<Rightarrow> nat \<Rightarrow> hal \<Rightarrow> bool" where
  "allocated s i s' \<longleftrightarrow> (let t = slot_token (completion_slots s' ! i) in
     find_completion_slot t s' = Some i \<and> t \<notin> set (outstanding s) \<and> mset (outstanding s') = add_mset t (mset (outstanding s)))"

definition same_session :: "hal \<Rightarrow> hal \<Rightarrow> bool" where
  "same_session s s' \<longleftrightarrow> session_view s' = session_view s \<and> host_wr_ptr s' = host_wr_ptr s \<and> host_rd_ptr s' = host_rd_ptr s \<and> lv s' = lv s \<and>
     runtime_boot_generation s' = runtime_boot_generation s \<and> stale_completion_tokens s' = stale_completion_tokens s \<and>
     length (completion_slots s') = length (completion_slots s)"

lemma allocate_take:
  assumes wf: "hal_wf s" and i: "i < length (completion_slots s)" and free: "\<not> slot_in_use (completion_slots s ! i)"
    and t: "t = fsa_completion_token_make (runtime_boot_generation s) g (of_nat i)"
    and new: "t \<notin> set (stale_completion_tokens s)"
    and s': "s' = s\<lparr>completion_slots := (completion_slots s)[i := \<lparr>slot_in_use = True, slot_token = t\<rparr>], next_alloc_generation := n\<rparr>"
  shows "hal_wf s' \<and> allocated s i s'"
proof
  have i64: "i < unat FSA_COMPLETION_SLOT_COUNT" using i hal_wfD(1) [OF wf] by simp
  then have "(of_nat i :: u16) < FSA_COMPLETION_SLOT_COUNT"
    by (auto simp: word_less_iff_unat FSA_COMPLETION_SLOT_COUNT_def unsigned_of_nat take_bit_nat_eq_self)
  then have ix: "fsa_completion_token_slot_index t = of_nat i" "t \<noteq> 0" "fsa_completion_token_has_valid_slot t"
    using t by (simp_all add: token_slot_index_make token_make_nonzero token_make_valid_slot)
  have fresh: "t \<notin> set (outstanding s)" using in_use_other [OF wf i free ix(1)] new by (simp add: outstanding_def)
  have ms: "mset (outstanding s') = add_mset t (mset (outstanding s))" using s' by (intro take_slot [OF i free]) simp_all
  have "find_completion_slot t s' = Some i" using i i64 s' ix by (intro find_slot) simp_all
  then show "allocated s i s'" using fresh ms i s' by (simp add: allocated_def)
  show "hal_wf s'"
    using mset_distinct [OF ms] mset_set [OF ms] fresh hal_wfD(2,3) [OF wf] ix t s'
    by (intro wf_slots [OF wf]) (auto simp: slot_ok_def token_boot_generation_make session_view_def)
qed

lemma allocate_skip:
  assumes wf: "hal_wf s" and i: "i < length (completion_slots s)" and free: "\<not> slot_in_use (completion_slots s ! i)"
    and s': "s' = s\<lparr>completion_slots := (completion_slots s)[i := empty_slot], next_alloc_generation := n\<rparr>"
  shows "hal_wf s'" "outstanding s' = outstanding s"
proof -
  show o: "outstanding s' = outstanding s"
    using free s' in_use_split [OF i] in_use_update [OF i, of empty_slot] by (simp add: outstanding_def empty_slot_def)
  show "hal_wf s'" using hal_wfD(2,3) [OF wf] s' o by (intro wf_slots [OF wf]) (auto simp: session_view_def)
qed

lemma allocate_loop_correct:
  assumes "allocate_loop is s = (r, s')" and "hal_wf s" and "set is \<subseteq> {..<length (completion_slots s)}"
  shows "hal_wf s' \<and> same_session s s' \<and> (case r of None \<Rightarrow> outstanding s' = outstanding s | Some i \<Rightarrow> allocated s i s')"
  using assms
proof (induction "is" s arbitrary: r s' rule: allocate_loop.induct)
  case (1 s)
  then show ?case by (simp add: same_session_def)
next
  case (2 i "is" s)
  let ?t = "fsa_completion_token_make (runtime_boot_generation s) (next_alloc_generation s) (of_nat i)"
  let ?n = "fsa_completion_next_alloc_generation (next_alloc_generation s)"
  let ?s1 = "s\<lparr>completion_slots := (completion_slots s)[i := empty_slot], next_alloc_generation := ?n\<rparr>"
  have i: "i < length (completion_slots s)" using 2(5) by simp
  consider "slot_in_use (completion_slots s ! i)" | "\<not> slot_in_use (completion_slots s ! i)" "?t \<in> set (stale_completion_tokens s)"
    | "\<not> slot_in_use (completion_slots s ! i)" "?t \<notin> set (stale_completion_tokens s)" by blast
  then show ?case
  proof cases
    case 1
    then show ?thesis using 2(1) [OF 1] 2(3-5) by simp
  next
    case 2
    note sk = allocate_skip [OF \<open>hal_wf s\<close> i 2(1) refl, of ?n]
    show ?thesis
      using "2.IH"(2) [OF 2(1) refl refl 2(2), of r s'] "2.prems" 2 sk
      by (simp add: same_session_def allocated_def session_view_def Let_def split: option.splits)
  next
    case 3
    then show ?thesis
      using allocate_take [OF \<open>hal_wf s\<close> i 3(1) refl 3(2) refl, of ?n] "2.prems"
      by (auto simp: same_session_def session_view_def Let_def)
  qed
qed

lemma allocate_correct:
  assumes "allocate_completion_slot s = (r, s')" and "hal_wf s"
  shows "hal_wf s'" "same_session s s'" "case r of None \<Rightarrow> outstanding s' = outstanding s | Some i \<Rightarrow> allocated s i s'"
  using allocate_loop_correct [OF assms [unfolded allocate_completion_slot_def]] by (simp_all add: atLeast0LessThan)

section \<open>Submission\<close>

lemma wf_ring [simp]: "hal_wf (s\<lparr>host_cmd_ring := (host_cmd_ring s)[k := p]\<rparr>) = hal_wf s"
  by (simp add: hal_wf_def outstanding_def)

lemma ring_outstanding [simp]:
  "outstanding (s\<lparr>host_cmd_ring := r\<rparr>) = outstanding s" "find_completion_slot t (s\<lparr>host_cmd_ring := r\<rparr>) = find_completion_slot t s"
  by (simp_all add: outstanding_def find_slots [of "s\<lparr>host_cmd_ring := r\<rparr>" s])

lemma next_wr_bound: "host_cmd_ring s = [] \<or> unat (next_wr_ptr s) < length (host_cmd_ring s)"
proof (cases "host_cmd_ring s = []")
  case False
  then have "unat (host_wr_ptr s + 1) mod length (host_cmd_ring s) < length (host_cmd_ring s)" by simp
  then show ?thesis by (simp add: next_wr_ptr_def unsigned_of_nat order.strict_trans1 [OF take_bit_nat_less_eq_self])
qed simp

lemma wf_wr_ptr: "hal_wf s \<Longrightarrow> host_cmd_ring s = [] \<or> unat w < length (host_cmd_ring s) \<Longrightarrow> hal_wf (s\<lparr>host_wr_ptr := w\<rparr>)"
  by (simp add: hal_wf_def outstanding_def)

lemma view_next_wr:
  assumes "hal_view s' = hal_view s \<and> host_wr_ptr s' = host_wr_ptr s"
  shows "next_wr_ptr s' = next_wr_ptr s"
  using assms by (simp add: next_wr_ptr_def hal_view_def session_view_def)

lemma send_cmd_frame:
  assumes "send_cmd hm p s = (st, s')"
  shows "hal_view s' = hal_view s" and "hal_wf s \<Longrightarrow> hal_wf s'"
proof -
  obtain rc s1 where c: "copy_to_scratchpad (dev_cmd_ring_base s + ucast (host_wr_ptr s) * of_nat FSA_COMMAND_PACKET_BYTES) p s = (rc, s1)"
    by (cases "copy_to_scratchpad (dev_cmd_ring_base s + ucast (host_wr_ptr s) * of_nat FSA_COMMAND_PACKET_BYTES) p s")
  obtain rc' s2 where w: "real_mmio_write (FSA_CP_OFF_WR_PTR hm) (ucast (next_wr_ptr s1)) s1 = (rc', s2)"
    by (cases "real_mmio_write (FSA_CP_OFF_WR_PTR hm) (ucast (next_wr_ptr s1)) s1")
  note f = io_frame(2) [OF c] io_frame(3) [OF w]
  have s': "s' = s1 \<or> s' = s2 \<or> s' = s2\<lparr>host_wr_ptr := next_wr_ptr s2\<rparr>"
    using assms c w view_next_wr [OF f(2)] by (auto simp: send_cmd_def Let_def split: if_splits)
  then show "hal_view s' = hal_view s" using f by auto
  show "hal_wf s'" if "hal_wf s"
    using s' view_wf [OF f(1) that] view_wf [OF f(2)] wf_wr_ptr [OF _ next_wr_bound] by auto
qed

text \<open>The effect of a submission: no token and nothing outstanding changes, or one fresh token is outstanding.\<close>

definition submitted :: "hal \<Rightarrow> FsaCommandSubmitStatus \<Rightarrow> FsaCompletionToken \<Rightarrow> hal \<Rightarrow> bool" where
  "submitted s st t s' \<longleftrightarrow>
     (if t = 0 then st \<noteq> FsaCommandSubmitAccepted \<and> mset (outstanding s') = mset (outstanding s)
      else (st = FsaCommandSubmitAccepted \<or> st = FsaCommandSubmitTransportError) \<and> t \<notin> set (outstanding s) \<and>
        mset (outstanding s') = add_mset t (mset (outstanding s)) \<and> find_completion_slot t s' \<noteq> None)"

lemma find_nonzero: "find_completion_slot t s = Some i \<Longrightarrow> t \<noteq> 0"
  by (auto simp: find_completion_slot_def)

lemma allocated_freed:
  assumes "allocated s i s1" and "hal_view s2 = hal_view s1" and "hal_wf s2"
  shows "hal_wf (free_slot i s2)" and "mset (outstanding (free_slot i s2)) = mset (outstanding s)"
proof -
  let ?t = "slot_token (completion_slots s1 ! i)"
  have a: "find_completion_slot ?t s2 = Some i" "mset (outstanding s2) = add_mset ?t (mset (outstanding s))"
    using assms(1) by (simp_all add: allocated_def Let_def view_find [OF assms(2)] view_outstanding [OF assms(2)])
  show "hal_wf (free_slot i s2)" by (rule free_slot_wf [OF assms(3) a(1)])
  show "mset (outstanding (free_slot i s2)) = mset (outstanding s)" using free_slot_outstanding(1) [OF a(1)] a(2) by simp
qed

lemma allocated_submitted:
  assumes "allocated s i s1" and "slots_view s2 = slots_view s1" and "st = FsaCommandSubmitAccepted \<or> st = FsaCommandSubmitTransportError"
  shows "submitted s st (slot_token (completion_slots s1 ! i)) s2"
proof -
  have "find_completion_slot t s2 = find_completion_slot t s1" for t
    by (rule find_slots) (use assms(2) in \<open>simp add: slots_view_def\<close>)
  moreover have "outstanding s2 = outstanding s1" using assms(2) by (simp add: outstanding_def slots_view_def)
  ultimately show ?thesis using assms(1,3) by (auto simp: allocated_def submitted_def Let_def dest: find_nonzero)
qed

lemma free_slot_ring: "free_slot i s = s \<lparr>completion_slots := completion_slots (free_slot i s)\<rparr>"
  by (simp add: free_slot_def)

lemma submit_filled_correct:
  assumes "submit_filled hm pkt s = (st, t, s')" and wf: "hal_wf s"
  shows "hal_wf s' \<and> submitted s st t s'"
proof -
  obtain r s1 where a: "allocate_completion_slot s = (r, s1)" by (cases "allocate_completion_slot s")
  note al = allocate_correct [OF a wf]
  show ?thesis
  proof (cases r)
    case None
    then show ?thesis using assms(1) a al by (auto simp: submit_filled_def submitted_def)
  next
    case (Some i)
    let ?t = "slot_token (completion_slots s1 ! i)"
    obtain rc s2 where c: "copy_to_scratchpad (FSA_COMPLETION_POOL_BASE hm + of_nat i * 8)
        (le_bytes 8 (fsa_completion_slot_encode (fsa_completion_token_alloc_tag ?t) FSA_COMPLETION_RESULT_PENDING)) s1 = (rc, s2)"
      by fastforce
    let ?s3 = "s2\<lparr>host_cmd_ring := (host_cmd_ring s2)[unat (host_wr_ptr s2) := put_token ?t pkt]\<rparr>"
    obtain sc s4 where sd: "send_cmd hm (put_token ?t pkt) ?s3 = (sc, s4)" by fastforce
    have ai: "allocated s i s1" using al(3) Some by simp
    note f2 = io_frame(2) [OF c]
    have w2: "hal_wf s2" "hal_wf s4" using view_wf [OF f2 al(1)] send_cmd_frame(2) [OF sd] by simp_all
    have v: "slots_view s4 = slots_view s1" "slots_view ?s3 = slots_view s1"
      using send_cmd_frame(1) [OF sd] f2 by (simp_all add: hal_view_def slots_view_def)
    have "allocated s i ?s3"
      using ai v(2) find_slots [of ?s3 s1 ?t] by (simp add: allocated_def slots_view_def outstanding_def Let_def)
    note fr = allocated_freed [OF ai conjunct1 [OF f2] w2(1)]
      allocated_freed [OF this send_cmd_frame(1) [OF sd] w2(2)]
    show ?thesis
      using assms(1) Some a c sd fr w2 allocated_submitted [OF ai v(1)]
      by (auto simp: submit_filled_def Let_def submitted_def [of s "FsaCommandSubmitTransportError" 0] split: if_splits SendCmdStatus.splits)
  qed
qed

lemma reserve_frame:
  assumes "reserve_command_slot hm s = (st, s')" and "hal_wf s"
  shows "hal_wf s'" and "outstanding s' = outstanding s"
proof -
  obtain rc s1 where sy: "sync_rd_ptr hm s = (rc, s1)" by fastforce
  note f = io_frame(8) [OF sy]
  show "hal_wf s'" "outstanding s' = outstanding s"
    using assms sy view_wf [OF f assms(2)] view_outstanding [OF conjunct1 [OF f]]
    by (auto simp: reserve_command_slot_def split: if_splits)
qed

lemma submit_correct:
  assumes "submit_command hm completion fill s = (st, t, s')" and wf: "hal_wf s"
  shows "hal_wf s' \<and> submitted s st t s'"
proof -
  obtain r s1 where rv: "reserve_command_slot hm s = (r, s1)" by fastforce
  note rf = reserve_frame [OF rv wf]
  show ?thesis
    using assms rv rf submit_filled_correct [of hm "put_token 0 fill" "s1\<lparr>host_cmd_ring := (host_cmd_ring s1)[unat (host_wr_ptr s1) := put_token 0 fill]\<rparr>" st t s']
    by (auto simp: submit_command_def submitted_def Let_def split: if_splits ReserveCommandStatus.splits)
qed

section \<open>Polling, release and wait\<close>

lemma find_outstanding: "find_completion_slot t s = Some i \<Longrightarrow> t \<in> set (outstanding s)"
  by (auto simp: find_completion_slot_def Let_def outstanding_def in_use_tokens_mem not_le split: if_splits)

lemma poll_result:
  assumes "fsa_poll_completion hm t s = (st, r, s')"
  shows "st = FsaCompletionPollTerminal \<Longrightarrow>
      t \<in> set (outstanding s) \<and> (\<exists>x. r = Some x \<and> x \<noteq> FSA_COMPLETION_RESULT_PENDING)"
    and "st = FsaCompletionPollPending \<longleftrightarrow> r = Some FSA_COMPLETION_RESULT_PENDING"
proof -
  have reboot: "FSA_COMPLETION_RESULT_FIRMWARE_REBOOT \<noteq> FSA_COMPLETION_RESULT_PENDING" by (simp add: completion_result_defs)
  show "t \<in> set (outstanding s) \<and> (\<exists>x. r = Some x \<and> x \<noteq> FSA_COMPLETION_RESULT_PENDING)" if "st = FsaCompletionPollTerminal"
  proof (cases "find_completion_slot t s")
    case None
    then show ?thesis using assms that reboot by (auto simp: fsa_poll_completion_def outstanding_def split: if_splits)
  next
    case (Some i)
    then show ?thesis using assms that reboot find_outstanding [OF Some]
      by (auto simp: fsa_poll_completion_def Let_def split: if_splits option.splits prod.splits)
  qed
  show "st = FsaCompletionPollPending \<longleftrightarrow> r = Some FSA_COMPLETION_RESULT_PENDING"
    using assms reboot by (auto simp: fsa_poll_completion_def Let_def split: if_splits option.splits prod.splits)
qed

definition released :: "hal \<Rightarrow> FsaCompletionToken \<Rightarrow> hal \<Rightarrow> bool" where
  "released s t s' \<longleftrightarrow> mset (outstanding s) = add_mset t (mset (outstanding s'))"

lemma stale_released:
  assumes "hal_wf s" and "t \<in> set (stale_completion_tokens s)"
    and s': "s' = s\<lparr>stale_completion_tokens := remove1 t (stale_completion_tokens s)\<rparr>"
  shows "hal_wf s' \<and> released s t s'"
proof -
  have m: "mset (outstanding s) = add_mset t (mset (outstanding s'))" using assms(2) by (simp add: s' outstanding_def)
  then show ?thesis
    using assms(1) mset_distinct [OF m] mset_set [OF m] by (simp add: released_def hal_wf_def s')
qed

lemma slot_released:
  assumes "hal_wf s" and "find_completion_slot t s = Some i" and v: "hal_view s1 = hal_view s \<and> host_wr_ptr s1 = host_wr_ptr s"
  shows "hal_wf (free_slot i s1) \<and> released s t (free_slot i s1)"
proof -
  have f: "find_completion_slot t s1 = Some i" using view_find [OF conjunct1 [OF v]] assms(2) by simp
  show ?thesis
    using free_slot_wf [OF view_wf [OF v assms(1)] f] free_slot_outstanding(1) [OF f] view_outstanding [OF conjunct1 [OF v]]
    by (simp add: released_def)
qed

lemma release_correct:
  assumes "fsa_release_completion hm t s = (st, s')" and wf: "hal_wf s"
  shows "hal_wf s' \<and> (if st = FsaCompletionReleaseAccepted then released s t s' else outstanding s' = outstanding s)"
proof (cases "firmware_session_failed s \<or> t \<in> set (stale_completion_tokens s) \<or> find_completion_slot t s = None")
  case True
  then show ?thesis using assms stale_released [OF wf _ refl] by (auto simp: fsa_release_completion_def split: if_splits)
next
  case False
  then obtain i where i: "find_completion_slot t s = Some i" by auto
  obtain g s1 where g: "read_firmware_snapshot hm s = (g, s1)" by fastforce
  obtain rc bs s2 where c: "copy_from_scratchpad (FSA_COMPLETION_POOL_BASE hm + ucast (fsa_completion_token_slot_index t) * 8) 8 s1 = (rc, bs, s2)"
    by (metis prod_cases3)
  note f1 = snapshot_frame [OF g] and f2 = copy_from_frame [OF c]
  have f2': "hal_view s2 = hal_view s \<and> host_wr_ptr s2 = host_wr_ptr s" using f1 f2 by simp
  note o = view_outstanding [OF conjunct1 [OF f1]] view_outstanding [OF conjunct1 [OF f2']]
    view_wf [OF f1 wf] view_wf [OF f2' wf] view_find [OF conjunct1 [OF f1]] view_find [OF conjunct1 [OF f2']]
    slot_released [OF wf i f1] slot_released [OF wf i f2']
  show ?thesis
    using assms(1) False g c i o by (auto simp: fsa_release_completion_def Let_def split: if_splits option.splits)
qed

lemma wait_loop_correct:
  assumes "wait_completion_loop hm t timeout start res s = (st, r, s')" and "hal_wf s"
  shows "hal_wf s' \<and> (if st = FsaCompletionWaitSuccess
           then released s t s' \<and> (\<exists>x. r = Some x \<and> x \<noteq> FSA_COMPLETION_RESULT_PENDING) else outstanding s' = outstanding s)"
  using assms
proof (induction hm t timeout start res s arbitrary: st r s' rule: wait_completion_loop.induct)
  case (1 hm t timeout start res s)
  obtain ps pr s1 where p: "fsa_poll_completion hm t s = (ps, pr, s1)" by (metis prod_cases3)
  obtain rs s2 where rl: "fsa_release_completion hm t s1 = (rs, s2)" by fastforce
  obtain rc now s3 where b: "real_poll_backoff s1 = (rc, now, s3)" by (metis prod_cases3)
  note f = poll_frame [OF p] and fb = backoff_frame [OF b]
  have w: "hal_wf s1" "hal_wf s3" "outstanding s1 = outstanding s" "outstanding s3 = outstanding s"
    using view_wf [OF f 1(3)] view_wf [OF fb] view_outstanding [OF conjunct1 [OF f]] view_outstanding [OF conjunct1 [OF fb]] by auto
  have wm: "hal_wf (mark_transport_failure (-1) s3) \<and> outstanding (mark_transport_failure (-1) s3) = outstanding s"
    using view_wf [of "mark_transport_failure (-1) s3" s3] view_outstanding [of "mark_transport_failure (-1) s3" s3] w by simp
  have rel: "hal_wf s2 \<and> (if rs = FsaCompletionReleaseAccepted then released s t s2 else outstanding s2 = outstanding s)"
    using release_correct [OF rl w(1)] w(3) by (simp add: released_def split: if_splits)
  show ?case
  proof (cases ps)
    case FsaCompletionPollPending
    note ih = 1(1) [OF p [symmetric] refl refl FsaCompletionPollPending b [symmetric] refl]
    show ?thesis
      using 1(2) p b ih [OF _ _ _ w(2)] w wm
      by (auto simp: wait_completion_loop.simps [of hm t timeout start res s] FsaCompletionPollPending released_def Let_def split: if_splits)
  next
    case FsaCompletionPollTerminal
    then show ?thesis
      using 1(2) p rl rel poll_result(1) [OF p] by (auto simp: wait_completion_loop.simps [of hm t timeout start res s] Let_def split: FsaCompletionReleaseStatus.splits)
  qed (use 1(2) p w in \<open>auto simp: wait_completion_loop.simps [of hm t timeout start res s] Let_def\<close>)
qed

lemma wait_correct:
  assumes "fsa_wait_completion hm t timeout s = (st, r, s')" and "hal_wf s"
  shows "hal_wf s' \<and> (if st = FsaCompletionWaitSuccess
           then released s t s' \<and> (\<exists>x. r = Some x \<and> x \<noteq> FSA_COMPLETION_RESULT_PENDING) else outstanding s' = outstanding s)"
proof -
  obtain rc start s1 where ti: "real_time_ns s = (rc, start, s1)" by (metis prod_cases3)
  note f = time_frame [OF ti]
  have wm: "hal_wf (mark_transport_failure (-1) s1) \<and> outstanding (mark_transport_failure (-1) s1) = outstanding s"
    using view_wf [of "mark_transport_failure (-1) s1" s1] view_outstanding [of "mark_transport_failure (-1) s1" s1]
      view_wf [OF f assms(2)] view_outstanding [OF conjunct1 [OF f]] by simp
  show ?thesis
    using assms(1) ti wm wait_loop_correct [OF _ view_wf [OF f assms(2)], of hm t timeout start None st r s'] view_outstanding [OF conjunct1 [OF f]]
    by (auto simp: fsa_wait_completion_def released_def split: if_splits)
qed

text \<open>A wait gives up only when it has a timeout and the clock has passed it.\<close>

lemma wait_loop_timeout:
  assumes "wait_completion_loop hm t timeout start res s = (FsaCompletionWaitTimeout, r, s')"
  shows "0 < timeout \<and> (\<exists>now s2. real_poll_backoff s2 = (0, now, s') \<and> timeout \<le> (now - start) div 1000000)"
  using assms
proof (induction hm t timeout start res s arbitrary: r s' rule: wait_completion_loop.induct)
  case (1 hm t timeout start res s)
  obtain ps pr s1 where p: "fsa_poll_completion hm t s = (ps, pr, s1)" by (metis prod_cases3)
  obtain rc now s3 where b: "real_poll_backoff s1 = (rc, now, s3)" by (metis prod_cases3)
  note unf = wait_completion_loop.simps [of hm t timeout start res s]
  show ?case
  proof (cases ps)
    case FsaCompletionPollPending
    note ih = 1(1) [OF p [symmetric] refl refl FsaCompletionPollPending b [symmetric] refl]
    show ?thesis
    proof (cases "rc = 0 \<and> \<not> (0 < timeout \<and> timeout \<le> (now - start) div 1000000)")
      case True
      with 1(2) p b FsaCompletionPollPending ih show ?thesis by (simp add: unf Let_def)
    next
      case False
      with 1(2) p b FsaCompletionPollPending have "rc = 0" "0 < timeout" "timeout \<le> (now - start) div 1000000" "s' = s3"
        by (auto simp: unf Let_def split: if_splits)
      with b show ?thesis by blast
    qed
  qed (use 1(2) p in \<open>auto simp: unf Let_def split: prod.splits FsaCompletionReleaseStatus.splits\<close>)
qed

lemma wait_timeout:
  assumes "fsa_wait_completion hm t timeout s = (FsaCompletionWaitTimeout, r, s')"
  shows "0 < timeout \<and> (\<exists>start s1 now s2. real_time_ns s = (0, start, s1) \<and> real_poll_backoff s2 = (0, now, s') \<and>
    timeout \<le> (now - start) div 1000000)"
proof -
  obtain rc start s1 where ti: "real_time_ns s = (rc, start, s1)" by (metis prod_cases3)
  with assms have "rc = 0" "wait_completion_loop hm t timeout start None s1 = (FsaCompletionWaitTimeout, r, s')"
    by (auto simp: fsa_wait_completion_def split: if_splits)
  with ti wait_loop_timeout show ?thesis by blast
qed

end
