(* ===== verification/Hal_Session.thy ===== *)
theory Hal_Session
  imports Hal_Slots
begin

text \<open>
  The life of a session of the host library: initialisation, reset, cleanup and every call a client may
  make in between, over a peer that may answer anything at any time.
\<close>

section \<open>Frames of the session's loops\<close>

text \<open>The state up to the connection and the ring pointers, which a reset of the device sets to 0.\<close>

definition keeps :: "hal \<Rightarrow> hal \<Rightarrow> bool" where
  "keeps s s' \<longleftrightarrow> hal_view s' = hal_view s \<and> (host_wr_ptr s' = host_wr_ptr s \<or> host_wr_ptr s' = 0)"

lemma keeps_refl [simp]: "keeps s s"
  by (simp add: keeps_def)

lemma keeps_trans [trans]: "keeps s s1 \<Longrightarrow> keeps s1 s2 \<Longrightarrow> keeps s s2"
  by (auto simp: keeps_def)

lemma keepsI: "hal_view s' = hal_view s \<and> host_wr_ptr s' = host_wr_ptr s \<Longrightarrow> keeps s s'"
  by (simp add: keeps_def)

lemmas io_keeps = io_frame [THEN keepsI]

lemma keeps_outstanding: "keeps s s' \<Longrightarrow> outstanding s' = outstanding s"
  by (rule view_outstanding) (simp add: keeps_def)

lemma keeps_wf:
  assumes "keeps s s'" and "hal_wf s"
  shows "hal_wf s'"
proof (cases "host_wr_ptr s' = host_wr_ptr s")
  case True
  then show ?thesis using assms by (auto simp: keeps_def intro: view_wf)
next
  case False
  then have v: "hal_view s' = hal_view s" and w: "host_wr_ptr s' = 0" using assms(1) by (auto simp: keeps_def)
  show ?thesis
    using assms(2) unfolding hal_wf_def view_slots [OF v] view_outstanding [OF v] w by auto
qed

lemma cp_reset_keeps: "real_cp_reset hm s = (rc, s') \<Longrightarrow> keeps s s'"
  by (auto simp: real_cp_reset_def keeps_def Let_def split: prod.splits if_splits)

lemma rom_reset_keeps: "rom_reset_loop hm d start m s = (rc, s') \<Longrightarrow> keeps s s'"
proof (induction hm d start m s arbitrary: rc s' rule: rom_reset_loop.induct)
  case (1 hm d start m s)
  obtain r0 fw s1 where a: "real_mmio_read (FSA_CP_OFF_FW_STATUS hm) (firmware_status_code FsaFirmwareStatusBooting) True s = (r0, fw, s1)"
    by (metis prod_cases3)
  let ?want = "\<not> m \<and> (fw = firmware_status_code FsaFirmwareStatusReady \<or> fw = firmware_status_code FsaFirmwareStatusFault)"
  obtain r1 s2 where b: "(if ?want then real_cp_reset hm s1 else (0, s1)) = (r1, s2)" by fastforce
  obtain r2 now s3 where c: "real_poll_backoff s2 = (r2, now, s3)" by (metis prod_cases3)
  have k: "keeps s s1" "keeps s1 s2" "keeps s2 s3"
    using io_keeps(4) [OF a] b cp_reset_keeps io_keeps(6) [OF c] by (auto split: if_splits)
  then have k2: "keeps s s2" "keeps s s3" using keeps_trans by blast+
  show ?case
    using 1(2) a b c k k2 1(1) [OF a [symmetric] refl _ _ refl b [symmetric] _ c [symmetric] refl] keeps_trans [OF k2(2)]
    by (auto simp: rom_reset_loop.simps [of hm d start m s] Let_def simp del: if_split split: if_splits)
qed

lemma ensure_rom_keeps: "ensure_rom_reset_state hm d s = (rc, s') \<Longrightarrow> keeps s s'"
  by (auto simp: ensure_rom_reset_state_def dest!: io_keeps(5) rom_reset_keeps intro: keeps_trans split: prod.splits if_splits)

lemma upload_loop_keeps: "upload_loop hm start s = (rc, s') \<Longrightarrow> keeps s s'"
proof (induction hm start s arbitrary: rc s' rule: upload_loop.induct)
  case (1 hm start s)
  obtain r0 n s1 where a: "real_mmio_read (FSA_CP_OFF_FW_SIZE hm) 1 True s = (r0, n, s1)" by (metis prod_cases3)
  obtain r1 fw s2 where b: "real_mmio_read (FSA_CP_OFF_FW_STATUS hm) (firmware_status_code FsaFirmwareStatusReset) True s1 = (r1, fw, s2)"
    by (metis prod_cases3)
  obtain r2 fa s3 where c: "real_mmio_read (FSA_CP_OFF_FW_FAULT_CODE hm) (firmware_fault_code FsaFirmwareFaultNone) True s2 = (r2, fa, s3)"
    by (metis prod_cases3)
  obtain r3 now s4 where d: "real_poll_backoff s3 = (r3, now, s4)" by (metis prod_cases3)
  have k: "keeps s s1" "keeps s s2" "keeps s s3" "keeps s s4"
    using io_keeps(4) [OF a] io_keeps(4) [OF b] io_keeps(4) [OF c] io_keeps(6) [OF d] keeps_trans by blast+
  show ?case
    using 1(2) a b c d k keeps_trans [OF k(4)] 1(1) [OF a [symmetric] refl _ _ b [symmetric] refl _ c [symmetric] refl _ _ d [symmetric] refl]
    by (auto simp: upload_loop.simps [of hm start s] split: if_splits)
qed

lemma upload_keeps:
  assumes "upload_firmware hm p n s = (rc, s')"
  shows "keeps s s'"
proof -
  let ?s0 = "s\<lparr>host_rd_ptr := 0, host_wr_ptr := 0\<rparr>"
  obtain r1 s1 where a: "real_mmio_write (FSA_CP_OFF_FW_HOST_ADDR hm) p ?s0 = (r1, s1)" by fastforce
  obtain r2 s2 where b: "real_mmio_write (FSA_CP_OFF_FW_SIZE hm) n s1 = (r2, s2)" by fastforce
  obtain r3 st s3 where c: "real_time_ns s2 = (r3, st, s3)" by (metis prod_cases3)
  have "keeps s ?s0" by (simp add: keeps_def)
  then have k: "keeps s s1" "keeps s s2" "keeps s s3"
    using io_keeps(3) [OF a] io_keeps(3) [OF b] io_keeps(5) [OF c] keeps_trans by blast+
  show ?thesis
    using assms a b c k keeps_trans [OF k(3) upload_loop_keeps] by (auto simp: upload_firmware_def split: if_splits)
qed

lemma mmio_reads_keeps: "mmio_reads offs s = (r, s') \<Longrightarrow> keeps s s'"
  by (induction offs arbitrary: s r) (fastforce dest: io_keeps(4) intro: keeps_trans split: prod.splits if_splits)+

text \<open>A wait for the firmware either leaves the session as it is or adopts a boot generation that is new.\<close>

definition adopted :: "hal \<Rightarrow> hal \<Rightarrow> bool" where
  "adopted s s' \<longleftrightarrow> (let g = runtime_boot_generation s' in
     keeps (s\<lparr>runtime_boot_generation := g, boot_generation_before_reset := g\<rparr>) s' \<and>
     g \<noteq> 0 \<and> g \<noteq> boot_generation_before_reset s \<and> \<not> transport_failed s')"

lemma keeps_adopted: "keeps s s1 \<Longrightarrow> adopted s1 s' \<Longrightarrow> adopted s s'"
  by (auto simp: adopted_def keeps_def hal_view_def slots_view_def session_view_def Let_def)

lemma ready_loop_frame:
  "ready_loop hm timeout start s = (r, s') \<Longrightarrow> if r = FirmwareReadySuccess then adopted s s' else keeps s s'"
proof (induction hm timeout start s arbitrary: r s' rule: ready_loop.induct)
  case (1 hm timeout start s)
  obtain vs s1 where a: "mmio_reads (ready_registers hm) s = (vs, s1)" by fastforce
  obtain rc now s2 where b: "real_poll_backoff s1 = (rc, now, s2)" by (metis prod_cases3)
  have k: "keeps s s1" "keeps s s2" using mmio_reads_keeps [OF a] io_keeps(6) [OF b] keeps_trans by blast+
  show ?case
  proof (cases "\<exists>fw abi g fa. vs = Some [fw, abi, g, fa]")
    case True
    then obtain fw abi g fa where v: "vs = Some [fw, abi, g, fa]" by blast
    have "adopted s1 (s1\<lparr>runtime_boot_generation := g, boot_generation_before_reset := g\<rparr>)"
      if "g \<noteq> 0" "g \<noteq> boot_generation_before_reset s1" "\<not> transport_failed s1"
      using that by (simp add: adopted_def keeps_def hal_view_def slots_view_def session_view_def)
    note ad = keeps_adopted [OF k(1) this]
    show ?thesis
      using 1(2) a b k ad keeps_trans [OF k(2)] keeps_adopted [OF k(2)]
        1(1) [OF a [unfolded v, symmetric] refl refl refl refl refl refl _ _ _ _ b [symmetric] refl]
      by (auto simp: ready_loop.simps [of hm timeout start s] v split: if_splits)
  next
    case False
    then have "ready_loop hm timeout start s = (FirmwareReadyTransportError, s1)"
      using a by (auto simp: ready_loop.simps [of hm timeout start s] split: option.splits list.splits)
    then show ?thesis using 1(2) k by auto
  qed
qed

lemma wait_ready_frame:
  assumes "wait_for_firmware_ready hm timeout start s = (r, s')"
  shows "if r = FirmwareReadySuccess then adopted s s' else keeps s s'"
proof -
  obtain rc st s1 where t: "real_time_ns s = (rc, st, s1)" by (metis prod_cases3)
  show ?thesis
    using assms t ready_loop_frame [of hm timeout _ s r s'] ready_loop_frame [of hm timeout st s1 r s']
      keeps_trans [OF io_keeps(5) [OF t]] keeps_adopted [OF io_keeps(5) [OF t]] io_keeps(5) [OF t]
    by (auto simp: wait_for_firmware_ready_def split: option.splits if_splits)
qed

section \<open>Reset\<close>

lemma wf_flags [simp]:
  "hal_wf (s\<lparr>firmware_ready := b\<rparr>) = hal_wf s" "hal_wf (s\<lparr>transport_failed := b\<rparr>) = hal_wf s"
  "hal_wf (s\<lparr>firmware_reboot_failed := b\<rparr>) = hal_wf s" "hal_wf (s\<lparr>boot_generation_before_reset := g\<rparr>) = hal_wf s"
  "hal_wf (s\<lparr>heaps := h\<rparr>) = hal_wf s" "hal_wf (s\<lparr>lv := c\<rparr>) = hal_wf s"
  by (simp_all add: hal_wf_def outstanding_def)

lemma outstanding_flags [simp]:
  "outstanding (s\<lparr>firmware_ready := b\<rparr>) = outstanding s" "outstanding (s\<lparr>transport_failed := b\<rparr>) = outstanding s"
  "outstanding (s\<lparr>firmware_reboot_failed := b\<rparr>) = outstanding s"
  "outstanding (s\<lparr>boot_generation_before_reset := g\<rparr>) = outstanding s" "outstanding (s\<lparr>heaps := h\<rparr>) = outstanding s"
  "outstanding (s\<lparr>lv := c\<rparr>) = outstanding s"
  by (simp_all add: outstanding_def)

lemma adopted_slots:
  assumes "adopted s s'"
  shows "completion_slots s' = completion_slots s" "stale_completion_tokens s' = stale_completion_tokens s"
    "active_configuration s' = active_configuration s" "host_cmd_ring s' = host_cmd_ring s"
    "firmware_reboot_failed s' = firmware_reboot_failed s" "outstanding s' = outstanding s"
    "host_wr_ptr s' = host_wr_ptr s \<or> host_wr_ptr s' = 0"
  using assms by (auto simp: adopted_def keeps_def hal_view_def slots_view_def session_view_def outstanding_def Let_def)

lemma in_use_empty [simp]: "in_use_tokens (map (\<lambda>_. empty_slot) xs) = []" "in_use_tokens (replicate n empty_slot) = []"
  by (simp_all add: in_use_tokens_def empty_slot_def)

lemma reset_adopt_wf:
  assumes "hal_wf s" and "adopted s s'"
  shows "hal_wf (reset_adopt s')" "outstanding (reset_adopt s') = outstanding s"
proof -
  show o: "outstanding (reset_adopt s') = outstanding s"
    using adopted_slots [OF assms(2)] by (simp add: outstanding_def reset_adopt_def)
  show "hal_wf (reset_adopt s')"
    using assms(1) o unfolding hal_wf_def by (auto simp: reset_adopt_def list_all_iff adopted_slots [OF assms(2)])
qed

text \<open>What a reset promises, by its result.\<close>

definition reset_effect :: "hal \<Rightarrow> int \<Rightarrow> hal \<Rightarrow> bool" where
  "reset_effect s rc s' \<longleftrightarrow> outstanding s' = outstanding s \<and>
     (if rc = 0
      then fsa_hal_is_available s' \<and> stale_completion_tokens s' = outstanding s \<and> in_use_tokens (completion_slots s') = [] \<and>
        runtime_boot_generation s' \<noteq> 0 \<and> runtime_boot_generation s' \<noteq> runtime_boot_generation s \<and>
        host_rd_ptr s' = 0 \<and> host_wr_ptr s' = 0
      else \<not> fsa_hal_is_available s')"

lemma reset_correct:
  assumes "fsa_hal_reset hm p n timeout s = (rc, s')" and wf: "hal_wf s"
  shows "hal_wf s' \<and> reset_effect s rc s'"
proof (cases "active_configuration s = None \<or> firmware_reboot_failed s")
  case True
  then show ?thesis
    using assms by (auto simp: fsa_hal_reset_def reset_effect_def fsa_hal_is_available_def firmware_session_failed_def)
next
  case False
  let ?s0 = "s\<lparr>firmware_ready := False, transport_failed := False, boot_generation_before_reset := runtime_boot_generation s\<rparr>"
  obtain r1 start s1 where a: "real_time_ns ?s0 = (r1, start, s1)" by (metis prod_cases3)
  obtain r2 s2 where b: "ensure_rom_reset_state hm timeout s1 = (r2, s2)" by fastforce
  obtain r3 s3 where c: "upload_firmware hm p n s2 = (r3, s3)" by fastforce
  obtain r4 s4 where d: "wait_for_firmware_ready hm timeout (Some start) s3 = (r4, s4)" by fastforce
  have k: "keeps ?s0 s1" "keeps ?s0 s2" "keeps ?s0 s3"
    using io_keeps(5) [OF a] ensure_rom_keeps [OF b] upload_keeps [OF c] keeps_trans by blast+
  have w: "hal_wf s1" "hal_wf s2" "hal_wf s3" "outstanding s1 = outstanding s" "outstanding s2 = outstanding s" "outstanding s3 = outstanding s"
    using k [THEN keeps_wf] k [THEN keeps_outstanding] wf by simp_all
  have fail: "hal_wf (x\<lparr>firmware_reboot_failed := True\<rparr>) \<and> reset_effect s (-1) (x\<lparr>firmware_reboot_failed := True\<rparr>)"
    if "hal_wf x" "outstanding x = outstanding s" for x
    using that by (simp add: reset_effect_def fsa_hal_is_available_def firmware_session_failed_def)
  show ?thesis
  proof (cases "r1 = 0 \<and> r2 = 0 \<and> r3 = 0 \<and> r4 = FirmwareReadySuccess")
    case True
    then have ad: "adopted s3 s4" using wait_ready_frame [OF d] by simp
    have s': "rc = 0" "s' = reset_adopt s4" using assms(1) False True a b c d by (auto simp: fsa_hal_reset_def)
    have "boot_generation_before_reset s3 = runtime_boot_generation s" "active_configuration s3 = active_configuration s"
      "\<not> firmware_reboot_failed s3" using k(3) False by (simp_all add: keeps_def hal_view_def session_view_def)
    then have "reset_effect s 0 (reset_adopt s4)"
      using reset_adopt_wf(2) [OF w(3) ad] w(6) ad adopted_slots [OF ad] False
      by (auto simp: reset_effect_def fsa_hal_is_available_def firmware_session_failed_def reset_adopt_def adopted_def Let_def outstanding_def)
    then show ?thesis using s' reset_adopt_wf(1) [OF w(3) ad] by simp
  next
    case f: False
    have "r4 = FirmwareReadySuccess \<or> hal_wf s4 \<and> outstanding s4 = outstanding s"
      using wait_ready_frame [OF d] keeps_wf [OF _ w(3)] keeps_outstanding w(6) by (auto split: if_splits)
    then show ?thesis
      using assms(1) False f a b c d w fail by (auto simp: fsa_hal_reset_def split: if_splits)
  qed
qed

section \<open>Initialisation\<close>

text \<open>A state in which no completion slot is in use: the boot generation may change.\<close>

definition unused :: "hal \<Rightarrow> bool" where
  "unused s \<longleftrightarrow> list_all (\<lambda>x. \<not> slot_in_use x) (completion_slots s)"

lemma keeps_unused: "keeps s s' \<Longrightarrow> unused s \<Longrightarrow> unused s'"
  by (auto simp: keeps_def hal_view_def slots_view_def unused_def)

lemma adopted_unused:
  assumes "adopted s s'" and "hal_wf s" and "unused s"
  shows "hal_wf s'"
proof -
  have "slot_ok g i (completion_slots s ! i)" if "i < length (completion_slots s)" for g i
    using assms(3) that by (auto simp: unused_def list_all_length slot_ok_def)
  then show ?thesis
    using assms(2) adopted_slots(7) [OF assms(1)] unfolding hal_wf_def adopted_slots(1-6) [OF assms(1)]
    by (auto simp: list_all_iff)
qed

lemma reset_runtime_wf: "hal_wf (reset_runtime_state s)"
  by (simp add: hal_wf_def outstanding_def reset_runtime_state_def in_use_tokens_def)

lemma rollback_wf: "hal_wf (rollback_initialization s)"
  by (simp add: rollback_initialization_def Let_def reset_runtime_wf)

text \<open>The state just before the firmware is started.\<close>

lemma bring_up_stage:
  assumes s3: "completion_slots s3 = replicate n empty_slot" "n \<le> unat FSA_COMPLETION_SLOT_COUNT" "stale_completion_tokens s3 = []"
    "host_cmd_ring s3 \<noteq> []" "host_wr_ptr s3 = 0"
    and s4: "real_mmio_read off b True s3 = (rc, v, s4)"
  shows "hal_wf (s4\<lparr>dev_cmd_ring_base := d, heaps := h, noncache_alloc_ready := True\<rparr>) \<and>
    unused (s4\<lparr>dev_cmd_ring_base := d, heaps := h, noncache_alloc_ready := True\<rparr>)"
proof -
  note f = mmio_read_frame [OF s4]
  show ?thesis
    using s3 conjunct2 [OF f] view_slots [OF conjunct1 [OF f]]
    by (simp add: hal_wf_def outstanding_def unused_def list_all_iff) (simp add: empty_slot_def)
qed

text \<open>A bring-up that succeeds, cut at the point where everything is set up and the firmware is not yet started.\<close>

lemma bring_up_cases:
  assumes "hal_bring_up hm p n mo config desc s = (True, s')"
  obtains s3 s4 s5 s7 s8 v h h' where
    "completion_slots s3 = replicate (FSA_COMPLETION_POOL_ENTRIES hm) empty_slot" "stale_completion_tokens s3 = []"
    "host_cmd_ring s3 \<noteq> []" "host_wr_ptr s3 = 0" "active_configuration s3 = Some config" "heaps s3 = heaps s"
    "real_mmio_read (FSA_CP_OFF_CMD_RING_BASE hm) (dev_cmd_ring_base s3) True s3 = (0, v, s4)"
    "falloc_init mo True (global_mem_alloc_base config) (dd_max_allocation_size desc) (cache_line_size config) False (heaps s4) = (0, h)"
    "falloc_noncache_init mo True (global_mem_noncache_alloc_base config) (global_mem_noncache_alloc_size config)
       (cache_line_size config) False h = (0, h')"
    "s5 = s4\<lparr>dev_cmd_ring_base := v, heaps := h', noncache_alloc_ready := True\<rparr>"
    "keeps s5 s7" "adopted s7 s8" "s' = s8\<lparr>firmware_ready := True\<rparr>"
proof -
  obtain rc g s1 where a: "real_mmio_read (FSA_CP_OFF_FW_BOOT_GENERATION hm) (boot_generation_before_reset s) True
      (s\<lparr>active_configuration := Some config\<rparr>) = (rc, g, s1)" by (metis prod_cases3)
  obtain rc1 m s2 where b: "real_mmio_read (FSA_CP_OFF_CMD_RING_SIZE hm) 0 True (s1\<lparr>boot_generation_before_reset := g\<rparr>) = (rc1, m, s2)"
    by (metis prod_cases3)
  define s3 where "s3 = s2\<lparr>host_cmd_ring := replicate (unat m) zero_packet, host_rd_ptr := 0, host_wr_ptr := 0,
    next_alloc_generation := FSA_COMPLETION_ALLOC_GENERATION_INITIAL,
    completion_slots := replicate (FSA_COMPLETION_POOL_ENTRIES hm) empty_slot,
    stale_completion_tokens := [], runtime_boot_generation := 0\<rparr>"
  obtain rc2 v s4 where c: "real_mmio_read (FSA_CP_OFF_CMD_RING_BASE hm) (dev_cmd_ring_base s3) True s3 = (rc2, v, s4)"
    by (metis prod_cases3)
  obtain rc3 h where d: "falloc_init mo True (global_mem_alloc_base config) (dd_max_allocation_size desc) (cache_line_size config)
      False (heaps s4) = (rc3, h)" by fastforce
  obtain rc4 h' where e: "falloc_noncache_init mo True (global_mem_noncache_alloc_base config) (global_mem_noncache_alloc_size config)
      (cache_line_size config) False h = (rc4, h')" by fastforce
  define s5 where "s5 = s4\<lparr>dev_cmd_ring_base := v, heaps := h', noncache_alloc_ready := True\<rparr>"
  obtain rc5 s6 where f: "ensure_rom_reset_state hm 5000 s5 = (rc5, s6)" by fastforce
  obtain rc6 s7 where u: "upload_firmware hm p n s6 = (rc6, s7)" by fastforce
  obtain r s8 where w: "wait_for_firmware_ready hm 5000 None s7 = (r, s8)" by fastforce
  have m: "rc = 0 \<and> rc1 = 0 \<and> m \<noteq> 0"
    using assms(1) unfolding hal_bring_up_def a b prod.case by (auto split: if_splits)
  have "hal_bring_up hm p n mo config desc s =
      (if rc2 \<noteq> 0 then (False, s4) else if rc3 \<noteq> 0 then (False, s4\<lparr>dev_cmd_ring_base := v, heaps := h\<rparr>)
       else if rc4 \<noteq> 0 then (False, s4\<lparr>dev_cmd_ring_base := v, heaps := h'\<rparr>) else if rc5 \<noteq> 0 then (False, s6)
       else if rc6 \<noteq> 0 then (False, s7) else if r \<noteq> FirmwareReadySuccess then (False, s8) else (True, s8\<lparr>firmware_ready := True\<rparr>))"
    using m unfolding hal_bring_up_def a b prod.case s3_def [symmetric] Let_def c d e s5_def [symmetric] f u w by simp
  then have z: "rc2 = 0" "rc3 = 0" "rc4 = 0" "s' = s8\<lparr>firmware_ready := True\<rparr>" "r = FirmwareReadySuccess"
    using assms(1) m by (auto split: if_splits)
  have s3: "active_configuration s3 = Some config" "heaps s3 = heaps s"
    using mmio_read_frame [OF a] mmio_read_frame [OF b] by (simp_all add: s3_def hal_view_def session_view_def)
  show thesis
    using keeps_trans [OF ensure_rom_keeps [OF f] upload_keeps [OF u]] wait_ready_frame [OF w] s3 z m c d e
    by (intro that [of s3 v s4 h h' s5 s7 s8]) (simp_all add: s3_def s5_def unat_pos_iff [symmetric])
qed

lemma bring_up_wf:
  assumes "hal_bring_up hm p n mo config desc s = (True, s')"
    and entries: "FSA_COMPLETION_POOL_ENTRIES hm = unat FSA_COMPLETION_SLOT_COUNT"
  shows "hal_wf s'"
proof (rule bring_up_cases [OF assms(1)])
  fix s3 s4 s5 s7 s8 v h h'
  assume s3: "completion_slots s3 = replicate (FSA_COMPLETION_POOL_ENTRIES hm) empty_slot" "stale_completion_tokens s3 = []"
      "host_cmd_ring s3 \<noteq> []" "host_wr_ptr s3 = 0"
    and s4: "real_mmio_read (FSA_CP_OFF_CMD_RING_BASE hm) (dev_cmd_ring_base s3) True s3 = (0, v, s4)"
    and s5: "s5 = s4\<lparr>dev_cmd_ring_base := v, heaps := h', noncache_alloc_ready := True\<rparr>"
    and k: "keeps s5 s7" "adopted s7 s8" "s' = s8\<lparr>firmware_ready := True\<rparr>"
  have "hal_wf s5 \<and> unused s5" unfolding s5 using entries by (intro bring_up_stage [OF s3(1) _ s3(2-4) s4]) simp
  then show "hal_wf s'" using keeps_wf [OF k(1)] keeps_unused [OF k(1)] adopted_unused [OF k(2)] k(3) by simp
qed

lemma init_wf:
  assumes "hal_wf s" and "FSA_COMPLETION_POOL_ENTRIES hm = unat FSA_COMPLETION_SLOT_COUNT"
    and "fsa_hal_init hm p n mo attempts description s = (rc, d, s')"
  shows "hal_wf s'"
  using assms(3) assms(1) rollback_wf bring_up_wf [OF _ assms(2)]
  unfolding fsa_hal_init_def by (auto simp: Let_def split: if_splits prod.splits option.splits bool.splits)

section \<open>Calls\<close>

text \<open>Every call of the library that can change its state, with its arguments.\<close>

datatype hal_call =
    CallStartKernel "FsaKernelLaunchInfo option" bool
  | CallCacheFlush "FsaMemoryRange option" bool
  | CallCacheInvalidate "FsaMemoryRange option" bool
  | CallMemoryCopy "FsaMemoryCopyInfo option" bool
  | CallBarrier bool
  | CallPoll FsaCompletionToken
  | CallWait FsaCompletionToken u64
  | CallRelease FsaCompletionToken
  | CallCopyToDev u64 u64 u64
  | CallCopyFromDev u64 u64 u64
  | CallAddrMalloc bool bool u64 u64
  | CallMalloc bool bool u64
  | CallMallocNoncache bool u64
  | CallFree u64
  | CallTimeNs bool
  | CallInit u64 u64 bool "bool list" bool
  | CallReset u64 u64 u64
  | CallCleanup

fun hal_exec :: "hal_map \<Rightarrow> hal_call \<Rightarrow> hal \<Rightarrow> hal" where
  "hal_exec hm (CallStartKernel info c) s = snd (snd (fsa_cmd_start_kernel hm info c s))"
| "hal_exec hm (CallCacheFlush r c) s = snd (snd (fsa_cmd_cache_flush hm r c s))"
| "hal_exec hm (CallCacheInvalidate r c) s = snd (snd (fsa_cmd_cache_invalidate hm r c s))"
| "hal_exec hm (CallMemoryCopy info c) s = snd (snd (fsa_cmd_memory_copy hm info c s))"
| "hal_exec hm (CallBarrier c) s = snd (snd (fsa_cmd_barrier hm c s))"
| "hal_exec hm (CallPoll t) s = snd (snd (fsa_poll_completion hm t s))"
| "hal_exec hm (CallWait t ms) s = snd (snd (fsa_wait_completion hm t ms s))"
| "hal_exec hm (CallRelease t) s = snd (fsa_release_completion hm t s)"
| "hal_exec hm (CallCopyToDev d h n) s = snd (fsa_copy_to_dev hm d h n s)"
| "hal_exec hm (CallCopyFromDev d h n) s = snd (fsa_copy_from_dev hm d h n s)"
| "hal_exec hm (CallAddrMalloc r l a n) s = snd (fsa_addr_malloc r l a n s)"
| "hal_exec hm (CallMalloc m d n) s = snd (snd (fsa_malloc m d n s))"
| "hal_exec hm (CallMallocNoncache m n) s = snd (snd (fsa_malloc_noncache m n s))"
| "hal_exec hm (CallFree a) s = snd (fsa_free a s)"
| "hal_exec hm (CallTimeNs b) s = snd (snd (fsa_hal_time_ns b s))"
| "hal_exec hm (CallInit p n m as d) s = snd (snd (fsa_hal_init hm p n m as d s))"
| "hal_exec hm (CallReset p n t) s = snd (fsa_hal_reset hm p n t s)"
| "hal_exec hm CallCleanup s = snd (fsa_hal_cleanup s)"

text \<open>The library before its first call, over any client.\<close>

definition hal_start :: "LvClient \<Rightarrow> hal" where
  "hal_start c = \<lparr>host_cmd_ring = [], host_rd_ptr = 0, host_wr_ptr = 0, dev_cmd_ring_base = 0,
     next_alloc_generation = FSA_COMPLETION_ALLOC_GENERATION_INITIAL, runtime_boot_generation = 0,
     boot_generation_before_reset = 0, firmware_ready = False, transport_failed = False, firmware_reboot_failed = False,
     noncache_alloc_ready = False, active_configuration = None, completion_slots = [], stale_completion_tokens = [],
     heaps = \<lparr>cache_ctx = FALLOC_CTX_INITIALIZER, noncache_ctx = FALLOC_CTX_INITIALIZER\<rparr>, lv = c\<rparr>"

lemma start_wf: "hal_wf (hal_start c)"
  by (simp add: hal_wf_def hal_start_def outstanding_def in_use_tokens_def)

lemmas command_defs = fsa_cmd_start_kernel_def fsa_cmd_cache_flush_def fsa_cmd_cache_invalidate_def fsa_cmd_memory_copy_def
  fsa_cmd_barrier_def send_cache_operation_cmd_def send_memory_copy_cmd_def

lemma command_wf:
  assumes "hal_wf s"
  shows "hal_wf (snd (snd (submit_command hm c fill s)))"
  using submit_correct [OF _ assms, of hm c fill] by (metis prod.collapse)

lemma commands_wf:
  assumes "hal_wf s"
  shows "hal_wf (snd (snd (fsa_cmd_start_kernel hm info c s)))" "hal_wf (snd (snd (fsa_cmd_cache_flush hm r c s)))"
    "hal_wf (snd (snd (fsa_cmd_cache_invalidate hm r c s)))" "hal_wf (snd (snd (fsa_cmd_memory_copy hm minfo c s)))"
    "hal_wf (snd (snd (fsa_cmd_barrier hm c s)))"
  using assms by (auto simp: command_defs command_wf split: option.splits)

lemma copy_wait_wf:
  assumes "hal_wf s"
  shows "hal_wf (snd (wait_for_copy_completion hm t s))"
proof -
  obtain st r s1 where w: "fsa_wait_completion hm t 0 s = (st, r, s1)" by (metis prod_cases3)
  show ?thesis using wait_correct [OF w assms] w by (simp add: wait_for_copy_completion_def)
qed

lemma copies_wf:
  assumes "hal_wf s"
  shows "hal_wf (snd (fsa_copy_to_dev hm d h n s))" "hal_wf (snd (fsa_copy_from_dev hm d h n s))"
  using assms commands_wf(4) [OF assms, of hm _ True]
  by (auto simp: fsa_copy_to_dev_def fsa_copy_from_dev_def copy_wait_wf split: prod.splits) (metis copy_wait_wf snd_conv)+

lemma memory_calls_wf:
  assumes "hal_wf s"
  shows "hal_wf (snd (fsa_addr_malloc r l a n s))" "hal_wf (snd (snd (fsa_malloc m d n s)))"
    "hal_wf (snd (snd (fsa_malloc_noncache m n s)))" "hal_wf (snd (fsa_free a s))"
  using assms by (auto simp: fsa_addr_malloc_def fsa_malloc_def fsa_malloc_noncache_def fsa_free_def split: prod.splits)

lemma completion_calls_wf:
  assumes "hal_wf s"
  shows "hal_wf (snd (snd (fsa_poll_completion hm t s)))" "hal_wf (snd (snd (fsa_wait_completion hm t ms s)))"
    "hal_wf (snd (fsa_release_completion hm t s))" "hal_wf (snd (snd (fsa_hal_time_ns b s)))"
proof -
  show "hal_wf (snd (snd (fsa_poll_completion hm t s)))"
    using view_wf [OF poll_frame assms] by (metis prod.collapse)
  show "hal_wf (snd (snd (fsa_wait_completion hm t ms s)))" using wait_correct [OF _ assms] by (metis prod.collapse)
  show "hal_wf (snd (fsa_release_completion hm t s))" using release_correct [OF _ assms] by (metis prod.collapse)
  show "hal_wf (snd (snd (fsa_hal_time_ns b s)))"
    using assms view_wf [OF time_frame] by (auto simp: fsa_hal_time_ns_def split: prod.splits)
qed

lemma exec_wf:
  assumes "hal_wf s" and "FSA_COMPLETION_POOL_ENTRIES hm = unat FSA_COMPLETION_SLOT_COUNT"
  shows "hal_wf (hal_exec hm call s)"
proof (cases call)
  case (CallInit p n m as d)
  then show ?thesis using init_wf [OF assms] by (metis hal_exec.simps(16) prod.collapse)
next
  case (CallReset p n t)
  then show ?thesis using reset_correct [OF _ assms(1)] by (metis hal_exec.simps(17) prod.collapse)
next
  case CallCleanup
  then show ?thesis by (simp add: fsa_hal_cleanup_def Let_def reset_runtime_wf)
qed (use assms(1) in \<open>simp_all add: commands_wf copies_wf memory_calls_wf completion_calls_wf\<close>)

lemma run_wf:
  assumes "hal_wf s" and "FSA_COMPLETION_POOL_ENTRIES hm = unat FSA_COMPLETION_SLOT_COUNT"
  shows "hal_wf (fold (hal_exec hm) calls s)"
  using assms by (induction calls arbitrary: s) (simp_all add: exec_wf)

section \<open>A concrete session\<close>

definition demo_hal_map :: hal_map where
  "demo_hal_map = addr_map.extend default_addr_map (hal_map.fields 0x60000 0x50000 0x0 0x70000 0x0 0x8 0x10 0x18 0x20 0x28 0x30
     0x38 0x40 0x0 0x8 0x10 0x18 0x20 0x28 0x30 0x38 0x40 0x48 0x61000 64)"

definition demo_data :: "u64 \<Rightarrow> u32 \<Rightarrow> peer_event" where
  "demo_data v i = Arrived [(msg_build (cmd_code AccessAckData))\<lparr>msg_id := i, msg_size := 8, msg_data := le_bytes 8 v\<rparr>]"

definition demo_time :: "u64 \<Rightarrow> u32 \<Rightarrow> peer_event" where
  "demo_time t i = Arrived [(msg_build (cmd_code WaitAck))\<lparr>msg_id := i, msg_addr := t\<rparr>]"

fun demo_events :: "u32 \<Rightarrow> (u32 \<Rightarrow> peer_event) list \<Rightarrow> peer_event list" where
  "demo_events i [] = []"
| "demo_events i (a # as) = a i # demo_events (i + 1) as"

text \<open>
  A device that boots with generation 1, completes a barrier and accepts a second one.
\<close>

definition demo_boot_answers :: "(u32 \<Rightarrow> peer_event) list" where
  "demo_boot_answers = map demo_data [1, 0x48, 2, 8, 4, 0xC000, 0x4000, 64, 0x82000000, 0, 8, 0x62000] @
     [demo_time 0, demo_data 0, demo_ack, demo_ack, demo_time 10, demo_data 0, demo_time 20] @ map demo_data [2, 3, 1, 0]"

definition demo_submit_answers :: "u64 \<Rightarrow> (u32 \<Rightarrow> peer_event) list" where
  "demo_submit_answers rd = [demo_data rd, demo_ack, demo_ack, demo_ack]"

definition demo_wait_answers :: "u64 \<Rightarrow> (u32 \<Rightarrow> peer_event) list" where
  "demo_wait_answers slot = [demo_time 30, demo_data 1, demo_data slot, demo_data 1, demo_data slot]"

definition demo_peer :: LvClient where
  "demo_peer = demo_client\<lparr>transceiver := False, snapshot := None,
     events := demo_events 0 (demo_boot_answers @ demo_submit_answers 0 @ demo_wait_answers 0x1000000010001@ demo_submit_answers 1)\<rparr>"

definition demo_calls :: "hal_call list" where
  "demo_calls = [CallInit 0x1000 0x100 True [True] True, CallBarrier True, CallWait 0x1000000010000 0, CallBarrier True]"

lemma demo_init: "fst (fsa_hal_init demo_hal_map 0x1000 0x100 True [True] True (hal_start demo_peer)) = 0"
  by code_simp

text \<open>The same library in the middle of a session: one command is under way, one token is left from an earlier boot.\<close>

definition demo_hal :: "(u32 \<Rightarrow> peer_event) list \<Rightarrow> hal" where
  "demo_hal answers = (hal_start (demo_client\<lparr>events := demo_events 0 answers\<rparr>))\<lparr>host_cmd_ring := replicate 8 zero_packet,
     host_wr_ptr := 1, dev_cmd_ring_base := 0x62000, next_alloc_generation := 2, runtime_boot_generation := 2,
     boot_generation_before_reset := 2, firmware_ready := True, active_configuration := Some demo_config,
     completion_slots := \<lparr>slot_in_use = True, slot_token = 0x2000000010000\<rparr> # replicate 63 empty_slot,
     stale_completion_tokens := [0x1000000050003]\<rparr>"

lemma demo_hal_wf: "hal_wf (demo_hal as)"
proof -
  have "hal_wf (demo_hal [])" by code_simp
  then show ?thesis by (simp add: hal_wf_def demo_hal_def hal_start_def outstanding_def)
qed

section \<open>Properties\<close>

text \<open>
  C13. Over every sequence of calls, with a peer that answers anything at any time or stops answering, the
  library's state is well formed: the tokens that are outstanding are pairwise distinct and not zero, a slot
  in use holds a token of that slot and of the current boot, and the write pointer stays inside the ring.
\<close>

theorem hal_state_well_formed:
  assumes "FSA_COMPLETION_POOL_ENTRIES hm = unat FSA_COMPLETION_SLOT_COUNT"
  shows "hal_wf (fold (hal_exec hm) calls (hal_start c))"
  by (rule run_wf [OF start_wf assms])

theorem hal_state_well_formed_witness:
  "hal_wf (fold (hal_exec demo_hal_map) demo_calls (hal_start demo_peer)) \<and>
   fst (fsa_hal_init demo_hal_map 0x1000 0x100 True [True] True (hal_start demo_peer)) = 0"
  using hal_state_well_formed [of demo_hal_map demo_calls demo_peer] demo_init
  by (simp add: demo_hal_map_def default_addr_map_def addr_map.extend_def hal_map.fields_def FSA_COMPLETION_SLOT_COUNT_def)

text \<open>
  C20. A submission either returns no token and leaves the outstanding tokens as they were, or returns a fresh token
  that is then outstanding and sits in its slot. Without a token the command is not accepted; with
  one it is accepted, or the write of the pointer may have reached the device and the token stays until a reset.
\<close>

theorem submit_command_correct:
  assumes "submit_command hm completion fill s = (st, t, s')" and "hal_wf s"
  shows "hal_wf s' \<and>
    (if t = 0 then st \<noteq> FsaCommandSubmitAccepted \<and> mset (outstanding s') = mset (outstanding s)
     else (st = FsaCommandSubmitAccepted \<or> st = FsaCommandSubmitTransportError) \<and> completion \<and> fsa_hal_is_available s \<and>
       t \<notin> set (outstanding s) \<and> mset (outstanding s') = add_mset t (mset (outstanding s)) \<and>
       find_completion_slot t s' \<noteq> None)"
proof -
  have "completion \<and> fsa_hal_is_available s" if "t \<noteq> 0"
    using assms(1) that by (auto simp: submit_command_def split: if_splits)
  then show ?thesis using submit_correct [OF assms] by (auto simp: submitted_def)
qed

lemma demo_barrier:
  "fst (submit_command demo_hal_map True zero_packet (demo_hal (demo_submit_answers 0))) = FsaCommandSubmitAccepted"
  "fst (snd (submit_command demo_hal_map True zero_packet (demo_hal (demo_submit_answers 0)))) = 0x2000000020001"
  by code_simp+

theorem submit_command_correct_witness:
  "fst (submit_command demo_hal_map True zero_packet (demo_hal (demo_submit_answers 0))) = FsaCommandSubmitAccepted \<and>
   mset (outstanding (snd (snd (submit_command demo_hal_map True zero_packet (demo_hal (demo_submit_answers 0)))))) =
     {#0x2000000020001, 0x1000000050003, 0x2000000010000#}"
proof -
  have "outstanding (demo_hal (demo_submit_answers 0)) = [0x1000000050003, 0x2000000010000]" by code_simp
  moreover obtain s' where "submit_command demo_hal_map True zero_packet (demo_hal (demo_submit_answers 0)) =
      (FsaCommandSubmitAccepted, 0x2000000020001, s')" using demo_barrier by (metis prod.collapse)
  ultimately show ?thesis using submit_command_correct [OF _ demo_hal_wf] by fastforce
qed

text \<open>
  C29. A release is accepted exactly for one outstanding token, which is then no longer outstanding while all others
  stay; every other answer leaves the outstanding tokens as they were. In a working session a stale token is
  always accepted without asking the device and a token that is not outstanding is always refused. A slot is given up
  only when the device has rebooted or its pool shows a final result under the token's own tag.
\<close>

theorem release_completion_correct:
  assumes "fsa_release_completion hm t s = (st, s')" and "hal_wf s"
  shows "hal_wf s' \<and>
    (if st = FsaCompletionReleaseAccepted then mset (outstanding s) = add_mset t (mset (outstanding s'))
     else outstanding s' = outstanding s) \<and>
    (\<not> firmware_session_failed s \<and> t \<in> set (stale_completion_tokens s) \<longrightarrow>
       st = FsaCompletionReleaseAccepted \<and> lv s' = lv s) \<and>
    (\<not> firmware_session_failed s \<and> t \<notin> set (outstanding s) \<longrightarrow> st = FsaCompletionReleaseInvalidToken \<and> s' = s) \<and>
    (st = FsaCompletionReleaseAccepted \<and> t \<notin> set (stale_completion_tokens s) \<longrightarrow>
       (\<exists>g s1. read_firmware_snapshot hm s = (Some g, s1) \<and> (firmware_rebooted g t \<or>
         (\<exists>bs s2. copy_from_scratchpad (FSA_COMPLETION_POOL_BASE hm + ucast (fsa_completion_token_slot_index t) * 8) 8 s1 = (0, bs, s2) \<and>
            fsa_completion_slot_alloc_tag (le_word bs) = fsa_completion_token_alloc_tag t \<and>
            fsa_completion_slot_result (le_word bs) \<noteq> FSA_COMPLETION_RESULT_PENDING))))"
proof -
  have "\<exists>g s1. read_firmware_snapshot hm s = (Some g, s1) \<and> (firmware_rebooted g t \<or>
         (\<exists>bs s2. copy_from_scratchpad (FSA_COMPLETION_POOL_BASE hm + ucast (fsa_completion_token_slot_index t) * 8) 8 s1 = (0, bs, s2) \<and>
            fsa_completion_slot_alloc_tag (le_word bs) = fsa_completion_token_alloc_tag t \<and>
            fsa_completion_slot_result (le_word bs) \<noteq> FSA_COMPLETION_RESULT_PENDING))"
    if "st = FsaCompletionReleaseAccepted" "t \<notin> set (stale_completion_tokens s)"
    using assms(1) that by (auto simp: fsa_release_completion_def Let_def split: if_splits option.splits prod.splits)
  moreover
  have "st = FsaCompletionReleaseAccepted \<and> lv s' = lv s" if "\<not> firmware_session_failed s" "t \<in> set (stale_completion_tokens s)"
    using assms(1) that by (auto simp: fsa_release_completion_def)
  moreover have "st = FsaCompletionReleaseInvalidToken \<and> s' = s" if "\<not> firmware_session_failed s" "t \<notin> set (outstanding s)"
  proof -
    have "find_completion_slot t s = None" using find_outstanding [of t s] that(2) by (cases "find_completion_slot t s") auto
    then show ?thesis using assms(1) that by (simp add: fsa_release_completion_def outstanding_def)
  qed
  ultimately show ?thesis using release_correct [OF assms] unfolding released_def by blast
qed

theorem release_completion_correct_witness:
  "fst (fsa_release_completion demo_hal_map 0x2000000010000 (demo_hal [demo_data 2, demo_data 0x2000000010001])) = FsaCompletionReleaseAccepted \<and>
   mset (outstanding (snd (fsa_release_completion demo_hal_map 0x2000000010000 (demo_hal [demo_data 2, demo_data 0x2000000010001])))) =
     {#0x1000000050003#}"
proof -
  let ?s = "demo_hal [demo_data 2, demo_data 0x2000000010001]"
  have a: "fst (fsa_release_completion demo_hal_map 0x2000000010000 ?s) = FsaCompletionReleaseAccepted" by code_simp
  have "outstanding ?s = [0x1000000050003, 0x2000000010000]" by code_simp
  with release_completion_correct [OF prod.collapse [symmetric] demo_hal_wf, of demo_hal_map "0x2000000010000" "[demo_data 2, demo_data 0x2000000010001]"] a
  show ?thesis by auto
qed

text \<open>
  C30. The answer of a wait that returns. On success its token was outstanding, has a final result, which is returned,
  and is released; on a timeout, an invalid token or a transport error no token is released. A timeout is
  reported only when one was asked for and the backend's clock has advanced by it since the call, so a wait with a
  timeout of zero never gives up on a pending command. That a wait returns at all is not claimed.
\<close>

theorem wait_completion_correct:
  assumes "fsa_wait_completion hm t timeout_ms s = (st, r, s')" and "hal_wf s"
  shows "hal_wf s' \<and>
    (if st = FsaCompletionWaitSuccess
     then mset (outstanding s) = add_mset t (mset (outstanding s')) \<and> (\<exists>x. r = Some x \<and> x \<noteq> FSA_COMPLETION_RESULT_PENDING)
     else outstanding s' = outstanding s) \<and>
    (st = FsaCompletionWaitTimeout \<longrightarrow> 0 < timeout_ms \<and>
       (\<exists>start s1 now s2. real_time_ns s = (0, start, s1) \<and> real_poll_backoff s2 = (0, now, s') \<and>
          timeout_ms \<le> (now - start) div 1000000))"
  using wait_correct [OF assms] wait_timeout assms(1) by (auto simp: released_def split: if_splits)

theorem wait_completion_correct_witness:
  "fst (fsa_wait_completion demo_hal_map 0x2000000010000 5 (demo_hal [demo_time 7, demo_data 2, demo_data 0x2000000010000, demo_time 9,
     demo_data 2, demo_data 0x2000000010001, demo_data 2, demo_data 0x2000000010001])) = FsaCompletionWaitSuccess \<and>
   outstanding (snd (snd (fsa_wait_completion demo_hal_map 0x2000000010000 5 (demo_hal [demo_time 7, demo_data 2,
     demo_data 0x2000000010000, demo_time 9, demo_data 2, demo_data 0x2000000010001, demo_data 2, demo_data 0x2000000010001])))) = [0x1000000050003]"
proof -
  let ?as = "[demo_time 7, demo_data 2, demo_data 0x2000000010000, demo_time 9, demo_data 2, demo_data 0x2000000010001, demo_data 2, demo_data 0x2000000010001]"
  have a: "fst (fsa_wait_completion demo_hal_map 0x2000000010000 5 (demo_hal ?as)) = FsaCompletionWaitSuccess" by code_simp
  obtain r s' where w: "fsa_wait_completion demo_hal_map 0x2000000010000 5 (demo_hal ?as) = (FsaCompletionWaitSuccess, r, s')"
    using a by (metis prod.collapse)
  have "outstanding (demo_hal ?as) = [0x1000000050003, 0x2000000010000]" by code_simp
  then have "mset (outstanding s') = {#0x1000000050003#}" using wait_completion_correct [OF w demo_hal_wf] by simp
  then show ?thesis using w by simp
qed

text \<open>
  C31. A reset keeps every outstanding token. When it succeeds the library is available with a new boot generation and empty
  pointers, no slot is in use, and each token from before the reset is reported as ended by the reboot, without
  asking the device, until it is released. When it fails the library is not available.
\<close>

theorem reset_correct_tokens:
  assumes "fsa_hal_reset hm fw_ptr fw_size timeout s = (rc, s')" and "hal_wf s"
  shows "hal_wf s' \<and> outstanding s' = outstanding s \<and>
    (if rc = 0
     then fsa_hal_is_available s' \<and> in_use_tokens (completion_slots s') = [] \<and> host_rd_ptr s' = 0 \<and> host_wr_ptr s' = 0 \<and>
       runtime_boot_generation s' \<noteq> 0 \<and> runtime_boot_generation s' \<noteq> runtime_boot_generation s \<and>
       (\<forall>t \<in> set (outstanding s). fsa_poll_completion hm t s' =
          (FsaCompletionPollTerminal, Some FSA_COMPLETION_RESULT_FIRMWARE_REBOOT, s'))
     else \<not> fsa_hal_is_available s')"
proof -
  have c: "hal_wf s'" "reset_effect s rc s'" using reset_correct [OF assms] by simp_all
  have "fsa_poll_completion hm t s' = (FsaCompletionPollTerminal, Some FSA_COMPLETION_RESULT_FIRMWARE_REBOOT, s')"
    if "rc = 0" "t \<in> set (outstanding s)" for t
  proof -
    have s: "fsa_hal_is_available s'" "stale_completion_tokens s' = outstanding s" "in_use_tokens (completion_slots s') = []"
      using c(2) that(1) by (simp_all add: reset_effect_def)
    have "\<not> firmware_session_failed s'" using s(1) by (simp add: fsa_hal_is_available_def)
    moreover have "find_completion_slot t s' = None"
    proof (rule ccontr)
      assume "find_completion_slot t s' \<noteq> None"
      then have "t \<in> set (in_use_tokens (completion_slots s'))"
        by (auto simp: find_completion_slot_def Let_def in_use_tokens_mem not_le split: if_splits)
      then show False using s(3) by simp
    qed
    ultimately show ?thesis using s(2) that(2) by (simp add: fsa_poll_completion_def)
  qed
  then show ?thesis using c by (auto simp: reset_effect_def)
qed

definition demo_reset_answers :: "(u32 \<Rightarrow> peer_event) list" where
  "demo_reset_answers = [demo_time 40, demo_time 40, demo_data 2, demo_ack, demo_time 50, demo_data 0, demo_ack, demo_ack,
     demo_time 60, demo_data 0] @ map demo_data [2, 3, 3, 0]"

theorem reset_correct_tokens_witness:
  "fst (fsa_hal_reset demo_hal_map 0x1000 0x100 5000 (demo_hal demo_reset_answers)) = 0 \<and>
   outstanding (snd (fsa_hal_reset demo_hal_map 0x1000 0x100 5000 (demo_hal demo_reset_answers))) = [0x1000000050003, 0x2000000010000]"
proof -
  have a: "fst (fsa_hal_reset demo_hal_map 0x1000 0x100 5000 (demo_hal demo_reset_answers)) = 0" by code_simp
  have "outstanding (demo_hal demo_reset_answers) = [0x1000000050003, 0x2000000010000]" by code_simp
  with reset_correct_tokens [OF prod.collapse [symmetric] demo_hal_wf, of demo_hal_map "0x1000" "0x100" 5000 demo_reset_answers] a
  show ?thesis by auto
qed

end
