(* ===== verification/Hal_Order.thy ===== *)
theory Hal_Order
  imports Hal_Session
begin

text \<open>
  What a submission writes to the device, and in which order: first the completion slot, then the packet, and the
  write pointer last.
\<close>

section \<open>Write requests\<close>














section \<open>The order of a submission's writes\<close>








end
