(* ===== verification/Hal_Memory.thy ===== *)
theory Hal_Memory
  imports Hal_Session
begin

text \<open>
  Device memory as the host library manages it: the windows it derives from the device's configuration do not
  overlap, and over every sequence of calls the two heaps in them hand out disjoint blocks.
\<close>

section \<open>Checked arithmetic\<close>

lemma checked_add_Some:
  assumes "checked_add a b = Some c"
  shows "unat c = unat a + unat b"
proof -
  have le: "a \<le> UINT64_MAX - b" using assms by (simp add: checked_add_def not_less split: if_splits)
  have "b \<le> UINT64_MAX" using unat_lt64 [of b] by (simp add: word_le_iff_unat)
  then have "unat (UINT64_MAX - b) = 2 ^ 64 - 1 - unat b" by (subst unat_sub_le) simp_all
  then have "unat a + unat b < 2 ^ 64" using le unat_lt64 [of b] by (simp add: word_le_iff_unat)
  then show ?thesis using assms by (auto simp: checked_add_def unat_word_ariths split: if_splits)
qed

lemma checked_mul_Some:
  assumes "checked_mul a b = Some c"
  shows "unat c = unat a * unat b"
proof (cases "b = 0")
  case False
  then have "a \<le> UINT64_MAX div b" using assms by (simp add: checked_mul_def not_less split: if_splits)
  then have "unat a \<le> (2 ^ 64 - 1) div unat b" by (simp add: word_le_iff_unat unat_div)
  then have "unat a * unat b \<le> (2 ^ 64 - 1) div unat b * unat b" by (rule mult_le_mono1)
  also have "\<dots> \<le> 2 ^ 64 - 1" by (rule div_times_less_eq_dividend)
  finally show ?thesis using assms by (auto simp: checked_mul_def unat_word_ariths split: if_splits)
qed (use assms in \<open>simp add: checked_mul_def\<close>)

section \<open>The device's windows\<close>

definition noncache_window :: "ConfigurationSnapshot \<Rightarrow> nat set" where
  "noncache_window config = {unat (global_mem_noncache_alloc_base config)..<
     unat (global_mem_noncache_alloc_base config) + unat (global_mem_noncache_alloc_size config)}"

definition heap_window :: "ConfigurationSnapshot \<Rightarrow> FsaDeviceDescription \<Rightarrow> nat set" where
  "heap_window config d = {unat (global_mem_alloc_base config)..<unat (global_mem_alloc_base config) + unat (dd_max_allocation_size d)}"

definition stack_window :: "hal_map \<Rightarrow> ConfigurationSnapshot \<Rightarrow> nat set" where
  "stack_window hm config = {unat (FSA_STACK_BASE hm)..<unat (global_mem_alloc_base config)}"

lemma description_bounds:
  assumes "derive_device_description hm config = Some d"
  shows "unat (global_mem_base config) + unat (global_mem_size config) < 2 ^ 64"
    and "unat (dd_max_threads_per_work_group d) = unat (threads_per_warp config) * unat (warps_per_core config)"
    and "unat (global_mem_alloc_base config) + unat (dd_max_allocation_size d) = unat (global_mem_base config) + unat (global_mem_size config)"
    and "dd_max_allocation_size d \<noteq> 0" "global_mem_noncache_alloc_size config \<noteq> 0" "pow2 (cache_line_size config)"
    and "unat (global_mem_noncache_alloc_base config) + unat (global_mem_noncache_alloc_size config) \<le> unat (FSA_STACK_BASE hm)"
    and "unat (global_mem_base config) \<le> unat (global_mem_noncache_alloc_base config)"
    and "unat (FSA_STACK_BASE hm) < unat (global_mem_alloc_base config)"
    and "unat (cache_line_size config) dvd unat (global_mem_alloc_base config)"
proof -
  obtain tpc gend nend where c: "checked_mul (threads_per_warp config) (warps_per_core config) = Some tpc"
      "checked_add (global_mem_base config) (global_mem_size config) = Some gend"
      "checked_add (global_mem_noncache_alloc_base config) (global_mem_noncache_alloc_size config) = Some nend"
    and g: "\<not> global_mem_alloc_base config \<le> FSA_STACK_BASE hm" "global_mem_alloc_base config mod cache_line_size config = 0"
      "\<not> gend \<le> global_mem_alloc_base config" "\<not> global_mem_noncache_alloc_base config < global_mem_base config"
      "\<not> global_mem_alloc_base config < nend" "\<not> (global_mem_noncache_alloc_base config < global_mem_alloc_base config \<and> FSA_STACK_BASE hm < nend)"
      "global_mem_noncache_alloc_size config \<noteq> 0" "is_power_of_two (cache_line_size config)"
    and d: "dd_max_threads_per_work_group d = tpc" "dd_max_allocation_size d = gend - global_mem_alloc_base config"
    using assms by (auto simp: derive_device_description_def Let_def split: if_splits option.splits)
  note u = checked_mul_Some [OF c(1)] checked_add_Some [OF c(2)] checked_add_Some [OF c(3)]
  have n0: "0 < unat (global_mem_noncache_alloc_size config)" using g(7) by (simp add: unat_pos_iff)
  have ge: "global_mem_alloc_base config \<le> gend" using g(3) by simp
  show "unat (global_mem_base config) + unat (global_mem_size config) < 2 ^ 64" using u(2) unat_lt64 [of gend] by simp
  show "unat (dd_max_threads_per_work_group d) = unat (threads_per_warp config) * unat (warps_per_core config)" using u(1) d by simp
  show "unat (global_mem_alloc_base config) + unat (dd_max_allocation_size d) = unat (global_mem_base config) + unat (global_mem_size config)"
    using u(2) d(2) ge unat_sub_le [OF ge] by (simp add: word_le_iff_unat)
  show "dd_max_allocation_size d \<noteq> 0" using d(2) g(3) by auto
  show "global_mem_noncache_alloc_size config \<noteq> 0" by (rule g(7))
  show "pow2 (cache_line_size config)" using g(8) by (simp add: pow2_def is_power_of_two_def)
  show "unat (global_mem_noncache_alloc_base config) + unat (global_mem_noncache_alloc_size config) \<le> unat (FSA_STACK_BASE hm)"
    using g(5,6) u(3) n0 by (auto simp: word_unat_simps)
  show "unat (global_mem_base config) \<le> unat (global_mem_noncache_alloc_base config)" using g(4) by (simp add: word_unat_simps)
  show "unat (FSA_STACK_BASE hm) < unat (global_mem_alloc_base config)" using g(1) by (simp add: word_unat_simps)
  show "unat (cache_line_size config) dvd unat (global_mem_alloc_base config)"
    using g(2) by (simp add: mod_eq_0_iff_dvd [symmetric] word_eq_iff_unat unat_mod)
qed

text \<open>
  A configuration is accepted only when its memory windows make sense: the global memory does not wrap, the
  non-cacheable window, the stacks and the heap lie inside it in this order without overlapping, the heap starts
  on a cache line and fills the rest, and the number of threads is the exact product.
\<close>

lemma device_description_sound:
  assumes "derive_device_description hm config = Some d"
  shows "unat (global_mem_base config) + unat (global_mem_size config) < 2 ^ 64 \<and>
    unat (dd_max_threads_per_work_group d) = unat (threads_per_warp config) * unat (warps_per_core config) \<and>
    noncache_window config \<noteq> {} \<and> stack_window hm config \<noteq> {} \<and> heap_window config d \<noteq> {} \<and>
    noncache_window config \<union> stack_window hm config \<union> heap_window config d \<subseteq>
      {unat (global_mem_base config)..<unat (global_mem_base config) + unat (global_mem_size config)} \<and>
    noncache_window config \<inter> stack_window hm config = {} \<and> noncache_window config \<inter> heap_window config d = {} \<and>
    stack_window hm config \<inter> heap_window config d = {} \<and>
    unat (cache_line_size config) dvd unat (global_mem_alloc_base config)"
  using description_bounds [OF assms]
  by (auto simp: noncache_window_def stack_window_def heap_window_def unat_pos_iff [symmetric])

section \<open>Heaps over a session\<close>

definition heap_empty :: "FallocCtx \<Rightarrow> bool" where
  "heap_empty ctx \<longleftrightarrow> free_list ctx = [] \<and> allocated_list ctx = []"

definition heaps_ok :: "hal_map \<Rightarrow> hal \<Rightarrow> bool" where
  "heaps_ok hm s \<longleftrightarrow> (case active_configuration s of
     None \<Rightarrow> heap_empty (cache_ctx (heaps s)) \<and> heap_empty (noncache_ctx (heaps s))
   | Some config \<Rightarrow> (case derive_device_description hm config of
       None \<Rightarrow> False
     | Some d \<Rightarrow>
         falloc_inv (unat (global_mem_alloc_base config)) (unat (dd_max_allocation_size d)) (cache_ctx (heaps s)) \<and>
         falloc_inv (unat (global_mem_noncache_alloc_base config)) (unat (global_mem_noncache_alloc_size config)) (noncache_ctx (heaps s))))"

lemma view_heaps:
  assumes "heap_view s' = heap_view s"
  shows "heaps_ok hm s' = heaps_ok hm s"
  using assms by (auto simp: heaps_ok_def heap_view_def split: option.splits)

text \<open>Each request keeps the invariant of its heap; a heap that was not set up stays empty.\<close>

definition heap_kept :: "FallocCtx \<Rightarrow> FallocCtx \<Rightarrow> bool" where
  "heap_kept c c' \<longleftrightarrow> (heap_empty c \<longrightarrow> heap_empty c') \<and> (\<forall>B S. falloc_inv B S c \<longrightarrow> falloc_inv B S c')"

lemma heap_kept_refl [simp]: "heap_kept c c"
  by (simp add: heap_kept_def)

lemma malloc_kept: "n \<noteq> 0 \<Longrightarrow> heap_kept c (snd (snd (falloc_malloc_impl mo c dp n)))"
proof (cases dp)
  case True
  assume n: "n \<noteq> 0"
  have "heap_empty c \<Longrightarrow> snd (snd (falloc_malloc_impl mo c dp n)) = c"
    by (simp add: heap_empty_def falloc_malloc_impl_def split_first_None split: option.splits)
  moreover have "falloc_inv B S (snd (snd (falloc_malloc_impl mo c dp n)))" if "falloc_inv B S c" for B S
    using falloc_malloc_cases [OF that n, of mo] that True by auto
  ultimately show ?thesis by (simp add: heap_kept_def)
qed (simp add: falloc_malloc_impl_def)

lemma free_kept: "heap_kept c (snd (falloc_free_impl c a))"
proof -
  have "heap_empty c \<Longrightarrow> snd (falloc_free_impl c a) = c" by (simp add: heap_empty_def falloc_free_impl_def)
  moreover have "falloc_inv B S (snd (falloc_free_impl c a))" if "falloc_inv B S c" for B S
    by (rule disjE [OF falloc_free_cases [OF that, of a]]; (elim exE conjE)?) (simp_all only: snd_conv that)
  ultimately show ?thesis by (simp add: heap_kept_def)
qed

lemma addr_malloc_choice:
  "falloc_addr_malloc_impl ro lo c a n = (1, c) \<or> falloc_addr_malloc_impl ro lo c a n = falloc_addr_malloc_impl True True c a n"
  by (auto simp: falloc_addr_malloc_impl_def Let_def split: option.splits)

lemma addr_malloc_kept:
  assumes "n \<noteq> 0" and "unat a + unat n + unat (alignment c) \<le> 2 ^ 64"
  shows "heap_kept c (snd (falloc_addr_malloc_impl ro lo c a n))"
proof (cases "align_size c n")
  case None
  then show ?thesis by (simp add: falloc_addr_malloc_impl_def)
next
  case (Some m)
  have "heap_empty c \<Longrightarrow> snd (falloc_addr_malloc_impl ro lo c a n) = c"
    by (simp add: heap_empty_def falloc_addr_malloc_impl_def split: option.splits)
  moreover have "falloc_inv B S (snd (falloc_addr_malloc_impl ro lo c a n))" if i: "falloc_inv B S c" for B S
  proof -
    have "unat m < unat n + unat (alignment c)" using align_size_Some [OF _ Some] i by (simp add: falloc_inv_def)
    then have "unat a + unat m < 2 ^ 64" using assms(2) by simp
    from falloc_addr_malloc_cases [OF i Some assms(1) this, of True True] show ?thesis
      using addr_malloc_choice [of ro lo c a n] i by (auto split: if_splits)
  qed
  ultimately show ?thesis by (simp add: heap_kept_def)
qed

subsection \<open>Calls that leave the heaps alone\<close>

lemma view_heap: "hal_view s' = hal_view s \<Longrightarrow> heap_view s' = heap_view s"
  by (simp add: hal_view_def session_view_def heap_view_def)

lemma heap_view_upd [simp]:
  "heap_view (s\<lparr>host_cmd_ring := r\<rparr>) = heap_view s" "heap_view (free_slot i s) = heap_view s"
  "heap_view (s\<lparr>stale_completion_tokens := l\<rparr>) = heap_view s" "heap_view (mark_transport_failure rc s) = heap_view s"
  "heap_view (s\<lparr>firmware_reboot_failed := b\<rparr>) = heap_view s" "heap_view (s\<lparr>firmware_ready := b\<rparr>) = heap_view s"
  "heap_view (s\<lparr>transport_failed := b\<rparr>) = heap_view s" "heap_view (s\<lparr>boot_generation_before_reset := g\<rparr>) = heap_view s"
  "heap_view (reset_adopt s) = heap_view s"
  by (simp_all add: heap_view_def free_slot_def mark_transport_failure_def reset_adopt_def)

lemmas io_heap = io_frame [THEN conjunct1, THEN view_heap]

lemma allocate_heap: "allocate_completion_slot s = (r, s') \<Longrightarrow> hal_wf s \<Longrightarrow> heap_view s' = heap_view s"
  using allocate_correct(2) by (auto simp: same_session_def session_view_def heap_view_def)

lemma submit_filled_heap:
  assumes "submit_filled hm pkt s = (st, t, s')" and wf: "hal_wf s"
  shows "heap_view s' = heap_view s"
proof -
  obtain r s1 where a: "allocate_completion_slot s = (r, s1)" by fastforce
  note h1 = allocate_heap [OF a wf]
  show ?thesis
  proof (cases r)
    case None
    then show ?thesis using assms(1) a h1 by (simp add: submit_filled_def)
  next
    case (Some i)
    let ?t = "slot_token (completion_slots s1 ! i)"
    obtain rc s2 where c: "copy_to_scratchpad (FSA_COMPLETION_POOL_BASE hm + of_nat i * 8)
        (le_bytes 8 (fsa_completion_slot_encode (fsa_completion_token_alloc_tag ?t) FSA_COMPLETION_RESULT_PENDING)) s1 = (rc, s2)"
      by fastforce
    let ?s3 = "s2\<lparr>host_cmd_ring := (host_cmd_ring s2)[unat (host_wr_ptr s2) := put_token ?t pkt]\<rparr>"
    obtain sc s4 where sd: "send_cmd hm (put_token ?t pkt) ?s3 = (sc, s4)" by fastforce
    have "heap_view s2 = heap_view s" "heap_view s4 = heap_view s"
      using h1 io_heap(2) [OF c] view_heap [OF send_cmd_frame(1) [OF sd]] by simp_all
    then show ?thesis
      using assms(1) a Some c sd by (auto simp: submit_filled_def Let_def split: if_splits SendCmdStatus.splits)
  qed
qed

lemma submit_heap:
  assumes "hal_wf s"
  shows "heap_view (snd (snd (submit_command hm c fill s))) = heap_view s"
proof -
  obtain r s1 where rv: "reserve_command_slot hm s = (r, s1)" by fastforce
  obtain rc s0 where sy: "sync_rd_ptr hm s = (rc, s0)" by fastforce
  have h: "heap_view s1 = heap_view s" using rv sy io_heap(8) [OF sy] by (auto simp: reserve_command_slot_def split: if_splits)
  have w: "hal_wf (s1\<lparr>host_cmd_ring := (host_cmd_ring s1)[unat (host_wr_ptr s1) := put_token 0 fill]\<rparr>)"
    using reserve_frame(1) [OF rv assms] by simp
  obtain st t s2 where f: "submit_filled hm (put_token 0 fill)
      (s1\<lparr>host_cmd_ring := (host_cmd_ring s1)[unat (host_wr_ptr s1) := put_token 0 fill]\<rparr>) = (st, t, s2)" by (metis prod_cases3)
  show ?thesis
    using submit_filled_heap [OF f w] rv h f by (auto simp: submit_command_def Let_def split: ReserveCommandStatus.splits)
qed

lemma commands_heap:
  assumes "hal_wf s"
  shows "heap_view (snd (snd (fsa_cmd_start_kernel hm info c s))) = heap_view s" "heap_view (snd (snd (fsa_cmd_cache_flush hm r c s))) = heap_view s"
    "heap_view (snd (snd (fsa_cmd_cache_invalidate hm r c s))) = heap_view s" "heap_view (snd (snd (fsa_cmd_memory_copy hm minfo c s))) = heap_view s"
    "heap_view (snd (snd (fsa_cmd_barrier hm c s))) = heap_view s"
  using assms by (auto simp: command_defs submit_heap split: option.splits)

lemma release_heap: "fsa_release_completion hm t s = (st, s') \<Longrightarrow> heap_view s' = heap_view s"
  by (auto simp: fsa_release_completion_def Let_def dest!: io_heap(1,7) split: if_splits option.splits prod.splits)

lemma wait_loop_heap: "wait_completion_loop hm t timeout start res s = (st, r, s') \<Longrightarrow> heap_view s' = heap_view s"
proof (induction hm t timeout start res s arbitrary: st r s' rule: wait_completion_loop.induct)
  case (1 hm t timeout start res s)
  obtain ps pr s1 where p: "fsa_poll_completion hm t s = (ps, pr, s1)" by (metis prod_cases3)
  obtain rs s2 where rl: "fsa_release_completion hm t s1 = (rs, s2)" by fastforce
  obtain rc now s3 where b: "real_poll_backoff s1 = (rc, now, s3)" by (metis prod_cases3)
  note h = io_heap(9) [OF p] release_heap [OF rl] io_heap(6) [OF b]
  show ?case
    using 1(2) p rl b h 1(1) [OF p [symmetric] refl refl _ b [symmetric] refl]
    by (auto simp: wait_completion_loop.simps [of hm t timeout start res s] Let_def
        split: if_splits FsaCompletionPollStatus.splits FsaCompletionReleaseStatus.splits)
qed

lemma wait_heap: "fsa_wait_completion hm t ms s = (st, r, s') \<Longrightarrow> heap_view s' = heap_view s"
  by (auto simp: fsa_wait_completion_def dest!: io_heap(5) wait_loop_heap split: prod.splits if_splits)

lemma copies_heap:
  assumes "hal_wf s"
  shows "heap_view (snd (fsa_copy_to_dev hm d h n s)) = heap_view s" "heap_view (snd (fsa_copy_from_dev hm d h n s)) = heap_view s"
proof -
  have w: "heap_view (snd (wait_for_copy_completion hm t s1)) = heap_view s1" for t s1
    using wait_heap by (auto simp: wait_for_copy_completion_def split: prod.splits)
  show "heap_view (snd (fsa_copy_to_dev hm d h n s)) = heap_view s" "heap_view (snd (fsa_copy_from_dev hm d h n s)) = heap_view s"
    using commands_heap(4) [OF assms, of hm "Some (copy_info FsaMemoryDomainHost h FsaMemoryDomainDevice d n)" True]
      commands_heap(4) [OF assms, of hm "Some (copy_info FsaMemoryDomainDevice d FsaMemoryDomainHost h n)" True]
    by (auto simp: fsa_copy_to_dev_def fsa_copy_from_dev_def w split: prod.splits)
qed

lemma keeps_heap: "keeps s s' \<Longrightarrow> heap_view s' = heap_view s"
  by (rule view_heap) (simp add: keeps_def)

lemma adopted_heap: "adopted s s' \<Longrightarrow> heap_view s' = heap_view s"
  by (auto simp: adopted_def keeps_def hal_view_def session_view_def heap_view_def Let_def)

lemma reset_heap: "fsa_hal_reset hm p n timeout s = (rc, s') \<Longrightarrow> heap_view s' = heap_view s"
  by (auto simp: fsa_hal_reset_def Let_def dest!: io_heap(5) ensure_rom_keeps upload_keeps wait_ready_frame keeps_heap adopted_heap
      split: if_splits prod.splits)

subsection \<open>Calls that change the heaps\<close>

lemma heaps_kept:
  assumes "heaps_ok hm s" and "heap_kept (cache_ctx (heaps s)) c" and "heap_kept (noncache_ctx (heaps s)) c'"
  shows "heaps_ok hm (s\<lparr>heaps := \<lparr>cache_ctx = c, noncache_ctx = c'\<rparr>\<rparr>)"
  using assms by (auto simp: heaps_ok_def heap_kept_def split: option.splits)

lemma heaps_eq: "h = \<lparr>cache_ctx = cache_ctx h, noncache_ctx = noncache_ctx h\<rparr>"
  by simp

fun memory_request_ok :: "hal_call \<Rightarrow> hal \<Rightarrow> bool" where
  "memory_request_ok (CallMalloc mo dp n) s = (n \<noteq> 0)"
| "memory_request_ok (CallMallocNoncache mo n) s = (n \<noteq> 0)"
| "memory_request_ok (CallAddrMalloc r l a n) s = (n \<noteq> 0 \<and> unat a + unat n + unat (alignment (cache_ctx (heaps s))) \<le> 2 ^ 64)"
| "memory_request_ok _ s = True"

lemma memory_calls_heaps:
  assumes "heaps_ok hm s"
  shows "n \<noteq> 0 \<Longrightarrow> heaps_ok hm (snd (snd (fsa_malloc mo dp n s)))"
    and "n \<noteq> 0 \<Longrightarrow> heaps_ok hm (snd (snd (fsa_malloc_noncache mo n s)))"
    and "n \<noteq> 0 \<Longrightarrow> unat a + unat n + unat (alignment (cache_ctx (heaps s))) \<le> 2 ^ 64 \<Longrightarrow> heaps_ok hm (snd (fsa_addr_malloc r l a n s))"
    and "heaps_ok hm (snd (fsa_free a s))"
proof -
  let ?c = "cache_ctx (heaps s)" let ?d = "noncache_ctx (heaps s)"
  have k: "heap_kept ?c c \<Longrightarrow> heaps_ok hm (s\<lparr>heaps := (heaps s)\<lparr>cache_ctx := c\<rparr>\<rparr>)"
    "heap_kept ?d c \<Longrightarrow> heaps_ok hm (s\<lparr>heaps := (heaps s)\<lparr>noncache_ctx := c\<rparr>\<rparr>)"
    "heap_kept ?c c \<Longrightarrow> heap_kept ?d d \<Longrightarrow> heaps_ok hm (s\<lparr>heaps := (heaps s)\<lparr>cache_ctx := c, noncache_ctx := d\<rparr>\<rparr>)" for c d
    using heaps_kept [OF assms, of c ?d] heaps_kept [OF assms, of ?c c] heaps_kept [OF assms, of c d] heaps_eq [of "heaps s"]
    by (metis falloc_state.update_convs heap_kept_refl)+
  show "n \<noteq> 0 \<Longrightarrow> heaps_ok hm (snd (snd (fsa_malloc mo dp n s)))"
    using k(1) malloc_kept [of n ?c mo dp] by (auto simp: fsa_malloc_def falloc_malloc_def split: prod.splits)
  show "n \<noteq> 0 \<Longrightarrow> heaps_ok hm (snd (snd (fsa_malloc_noncache mo n s)))"
    using k(2) malloc_kept [of n ?d mo True] assms
    by (auto simp: fsa_malloc_noncache_def falloc_noncache_malloc_def split: prod.splits)
  show "n \<noteq> 0 \<Longrightarrow> unat a + unat n + unat (alignment (cache_ctx (heaps s))) \<le> 2 ^ 64 \<Longrightarrow> heaps_ok hm (snd (fsa_addr_malloc r l a n s))"
    using k(1) addr_malloc_kept [of n a ?c r l] by (auto simp: fsa_addr_malloc_def falloc_addr_malloc_def split: prod.splits)
  show "heaps_ok hm (snd (fsa_free a s))"
    using k(1,3) free_kept [of ?c a] free_kept [of ?d a]
    by (auto simp: fsa_free_def falloc_free_def falloc_noncache_free_def split: prod.splits)
qed

lemma rollback_heaps:
  "heaps_ok hm (rollback_initialization s)" "heap_empty (cache_ctx (heaps (rollback_initialization s)))"
  "heap_empty (noncache_ctx (heaps (rollback_initialization s)))" "heaps_ok hm (snd (fsa_hal_cleanup s))"
  by (simp_all add: heaps_ok_def rollback_initialization_def reset_runtime_state_def falloc_clean_def falloc_noncache_clean_def
      falloc_clean_impl_def heap_empty_def fsa_hal_cleanup_def Let_def)

lemma init_impl_inv:
  assumes "falloc_init_impl mo True c start sz align False = (0, c')" and "heap_empty c" and "unat start + unat sz < 2 ^ 64"
  shows "falloc_inv (unat start) (unat sz) c'"
  using assms falloc_inv_init [of start sz align c]
  by (auto simp: falloc_init_impl_def heap_empty_def pow2_def Let_def split: if_splits)

lemma bring_up_heaps:
  assumes "hal_bring_up hm p n mo config desc s = (True, s')" and d: "derive_device_description hm config = Some desc"
    and e: "heap_empty (cache_ctx (heaps s))" "heap_empty (noncache_ctx (heaps s))"
  shows "heaps_ok hm s'"
proof (rule bring_up_cases [OF assms(1)])
  fix s3 s4 s5 s7 s8 v h h'
  assume s3: "active_configuration s3 = Some config" "heaps s3 = heaps s"
    and s4: "real_mmio_read (FSA_CP_OFF_CMD_RING_BASE hm) (dev_cmd_ring_base s3) True s3 = (0, v, s4)"
    and h: "falloc_init mo True (global_mem_alloc_base config) (dd_max_allocation_size desc) (cache_line_size config) False (heaps s4) = (0, h)"
    and h': "falloc_noncache_init mo True (global_mem_noncache_alloc_base config) (global_mem_noncache_alloc_size config)
       (cache_line_size config) False h = (0, h')"
    and s5: "s5 = s4\<lparr>dev_cmd_ring_base := v, heaps := h', noncache_alloc_ready := True\<rparr>"
    and k: "keeps s5 s7" "adopted s7 s8" "s' = s8\<lparr>firmware_ready := True\<rparr>"
  have a: "heaps s4 = heaps s" "active_configuration s4 = Some config"
    using io_heap(4) [OF s4] s3 by (simp_all add: heap_view_def)
  note b = description_bounds [OF d]
  have nb: "unat (global_mem_noncache_alloc_base config) + unat (global_mem_noncache_alloc_size config) < 2 ^ 64"
    using b(7) unat_lt64 [of "FSA_STACK_BASE hm"] by simp
  have "falloc_inv (unat (global_mem_alloc_base config)) (unat (dd_max_allocation_size desc)) (cache_ctx h')"
    using h h' a e b(1,3) init_impl_inv by (fastforce simp: falloc_init_def falloc_noncache_init_def split: prod.splits)
  moreover have "falloc_inv (unat (global_mem_noncache_alloc_base config)) (unat (global_mem_noncache_alloc_size config)) (noncache_ctx h')"
    using h h' a e nb init_impl_inv by (fastforce simp: falloc_init_def falloc_noncache_init_def split: prod.splits)
  ultimately have "heaps_ok hm s5" using a d by (simp add: heaps_ok_def s5)
  moreover have "heap_view s' = heap_view s5" using keeps_heap [OF k(1)] adopted_heap [OF k(2)] k(3) by simp
  ultimately show "heaps_ok hm s'" using view_heaps by blast
qed

lemma init_heaps:
  assumes "heaps_ok hm s"
  shows "heaps_ok hm (snd (snd (fsa_hal_init hm p n mo attempts description s)))"
proof -
  let ?s0 = "(rollback_initialization s)\<lparr>firmware_ready := False, transport_failed := False, firmware_reboot_failed := False\<rparr>"
  have "heaps_ok hm s'" if "hal_bring_up hm p n mo config desc (?s0\<lparr>lv := c\<rparr>) = (True, s')"
    "derive_device_description hm config = Some desc" for config desc c s'
    by (rule bring_up_heaps [OF that]) (simp_all add: rollback_heaps(2,3))
  then show ?thesis
    using assms unfolding fsa_hal_init_def
    by (auto simp: Let_def rollback_heaps split: prod.splits option.splits bool.splits)
qed

subsection \<open>Sequences of calls\<close>

fun requests_ok :: "hal_map \<Rightarrow> hal_call list \<Rightarrow> hal \<Rightarrow> bool" where
  "requests_ok hm [] s = True"
| "requests_ok hm (c # cs) s = (memory_request_ok c s \<and> requests_ok hm cs (hal_exec hm c s))"

lemma exec_heaps:
  assumes "hal_wf s" and "heaps_ok hm s" and "memory_request_ok call s"
  shows "heaps_ok hm (hal_exec hm call s)"
proof -
  have v: "heap_view s' = heap_view s \<Longrightarrow> heaps_ok hm s'" for s' using view_heaps assms(2) by blast
  show ?thesis
  proof (cases call)
    case (CallPoll t)
    then show ?thesis using io_heap(9) by (metis v hal_exec.simps(6) prod.collapse)
  next
    case (CallWait t ms)
    then show ?thesis using wait_heap by (metis v hal_exec.simps(7) prod.collapse)
  next
    case (CallRelease t)
    then show ?thesis using release_heap by (metis v hal_exec.simps(8) prod.collapse)
  next
    case (CallReset p n t)
    then show ?thesis using reset_heap by (metis v hal_exec.simps(17) prod.collapse)
  next
    case (CallTimeNs b)
    have "heap_view (snd (snd (fsa_hal_time_ns b s))) = heap_view s"
      by (auto simp: fsa_hal_time_ns_def dest!: io_heap(5) split: prod.splits)
    then show ?thesis using CallTimeNs v by simp
  qed (use assms in \<open>simp_all add: v commands_heap copies_heap memory_calls_heaps init_heaps rollback_heaps\<close>)
qed

lemma run_heaps:
  assumes "FSA_COMPLETION_POOL_ENTRIES hm = unat FSA_COMPLETION_SLOT_COUNT"
    and "hal_wf s" and "heaps_ok hm s" and "requests_ok hm calls s"
  shows "heaps_ok hm (fold (hal_exec hm) calls s)"
  using assms(2-4) by (induction calls arbitrary: s) (simp_all add: exec_heaps exec_wf assms(1))

lemma heaps_disjoint:
  assumes "heaps_ok hm s"
  shows "r \<in> falloc_live (cache_ctx (heaps s)) \<Longrightarrow> r' \<in> falloc_live (noncache_ctx (heaps s)) \<Longrightarrow> cells r \<inter> cells r' = {}"
    and "r \<in> falloc_live c \<Longrightarrow> r' \<in> falloc_live c \<Longrightarrow> r \<noteq> r' \<Longrightarrow> c \<in> {cache_ctx (heaps s), noncache_ctx (heaps s)} \<Longrightarrow>
           cells r \<inter> cells r' = {}"
proof (atomize (full), cases "active_configuration s")
  case None
  then show "(r \<in> falloc_live (cache_ctx (heaps s)) \<longrightarrow> r' \<in> falloc_live (noncache_ctx (heaps s)) \<longrightarrow> cells r \<inter> cells r' = {}) \<and>
      (r \<in> falloc_live c \<longrightarrow> r' \<in> falloc_live c \<longrightarrow> r \<noteq> r' \<longrightarrow> c \<in> {cache_ctx (heaps s), noncache_ctx (heaps s)} \<longrightarrow> cells r \<inter> cells r' = {})"
    using assms by (auto simp: heaps_ok_def heap_empty_def falloc_live_def)
next
  case (Some config)
  then obtain d where d: "derive_device_description hm config = Some d"
    and t: "tiling (unat (global_mem_alloc_base config)) (unat (dd_max_allocation_size d)) (falloc_free_regions (cache_ctx (heaps s)))
        (falloc_live (cache_ctx (heaps s)))"
      "tiling (unat (global_mem_noncache_alloc_base config)) (unat (global_mem_noncache_alloc_size config))
        (falloc_free_regions (noncache_ctx (heaps s))) (falloc_live (noncache_ctx (heaps s)))"
    using assms by (auto simp: heaps_ok_def falloc_inv_def split: option.splits)
  note b = description_bounds [OF d]
  have "cells r \<inter> cells r' = {}" if "r \<in> falloc_live (cache_ctx (heaps s))" "r' \<in> falloc_live (noncache_ctx (heaps s))"
  proof -
    have "cells r \<subseteq> {unat (global_mem_alloc_base config)..}" "cells r' \<subseteq> {..<unat (global_mem_alloc_base config)}"
      using tiling_live_window [OF t(1) that(1)] tiling_live_window [OF t(2) that(2)] b(7,9) by auto
    moreover have "{unat (global_mem_alloc_base config)..} \<inter> {..<unat (global_mem_alloc_base config)} = {}" by auto
    ultimately show ?thesis by blast
  qed
  then show "(r \<in> falloc_live (cache_ctx (heaps s)) \<longrightarrow> r' \<in> falloc_live (noncache_ctx (heaps s)) \<longrightarrow> cells r \<inter> cells r' = {}) \<and>
      (r \<in> falloc_live c \<longrightarrow> r' \<in> falloc_live c \<longrightarrow> r \<noteq> r' \<longrightarrow> c \<in> {cache_ctx (heaps s), noncache_ctx (heaps s)} \<longrightarrow> cells r \<inter> cells r' = {})"
    using tiling_live_disjoint [OF t(1)] tiling_live_disjoint [OF t(2)] by blast
qed

lemma start_heaps: "heaps_ok hm (hal_start c)"
  by (simp add: heaps_ok_def hal_start_def heap_empty_def FALLOC_CTX_INITIALIZER_def)

text \<open>
  C32. Over every sequence of calls, resets and new initialisations included, the device memory the library has handed out and
  not taken back consists of disjoint blocks, within each of the two heaps and across them. The
  requests must not be empty, and a request for a fixed address must not wrap.
\<close>

theorem device_memory_disjoint:
  assumes "FSA_COMPLETION_POOL_ENTRIES hm = unat FSA_COMPLETION_SLOT_COUNT" and "requests_ok hm calls (hal_start c)"
    and "h = heaps (fold (hal_exec hm) calls (hal_start c))"
  shows "(\<forall>r \<in> falloc_live (cache_ctx h). \<forall>r' \<in> falloc_live (noncache_ctx h). cells r \<inter> cells r' = {}) \<and>
    (\<forall>r \<in> falloc_live (cache_ctx h). \<forall>r' \<in> falloc_live (cache_ctx h). r \<noteq> r' \<longrightarrow> cells r \<inter> cells r' = {}) \<and>
    (\<forall>r \<in> falloc_live (noncache_ctx h). \<forall>r' \<in> falloc_live (noncache_ctx h). r \<noteq> r' \<longrightarrow> cells r \<inter> cells r' = {})"
  using heaps_disjoint [OF run_heaps [OF assms(1) start_wf start_heaps assms(2)]] unfolding assms(3) by blast

definition demo_memory_calls :: "hal_call list" where
  "demo_memory_calls = [CallInit 0x1000 0x100 True [True] True, CallMalloc True True 100, CallMallocNoncache True 100]"

lemma demo_memory_live:
  "allocated_list (cache_ctx (heaps (fold (hal_exec demo_hal_map) demo_memory_calls (hal_start demo_peer)))) = [\<lparr>b_size = 128, b_dptr = 0x82000000\<rparr>] \<and>
   allocated_list (noncache_ctx (heaps (fold (hal_exec demo_hal_map) demo_memory_calls (hal_start demo_peer)))) = [\<lparr>b_size = 128, b_dptr = 0x80100000\<rparr>]"
  by code_simp

theorem device_memory_disjoint_witness:
  "cells (0x82000000, 128) \<inter> cells (0x80100000, 128) = {} \<and>
   (0x82000000, 128) \<in> falloc_live (cache_ctx (heaps (fold (hal_exec demo_hal_map) demo_memory_calls (hal_start demo_peer))))"
proof -
  let ?h = "heaps (fold (hal_exec demo_hal_map) demo_memory_calls (hal_start demo_peer))"
  have e: "FSA_COMPLETION_POOL_ENTRIES demo_hal_map = unat FSA_COMPLETION_SLOT_COUNT" by code_simp
  have r: "requests_ok demo_hal_map demo_memory_calls (hal_start demo_peer)" by (simp add: demo_memory_calls_def)
  have "falloc_live (cache_ctx ?h) = {(0x82000000, 128)}" "falloc_live (noncache_ctx ?h) = {(0x80100000, 128)}"
    using demo_memory_live by (simp_all add: falloc_live_def)
  then show ?thesis using device_memory_disjoint [OF e r refl] by simp
qed

end
