(* ===== verification/Fw_State.thy ===== *)
theory Fw_State
  imports Command_Packet Lmem_Allocator
begin

text \<open>
  The state of the command-processor firmware: the memory-mapped registers it uses
  (\<^verbatim>\<open>fw/cp_defs.h\<close>), its bookkeeping structs (\<^verbatim>\<open>fw/cp_context.h\<close>, \<^verbatim>\<open>fw/cp_wgi_buffer.h\<close>,
  \<^verbatim>\<open>fw/cp_cache.c\<close>) and one record with all its global variables. Arrays are lists; device memory
  that the firmware reads or writes through a packet's pointer is a function from addresses to
  bytes. Fences order stores and change no data.
\<close>

section \<open>Registers\<close>

datatype CacheOpMode = CacheOpNop | CacheOpFlush | CacheOpInvalidate

fun cache_op_mode_code :: "CacheOpMode \<Rightarrow> u64" where
  "cache_op_mode_code CacheOpNop = 0"
| "cache_op_mode_code CacheOpFlush = 1"
| "cache_op_mode_code CacheOpInvalidate = 2"

record cp_mmio =
  CP_RESET :: u64
  CP_FW_HOST_ADDR :: u64
  CP_FW_SIZE :: u64
  CP_CMD_RING_BASE :: u64
  CP_CMD_SIZE :: u64
  CP_CMD_RING_SIZE :: u64
  CP_RD_PTR :: u64
  CP_WR_PTR :: u64
  FW_STATUS :: u64
  FW_ABI_VERSION :: u64
  FW_BOOT_GENERATION :: u64
  FW_FAULT_CODE :: u64

record system_info_mmio =
  ABI_VERSION :: u64
  LENGTH_BYTES :: u64
  NUM_SM :: u64
  GLOBAL_ALLOC_BASE :: u64

record dma_mmio =
  dma_START :: u64
  dma_ADDR0 :: u64
  dma_ADDR1 :: u64
  dma_SIZE :: u64
  dma_STATUS :: u64

record sm_mmio =
  ENQ_VALID :: u64
  ENQ_KERNEL_PC :: u64
  ENQ_INFO_PTR :: u64
  ENQ_NUM_THREADS :: u64
  DEQ_VALID :: u64
  DEQ_STATUS :: u64
  DEQ_KERNEL_PC :: u64
  DEQ_INFO_PTR :: u64
  DEQ_MCAUSE :: u64
  DEQ_MEPC :: u64
  DEQ_MTVAL :: u64
  WG_RESIDENT_LIMIT :: u64
  ICACHE_CONTROL_START :: u64
  ICACHE_CONTROL_ADDR :: u64
  ICACHE_CONTROL_SIZE :: u64
  ICACHE_CONTROL_MODE :: u64
  DCACHE_CONTROL_START :: u64
  DCACHE_CONTROL_ADDR :: u64
  DCACHE_CONTROL_SIZE :: u64
  DCACHE_CONTROL_MODE :: u64
  THREADS_PER_CORE :: u64
  STACK_REMAP_ENTRY_COUNT :: u64
  STACK_REMAP_GROUP_SIZE :: u64
  STACK_REMAP_TABLE :: "u64 list"

text \<open>DMA status codes (\<^verbatim>\<open>hal/src/hal/dma.h\<close> over the device's register definitions).\<close>

datatype DmaStatus = DmaStatusIdle | DmaStatusBusy | DmaStatusDone | DmaStatusBusError | DmaStatusInvalidDescriptor

fun dma_status_code :: "DmaStatus \<Rightarrow> u64" where
  "dma_status_code DmaStatusIdle = 0"
| "dma_status_code DmaStatusBusy = 1"
| "dma_status_code DmaStatusDone = 2"
| "dma_status_code DmaStatusBusError = 3"
| "dma_status_code DmaStatusInvalidDescriptor = 4"

section \<open>Bookkeeping\<close>

record cp_kernel_state =
  ks_completion_token :: u64
  ks_in_use :: u32
  ks_wg_left :: u32
  ks_result :: u16
  ks_status :: FsaKernelStatus

datatype cp_memory_copy_phase =
    MemoryCopyPhaseIdle | MemoryCopyPhaseWaitPredecessor | MemoryCopyPhaseFlushSource
  | MemoryCopyPhaseFlushDestination | MemoryCopyPhaseWaitDma
  | MemoryCopyPhaseInvalidateDestination | MemoryCopyPhaseDrainDma

record cp_memory_copy_state =
  mcs_active :: u32
  mcs_phase :: cp_memory_copy_phase
  mcs_src_domain :: u8
  mcs_dst_domain :: u8
  mcs_src_addr :: u64
  mcs_dst_addr :: u64
  mcs_size :: u64
  mcs_completion_token :: u64
  mcs_phase_started_tick :: u32

record WGInfo =
  wg_dim :: u32
  wg_id :: "u32 list"
  wg_local_size :: "u32 list"
  wg_num_groups :: "u32 list"
  wg_global_offset :: "u32 list"
  wg_num_threads :: u32
  wg_trampoline :: u64
  wg_kargs :: u64
  wg_stack_base :: u64
  wg_stack_size :: u32
  wg_local_memory_base :: u64
  wg_local_memory_size :: u32
  wg_printf_buffer :: u64
  wg_printf_buffer_position :: u64
  wg_printf_buffer_capacity :: u32
  wg_reserved0 :: u32

record cp_wgi_buf =
  wb_wginfo :: WGInfo
  wb_in_use :: int
  wb_wbid :: int
  wb_kid :: int
  wb_smid :: int
  wb_stack_remap_slot :: int
  wb_kernel_status_ptr :: u64

record cp_cache_state =
  cs_pending :: u32
  cs_started :: u32
  cs_targets :: u32
  cs_completion_token :: u64

definition zero_kernel_status :: FsaKernelStatus where
  "zero_kernel_status = \<lparr>ks_mcause = 0, ks_mepc = 0, ks_mtval = 0\<rparr>"

definition zero_wginfo :: WGInfo where
  "zero_wginfo = \<lparr>wg_dim = 0, wg_id = [0, 0, 0], wg_local_size = [0, 0, 0], wg_num_groups = [0, 0, 0],
     wg_global_offset = [0, 0, 0], wg_num_threads = 0, wg_trampoline = 0, wg_kargs = 0,
     wg_stack_base = 0, wg_stack_size = 0, wg_local_memory_base = 0, wg_local_memory_size = 0,
     wg_printf_buffer = 0, wg_printf_buffer_position = 0, wg_printf_buffer_capacity = 0,
     wg_reserved0 = 0\<rparr>"

section \<open>Global variables\<close>

record fw =
  cp :: cp_mmio
  system_info :: system_info_mmio
  sms :: "sm_mmio list"
  host_dma :: dma_mmio
  device_dma :: dma_mmio
  completion_pool :: "u64 list"
  cmd_ring :: "packet list"
  mem :: "u64 \<Rightarrow> u8"
  g_num_sm :: u64
  g_global_alloc_base :: u64
  g_per_sm_threads :: "u64 list"
  g_per_sm_wg_resident_limits :: "u64 list"
  kernel_state_buf :: "cp_kernel_state list"
  memory_copy_state :: cp_memory_copy_state
  wgi_buf :: "cp_wgi_buf list"
  wgi_buf_len :: u64
  g_lmem_allocators :: "lmem_allocator_t list"
  cache_state :: cp_cache_state
  boot_generation :: u64
  status :: FsaFirmwareStatus
  reboot_requested :: u32
  prev_sm_id :: nat
  tick_count :: u32

text \<open>\<open>sizeof (struct cp_wgi_buf)\<close> under the RV64 layout, and the address of a slot.\<close>

definition sizeof_cp_wgi_buf :: nat where
  "sizeof_cp_wgi_buf = 160"

definition wgi_buf_ptr :: "addr_map \<Rightarrow> nat \<Rightarrow> u64" where
  "wgi_buf_ptr am wbid = FSA_WGI_BUF_BASE am + of_nat (wbid * sizeof_cp_wgi_buf)"

definition wgi_buf_capacity :: "addr_map \<Rightarrow> nat" where
  "wgi_buf_capacity am = unat (FSA_WGI_BUF_SIZE am) div sizeof_cp_wgi_buf"

text \<open>Byte access to device memory.\<close>

definition mem_load :: "(u64 \<Rightarrow> u8) \<Rightarrow> u64 \<Rightarrow> nat \<Rightarrow> u8 list" where
  "mem_load m a k = map (\<lambda>i. m (a + of_nat i)) [0..<k]"

fun mem_store :: "(u64 \<Rightarrow> u8) \<Rightarrow> u64 \<Rightarrow> u8 list \<Rightarrow> u64 \<Rightarrow> u8" where
  "mem_store m a [] = m"
| "mem_store m a (b # bs) = mem_store (m(a := b)) (a + 1) bs"

definition kernel_status_bytes :: "FsaKernelStatus \<Rightarrow> u8 list" where
  "kernel_status_bytes st = le_bytes 8 (ks_mcause st) @ le_bytes 8 (ks_mepc st) @ le_bytes 8 (ks_mtval st)"

section \<open>Updates of one element\<close>

definition upd_cp :: "(cp_mmio \<Rightarrow> cp_mmio) \<Rightarrow> fw \<Rightarrow> fw" where
  "upd_cp f s = s\<lparr>cp := f (cp s)\<rparr>"

definition upd_sm :: "nat \<Rightarrow> (sm_mmio \<Rightarrow> sm_mmio) \<Rightarrow> fw \<Rightarrow> fw" where
  "upd_sm i f s = s\<lparr>sms := (sms s)[i := f (sms s ! i)]\<rparr>"

definition upd_kstate :: "nat \<Rightarrow> (cp_kernel_state \<Rightarrow> cp_kernel_state) \<Rightarrow> fw \<Rightarrow> fw" where
  "upd_kstate k f s = s\<lparr>kernel_state_buf := (kernel_state_buf s)[k := f (kernel_state_buf s ! k)]\<rparr>"

definition upd_wgi :: "nat \<Rightarrow> (cp_wgi_buf \<Rightarrow> cp_wgi_buf) \<Rightarrow> fw \<Rightarrow> fw" where
  "upd_wgi w f s = s\<lparr>wgi_buf := (wgi_buf s)[w := f (wgi_buf s ! w)]\<rparr>"

definition upd_copy :: "(cp_memory_copy_state \<Rightarrow> cp_memory_copy_state) \<Rightarrow> fw \<Rightarrow> fw" where
  "upd_copy f s = s\<lparr>memory_copy_state := f (memory_copy_state s)\<rparr>"

definition upd_cache :: "(cp_cache_state \<Rightarrow> cp_cache_state) \<Rightarrow> fw \<Rightarrow> fw" where
  "upd_cache f s = s\<lparr>cache_state := f (cache_state s)\<rparr>"

lemmas upd_defs = upd_cp_def upd_sm_def upd_kstate_def upd_wgi_def upd_copy_def upd_cache_def

text \<open>What an update of one component leaves alone.\<close>

lemma upd_frame [simp, frame_simps]:
  "cp (upd_sm i f s) = cp s" "cp (upd_kstate k g s) = cp s" "cp (upd_wgi w h s) = cp s"
  "cp (upd_copy e s) = cp s" "cp (upd_cache c s) = cp s"
  "sms (upd_cp p s) = sms s" "sms (upd_kstate k g s) = sms s" "sms (upd_wgi w h s) = sms s"
  "sms (upd_copy e s) = sms s" "sms (upd_cache c s) = sms s"
  "completion_pool (upd_cp p s) = completion_pool s" "completion_pool (upd_sm i f s) = completion_pool s"
  "completion_pool (upd_kstate k g s) = completion_pool s" "completion_pool (upd_wgi w h s) = completion_pool s"
  "completion_pool (upd_copy e s) = completion_pool s" "completion_pool (upd_cache c s) = completion_pool s"
  "kernel_state_buf (upd_cp p s) = kernel_state_buf s" "kernel_state_buf (upd_sm i f s) = kernel_state_buf s"
  "kernel_state_buf (upd_wgi w h s) = kernel_state_buf s" "kernel_state_buf (upd_copy e s) = kernel_state_buf s"
  "kernel_state_buf (upd_cache c s) = kernel_state_buf s"
  "wgi_buf (upd_cp p s) = wgi_buf s" "wgi_buf (upd_sm i f s) = wgi_buf s"
  "wgi_buf (upd_kstate k g s) = wgi_buf s" "wgi_buf (upd_copy e s) = wgi_buf s"
  "wgi_buf (upd_cache c s) = wgi_buf s"
  "memory_copy_state (upd_cp p s) = memory_copy_state s" "memory_copy_state (upd_sm i f s) = memory_copy_state s"
  "memory_copy_state (upd_kstate k g s) = memory_copy_state s" "memory_copy_state (upd_wgi w h s) = memory_copy_state s"
  "memory_copy_state (upd_cache c s) = memory_copy_state s"
  "cache_state (upd_cp p s) = cache_state s" "cache_state (upd_sm i f s) = cache_state s"
  "cache_state (upd_kstate k g s) = cache_state s" "cache_state (upd_wgi w h s) = cache_state s"
  "cache_state (upd_copy e s) = cache_state s"
  by (simp_all add: upd_defs)

lemma upd_globals [simp, frame_simps]:
  "boot_generation (upd_cp p s) = boot_generation s" "boot_generation (upd_sm i f s) = boot_generation s"
  "boot_generation (upd_kstate k g s) = boot_generation s" "boot_generation (upd_wgi w h s) = boot_generation s"
  "boot_generation (upd_copy e s) = boot_generation s" "boot_generation (upd_cache c s) = boot_generation s"
  "status (upd_cp p s) = status s" "status (upd_sm i f s) = status s" "status (upd_kstate k g s) = status s"
  "status (upd_wgi w h s) = status s" "status (upd_copy e s) = status s" "status (upd_cache c s) = status s"
  "g_num_sm (upd_cp p s) = g_num_sm s" "g_num_sm (upd_sm i f s) = g_num_sm s"
  "g_num_sm (upd_kstate k g s) = g_num_sm s" "g_num_sm (upd_wgi w h s) = g_num_sm s"
  "g_num_sm (upd_copy e s) = g_num_sm s" "g_num_sm (upd_cache c s) = g_num_sm s"
  "g_lmem_allocators (upd_cp p s) = g_lmem_allocators s" "g_lmem_allocators (upd_sm i f s) = g_lmem_allocators s"
  "g_lmem_allocators (upd_kstate k g s) = g_lmem_allocators s"
  "g_lmem_allocators (upd_wgi w h s) = g_lmem_allocators s"
  "g_lmem_allocators (upd_copy e s) = g_lmem_allocators s" "g_lmem_allocators (upd_cache c s) = g_lmem_allocators s"
  "wgi_buf_len (upd_cp p s) = wgi_buf_len s" "wgi_buf_len (upd_sm i f s) = wgi_buf_len s"
  "wgi_buf_len (upd_kstate k g s) = wgi_buf_len s" "wgi_buf_len (upd_wgi w h s) = wgi_buf_len s"
  "wgi_buf_len (upd_copy e s) = wgi_buf_len s" "wgi_buf_len (upd_cache c s) = wgi_buf_len s"
  "tick_count (upd_cp p s) = tick_count s" "tick_count (upd_sm i f s) = tick_count s"
  "tick_count (upd_kstate k g s) = tick_count s" "tick_count (upd_wgi w h s) = tick_count s"
  "tick_count (upd_copy e s) = tick_count s" "tick_count (upd_cache c s) = tick_count s"
  by (simp_all add: upd_defs)

lemma upd_self [simp, frame_simps]:
  "cp (upd_cp p s) = p (cp s)"
  "memory_copy_state (upd_copy e s) = e (memory_copy_state s)"
  "cache_state (upd_cache c s) = c (cache_state s)"
  "sms (upd_sm i f s) = (sms s)[i := f (sms s ! i)]"
  "kernel_state_buf (upd_kstate k g s) = (kernel_state_buf s)[k := g (kernel_state_buf s ! k)]"
  "wgi_buf (upd_wgi w h s) = (wgi_buf s)[w := h (wgi_buf s ! w)]"
  by (simp_all add: upd_defs)

end
