(* ===== verification/Slot_Pool.thy ===== *)
theory Slot_Pool
  imports Prelude
begin

text \<open>
  The contract of the firmware's and the host's fixed pools of slots that are claimed by a scan
  for the first free entry: kernel states, work-group info buffers, stack-remap entries and
  completion slots. Each pool is an interpretation of the locale below.
\<close>

locale slot_pool =
  fixes inv :: "'s \<Rightarrow> bool"
    and cap :: "'s \<Rightarrow> nat"
    and used :: "'s \<Rightarrow> nat \<Rightarrow> bool"
    and claim :: "'s \<Rightarrow> (nat \<times> 's) option"
    and release :: "nat \<Rightarrow> 's \<Rightarrow> 's"
  assumes claim_inv: "inv s \<Longrightarrow> claim s = Some (i, s') \<Longrightarrow> inv s' \<and> cap s' = cap s"
    and claim_slot: "inv s \<Longrightarrow> claim s = Some (i, s') \<Longrightarrow>
          i < cap s \<and> \<not> used s i \<and> (\<forall>j < cap s. used s' j \<longleftrightarrow> j = i \<or> used s j)"
    and claim_first: "inv s \<Longrightarrow> claim s = Some (i, s') \<Longrightarrow> j < i \<Longrightarrow> used s j"
    and claim_none: "inv s \<Longrightarrow> claim s = None \<Longrightarrow> i < cap s \<Longrightarrow> used s i"
    and release_inv: "inv s \<Longrightarrow> i < cap s \<Longrightarrow> inv (release i s) \<and> cap (release i s) = cap s"
    and release_slot: "inv s \<Longrightarrow> i < cap s \<Longrightarrow> j < cap s \<Longrightarrow> used (release i s) j \<longleftrightarrow> j \<noteq> i \<and> used s j"
begin

definition in_use :: "'s \<Rightarrow> nat set" where
  "in_use s = {i. i < cap s \<and> used s i}"

lemma in_use_finite: "finite (in_use s)"
  by (simp add: in_use_def)

lemma in_use_bound: "card (in_use s) \<le> cap s"
  using card_mono [of "{..<cap s}" "in_use s"] by (auto simp: in_use_def)

lemma claim_in_use:
  assumes "inv s" and "claim s = Some (i, s')"
  shows "in_use s' = insert i (in_use s)" and "i \<notin> in_use s" and "card (in_use s') = Suc (card (in_use s))"
proof -
  show eq: "in_use s' = insert i (in_use s)" and ni: "i \<notin> in_use s"
    using claim_slot [OF assms] claim_inv [OF assms] by (auto simp: in_use_def)
  show "card (in_use s') = Suc (card (in_use s))"
    using ni by (simp add: eq in_use_finite)
qed

lemma claim_total: "inv s \<Longrightarrow> card (in_use s) < cap s \<Longrightarrow> \<exists>i s'. claim s = Some (i, s')"
proof (rule ccontr)
  assume i: "inv s" and c: "card (in_use s) < cap s" and "\<nexists>i s'. claim s = Some (i, s')"
  then have "claim s = None" by (cases "claim s") auto
  then have "in_use s = {..<cap s}" using claim_none [OF i] by (auto simp: in_use_def)
  with c show False by simp
qed

lemma release_in_use:
  assumes "inv s" and "i < cap s"
  shows "in_use (release i s) = in_use s - {i}"
  using release_slot [OF assms] release_inv [OF assms] by (auto simp: in_use_def)

lemma claim_release:
  assumes "inv s" and "claim s = Some (i, s')"
  shows "in_use (release i s') = in_use s"
  using claim_in_use [OF assms] claim_inv [OF assms] claim_slot [OF assms] release_in_use [of s' i]
  by simp

end

end
