(* ===== verification/Fw_Hwinfo.thy ===== *)
theory Fw_Hwinfo
  imports Fw_State Slot_Pool
begin

text \<open>
  Boot-time hardware discovery and the pools built on it: \<^verbatim>\<open>fw/cp_hwinfo.c\<close>, \<^verbatim>\<open>fw/cp_stack_remap.c\<close>,
  \<^verbatim>\<open>fw/cp_wgi_buffer.c\<close> and \<^verbatim>\<open>fw/cp_context.c\<close>. A call of \<open>cp_panic\<close> stops the firmware and is the result
  \<open>None\<close>. The registers of an SM are an element of \<open>sms\<close>, so the null-pointer tests of the C code
  have no counterpart. The theory shows what a successful boot guarantees: the ranges of the
  hardware parameters, stacks of the work-group slots that stay below the global allocations, and
  the slot-pool contract for the three pools.
\<close>

section \<open>Stack remapping\<close>

datatype CpStackRemapStatus = CpStackRemapOkay | CpStackRemapFull | CpStackRemapInvalid

definition stack_remap_entry_count_valid :: "addr_map \<Rightarrow> u64 \<Rightarrow> bool" where
  "stack_remap_entry_count_valid am entry_count \<longleftrightarrow>
     0 < entry_count \<and> entry_count \<le> FSA_SM_STACK_REMAP_MAX_ENTRIES am"

definition stack_base_is_aligned :: "addr_map \<Rightarrow> u64 \<Rightarrow> u64 \<Rightarrow> bool" where
  "stack_base_is_aligned am stack_base threads_per_core \<longleftrightarrow>
     \<not> UINT64_MAX div FSA_PER_THREAD_STACK_SIZE am < threads_per_core \<and>
     (let region_size = threads_per_core * FSA_PER_THREAD_STACK_SIZE am
      in region_size \<noteq> 0 \<and> region_size AND (region_size - 1) = 0 \<and>
         stack_base AND NOT (FSA_STACK_REMAP_ADDRESS_MASK am) = 0 \<and>
         stack_base AND (region_size - 1) = 0)"

definition cp_stack_remap_validate_config :: "addr_map \<Rightarrow> sm_mmio \<Rightarrow> bool" where
  "cp_stack_remap_validate_config am sm \<longleftrightarrow>
     (let entry_count = STACK_REMAP_ENTRY_COUNT sm;
          wg_resident_limit = WG_RESIDENT_LIMIT sm;
          threads_per_core = THREADS_PER_CORE sm;
          group_size = STACK_REMAP_GROUP_SIZE sm
      in stack_remap_entry_count_valid am entry_count \<and>
         wg_resident_limit \<le> entry_count \<and> group_size \<noteq> 0 \<and>
         group_size \<le> threads_per_core \<and> threads_per_core mod group_size = 0 \<and>
         stack_base_is_aligned am (FSA_STACK_BASE am) threads_per_core)"

definition cp_stack_remap_reset :: "addr_map \<Rightarrow> sm_mmio \<Rightarrow> sm_mmio" where
  "cp_stack_remap_reset am sm =
     (let entry_count = STACK_REMAP_ENTRY_COUNT sm
      in if \<not> stack_remap_entry_count_valid am entry_count then sm
         else sm\<lparr>STACK_REMAP_TABLE :=
                 replicate (unat entry_count) 0 @ drop (unat entry_count) (STACK_REMAP_TABLE sm)\<rparr>)"

definition cp_stack_remap_configure ::
  "addr_map \<Rightarrow> sm_mmio \<Rightarrow> u64 \<Rightarrow> CpStackRemapStatus \<times> int option \<times> sm_mmio" where
  "cp_stack_remap_configure am sm stack_base =
     (let entry_count = STACK_REMAP_ENTRY_COUNT sm
      in if \<not> stack_remap_entry_count_valid am entry_count \<or>
            \<not> stack_base_is_aligned am stack_base (THREADS_PER_CORE sm)
         then (CpStackRemapInvalid, None, sm)
         else case find_index (\<lambda>e. e AND FSA_STACK_REMAP_VALID_BIT am = 0)
                     (take (unat entry_count) (STACK_REMAP_TABLE sm)) of
           None \<Rightarrow> (CpStackRemapFull, None, sm)
         | Some i \<Rightarrow> (CpStackRemapOkay, Some (int i),
                     sm\<lparr>STACK_REMAP_TABLE := (STACK_REMAP_TABLE sm)
                          [i := stack_base OR FSA_STACK_REMAP_VALID_BIT am]\<rparr>))"

definition cp_stack_remap_release :: "addr_map \<Rightarrow> sm_mmio \<Rightarrow> int \<Rightarrow> sm_mmio" where
  "cp_stack_remap_release am sm slot =
     (let entry_count = STACK_REMAP_ENTRY_COUNT sm
      in if \<not> stack_remap_entry_count_valid am entry_count \<or> slot < 0 \<or> uint entry_count \<le> slot then sm
         else sm\<lparr>STACK_REMAP_TABLE := (STACK_REMAP_TABLE sm)[nat slot := 0]\<rparr>)"

section \<open>Hardware information\<close>

definition cp_hwinfo_sm_wg_resident_limit :: "fw \<Rightarrow> nat \<Rightarrow> u64 option" where
  "cp_hwinfo_sm_wg_resident_limit s sm_id =
     (if unat (g_num_sm s) \<le> sm_id then None else Some (g_per_sm_wg_resident_limits s ! sm_id))"

definition cp_hwinfo_threads_per_core :: "fw \<Rightarrow> nat \<Rightarrow> u64 option" where
  "cp_hwinfo_threads_per_core s sm_id =
     (if unat (g_num_sm s) \<le> sm_id then None else Some (g_per_sm_threads s ! sm_id))"

definition cp_hwinfo_global_alloc_base :: "fw \<Rightarrow> u64" where
  "cp_hwinfo_global_alloc_base s = g_global_alloc_base s"

fun hwinfo_sm_loop :: "addr_map \<Rightarrow> nat list \<Rightarrow> fw \<Rightarrow> fw option" where
  "hwinfo_sm_loop am [] s = Some s"
| "hwinfo_sm_loop am (i # is) s =
     (let sm = sms s ! i;
          s' = s\<lparr>g_per_sm_threads := (g_per_sm_threads s)[i := THREADS_PER_CORE sm],
                 g_per_sm_wg_resident_limits :=
                   (g_per_sm_wg_resident_limits s)[i := WG_RESIDENT_LIMIT sm]\<rparr>
      in if THREADS_PER_CORE sm = 0 then None
         else if WG_RESIDENT_LIMIT sm = 0 then None
         else if \<not> cp_stack_remap_validate_config am sm then None
         else hwinfo_sm_loop am is s')"

definition cp_hwinfo_init :: "addr_map \<Rightarrow> fw \<Rightarrow> fw option" where
  "cp_hwinfo_init am s =
     (let si = system_info s;
          s1 = s\<lparr>g_num_sm := NUM_SM si\<rparr>;
          s2 = s1\<lparr>g_global_alloc_base := GLOBAL_ALLOC_BASE si\<rparr>
      in if ABI_VERSION si \<noteq> FSA_SYSTEM_INFO_ABI_VERSION am \<or> LENGTH_BYTES si < FSA_SYSTEM_INFO_LENGTH am
         then None
         else if NUM_SM si = 0 then None
         else if of_nat FORMOSA_MAX_NUM_SM < NUM_SM si then None
         else if GLOBAL_ALLOC_BASE si \<le> FSA_STACK_BASE am \<or>
                 FSA_GLOBAL_MEM_BASE am + FSA_GLOBAL_MEM_SIZE am \<le> GLOBAL_ALLOC_BASE si then None
         else hwinfo_sm_loop am [0..<unat (NUM_SM si)] s2)"

section \<open>Work-group info buffers\<close>

fun wgi_count_loop :: "fw \<Rightarrow> u64 \<Rightarrow> nat list \<Rightarrow> u64 \<Rightarrow> (int \<times> u64) option" where
  "wgi_count_loop s capacity [] len = Some (0, len)"
| "wgi_count_loop s capacity (i # is) len =
     (case cp_hwinfo_sm_wg_resident_limit s i of
        None \<Rightarrow> None
      | Some limit \<Rightarrow>
          if limit = 0 \<or> capacity - len < limit then Some (-1, len)
          else wgi_count_loop s capacity is (len + limit))"

fun wgi_stack_loop :: "fw \<Rightarrow> u64 \<Rightarrow> nat list \<Rightarrow> int option" where
  "wgi_stack_loop s threads_per_slot [] = Some 0"
| "wgi_stack_loop s threads_per_slot (i # is) =
     (case cp_hwinfo_threads_per_core s i of
        None \<Rightarrow> None
      | Some t \<Rightarrow> if threads_per_slot < t then Some (-1) else wgi_stack_loop s threads_per_slot is)"

definition wgi_slot_reset :: "cp_wgi_buf \<Rightarrow> cp_wgi_buf" where
  "wgi_slot_reset b = b\<lparr>wb_in_use := 0, wb_stack_remap_slot := -1\<rparr>"

definition cp_wgi_buf_init :: "addr_map \<Rightarrow> fw \<Rightarrow> (int \<times> fw) option" where
  "cp_wgi_buf_init am s =
     (if g_num_sm s = 0 \<or> of_nat FORMOSA_MAX_NUM_SM < g_num_sm s then Some (-1, s)
      else case wgi_count_loop s (of_nat (wgi_buf_capacity am)) [0..<unat (g_num_sm s)] 0 of
        None \<Rightarrow> None
      | Some (rc, len) \<Rightarrow>
          let s1 = s\<lparr>wgi_buf_len := len\<rparr> in
          if rc \<noteq> 0 then Some (-1, s1)
          else
            let threads_per_slot =
                  (cp_hwinfo_global_alloc_base s - FSA_STACK_BASE am) div
                    FSA_PER_THREAD_STACK_SIZE am div len
            in case wgi_stack_loop s threads_per_slot [0..<unat (g_num_sm s)] of
                 None \<Rightarrow> None
               | Some rc' \<Rightarrow>
                   if rc' \<noteq> 0 then Some (-1, s1)
                   else Some (0, s1\<lparr>wgi_buf := map wgi_slot_reset (take (unat len) (wgi_buf s)) @
                                               drop (unat len) (wgi_buf s)\<rparr>))"

definition cp_wgi_buf_alloc :: "fw \<Rightarrow> int \<times> fw" where
  "cp_wgi_buf_alloc s =
     (case find_index (\<lambda>b. wb_in_use b = 0) (take (unat (wgi_buf_len s)) (wgi_buf s)) of
        None \<Rightarrow> (-1, s)
      | Some i \<Rightarrow> (int i, upd_wgi i (\<lambda>b. b\<lparr>wb_in_use := 1, wb_stack_remap_slot := -1\<rparr>) s))"

definition cp_wgi_buf_free :: "nat \<Rightarrow> fw \<Rightarrow> fw" where
  "cp_wgi_buf_free i s = upd_wgi i (\<lambda>b. b\<lparr>wb_stack_remap_slot := -1, wb_in_use := 0\<rparr>) s"

section \<open>Kernel states\<close>

definition cp_kernel_state_buf_alloc :: "fw \<Rightarrow> int" where
  "cp_kernel_state_buf_alloc s =
     (case find_index (\<lambda>k. ks_in_use k = 0) (kernel_state_buf s) of None \<Rightarrow> -1 | Some i \<Rightarrow> int i)"

definition cp_kernel_state_buf_free :: "nat \<Rightarrow> fw \<Rightarrow> fw" where
  "cp_kernel_state_buf_free k s = upd_kstate k (\<lambda>ks. ks\<lparr>ks_in_use := 0\<rparr>) s"

section \<open>The pools\<close>

text \<open>Claiming as its callers do it: the scan and, where the scan does not, the store that takes the slot.\<close>

definition kernel_state_claim :: "fw \<Rightarrow> (nat \<times> fw) option" where
  "kernel_state_claim s =
     (let k = cp_kernel_state_buf_alloc s
      in if k < 0 then None else Some (nat k, upd_kstate (nat k) (\<lambda>ks. ks\<lparr>ks_in_use := 1\<rparr>) s))"

definition wgi_claim :: "fw \<Rightarrow> (nat \<times> fw) option" where
  "wgi_claim s = (case cp_wgi_buf_alloc s of (i, s') \<Rightarrow> if i < 0 then None else Some (nat i, s'))"

definition remap_claim :: "addr_map \<Rightarrow> u64 \<Rightarrow> sm_mmio \<Rightarrow> (nat \<times> sm_mmio) option" where
  "remap_claim am stack_base sm =
     (case cp_stack_remap_configure am sm stack_base of
        (st, slot, sm') \<Rightarrow> (case slot of None \<Rightarrow> None | Some i \<Rightarrow> Some (nat i, sm')))"

interpretation kernel_pool: slot_pool
  "\<lambda>s. True" "\<lambda>s. length (kernel_state_buf s)" "\<lambda>s i. ks_in_use (kernel_state_buf s ! i) \<noteq> 0"
  kernel_state_claim cp_kernel_state_buf_free
proof
  fix s :: fw and i j :: nat and s'
  { assume c: "kernel_state_claim s = Some (i, s')"
    then obtain k where k: "find_index (\<lambda>k. ks_in_use k = 0) (kernel_state_buf s) = Some k"
      by (auto simp: kernel_state_claim_def cp_kernel_state_buf_alloc_def Let_def split: option.splits if_splits)
    with c have i: "i = k" and s': "s' = upd_kstate k (\<lambda>ks. ks\<lparr>ks_in_use := 1\<rparr>) s"
      by (auto simp: kernel_state_claim_def cp_kernel_state_buf_alloc_def Let_def)
    note f = k [unfolded find_index_Some]
    show "True \<and> length (kernel_state_buf s') = length (kernel_state_buf s)" by (simp add: s')
    show "i < length (kernel_state_buf s) \<and> \<not> ks_in_use (kernel_state_buf s ! i) \<noteq> 0 \<and>
        (\<forall>j < length (kernel_state_buf s). (ks_in_use (kernel_state_buf s' ! j) \<noteq> 0) =
          (j = i \<or> ks_in_use (kernel_state_buf s ! j) \<noteq> 0))"
      using f by (auto simp: s' i nth_list_update)
    show "j < i \<Longrightarrow> ks_in_use (kernel_state_buf s ! j) \<noteq> 0" using f by (auto simp: i) }
  show "ks_in_use (kernel_state_buf s ! i) \<noteq> 0"
    if "kernel_state_claim s = None" "i < length (kernel_state_buf s)"
    using that by (auto simp: kernel_state_claim_def cp_kernel_state_buf_alloc_def Let_def
        find_index_from_None split: option.splits)
qed (auto simp: cp_kernel_state_buf_free_def nth_list_update)

interpretation wgi_pool: slot_pool
  "\<lambda>s. unat (wgi_buf_len s) \<le> length (wgi_buf s)" "\<lambda>s. unat (wgi_buf_len s)"
  "\<lambda>s i. wb_in_use (wgi_buf s ! i) \<noteq> 0" wgi_claim cp_wgi_buf_free
proof
  fix s :: fw and i j :: nat and s'
  assume inv: "unat (wgi_buf_len s) \<le> length (wgi_buf s)"
  { assume c: "wgi_claim s = Some (i, s')"
    then obtain k where k: "find_index (\<lambda>b. wb_in_use b = 0) (take (unat (wgi_buf_len s)) (wgi_buf s)) = Some k"
      by (auto simp: wgi_claim_def cp_wgi_buf_alloc_def split: option.splits if_splits)
    with c have i: "i = k" and s': "s' = upd_wgi k (\<lambda>b. b\<lparr>wb_in_use := 1, wb_stack_remap_slot := -1\<rparr>) s"
      by (auto simp: wgi_claim_def cp_wgi_buf_alloc_def)
    have f: "k < unat (wgi_buf_len s)" "k < length (wgi_buf s)" "wb_in_use (wgi_buf s ! k) = 0"
      "\<forall>j < k. wb_in_use (wgi_buf s ! j) \<noteq> 0"
      using k inv by (auto simp: find_index_Some)
    show "unat (wgi_buf_len s') \<le> length (wgi_buf s') \<and> unat (wgi_buf_len s') = unat (wgi_buf_len s)"
      using inv by (simp add: s')
    show "i < unat (wgi_buf_len s) \<and> \<not> wb_in_use (wgi_buf s ! i) \<noteq> 0 \<and>
        (\<forall>j < unat (wgi_buf_len s). (wb_in_use (wgi_buf s' ! j) \<noteq> 0) = (j = i \<or> wb_in_use (wgi_buf s ! j) \<noteq> 0))"
      using f inv by (auto simp: s' i nth_list_update)
    show "j < i \<Longrightarrow> wb_in_use (wgi_buf s ! j) \<noteq> 0" using f by (auto simp: i) }
  show "wb_in_use (wgi_buf s ! i) \<noteq> 0" if "wgi_claim s = None" "i < unat (wgi_buf_len s)"
  proof -
    have "find_index (\<lambda>b. wb_in_use b = 0) (take (unat (wgi_buf_len s)) (wgi_buf s)) = None"
      using that(1) by (auto simp: wgi_claim_def cp_wgi_buf_alloc_def split: option.splits)
    then have "\<forall>b \<in> set (take (unat (wgi_buf_len s)) (wgi_buf s)). wb_in_use b \<noteq> 0"
      by (simp add: find_index_from_None)
    moreover have "wgi_buf s ! i \<in> set (take (unat (wgi_buf_len s)) (wgi_buf s))"
      using that(2) inv by (auto simp: in_set_conv_nth intro!: exI [of _ i])
    ultimately show ?thesis by blast
  qed
qed (auto simp: cp_wgi_buf_free_def nth_list_update)

definition remap_table_ok :: "addr_map \<Rightarrow> u64 \<Rightarrow> sm_mmio \<Rightarrow> bool" where
  "remap_table_ok am stack_base sm \<longleftrightarrow>
     stack_remap_entry_count_valid am (STACK_REMAP_ENTRY_COUNT sm) \<and>
     length (STACK_REMAP_TABLE sm) = unat (FSA_SM_STACK_REMAP_MAX_ENTRIES am) \<and>
     FSA_STACK_REMAP_VALID_BIT am \<noteq> 0 \<and> stack_base_is_aligned am stack_base (THREADS_PER_CORE sm)"

lemma remap_table_len:
  "remap_table_ok am sb sm \<Longrightarrow> unat (STACK_REMAP_ENTRY_COUNT sm) \<le> length (STACK_REMAP_TABLE sm)"
  by (simp add: remap_table_ok_def stack_remap_entry_count_valid_def word_le_iff_unat)

interpretation remap_pool: slot_pool
  "remap_table_ok am stack_base" "\<lambda>sm. unat (STACK_REMAP_ENTRY_COUNT sm)"
  "\<lambda>sm i. (STACK_REMAP_TABLE sm ! i) AND FSA_STACK_REMAP_VALID_BIT am \<noteq> 0"
  "remap_claim am stack_base" "\<lambda>i sm. cp_stack_remap_release am sm (int i)"
proof
  fix sm :: sm_mmio and i j :: nat and sm'
  assume inv: "remap_table_ok am stack_base sm"
  let ?V = "FSA_STACK_REMAP_VALID_BIT am" and ?n = "unat (STACK_REMAP_ENTRY_COUNT sm)"
  have v: "(stack_base OR ?V) AND ?V \<noteq> 0"
  proof -
    have "(stack_base OR ?V) AND ?V = ?V" by (rule bit_word_eqI) (auto simp: bit_simps)
    with inv show ?thesis by (simp add: remap_table_ok_def)
  qed
  note len = remap_table_len [OF inv]
  { assume c: "remap_claim am stack_base sm = Some (i, sm')"
    then obtain k where k: "find_index (\<lambda>e. e AND ?V = 0) (take ?n (STACK_REMAP_TABLE sm)) = Some k"
      by (auto simp: remap_claim_def cp_stack_remap_configure_def Let_def split: option.splits if_splits)
    with c inv have i: "i = k" and sm': "sm' = sm\<lparr>STACK_REMAP_TABLE := (STACK_REMAP_TABLE sm)[k := stack_base OR ?V]\<rparr>"
      by (auto simp: remap_claim_def cp_stack_remap_configure_def Let_def remap_table_ok_def)
    have f: "k < ?n" "k < length (STACK_REMAP_TABLE sm)" "STACK_REMAP_TABLE sm ! k AND ?V = 0"
      "\<forall>j < k. STACK_REMAP_TABLE sm ! j AND ?V \<noteq> 0"
      using k len by (auto simp: find_index_Some)
    show "remap_table_ok am stack_base sm' \<and> unat (STACK_REMAP_ENTRY_COUNT sm') = ?n"
      using inv by (simp add: sm' remap_table_ok_def)
    show "i < ?n \<and> \<not> STACK_REMAP_TABLE sm ! i AND ?V \<noteq> 0 \<and>
        (\<forall>j < ?n. (STACK_REMAP_TABLE sm' ! j AND ?V \<noteq> 0) = (j = i \<or> STACK_REMAP_TABLE sm ! j AND ?V \<noteq> 0))"
      using f v len by (auto simp: sm' i nth_list_update)
    show "j < i \<Longrightarrow> STACK_REMAP_TABLE sm ! j AND ?V \<noteq> 0" using f by (auto simp: i) }
  show "STACK_REMAP_TABLE sm ! i AND ?V \<noteq> 0" if "remap_claim am stack_base sm = None" "i < ?n"
  proof -
    have "find_index (\<lambda>e. e AND ?V = 0) (take ?n (STACK_REMAP_TABLE sm)) = None"
      using that(1) inv by (auto simp: remap_claim_def cp_stack_remap_configure_def Let_def
          remap_table_ok_def split: option.splits)
    then have "\<forall>e \<in> set (take ?n (STACK_REMAP_TABLE sm)). e AND ?V \<noteq> 0"
      by (simp add: find_index_from_None)
    moreover have "STACK_REMAP_TABLE sm ! i \<in> set (take ?n (STACK_REMAP_TABLE sm))"
      using that(2) len by (auto simp: in_set_conv_nth intro!: exI [of _ i])
    ultimately show ?thesis by blast
  qed
  assume i: "i < ?n"
  have "int ?n = uint (STACK_REMAP_ENTRY_COUNT sm)" by simp
  with i have nle: "\<not> uint (STACK_REMAP_ENTRY_COUNT sm) \<le> int i" by linarith
  then have r: "cp_stack_remap_release am sm (int i) = sm\<lparr>STACK_REMAP_TABLE := (STACK_REMAP_TABLE sm)[i := 0]\<rparr>"
    using inv by (simp add: cp_stack_remap_release_def Let_def remap_table_ok_def)
  show "remap_table_ok am stack_base (cp_stack_remap_release am sm (int i)) \<and>
      unat (STACK_REMAP_ENTRY_COUNT (cp_stack_remap_release am sm (int i))) = ?n"
    using inv by (simp add: r remap_table_ok_def)
  show "j < ?n \<Longrightarrow> (STACK_REMAP_TABLE (cp_stack_remap_release am sm (int i)) ! j AND ?V \<noteq> 0) =
      (j \<noteq> i \<and> STACK_REMAP_TABLE sm ! j AND ?V \<noteq> 0)"
    using i len by (auto simp: r nth_list_update)
qed

section \<open>What a successful boot guarantees\<close>

definition hwinfo_ok :: "addr_map \<Rightarrow> fw \<Rightarrow> bool" where
  "hwinfo_ok am s \<longleftrightarrow>
     0 < unat (g_num_sm s) \<and> unat (g_num_sm s) \<le> FORMOSA_MAX_NUM_SM \<and>
     FSA_STACK_BASE am < g_global_alloc_base s \<and>
     g_global_alloc_base s < FSA_GLOBAL_MEM_BASE am + FSA_GLOBAL_MEM_SIZE am \<and>
     (\<forall>i < unat (g_num_sm s).
        g_per_sm_threads s ! i = THREADS_PER_CORE (sms s ! i) \<and>
        g_per_sm_wg_resident_limits s ! i = WG_RESIDENT_LIMIT (sms s ! i) \<and>
        THREADS_PER_CORE (sms s ! i) \<noteq> 0 \<and> WG_RESIDENT_LIMIT (sms s ! i) \<noteq> 0 \<and>
        cp_stack_remap_validate_config am (sms s ! i))"

definition sm_arrays_ok :: "fw \<Rightarrow> bool" where
  "sm_arrays_ok s \<longleftrightarrow> length (g_per_sm_threads s) = FORMOSA_MAX_NUM_SM \<and>
     length (g_per_sm_wg_resident_limits s) = FORMOSA_MAX_NUM_SM"

lemma hwinfo_sm_loop_Some:
  assumes "hwinfo_sm_loop am is s = Some s'" and "sm_arrays_ok s" and "\<forall>i \<in> set is. i < FORMOSA_MAX_NUM_SM"
  shows "sms s' = sms s \<and> g_num_sm s' = g_num_sm s \<and> g_global_alloc_base s' = g_global_alloc_base s \<and>
         sm_arrays_ok s' \<and> wgi_buf s' = wgi_buf s \<and>
         (\<forall>i \<in> set is. g_per_sm_threads s' ! i = THREADS_PER_CORE (sms s ! i) \<and>
            g_per_sm_wg_resident_limits s' ! i = WG_RESIDENT_LIMIT (sms s ! i) \<and>
            THREADS_PER_CORE (sms s ! i) \<noteq> 0 \<and> WG_RESIDENT_LIMIT (sms s ! i) \<noteq> 0 \<and>
            cp_stack_remap_validate_config am (sms s ! i)) \<and>
         (\<forall>i. i \<notin> set is \<longrightarrow> g_per_sm_threads s' ! i = g_per_sm_threads s ! i \<and>
            g_per_sm_wg_resident_limits s' ! i = g_per_sm_wg_resident_limits s ! i)"
  using assms
proof (induction "is" arbitrary: s)
  case Nil
  then show ?case by simp
next
  case (Cons k ks)
  let ?s = "s\<lparr>g_per_sm_threads := (g_per_sm_threads s)[k := THREADS_PER_CORE (sms s ! k)],
      g_per_sm_wg_resident_limits := (g_per_sm_wg_resident_limits s)[k := WG_RESIDENT_LIMIT (sms s ! k)]\<rparr>"
  have k: "k < length (g_per_sm_threads s)" "k < length (g_per_sm_wg_resident_limits s)"
    using Cons.prems(2,3) by (simp_all add: sm_arrays_ok_def)
  have ok: "hwinfo_sm_loop am ks ?s = Some s'" "THREADS_PER_CORE (sms s ! k) \<noteq> 0"
    "WG_RESIDENT_LIMIT (sms s ! k) \<noteq> 0" "cp_stack_remap_validate_config am (sms s ! k)"
    using Cons.prems(1) by (auto simp: Let_def split: if_splits)
  have "sm_arrays_ok ?s" using Cons.prems(2) by (simp add: sm_arrays_ok_def)
  with Cons.IH [of ?s] ok(1) Cons.prems(3) k ok(2-4) show ?case
    by (cases "k \<in> set ks") (auto simp: nth_list_update)
qed

lemma cp_hwinfo_init_ok:
  assumes "cp_hwinfo_init am s = Some s'" and "sm_arrays_ok s"
  shows "hwinfo_ok am s'" and "sm_arrays_ok s'" and "sms s' = sms s" and "wgi_buf s' = wgi_buf s"
proof -
  let ?si = "system_info s"
  let ?s2 = "s\<lparr>g_num_sm := NUM_SM ?si\<rparr>\<lparr>g_global_alloc_base := GLOBAL_ALLOC_BASE ?si\<rparr>"
  have lp: "hwinfo_sm_loop am [0..<unat (NUM_SM ?si)] ?s2 = Some s'" and n0: "NUM_SM ?si \<noteq> 0"
    and n16: "NUM_SM ?si \<le> of_nat FORMOSA_MAX_NUM_SM"
    and b: "FSA_STACK_BASE am < GLOBAL_ALLOC_BASE ?si"
      "GLOBAL_ALLOC_BASE ?si < FSA_GLOBAL_MEM_BASE am + FSA_GLOBAL_MEM_SIZE am"
    using assms(1) by (auto simp: cp_hwinfo_init_def Let_def not_le split: if_splits)
  have n: "unat (NUM_SM ?si) \<le> FORMOSA_MAX_NUM_SM" "0 < unat (NUM_SM ?si)"
    using n16 n0 by (simp_all add: FORMOSA_MAX_NUM_SM_def word_le_iff_unat unat_pos_iff)
  have ok2: "sm_arrays_ok ?s2" using assms(2) by (simp add: sm_arrays_ok_def)
  have "\<forall>i \<in> set [0..<unat (NUM_SM ?si)]. i < FORMOSA_MAX_NUM_SM" using n by simp
  note r = hwinfo_sm_loop_Some [OF lp ok2 this]
  from r show "sm_arrays_ok s'" "sms s' = sms s" "wgi_buf s' = wgi_buf s" by simp_all
  from r n b show "hwinfo_ok am s'" unfolding hwinfo_ok_def by simp
qed

lemma wgi_count_loop_Some:
  assumes "wgi_count_loop s c is len = Some (0, len')" and "unat len \<le> unat c"
  shows "unat len' = unat len + (\<Sum>i\<leftarrow>is. unat (g_per_sm_wg_resident_limits s ! i)) \<and>
         unat len' \<le> unat c \<and> unat len + length is \<le> unat len'"
  using assms
proof (induction "is" arbitrary: len)
  case Nil
  then show ?case by simp
next
  case (Cons i ks)
  let ?l = "g_per_sm_wg_resident_limits s ! i"
  from Cons.prems(1) have lp: "wgi_count_loop s c ks (len + ?l) = Some (0, len')"
    and l: "?l \<noteq> 0" "?l \<le> c - len"
    by (auto simp: cp_hwinfo_sm_wg_resident_limit_def split: if_splits)
  have "len \<le> c" using Cons.prems(2) by (simp add: word_le_iff_unat)
  then have le: "unat len + unat ?l \<le> unat c" using l(2) Cons.prems(2) by (simp add: word_le_iff_unat unat_sub_le)
  then have e: "unat (len + ?l) = unat len + unat ?l"
    using unat_lt64 [of c] by (intro unat_add_no_wrap) simp
  have "0 < unat ?l" using l(1) by (simp add: unat_pos_iff)
  with Cons.IH [OF lp] le e show ?case by simp
qed

lemma wgi_stack_loop_Some:
  "wgi_stack_loop s t is = Some 0 \<Longrightarrow> i \<in> set is \<Longrightarrow> g_per_sm_threads s ! i \<le> t"
  by (induction "is") (auto simp: cp_hwinfo_threads_per_core_def split: if_splits)

lemma stride_disjoint: "k \<noteq> k' \<Longrightarrow> cells (a + k * d, d) \<inter> cells (a + k' * d, d) = {}"
proof -
  have "cells (a + k * d, d) \<inter> cells (a + k' * d, d) = {}" if "k < k'" for k k' :: nat
  proof -
    have "Suc k * d \<le> k' * d" using that by (intro mult_le_mono1) simp
    then show ?thesis by (auto simp: cells_def)
  qed
  then show "k \<noteq> k' \<Longrightarrow> ?thesis" by (metis Int_commute linorder_neqE_nat)
qed

text \<open>The stack region that dispatch gives to slot \<open>wbid\<close> on an SM with \<open>t\<close> threads.\<close>

definition wg_slot_stack_base :: "addr_map \<Rightarrow> u64 \<Rightarrow> nat \<Rightarrow> u64" where
  "wg_slot_stack_base am t wbid = FSA_STACK_BASE am + of_nat wbid * t * FSA_PER_THREAD_STACK_SIZE am"

definition wg_slot_stack :: "addr_map \<Rightarrow> u64 \<Rightarrow> nat \<Rightarrow> region" where
  "wg_slot_stack am t wbid =
     (unat (wg_slot_stack_base am t wbid), unat t * unat (FSA_PER_THREAD_STACK_SIZE am))"

lemma wgi_init_Some:
  assumes "cp_wgi_buf_init am s = Some (0, s')" and "wgi_buf_capacity am < 2 ^ 64"
  shows "unat (wgi_buf_len s') = (\<Sum>i\<leftarrow>[0..<unat (g_num_sm s)]. unat (g_per_sm_wg_resident_limits s ! i))"
    and "unat (wgi_buf_len s') \<le> wgi_buf_capacity am" and "unat (g_num_sm s) \<le> unat (wgi_buf_len s')"
    and "\<forall>i < unat (g_num_sm s). g_per_sm_threads s ! i \<le>
           (g_global_alloc_base s - FSA_STACK_BASE am) div FSA_PER_THREAD_STACK_SIZE am div wgi_buf_len s'"
    and "\<exists>len. s' = s\<lparr>wgi_buf_len := len, wgi_buf := map wgi_slot_reset (take (unat len) (wgi_buf s)) @
                        drop (unat len) (wgi_buf s)\<rparr>"
    and "g_num_sm s \<noteq> 0"
proof -
  obtain len where c: "wgi_count_loop s (of_nat (wgi_buf_capacity am)) [0..<unat (g_num_sm s)] 0 = Some (0, len)"
    and st: "wgi_stack_loop s ((cp_hwinfo_global_alloc_base s - FSA_STACK_BASE am) div
        FSA_PER_THREAD_STACK_SIZE am div len) [0..<unat (g_num_sm s)] = Some 0"
    and s': "s' = s\<lparr>wgi_buf_len := len, wgi_buf := map wgi_slot_reset (take (unat len) (wgi_buf s)) @
                        drop (unat len) (wgi_buf s)\<rparr>" and n0: "g_num_sm s \<noteq> 0"
    using assms(1)
    by (auto simp: cp_wgi_buf_init_def Let_def split: option.splits prod.splits if_splits)
  have cap: "unat (of_nat (wgi_buf_capacity am) :: u64) = wgi_buf_capacity am"
    using assms(2) by (intro unat_of_nat_lt) simp
  show "g_num_sm s \<noteq> 0" by (rule n0)
  from wgi_count_loop_Some [OF c] cap s'
  show "unat (wgi_buf_len s') = (\<Sum>i\<leftarrow>[0..<unat (g_num_sm s)]. unat (g_per_sm_wg_resident_limits s ! i))"
    "unat (wgi_buf_len s') \<le> wgi_buf_capacity am" "unat (g_num_sm s) \<le> unat (wgi_buf_len s')"
    by simp_all
  show "\<forall>i < unat (g_num_sm s). g_per_sm_threads s ! i \<le>
           (g_global_alloc_base s - FSA_STACK_BASE am) div FSA_PER_THREAD_STACK_SIZE am div wgi_buf_len s'"
    using wgi_stack_loop_Some [OF st] by (simp add: s' cp_hwinfo_global_alloc_base_def)
  show "\<exists>len. s' = s\<lparr>wgi_buf_len := len, wgi_buf := map wgi_slot_reset (take (unat len) (wgi_buf s)) @
                        drop (unat len) (wgi_buf s)\<rparr>" using s' by blast
qed

lemma slot_stack_fits:
  assumes t: "t \<le> (base - FSA_STACK_BASE am) div FSA_PER_THREAD_STACK_SIZE am div len"
    and b: "FSA_STACK_BASE am < base" and w: "w < unat len"
  shows "unat (FSA_STACK_BASE am) + (w + 1) * (unat t * unat (FSA_PER_THREAD_STACK_SIZE am)) \<le> unat base"
    and "unat (wg_slot_stack_base am t w) =
           unat (FSA_STACK_BASE am) + w * (unat t * unat (FSA_PER_THREAD_STACK_SIZE am))"
proof -
  let ?S = "unat (FSA_STACK_BASE am)" and ?Z = "unat (FSA_PER_THREAD_STACK_SIZE am)" and ?L = "unat len"
  have sub: "unat (base - FSA_STACK_BASE am) = unat base - ?S"
    using b by (intro unat_sub_le) simp
  have "unat t \<le> (unat base - ?S) div ?Z div ?L"
    using t by (simp add: word_le_iff_unat unat_div sub)
  then have "unat t * ?L \<le> (unat base - ?S) div ?Z"
    by (meson div_times_less_eq_dividend le_trans mult_le_mono1)
  then have "unat t * ?L * ?Z \<le> unat base - ?S"
    by (meson div_times_less_eq_dividend le_trans mult_le_mono1)
  moreover have "(w + 1) * (unat t * ?Z) \<le> unat t * ?L * ?Z"
  proof -
    have "(w + 1) * (unat t * ?Z) \<le> ?L * (unat t * ?Z)" using w by (intro mult_le_mono1) simp
    then show ?thesis by (simp add: ac_simps)
  qed
  moreover have "?S < unat base" using b by (simp add: word_less_iff_unat)
  ultimately show fit: "?S + (w + 1) * (unat t * ?Z) \<le> unat base" by linarith
  then have lt: "?S + w * (unat t * ?Z) < 2 ^ 64" using unat_lt64 [of base] by simp
  have "wg_slot_stack_base am t w = of_nat (?S + w * (unat t * ?Z))"
    by (simp add: wg_slot_stack_base_def ac_simps)
  then show "unat (wg_slot_stack_base am t w) = ?S + w * (unat t * ?Z)"
    using unat_of_nat_lt [of "?S + w * (unat t * ?Z)", where ?'a = 64] lt by simp
qed

section \<open>Properties\<close>

text \<open>One SM with 32 threads and four resident work-groups, and the boot state around it.\<close>

definition demo_sm :: sm_mmio where
  "demo_sm = \<lparr>ENQ_VALID = 0, ENQ_KERNEL_PC = 0, ENQ_INFO_PTR = 0, ENQ_NUM_THREADS = 0, DEQ_VALID = 0,
     DEQ_STATUS = 0, DEQ_KERNEL_PC = 0, DEQ_INFO_PTR = 0, DEQ_MCAUSE = 0, DEQ_MEPC = 0, DEQ_MTVAL = 0,
     WG_RESIDENT_LIMIT = 4, ICACHE_CONTROL_START = 0, ICACHE_CONTROL_ADDR = 0, ICACHE_CONTROL_SIZE = 0,
     ICACHE_CONTROL_MODE = 0, DCACHE_CONTROL_START = 0, DCACHE_CONTROL_ADDR = 0, DCACHE_CONTROL_SIZE = 0,
     DCACHE_CONTROL_MODE = 0, THREADS_PER_CORE = 32, STACK_REMAP_ENTRY_COUNT = 8,
     STACK_REMAP_GROUP_SIZE = 4, STACK_REMAP_TABLE = replicate 8 0\<rparr>"

definition demo_wgi_buf :: cp_wgi_buf where
  "demo_wgi_buf = \<lparr>wb_wginfo = zero_wginfo, wb_in_use = 0, wb_wbid = 0, wb_kid = 0, wb_smid = 0,
     wb_stack_remap_slot = -1, wb_kernel_status_ptr = 0\<rparr>"

definition demo_dma :: dma_mmio where
  "demo_dma = \<lparr>dma_START = 0, dma_ADDR0 = 0, dma_ADDR1 = 0, dma_SIZE = 0, dma_STATUS = 0\<rparr>"

definition demo_kernel_state :: cp_kernel_state where
  "demo_kernel_state = \<lparr>ks_completion_token = 0, ks_in_use = 0, ks_wg_left = 0, ks_result = 0,
     ks_status = zero_kernel_status\<rparr>"

definition demo_fw :: fw where
  "demo_fw = \<lparr>
     cp = \<lparr>CP_RESET = 0, CP_FW_HOST_ADDR = 0, CP_FW_SIZE = 0, CP_CMD_RING_BASE = 0, CP_CMD_SIZE = 64,
           CP_CMD_RING_SIZE = 4, CP_RD_PTR = 0, CP_WR_PTR = 0, FW_STATUS = 0, FW_ABI_VERSION = 0,
           FW_BOOT_GENERATION = 0, FW_FAULT_CODE = 0\<rparr>,
     system_info = \<lparr>ABI_VERSION = 1, LENGTH_BYTES = 0x48, NUM_SM = 2, GLOBAL_ALLOC_BASE = 0x82000000\<rparr>,
     sms = [demo_sm, demo_sm], host_dma = demo_dma, device_dma = demo_dma,
     completion_pool = replicate 64 0, cmd_ring = replicate 4 (replicate 64 0), mem = (\<lambda>_. 0),
     g_num_sm = 0, g_global_alloc_base = 0, g_per_sm_threads = replicate 16 0,
     g_per_sm_wg_resident_limits = replicate 16 0, kernel_state_buf = replicate 4 demo_kernel_state,
     memory_copy_state = \<lparr>mcs_active = 0, mcs_phase = MemoryCopyPhaseIdle, mcs_src_domain = 0,
        mcs_dst_domain = 0, mcs_src_addr = 0, mcs_dst_addr = 0, mcs_size = 0, mcs_completion_token = 0,
        mcs_phase_started_tick = 0\<rparr>,
     wgi_buf = replicate 8 demo_wgi_buf, wgi_buf_len = 0,
     g_lmem_allocators = replicate 16 (lmem_deinit_one (lmem_init_one small_addr_map 0)),
     cache_state = \<lparr>cs_pending = 0, cs_started = 0, cs_targets = 0, cs_completion_token = 0\<rparr>,
     boot_generation = 0, status = FsaFirmwareStatusReset, reboot_requested = 0, prev_sm_id = 0,
     tick_count = 0\<rparr>"

definition demo_boot :: fw where
  "demo_boot = the (cp_hwinfo_init small_addr_map demo_fw)"

lemma demo_arrays: "sm_arrays_ok demo_fw"
  by (simp add: sm_arrays_ok_def demo_fw_def FORMOSA_MAX_NUM_SM_def)

lemma demo_hwinfo_init: "cp_hwinfo_init small_addr_map demo_fw = Some demo_boot"
proof -
  have "cp_hwinfo_init small_addr_map demo_fw \<noteq> None" by code_simp
  then show ?thesis by (simp add: demo_boot_def)
qed

text \<open>
  When hardware discovery and the initialisation of the work-group buffers succeed, there
  is one slot per resident work-group of every SM, they fit the buffer, and the stack region that
  dispatch computes for any slot on any SM lies between the stack base and the first global
  allocation, without wrap-around; on SMs with equally many threads the stacks of different
  slots are disjoint.
\<close>

lemma boot_slots_and_stacks:
  assumes "cp_hwinfo_init am s = Some s1" and "sm_arrays_ok s"
    and "cp_wgi_buf_init am s1 = Some (0, s2)" and "wgi_buf_capacity am < 2 ^ 64"
  shows "unat (wgi_buf_len s2) = (\<Sum>i\<leftarrow>[0..<unat (g_num_sm s2)]. unat (WG_RESIDENT_LIMIT (sms s ! i))) \<and>
    unat (wgi_buf_len s2) \<le> wgi_buf_capacity am \<and>
    (\<forall>sm < unat (g_num_sm s2). \<forall>w < unat (wgi_buf_len s2).
       let r = wg_slot_stack am (THREADS_PER_CORE (sms s ! sm)) w
       in unat (FSA_STACK_BASE am) \<le> fst r \<and> fst r + snd r \<le> unat (g_global_alloc_base s2)) \<and>
    (\<forall>sm < unat (g_num_sm s2). \<forall>w < unat (wgi_buf_len s2). \<forall>w' < unat (wgi_buf_len s2). w \<noteq> w' \<longrightarrow>
       cells (wg_slot_stack am (THREADS_PER_CORE (sms s ! sm)) w) \<inter>
       cells (wg_slot_stack am (THREADS_PER_CORE (sms s ! sm)) w') = {})"
proof -
  note h = cp_hwinfo_init_ok [OF assms(1,2)] and w = wgi_init_Some [OF assms(3,4)]
  obtain len where s2: "s2 = s1\<lparr>wgi_buf_len := len, wgi_buf := map wgi_slot_reset (take (unat len) (wgi_buf s1)) @
                        drop (unat len) (wgi_buf s1)\<rparr>" using w(5) by blast
  then have eq: "g_num_sm s2 = g_num_sm s1" "g_global_alloc_base s2 = g_global_alloc_base s1" by simp_all
  have reg: "\<forall>i < unat (g_num_sm s1). g_per_sm_threads s1 ! i = THREADS_PER_CORE (sms s ! i) \<and>
      g_per_sm_wg_resident_limits s1 ! i = WG_RESIDENT_LIMIT (sms s ! i)"
    and b: "FSA_STACK_BASE am < g_global_alloc_base s1"
    using h(1,3) by (simp_all add: hwinfo_ok_def)
  have sum: "unat (wgi_buf_len s2) = (\<Sum>i\<leftarrow>[0..<unat (g_num_sm s2)]. unat (WG_RESIDENT_LIMIT (sms s ! i)))"
    unfolding w(1) eq using reg by (intro arg_cong [where f = sum_list] map_cong) auto
  let ?Z = "\<lambda>sm. unat (THREADS_PER_CORE (sms s ! sm)) * unat (FSA_PER_THREAD_STACK_SIZE am)"
  have fit: "unat (FSA_STACK_BASE am) + k * ?Z sm + ?Z sm \<le> unat (g_global_alloc_base s1) \<and>
      unat (wg_slot_stack_base am (THREADS_PER_CORE (sms s ! sm)) k) = unat (FSA_STACK_BASE am) + k * ?Z sm"
    if sm: "sm < unat (g_num_sm s1)" and k: "k < unat (wgi_buf_len s2)" for sm k
  proof -
    have "THREADS_PER_CORE (sms s ! sm) \<le>
        (g_global_alloc_base s1 - FSA_STACK_BASE am) div FSA_PER_THREAD_STACK_SIZE am div wgi_buf_len s2"
      using w(4) reg sm by (metis)
    from slot_stack_fits [OF this b k] show ?thesis by simp
  qed
  have below: "\<forall>sm < unat (g_num_sm s2). \<forall>w < unat (wgi_buf_len s2).
       let r = wg_slot_stack am (THREADS_PER_CORE (sms s ! sm)) w
       in unat (FSA_STACK_BASE am) \<le> fst r \<and> fst r + snd r \<le> unat (g_global_alloc_base s2)"
    using fit by (simp add: Let_def wg_slot_stack_def eq)
  have "\<forall>sm < unat (g_num_sm s2). \<forall>w < unat (wgi_buf_len s2). \<forall>w' < unat (wgi_buf_len s2). w \<noteq> w' \<longrightarrow>
       cells (wg_slot_stack am (THREADS_PER_CORE (sms s ! sm)) w) \<inter>
       cells (wg_slot_stack am (THREADS_PER_CORE (sms s ! sm)) w') = {}"
    using fit by (simp add: wg_slot_stack_def eq stride_disjoint)
  with sum w(2) below show ?thesis by blast
qed

text \<open>
  With different numbers of threads per SM the slots' stacks are not disjoint: slot 1 of an SM
  with 32 threads and slot 2 of an SM with 16 threads start at the same address.
\<close>

lemma slot_stacks_overlap_heterogeneous:
  "cells (wg_slot_stack small_addr_map 32 1) \<inter> cells (wg_slot_stack small_addr_map 16 2) \<noteq> {}"
proof -
  have "fst (wg_slot_stack small_addr_map 32 1) = fst (wg_slot_stack small_addr_map 16 2)"
    "0 < snd (wg_slot_stack small_addr_map 32 1)" "0 < snd (wg_slot_stack small_addr_map 16 2)"
    by (simp_all add: wg_slot_stack_def wg_slot_stack_base_def small_addr_map_def default_addr_map_def)
  then show ?thesis using base_in_cells by (metis disjoint_iff)
qed

end
