(* ===== verification/Fw_Completion.thy ===== *)
theory Fw_Completion
  imports Fw_Hwinfo
begin

text \<open>
  Firmware status and completion publication: \<^verbatim>\<open>fw/cp_status.c\<close> and \<^verbatim>\<open>fw/cp_completion.h\<close>. The relation
  \<open>completion_advance\<close> is what the rest of the firmware may do to the completion pool: a slot
  either stays as it is, or goes from pending to a result under the same allocation tag.
\<close>

section \<open>Status registers\<close>

definition FSA_COMMAND_ABI_VERSION_V3 :: u64 where
  "FSA_COMMAND_ABI_VERSION_V3 = 3"

definition cp_firmware_status_booting :: "fw \<Rightarrow> fw" where
  "cp_firmware_status_booting s =
     (let previous_generation = FW_BOOT_GENERATION (cp s);
          g1 = (if previous_generation = UINT64_MAX then 1 else previous_generation + 1);
          g2 = (if g1 = 0 then 1 else g1)
      in upd_cp (\<lambda>c. c\<lparr>FW_BOOT_GENERATION := g2, FW_ABI_VERSION := FSA_COMMAND_ABI_VERSION_V3,
                       FW_FAULT_CODE := firmware_fault_code FsaFirmwareFaultNone,
                       FW_STATUS := firmware_status_code FsaFirmwareStatusBooting\<rparr>)
           (s\<lparr>boot_generation := g2, status := FsaFirmwareStatusBooting\<rparr>))"

definition cp_firmware_status_ready :: "fw \<Rightarrow> fw" where
  "cp_firmware_status_ready s =
     upd_cp (\<lambda>c. c\<lparr>FW_ABI_VERSION := FSA_COMMAND_ABI_VERSION_V3, FW_BOOT_GENERATION := boot_generation s,
                   FW_FAULT_CODE := firmware_fault_code FsaFirmwareFaultNone,
                   FW_STATUS := firmware_status_code FsaFirmwareStatusReady\<rparr>)
       (s\<lparr>status := FsaFirmwareStatusReady\<rparr>)"

definition cp_firmware_status_fault :: "FsaFirmwareFault \<Rightarrow> fw \<Rightarrow> fw" where
  "cp_firmware_status_fault code s =
     upd_cp (\<lambda>c. c\<lparr>FW_FAULT_CODE := firmware_fault_code code,
                   FW_STATUS := firmware_status_code FsaFirmwareStatusFault\<rparr>)
       (s\<lparr>status := FsaFirmwareStatusFault\<rparr>)"

definition cp_firmware_status_reset :: "fw \<Rightarrow> fw" where
  "cp_firmware_status_reset s =
     upd_cp (\<lambda>c. c\<lparr>FW_STATUS := firmware_status_code FsaFirmwareStatusReset\<rparr>)
       (s\<lparr>status := FsaFirmwareStatusReset\<rparr>)"

definition cp_firmware_is_ready :: "fw \<Rightarrow> bool" where
  "cp_firmware_is_ready s \<longleftrightarrow> status s = FsaFirmwareStatusReady"

definition cp_firmware_is_faulted :: "fw \<Rightarrow> bool" where
  "cp_firmware_is_faulted s \<longleftrightarrow> status s = FsaFirmwareStatusFault"

definition cp_firmware_boot_generation :: "fw \<Rightarrow> u64" where
  "cp_firmware_boot_generation s = boot_generation s"

lemma status_frame [simp, frame_simps]:
  "completion_pool (cp_firmware_status_fault c s) = completion_pool s"
  "completion_pool (cp_firmware_status_ready s) = completion_pool s"
  "completion_pool (cp_firmware_status_reset s) = completion_pool s"
  "completion_pool (cp_firmware_status_booting s) = completion_pool s"
  "boot_generation (cp_firmware_status_fault c s) = boot_generation s"
  "boot_generation (cp_firmware_status_ready s) = boot_generation s"
  "memory_copy_state (cp_firmware_status_fault c s) = memory_copy_state s"
  "memory_copy_state (cp_firmware_status_ready s) = memory_copy_state s"
  "cache_state (cp_firmware_status_fault c s) = cache_state s"
  "cache_state (cp_firmware_status_ready s) = cache_state s"
  "kernel_state_buf (cp_firmware_status_fault c s) = kernel_state_buf s"
  "kernel_state_buf (cp_firmware_status_ready s) = kernel_state_buf s"
  "wgi_buf (cp_firmware_status_fault c s) = wgi_buf s"
  "wgi_buf (cp_firmware_status_ready s) = wgi_buf s"
  "sms (cp_firmware_status_fault c s) = sms s"
  "sms (cp_firmware_status_ready s) = sms s"
  "g_num_sm (cp_firmware_status_fault c s) = g_num_sm s"
  "g_num_sm (cp_firmware_status_ready s) = g_num_sm s"
  by (simp_all add: cp_firmware_status_fault_def cp_firmware_status_ready_def
      cp_firmware_status_reset_def cp_firmware_status_booting_def Let_def upd_cp_def)

section \<open>Publication\<close>

abbreviation token_slot :: "FsaCompletionToken \<Rightarrow> nat" where
  "token_slot t \<equiv> unat (fsa_completion_token_slot_index t)"

definition cp_completion_is_pending :: "fw \<Rightarrow> FsaCompletionToken \<Rightarrow> bool" where
  "cp_completion_is_pending s token \<longleftrightarrow>
     fsa_completion_token_has_valid_slot token \<and>
     (let slot = completion_pool s ! token_slot token
      in fsa_completion_token_boot_generation token = ucast (cp_firmware_boot_generation s) \<and>
         fsa_completion_slot_alloc_tag slot = fsa_completion_token_alloc_tag token \<and>
         fsa_completion_slot_result slot = FSA_COMPLETION_RESULT_PENDING)"

definition cp_publish_completion :: "FsaCompletionToken \<Rightarrow> FsaCompletionResult \<Rightarrow> fw \<Rightarrow> fw" where
  "cp_publish_completion token result s =
     (if \<not> cp_completion_is_pending s token then s
      else s\<lparr>completion_pool := (completion_pool s)
              [token_slot token := fsa_completion_slot_encode (fsa_completion_token_alloc_tag token) result]\<rparr>)"

definition pool_ok :: "fw \<Rightarrow> bool" where
  "pool_ok s \<longleftrightarrow> length (completion_pool s) = unat FSA_COMPLETION_SLOT_COUNT"

definition completion_advance :: "u64 list \<Rightarrow> u64 list \<Rightarrow> bool" where
  "completion_advance p p' \<longleftrightarrow> length p' = length p \<and>
     (\<forall>i < length p. p' ! i = p ! i \<or>
        fsa_completion_slot_result (p ! i) = FSA_COMPLETION_RESULT_PENDING \<and>
        fsa_completion_slot_alloc_tag (p' ! i) = fsa_completion_slot_alloc_tag (p ! i))"

lemma completion_advance_refl [simp, intro]: "completion_advance p p"
  by (simp add: completion_advance_def)

lemma completion_advance_trans:
  assumes "completion_advance p q" and "completion_advance q r"
  shows "completion_advance p r"
  unfolding completion_advance_def
proof (intro conjI allI impI)
  show "length r = length p" using assms by (simp add: completion_advance_def)
  fix i assume "i < length p"
  with assms have "q ! i = p ! i \<or> fsa_completion_slot_result (p ! i) = FSA_COMPLETION_RESULT_PENDING \<and>
        fsa_completion_slot_alloc_tag (q ! i) = fsa_completion_slot_alloc_tag (p ! i)"
      "r ! i = q ! i \<or> fsa_completion_slot_result (q ! i) = FSA_COMPLETION_RESULT_PENDING \<and>
        fsa_completion_slot_alloc_tag (r ! i) = fsa_completion_slot_alloc_tag (q ! i)"
    by (simp_all add: completion_advance_def)
  then show "r ! i = p ! i \<or> fsa_completion_slot_result (p ! i) = FSA_COMPLETION_RESULT_PENDING \<and>
        fsa_completion_slot_alloc_tag (r ! i) = fsa_completion_slot_alloc_tag (p ! i)"
    by auto
qed

lemma pending_slot_valid:
  assumes "cp_completion_is_pending s t" and "pool_ok s"
  shows "token_slot t < length (completion_pool s)"
  using assms by (simp add: cp_completion_is_pending_def fsa_completion_token_has_valid_slot_def
      pool_ok_def word_less_iff_unat)

lemma publish_frame [simp, frame_simps]:
  "cp (cp_publish_completion t r s) = cp s" "sms (cp_publish_completion t r s) = sms s"
  "memory_copy_state (cp_publish_completion t r s) = memory_copy_state s"
  "cache_state (cp_publish_completion t r s) = cache_state s"
  "kernel_state_buf (cp_publish_completion t r s) = kernel_state_buf s"
  "wgi_buf (cp_publish_completion t r s) = wgi_buf s" "wgi_buf_len (cp_publish_completion t r s) = wgi_buf_len s"
  "boot_generation (cp_publish_completion t r s) = boot_generation s"
  "status (cp_publish_completion t r s) = status s" "g_num_sm (cp_publish_completion t r s) = g_num_sm s"
  "g_lmem_allocators (cp_publish_completion t r s) = g_lmem_allocators s"
  "tick_count (cp_publish_completion t r s) = tick_count s" "mem (cp_publish_completion t r s) = mem s"
  "host_dma (cp_publish_completion t r s) = host_dma s" "device_dma (cp_publish_completion t r s) = device_dma s"
  "reboot_requested (cp_publish_completion t r s) = reboot_requested s"
  "cmd_ring (cp_publish_completion t r s) = cmd_ring s"
  "g_per_sm_threads (cp_publish_completion t r s) = g_per_sm_threads s"
  "g_global_alloc_base (cp_publish_completion t r s) = g_global_alloc_base s"
  "length (completion_pool (cp_publish_completion t r s)) = length (completion_pool s)"
  by (simp_all add: cp_publish_completion_def)

lemma publish_slot:
  assumes "cp_completion_is_pending s t" and "pool_ok s"
  shows "completion_pool (cp_publish_completion t r s) ! token_slot t =
           fsa_completion_slot_encode (fsa_completion_token_alloc_tag t) r"
  using assms pending_slot_valid [OF assms] by (simp add: cp_publish_completion_def)

lemma publish_other_slot:
  "i \<noteq> token_slot t \<Longrightarrow> completion_pool (cp_publish_completion t r s) ! i = completion_pool s ! i"
  by (simp add: cp_publish_completion_def)

lemma publish_advance: "completion_advance (completion_pool s) (completion_pool (cp_publish_completion t r s))"
  unfolding completion_advance_def
proof (intro conjI allI impI)
  fix i assume "i < length (completion_pool s)"
  then show "completion_pool (cp_publish_completion t r s) ! i = completion_pool s ! i \<or>
        fsa_completion_slot_result (completion_pool s ! i) = FSA_COMPLETION_RESULT_PENDING \<and>
        fsa_completion_slot_alloc_tag (completion_pool (cp_publish_completion t r s) ! i) =
        fsa_completion_slot_alloc_tag (completion_pool s ! i)"
    by (cases "i = token_slot t")
      (auto simp: cp_publish_completion_def cp_completion_is_pending_def Let_def abi_simps)
qed simp

lemma publish_pending_same:
  assumes "pool_ok s" and "r \<noteq> FSA_COMPLETION_RESULT_PENDING"
  shows "\<not> cp_completion_is_pending (cp_publish_completion t r s) t"
proof (cases "cp_completion_is_pending s t")
  case True
  then show ?thesis
    using publish_slot [OF True assms(1), of r] assms(2)
    by (auto simp: cp_completion_is_pending_def Let_def abi_simps)
next
  case False
  then show ?thesis by (simp add: cp_publish_completion_def)
qed

lemma publish_pending_other:
  assumes "pool_ok s" and "t' \<noteq> t"
  shows "cp_completion_is_pending (cp_publish_completion t r s) t' \<longleftrightarrow> cp_completion_is_pending s t'"
proof (cases "cp_completion_is_pending s t \<and> token_slot t' = token_slot t")
  case True
  then have sl: "fsa_completion_token_slot_index t' = fsa_completion_token_slot_index t"
    by (simp add: word_eq_iff_unat)
  then have tag: "fsa_completion_token_alloc_tag t' \<noteq> fsa_completion_token_alloc_tag t"
    using assms(2) token_eqI by blast
  have "\<not> cp_completion_is_pending s t'"
    using True tag by (auto simp: cp_completion_is_pending_def Let_def)
  moreover have "\<not> cp_completion_is_pending (cp_publish_completion t r s) t'"
    using True tag publish_slot [of s t r] assms(1)
    by (auto simp: cp_completion_is_pending_def Let_def abi_simps)
  ultimately show ?thesis by simp
next
  case False
  then show ?thesis
    by (auto simp: cp_completion_is_pending_def Let_def cp_publish_completion_def cp_firmware_boot_generation_def)
qed

section \<open>Properties\<close>

text \<open>A ready firmware of boot generation 1 with one pending completion in slot 3.\<close>

definition demo_token :: FsaCompletionToken where
  "demo_token = fsa_completion_token_make 1 1 3"

definition demo_ready :: fw where
  "demo_ready = demo_boot\<lparr>boot_generation := 1, status := FsaFirmwareStatusReady,
     completion_pool := (replicate 64 0)[3 := fsa_completion_slot_encode
        (fsa_completion_token_alloc_tag demo_token) FSA_COMPLETION_RESULT_PENDING]\<rparr>"

lemma demo_pool_ok: "pool_ok demo_ready"
  by (simp add: pool_ok_def demo_ready_def FSA_COMPLETION_SLOT_COUNT_def)

lemma demo_pending: "cp_completion_is_pending demo_ready demo_token"
proof -
  have "token_slot demo_token = 3" by (simp add: demo_token_def abi_simps)
  then show ?thesis
    by (simp add: cp_completion_is_pending_def demo_ready_def Let_def abi_simps cp_firmware_boot_generation_def)
      (simp add: demo_token_def abi_simps token_make_valid_slot FSA_COMPLETION_SLOT_COUNT_def)
qed

text \<open>
  C24. Publishing a terminal result for a pending token writes exactly its slot, with the
  token's own tag; afterwards the token is no longer pending, a second publication changes
  nothing, and no other token becomes or stops being pending. For a token that is not pending
  (stale generation, reused slot, already terminal, malformed) publication does nothing.
\<close>

theorem publish_completion_correct:
  assumes "pool_ok s" and "r \<noteq> FSA_COMPLETION_RESULT_PENDING"
  shows "let s' = cp_publish_completion t r s in
     (if cp_completion_is_pending s t
      then completion_pool s' = (completion_pool s)[token_slot t :=
             fsa_completion_slot_encode (fsa_completion_token_alloc_tag t) r] \<and>
           fsa_completion_slot_result (completion_pool s' ! token_slot t) = r \<and>
           fsa_completion_slot_alloc_tag (completion_pool s' ! token_slot t) = fsa_completion_token_alloc_tag t
      else s' = s) \<and>
     \<not> cp_completion_is_pending s' t \<and>
     cp_publish_completion t r' s' = s' \<and>
     (\<forall>t'. t' \<noteq> t \<longrightarrow> cp_completion_is_pending s' t' = cp_completion_is_pending s t')"
proof -
  note np = publish_pending_same [OF assms, of t]
  show ?thesis
    unfolding Let_def
    using np publish_slot [of s t r] assms(1) publish_pending_other [OF assms(1)]
    by (auto simp: cp_publish_completion_def [of t r' "cp_publish_completion t r s"] abi_simps)
      (simp_all add: cp_publish_completion_def)
qed

theorem publish_completion_correct_witness:
  "cp_completion_is_pending demo_ready demo_token \<and>
   \<not> cp_completion_is_pending (cp_publish_completion demo_token FSA_COMPLETION_RESULT_SUCCESS demo_ready) demo_token"
  using publish_completion_correct [OF demo_pool_ok, of FSA_COMPLETION_RESULT_SUCCESS demo_token] demo_pending
  by (simp add: Let_def completion_result_defs)

end
