(* ===== verification/Fw_Cache.thy ===== *)
theory Fw_Cache
  imports Fw_Completion
begin

text \<open>
  Cache maintenance (\<^verbatim>\<open>fw/cp_cache.c\<close>): one operation at a time on the caches of every SM. The waits
  \<open>CP_WAIT_UNTIL\<close> are scheduling points: a waiting operation is \<open>None\<close> and the caller stays where it
  is. Because a task can be preempted between claiming the state and marking the operation
  started, the parts of \<open>cp_cache_operation_start\<close> are operations of their own.
\<close>

section \<open>Operations\<close>

definition CacheTargetICache :: u32 where
  "CacheTargetICache = 1"

definition CacheTargetDCache :: u32 where
  "CacheTargetDCache = 2"

definition cp_cache_targets_for :: "CacheOpMode \<Rightarrow> u32" where
  "cp_cache_targets_for mode =
     CacheTargetDCache OR (if mode = CacheOpInvalidate then CacheTargetICache else 0)"

definition cache_claim_now :: "u32 \<Rightarrow> FsaCompletionToken \<Rightarrow> fw \<Rightarrow> fw" where
  "cache_claim_now targets completion_token s =
     upd_cache (\<lambda>c. c\<lparr>cs_started := 0, cs_targets := targets,
                      cs_completion_token := completion_token, cs_pending := 1\<rparr>) s"

definition claim_cache_state :: "u32 \<Rightarrow> FsaCompletionToken \<Rightarrow> fw \<Rightarrow> fw option" where
  "claim_cache_state targets completion_token s =
     (if cs_pending (cache_state s) \<noteq> 0 then None else Some (cache_claim_now targets completion_token s))"

definition sm_caches_busy :: "sm_mmio \<Rightarrow> u32 \<Rightarrow> bool" where
  "sm_caches_busy sm targets \<longleftrightarrow>
     (targets AND CacheTargetICache \<noteq> 0 \<and> ICACHE_CONTROL_START sm \<noteq> 0) \<or>
     (targets AND CacheTargetDCache \<noteq> 0 \<and> DCACHE_CONTROL_START sm \<noteq> 0)"

definition start_on_sm :: "u64 \<Rightarrow> u64 \<Rightarrow> CacheOpMode \<Rightarrow> u32 \<Rightarrow> sm_mmio \<Rightarrow> sm_mmio" where
  "start_on_sm addr sz mode targets sm =
     (let sm1 = (if targets AND CacheTargetICache \<noteq> 0
                 then sm\<lparr>ICACHE_CONTROL_ADDR := addr, ICACHE_CONTROL_SIZE := sz,
                         ICACHE_CONTROL_MODE := cache_op_mode_code mode, ICACHE_CONTROL_START := 1\<rparr>
                 else sm)
      in if targets AND CacheTargetDCache \<noteq> 0
         then sm1\<lparr>DCACHE_CONTROL_ADDR := addr, DCACHE_CONTROL_SIZE := sz,
                  DCACHE_CONTROL_MODE := cache_op_mode_code mode, DCACHE_CONTROL_START := 1\<rparr>
         else sm1)"

definition start_on_every_sm :: "u64 \<Rightarrow> u64 \<Rightarrow> CacheOpMode \<Rightarrow> u32 \<Rightarrow> fw \<Rightarrow> fw" where
  "start_on_every_sm addr sz mode targets s =
     s\<lparr>sms := map (start_on_sm addr sz mode targets) (take (unat (g_num_sm s)) (sms s)) @
              drop (unat (g_num_sm s)) (sms s)\<rparr>"

definition cache_mark_started :: "fw \<Rightarrow> fw" where
  "cache_mark_started s = upd_cache (\<lambda>c. c\<lparr>cs_started := 1\<rparr>) s"

definition cp_cache_operation_start ::
  "u64 \<Rightarrow> u64 \<Rightarrow> CacheOpMode \<Rightarrow> u32 \<Rightarrow> FsaCompletionToken \<Rightarrow> fw \<Rightarrow> fw option" where
  "cp_cache_operation_start addr sz mode targets completion_token s =
     (case claim_cache_state targets completion_token s of
        None \<Rightarrow> None
      | Some s1 \<Rightarrow> Some (cache_mark_started (start_on_every_sm addr sz mode targets s1)))"

text \<open>The busy poll of \<open>cp_cache_operation_start_and_wait\<close>: is every SM done, and what follows then.\<close>

definition every_sm_done :: "u32 \<Rightarrow> fw \<Rightarrow> bool" where
  "every_sm_done targets s \<longleftrightarrow> (\<forall>sm \<in> set (take (unat (g_num_sm s)) (sms s)). \<not> sm_caches_busy sm targets)"

definition cache_release :: "fw \<Rightarrow> fw" where
  "cache_release s = upd_cache (\<lambda>c. c\<lparr>cs_pending := 0\<rparr>) s"

definition cp_cache_operation_pending :: "fw \<Rightarrow> bool" where
  "cp_cache_operation_pending s \<longleftrightarrow> cs_pending (cache_state s) \<noteq> 0"

text \<open>A host cache packet fails at once or asks for an operation to be started.\<close>

datatype cache_request =
    CacheRejected fw
  | CacheRequest u64 u64 CacheOpMode u32 FsaCompletionToken

definition cp_cache_handle_packet :: "packet \<Rightarrow> CacheOpMode \<Rightarrow> fw \<Rightarrow> cache_request" where
  "cp_cache_handle_packet cmd mode s =
     (let packet = cache_operation_packet cmd
      in if cop_size packet \<noteq> 0 \<and> (cop_addr packet = 0 \<or> UINT64_MAX - cop_size packet < cop_addr packet)
         then CacheRejected (cp_publish_completion (cop_completion_token packet)
                FSA_COMPLETION_RESULT_COMMAND_FAILURE_MIN s)
         else CacheRequest (cop_addr packet) (cop_size packet) mode (cp_cache_targets_for mode)
                (cop_completion_token packet))"

definition cache_done :: "fw \<Rightarrow> bool" where
  "cache_done s \<longleftrightarrow>
     cs_pending (cache_state s) \<noteq> 0 \<and> cs_started (cache_state s) \<noteq> 0 \<and>
     every_sm_done (cs_targets (cache_state s)) s"

text \<open>One turn of the retire task; \<open>None\<close> while it waits.\<close>

definition cp_retire_cache :: "fw \<Rightarrow> fw option" where
  "cp_retire_cache s =
     (if \<not> cache_done s then None
      else let token = cs_completion_token (cache_state s);
               s1 = (if token \<noteq> 0 then cp_publish_completion token FSA_COMPLETION_RESULT_SUCCESS s else s)
           in Some (upd_cache (\<lambda>c. c\<lparr>cs_completion_token := 0, cs_pending := 0\<rparr>) s1))"

section \<open>Facts\<close>

lemma cache_target_bits:
  "cp_cache_targets_for CacheOpInvalidate AND CacheTargetICache \<noteq> 0"
  "cp_cache_targets_for mode AND CacheTargetDCache \<noteq> 0"
  "mode \<noteq> CacheOpInvalidate \<Longrightarrow> cp_cache_targets_for mode AND CacheTargetICache = 0"
  by (simp_all add: cp_cache_targets_for_def CacheTargetICache_def CacheTargetDCache_def)

lemma cache_frame [simp, frame_simps]:
  "completion_pool (cache_claim_now tg tk s) = completion_pool s"
  "completion_pool (start_on_every_sm a z m tg s) = completion_pool s"
  "completion_pool (cache_mark_started s) = completion_pool s"
  "completion_pool (cache_release s) = completion_pool s"
  "kernel_state_buf (cache_claim_now tg tk s) = kernel_state_buf s"
  "kernel_state_buf (start_on_every_sm a z m tg s) = kernel_state_buf s"
  "kernel_state_buf (cache_mark_started s) = kernel_state_buf s"
  "kernel_state_buf (cache_release s) = kernel_state_buf s"
  "wgi_buf (cache_claim_now tg tk s) = wgi_buf s" "wgi_buf (start_on_every_sm a z m tg s) = wgi_buf s"
  "wgi_buf (cache_mark_started s) = wgi_buf s" "wgi_buf (cache_release s) = wgi_buf s"
  "memory_copy_state (cache_claim_now tg tk s) = memory_copy_state s"
  "memory_copy_state (start_on_every_sm a z m tg s) = memory_copy_state s"
  "memory_copy_state (cache_mark_started s) = memory_copy_state s"
  "memory_copy_state (cache_release s) = memory_copy_state s"
  "boot_generation (cache_claim_now tg tk s) = boot_generation s"
  "boot_generation (start_on_every_sm a z m tg s) = boot_generation s"
  "boot_generation (cache_mark_started s) = boot_generation s"
  "boot_generation (cache_release s) = boot_generation s"
  "g_num_sm (cache_claim_now tg tk s) = g_num_sm s" "g_num_sm (start_on_every_sm a z m tg s) = g_num_sm s"
  "g_num_sm (cache_mark_started s) = g_num_sm s" "g_num_sm (cache_release s) = g_num_sm s"
  "cache_state (start_on_every_sm a z m tg s) = cache_state s"
  "sms (cache_claim_now tg tk s) = sms s" "sms (cache_mark_started s) = sms s" "sms (cache_release s) = sms s"
  by (simp_all add: cache_claim_now_def start_on_every_sm_def cache_mark_started_def cache_release_def)

lemma start_on_sm_busy:
  "targets AND (CacheTargetICache OR CacheTargetDCache) \<noteq> 0 \<Longrightarrow>
     sm_caches_busy (start_on_sm a z m targets sm) targets"
proof -
  assume "targets AND (CacheTargetICache OR CacheTargetDCache) \<noteq> 0"
  then have "targets AND CacheTargetICache \<noteq> 0 \<or> targets AND CacheTargetDCache \<noteq> 0"
    by (auto simp: bit.conj_disj_distrib)
  then show ?thesis by (auto simp: sm_caches_busy_def start_on_sm_def Let_def)
qed

lemma start_on_sm_keeps:
  "ENQ_VALID (start_on_sm a z m tg sm) = ENQ_VALID sm" "DEQ_VALID (start_on_sm a z m tg sm) = DEQ_VALID sm"
  "ENQ_INFO_PTR (start_on_sm a z m tg sm) = ENQ_INFO_PTR sm"
  "DEQ_INFO_PTR (start_on_sm a z m tg sm) = DEQ_INFO_PTR sm"
  "STACK_REMAP_TABLE (start_on_sm a z m tg sm) = STACK_REMAP_TABLE sm"
  by (simp_all add: start_on_sm_def Let_def)

section \<open>Properties\<close>

text \<open>
  Retiring a cache operation: while any targeted cache of any SM is busy, or while the
  starts are still being issued, nothing is retired. When it is retired, every targeted cache of
  every SM is idle, the host's token (if there is one) is published with Success, and the cache
  state is free for the next operation.
\<close>

lemma retire_cache_correct:
  "case cp_retire_cache s of
     None \<Rightarrow> cs_pending (cache_state s) = 0 \<or> cs_started (cache_state s) = 0 \<or>
             (\<exists>i < unat (g_num_sm s). i < length (sms s) \<and> sm_caches_busy (sms s ! i) (cs_targets (cache_state s)))
   | Some s' \<Rightarrow> cs_started (cache_state s) \<noteq> 0 \<and>
       \<not> (\<exists>i < unat (g_num_sm s). i < length (sms s) \<and> sm_caches_busy (sms s ! i) (cs_targets (cache_state s))) \<and>
       \<not> cp_cache_operation_pending s' \<and>
       completion_pool s' =
         (if cs_completion_token (cache_state s) = 0 then completion_pool s
          else completion_pool (cp_publish_completion (cs_completion_token (cache_state s))
                 FSA_COMPLETION_RESULT_SUCCESS s))"
proof -
  have "every_sm_done tg s \<longleftrightarrow>
      \<not> (\<exists>i < unat (g_num_sm s). i < length (sms s) \<and> sm_caches_busy (sms s ! i) tg)" for tg
    by (auto simp: every_sm_done_def ball_take)
  then show ?thesis
    by (auto simp: cp_retire_cache_def Let_def cache_done_def cp_cache_operation_pending_def)
qed

end
