(* ===== verification/Fw_Memory_Copy.thy ===== *)
theory Fw_Memory_Copy
  imports Fw_Cache
begin

text \<open>
  Memory-copy commands (\<^verbatim>\<open>fw/cp_memory_copy.c\<close>): validation and acceptance of a packet, and one turn of
  the copy task for each phase of the state machine. The theory relates the machine-word range
  checks to intervals of addresses, refines the task to an abstract phase protocol, and shows
  what the protocol promises: no DMA before the caches are flushed, success only after the
  transfer is done and the destination invalidated, and no running DMA ever abandoned.
\<close>

section \<open>Operations\<close>

definition cp_has_active_kernel_or_cache :: "fw \<Rightarrow> bool" where
  "cp_has_active_kernel_or_cache s \<longleftrightarrow>
     cp_cache_operation_pending s \<or> (\<exists>k \<in> set (kernel_state_buf s). ks_in_use k \<noteq> 0)"

definition CP_MEMORY_COPY_TIMEOUT_TICKS :: u32 where
  "CP_MEMORY_COPY_TIMEOUT_TICKS = 5000"

definition range_in_window :: "u64 \<Rightarrow> u64 \<Rightarrow> u64 \<Rightarrow> u64 \<Rightarrow> bool" where
  "range_in_window address sz base window_size =
     (if sz = 0 \<or> address < base then False
      else address - base \<le> window_size \<and> sz \<le> window_size - (address - base))"

definition valid_memory_range :: "addr_map \<Rightarrow> fw \<Rightarrow> u64 \<Rightarrow> u64 \<Rightarrow> bool" where
  "valid_memory_range am s address sz \<longleftrightarrow>
     range_in_window address sz (FSA_ONCHIP_GMEM_BASE am) (FSA_ONCHIP_GMEM_SIZE am) \<or>
     range_in_window address sz (FSA_NONCACHE_ALLOC_BASE am) (FSA_NONCACHE_ALLOC_SIZE am) \<or>
     range_in_window address sz (cp_hwinfo_global_alloc_base s)
       (FSA_GLOBAL_MEM_BASE am + FSA_GLOBAL_MEM_SIZE am - cp_hwinfo_global_alloc_base s)"

definition ranges_overlap :: "u64 \<Rightarrow> u64 \<Rightarrow> u64 \<Rightarrow> bool" where
  "ranges_overlap src dst sz =
     (if sz = 0 then False
      else if UINT64_MAX - sz < src \<or> UINT64_MAX - sz < dst then True
      else \<not> (src + sz \<le> dst \<or> dst + sz \<le> src))"

definition complete_memory_copy :: "FsaCompletionResult \<Rightarrow> fw \<Rightarrow> fw" where
  "complete_memory_copy result s =
     upd_copy (\<lambda>m. m\<lparr>mcs_phase := MemoryCopyPhaseIdle, mcs_active := 0\<rparr>)
       (cp_publish_completion (mcs_completion_token (memory_copy_state s)) result s)"

definition fail_memory_copy :: "FsaCompletionResult \<Rightarrow> fw \<Rightarrow> fw" where
  "fail_memory_copy result s =
     (let s1 = cp_publish_completion (mcs_completion_token (memory_copy_state s)) result s
      in if mcs_phase (memory_copy_state s1) = MemoryCopyPhaseWaitDma
         then upd_copy (\<lambda>m. m\<lparr>mcs_phase := MemoryCopyPhaseDrainDma\<rparr>) s1
         else upd_copy (\<lambda>m. m\<lparr>mcs_phase := MemoryCopyPhaseIdle, mcs_active := 0\<rparr>) s1)"

definition phase_timed_out :: "fw \<Rightarrow> bool" where
  "phase_timed_out s =
     (if mcs_phase (memory_copy_state s) = MemoryCopyPhaseWaitPredecessor \<or>
         mcs_phase (memory_copy_state s) = MemoryCopyPhaseDrainDma then False
      else CP_MEMORY_COPY_TIMEOUT_TICKS \<le> tick_count s - mcs_phase_started_tick (memory_copy_state s))"

definition enter_phase :: "cp_memory_copy_phase \<Rightarrow> fw \<Rightarrow> fw" where
  "enter_phase phase s =
     upd_copy (\<lambda>m. m\<lparr>mcs_phase := phase, mcs_phase_started_tick := tick_count s\<rparr>) s"

definition start_cache_operation :: "u64 \<Rightarrow> u64 \<Rightarrow> CacheOpMode \<Rightarrow> fw \<Rightarrow> fw option" where
  "start_cache_operation address sz mode s =
     (if cp_cache_operation_pending s then None
      else cp_cache_operation_start address sz mode (cp_cache_targets_for mode) 0 s)"

definition uses_device_source :: "fw \<Rightarrow> bool" where
  "uses_device_source s \<longleftrightarrow>
     mcs_src_domain (memory_copy_state s) = memory_domain_code FsaMemoryDomainDevice"

definition uses_device_destination :: "fw \<Rightarrow> bool" where
  "uses_device_destination s \<longleftrightarrow>
     mcs_dst_domain (memory_copy_state s) = memory_domain_code FsaMemoryDomainDevice"

definition valid_memory_copy_domain_pair :: "u8 \<Rightarrow> u8 \<Rightarrow> bool" where
  "valid_memory_copy_domain_pair src_domain dst_domain \<longleftrightarrow>
     (src_domain = memory_domain_code FsaMemoryDomainHost \<and>
      dst_domain = memory_domain_code FsaMemoryDomainDevice) \<or>
     (src_domain = memory_domain_code FsaMemoryDomainDevice \<and>
      (dst_domain = memory_domain_code FsaMemoryDomainHost \<or>
       dst_domain = memory_domain_code FsaMemoryDomainDevice))"

definition start_device_dma :: "fw \<Rightarrow> fw" where
  "start_device_dma s =
     s\<lparr>device_dma := (device_dma s)\<lparr>dma_ADDR0 := mcs_src_addr (memory_copy_state s),
         dma_ADDR1 := mcs_dst_addr (memory_copy_state s), dma_SIZE := mcs_size (memory_copy_state s),
         dma_START := 1\<rparr>\<rparr>"

definition start_host_dma :: "fw \<Rightarrow> fw" where
  "start_host_dma s =
     (let m = memory_copy_state s;
          host_to_device = mcs_src_domain m = memory_domain_code FsaMemoryDomainHost;
          host_addr = (if host_to_device then mcs_src_addr m else mcs_dst_addr m);
          device_addr = (if host_to_device then mcs_dst_addr m else mcs_src_addr m)
      in s\<lparr>host_dma := (host_dma s)\<lparr>dma_ADDR0 := host_addr, dma_ADDR1 := device_addr,
             dma_SIZE := (if host_to_device then mcs_size m else - mcs_size m), dma_START := 1\<rparr>\<rparr>)"

definition cp_memory_copy_is_active :: "fw \<Rightarrow> bool" where
  "cp_memory_copy_is_active s \<longleftrightarrow> mcs_active (memory_copy_state s) \<noteq> 0"

definition dma_terminal :: "u64 \<Rightarrow> bool" where
  "dma_terminal st \<longleftrightarrow>
     st = dma_status_code DmaStatusIdle \<or> st = dma_status_code DmaStatusDone \<or>
     st = dma_status_code DmaStatusBusError \<or> st = dma_status_code DmaStatusInvalidDescriptor"

definition cp_memory_copy_dma_is_idle :: "fw \<Rightarrow> bool" where
  "cp_memory_copy_dma_is_idle s \<longleftrightarrow>
     dma_terminal (dma_STATUS (host_dma s)) \<and> dma_terminal (dma_STATUS (device_dma s))"

definition cp_memory_copy_submit :: "addr_map \<Rightarrow> MemoryCopyPacket \<Rightarrow> fw \<Rightarrow> fw" where
  "cp_memory_copy_submit am p s =
     (let token = mp_completion_token p;
          fail = (\<lambda>c. cp_publish_completion token (memory_copy_status_code c) s)
      in if cp_memory_copy_is_active s then fail FsaMemoryCopyStatusInternalError
         else if \<not> cp_firmware_is_ready s \<or>
                 fsa_completion_token_boot_generation token \<noteq> ucast (cp_firmware_boot_generation s)
         then fail FsaMemoryCopyStatusNotReady
         else if \<not> valid_memory_copy_domain_pair (mp_src_domain p) (mp_dst_domain p)
         then fail FsaMemoryCopyStatusInvalidDomainPair
         else
           let src_is_device = mp_src_domain p = memory_domain_code FsaMemoryDomainDevice;
               dst_is_device = mp_dst_domain p = memory_domain_code FsaMemoryDomainDevice;
               size_is_zero = mp_size p = 0;
               host_address_valid = size_is_zero \<or>
                 (if mp_src_domain p = memory_domain_code FsaMemoryDomainHost
                  then mp_src_addr p else mp_dst_addr p) \<noteq> 0;
               device_address_valid = size_is_zero \<or>
                 ((\<not> src_is_device \<or> valid_memory_range am s (mp_src_addr p) (mp_size p)) \<and>
                  (\<not> dst_is_device \<or> valid_memory_range am s (mp_dst_addr p) (mp_size p)));
               size_valid = mp_size p \<le> INT64_MAX;
               address_valid = host_address_valid \<and> device_address_valid \<and> size_valid;
               overlap = src_is_device \<and> dst_is_device \<and>
                 ranges_overlap (mp_src_addr p) (mp_dst_addr p) (mp_size p)
           in if \<not> address_valid \<or> overlap
              then fail (if \<not> address_valid
                         then (if \<not> host_address_valid then FsaMemoryCopyStatusInvalidAddress
                               else FsaMemoryCopyStatusInvalidRange)
                         else FsaMemoryCopyStatusOverlap)
              else upd_copy (\<lambda>m. m\<lparr>mcs_active := 1\<rparr>)
                     (enter_phase MemoryCopyPhaseWaitPredecessor
                       (upd_copy (\<lambda>m. m\<lparr>mcs_src_addr := mp_src_addr p, mcs_dst_addr := mp_dst_addr p,
                          mcs_size := mp_size p, mcs_src_domain := mp_src_domain p,
                          mcs_dst_domain := mp_dst_domain p, mcs_completion_token := token\<rparr>) s)))"

text \<open>One turn of the task's loop. Yielding leaves the state as it is.\<close>

definition copy_wait_predecessor :: "fw \<Rightarrow> fw" where
  "copy_wait_predecessor s =
     (let m = memory_copy_state s
      in if cp_has_active_kernel_or_cache s then s
         else if mcs_size m = 0 then complete_memory_copy FSA_COMPLETION_RESULT_SUCCESS s
         else if uses_device_source s then
           (case start_cache_operation (mcs_src_addr m) (mcs_size m) CacheOpFlush s of
              None \<Rightarrow> s | Some s' \<Rightarrow> enter_phase MemoryCopyPhaseFlushSource s')
         else if uses_device_destination s then
           (case start_cache_operation (mcs_dst_addr m) (mcs_size m) CacheOpFlush s of
              None \<Rightarrow> s | Some s' \<Rightarrow> enter_phase MemoryCopyPhaseFlushDestination s')
         else enter_phase MemoryCopyPhaseWaitDma (start_host_dma s))"

definition copy_flush_source :: "fw \<Rightarrow> fw" where
  "copy_flush_source s =
     (let m = memory_copy_state s
      in if cp_cache_operation_pending s then s
         else if uses_device_destination s then
           (case start_cache_operation (mcs_dst_addr m) (mcs_size m) CacheOpFlush s of
              None \<Rightarrow> s | Some s' \<Rightarrow> enter_phase MemoryCopyPhaseFlushDestination s')
         else enter_phase MemoryCopyPhaseWaitDma (start_host_dma s))"

definition copy_flush_destination :: "fw \<Rightarrow> fw" where
  "copy_flush_destination s =
     (if cp_cache_operation_pending s then s
      else enter_phase MemoryCopyPhaseWaitDma
             (if uses_device_source s \<and> uses_device_destination s
              then start_device_dma s else start_host_dma s))"

definition copy_wait_dma :: "fw \<Rightarrow> fw" where
  "copy_wait_dma s =
     (let m = memory_copy_state s;
          uses_device_dma = uses_device_source s \<and> uses_device_destination s;
          transfer_status = (if uses_device_dma then dma_STATUS (device_dma s) else dma_STATUS (host_dma s))
      in if transfer_status = dma_status_code DmaStatusDone then
           (if \<not> uses_device_destination s then complete_memory_copy FSA_COMPLETION_RESULT_SUCCESS s
            else case start_cache_operation (mcs_dst_addr m) (mcs_size m) CacheOpInvalidate s of
                   None \<Rightarrow> s | Some s' \<Rightarrow> enter_phase MemoryCopyPhaseInvalidateDestination s')
         else if transfer_status = dma_status_code DmaStatusBusError
         then complete_memory_copy (memory_copy_status_code FsaMemoryCopyStatusDmaBusError) s
         else if transfer_status = dma_status_code DmaStatusInvalidDescriptor
         then complete_memory_copy (memory_copy_status_code FsaMemoryCopyStatusInvalidRange) s
         else s)"

definition copy_invalidate_destination :: "fw \<Rightarrow> fw" where
  "copy_invalidate_destination s =
     (if cp_cache_operation_pending s then s
      else complete_memory_copy FSA_COMPLETION_RESULT_SUCCESS s)"

definition copy_drain_dma :: "fw \<Rightarrow> fw" where
  "copy_drain_dma s =
     (if cp_memory_copy_dma_is_idle s
      then upd_copy (\<lambda>m. m\<lparr>mcs_phase := MemoryCopyPhaseIdle, mcs_active := 0\<rparr>) s
      else s)"

definition cp_memory_copy_task :: "fw \<Rightarrow> fw" where
  "cp_memory_copy_task s =
     (if \<not> cp_memory_copy_is_active s then s
      else if phase_timed_out s
      then fail_memory_copy (memory_copy_status_code FsaMemoryCopyStatusTimeout)
             (cp_firmware_status_fault FsaFirmwareFaultMemoryCopyTimeout s)
      else case mcs_phase (memory_copy_state s) of
             MemoryCopyPhaseWaitPredecessor \<Rightarrow> copy_wait_predecessor s
           | MemoryCopyPhaseFlushSource \<Rightarrow> copy_flush_source s
           | MemoryCopyPhaseFlushDestination \<Rightarrow> copy_flush_destination s
           | MemoryCopyPhaseWaitDma \<Rightarrow> copy_wait_dma s
           | MemoryCopyPhaseInvalidateDestination \<Rightarrow> copy_invalidate_destination s
           | MemoryCopyPhaseDrainDma \<Rightarrow> copy_drain_dma s
           | MemoryCopyPhaseIdle \<Rightarrow> upd_copy (\<lambda>m. m\<lparr>mcs_active := 0\<rparr>) s)"

lemmas copy_turn_defs = copy_wait_predecessor_def copy_flush_source_def copy_flush_destination_def
  copy_wait_dma_def copy_invalidate_destination_def copy_drain_dma_def

section \<open>Ranges\<close>

lemma range_in_window_iff:
  "range_in_window a n b w \<longleftrightarrow> n \<noteq> 0 \<and> unat b \<le> unat a \<and> unat a + unat n \<le> unat b + unat w"
proof (cases "a < b")
  case True
  then show ?thesis by (simp add: range_in_window_def word_less_iff_unat)
next
  case False
  then have ba: "b \<le> a" by simp
  note sub = unat_sub_le [OF ba]
  show ?thesis
  proof (cases "a - b \<le> w")
    case True
    then have "unat (w - (a - b)) = unat w - (unat a - unat b)" using unat_sub_le [OF True] by (simp add: sub)
    with True ba \<open>\<not> a < b\<close> show ?thesis by (auto simp: range_in_window_def word_le_iff_unat sub)
  next
    case le: False
    then show ?thesis using ba \<open>\<not> a < b\<close> by (auto simp: range_in_window_def word_le_iff_unat sub)
  qed
qed

lemma ranges_overlap_iff:
  "ranges_overlap a b n \<longleftrightarrow> n \<noteq> 0 \<and>
     (2 ^ 64 \<le> unat a + unat n \<or> 2 ^ 64 \<le> unat b + unat n \<or>
      cells (unat a, unat n) \<inter> cells (unat b, unat n) \<noteq> {})"
proof -
  have "n \<le> UINT64_MAX" using unat_lt64 [of n] by (simp add: word_le_iff_unat)
  from unat_sub_le [OF this] have m: "unat (UINT64_MAX - n) = 2 ^ 64 - 1 - unat n" by simp
  have lt: "UINT64_MAX - n < x \<longleftrightarrow> 2 ^ 64 \<le> unat x + unat n" for x :: u64
    using unat_lt64 [of n] unat_lt64 [of x] by (auto simp: word_less_iff_unat m)
  show ?thesis
  proof (cases "n = 0 \<or> UINT64_MAX - n < a \<or> UINT64_MAX - n < b")
    case True
    then show ?thesis by (auto simp: ranges_overlap_def lt)
  next
    case False
    then have s: "unat (a + n) = unat a + unat n" "unat (b + n) = unat b + unat n" and n: "0 < unat n"
      by (auto simp: lt unat_pos_iff intro!: unat_add_no_wrap)
    have "(cells (unat a, unat n) \<inter> cells (unat b, unat n) \<noteq> {}) \<longleftrightarrow>
        \<not> (unat a + unat n \<le> unat b \<or> unat b + unat n \<le> unat a)"
    proof
      assume "cells (unat a, unat n) \<inter> cells (unat b, unat n) \<noteq> {}"
      then show "\<not> (unat a + unat n \<le> unat b \<or> unat b + unat n \<le> unat a)" by (auto simp: cells_def)
    next
      assume "\<not> (unat a + unat n \<le> unat b \<or> unat b + unat n \<le> unat a)"
      then have "max (unat a) (unat b) \<in> cells (unat a, unat n) \<inter> cells (unat b, unat n)"
        using n by (auto simp: in_cells)
      then show "cells (unat a, unat n) \<inter> cells (unat b, unat n) \<noteq> {}" by blast
    qed
    with False show ?thesis by (auto simp: ranges_overlap_def lt s word_le_iff_unat)
  qed
qed

section \<open>The completion pool\<close>

lemma copy_pool [simp]:
  "completion_pool (enter_phase ph s) = completion_pool s"
  "completion_pool (start_host_dma s) = completion_pool s"
  "completion_pool (start_device_dma s) = completion_pool s"
  "completion_pool (complete_memory_copy r s) =
     completion_pool (cp_publish_completion (mcs_completion_token (memory_copy_state s)) r s)"
  "completion_pool (fail_memory_copy r s) =
     completion_pool (cp_publish_completion (mcs_completion_token (memory_copy_state s)) r s)"
  by (simp_all add: enter_phase_def start_host_dma_def start_device_dma_def complete_memory_copy_def
      fail_memory_copy_def Let_def)

lemma start_cache_pool: "start_cache_operation a n md s = Some s' \<Longrightarrow> completion_pool s' = completion_pool s"
  by (auto simp: start_cache_operation_def cp_cache_operation_start_def claim_cache_state_def
      split: if_splits option.splits)

lemma publish_fault_pool:
  "completion_pool (cp_publish_completion t r (cp_firmware_status_fault c s)) =
     completion_pool (cp_publish_completion t r s)"
  by (simp add: cp_publish_completion_def cp_completion_is_pending_def cp_firmware_boot_generation_def)

lemma copy_turn_pool:
  defines "pub \<equiv> \<lambda>s r. completion_pool (cp_publish_completion (mcs_completion_token (memory_copy_state s)) r s)"
  shows "completion_pool (copy_wait_predecessor s) = completion_pool s \<or>
           (\<exists>r. completion_pool (copy_wait_predecessor s) = pub s r)"
    and "completion_pool (copy_flush_source s) = completion_pool s"
    and "completion_pool (copy_flush_destination s) = completion_pool s"
    and "completion_pool (copy_wait_dma s) = completion_pool s \<or> (\<exists>r. completion_pool (copy_wait_dma s) = pub s r)"
    and "completion_pool (copy_invalidate_destination s) = completion_pool s \<or>
           (\<exists>r. completion_pool (copy_invalidate_destination s) = pub s r)"
    and "completion_pool (copy_drain_dma s) = completion_pool s"
  unfolding pub_def
  by (auto simp: copy_turn_defs Let_def start_cache_pool split: option.splits)

lemma copy_task_pool:
  "completion_pool (cp_memory_copy_task s) = completion_pool s \<or>
   (\<exists>r. completion_pool (cp_memory_copy_task s) =
          completion_pool (cp_publish_completion (mcs_completion_token (memory_copy_state s)) r s))"
proof (cases "cp_memory_copy_is_active s \<and> \<not> phase_timed_out s")
  case True
  then show ?thesis
    using copy_turn_pool [of s] by (cases "mcs_phase (memory_copy_state s)") (simp_all add: cp_memory_copy_task_def)
next
  case False
  have "completion_pool (fail_memory_copy r (cp_firmware_status_fault c s)) =
      completion_pool (cp_publish_completion (mcs_completion_token (memory_copy_state s)) r s)" for r c
    by (simp add: publish_fault_pool)
  with False show ?thesis unfolding cp_memory_copy_task_def by auto
qed

lemma copy_task_advance: "completion_advance (completion_pool s) (completion_pool (cp_memory_copy_task s))"
  using copy_task_pool [of s] publish_advance [of s] by (metis completion_advance_refl)

lemma advance_if:
  "completion_advance p (completion_pool a) \<Longrightarrow> completion_advance p (completion_pool b) \<Longrightarrow>
     completion_advance p (completion_pool (if c then a else b))"
  by simp

lemma submit_advance: "completion_advance (completion_pool s) (completion_pool (cp_memory_copy_submit am p s))"
  unfolding cp_memory_copy_submit_def Let_def by (intro advance_if publish_advance) simp

section \<open>One turn\<close>

lemma enter_phase_simps [simp]:
  "mcs_phase (memory_copy_state (enter_phase ph s)) = ph"
  "mcs_active (memory_copy_state (enter_phase ph s)) = mcs_active (memory_copy_state s)"
  "mcs_completion_token (memory_copy_state (enter_phase ph s)) = mcs_completion_token (memory_copy_state s)"
  "mcs_src_domain (memory_copy_state (enter_phase ph s)) = mcs_src_domain (memory_copy_state s)"
  "mcs_dst_domain (memory_copy_state (enter_phase ph s)) = mcs_dst_domain (memory_copy_state s)"
  "mcs_src_addr (memory_copy_state (enter_phase ph s)) = mcs_src_addr (memory_copy_state s)"
  "mcs_dst_addr (memory_copy_state (enter_phase ph s)) = mcs_dst_addr (memory_copy_state s)"
  "mcs_size (memory_copy_state (enter_phase ph s)) = mcs_size (memory_copy_state s)"
  "mcs_phase_started_tick (memory_copy_state (enter_phase ph s)) = tick_count s"
  "host_dma (enter_phase ph s) = host_dma s" "device_dma (enter_phase ph s) = device_dma s"
  "cache_state (enter_phase ph s) = cache_state s" "tick_count (enter_phase ph s) = tick_count s"
  "kernel_state_buf (enter_phase ph s) = kernel_state_buf s" "status (enter_phase ph s) = status s"
  "boot_generation (enter_phase ph s) = boot_generation s" "g_num_sm (enter_phase ph s) = g_num_sm s"
  by (simp_all add: enter_phase_def upd_copy_def)

lemma dma_start_simps [simp]:
  "memory_copy_state (start_host_dma s) = memory_copy_state s"
  "memory_copy_state (start_device_dma s) = memory_copy_state s"
  "cache_state (start_host_dma s) = cache_state s" "cache_state (start_device_dma s) = cache_state s"
  "kernel_state_buf (start_host_dma s) = kernel_state_buf s"
  "kernel_state_buf (start_device_dma s) = kernel_state_buf s"
  "tick_count (start_host_dma s) = tick_count s" "tick_count (start_device_dma s) = tick_count s"
  "device_dma (start_host_dma s) = device_dma s" "host_dma (start_device_dma s) = host_dma s"
  "boot_generation (start_host_dma s) = boot_generation s"
  "boot_generation (start_device_dma s) = boot_generation s"
  "g_num_sm (start_host_dma s) = g_num_sm s" "g_num_sm (start_device_dma s) = g_num_sm s"
  by (simp_all add: start_host_dma_def start_device_dma_def Let_def)

lemma end_copy_simps [simp]:
  "mcs_active (memory_copy_state (complete_memory_copy r s)) = 0"
  "mcs_phase (memory_copy_state (complete_memory_copy r s)) = MemoryCopyPhaseIdle"
  "host_dma (complete_memory_copy r s) = host_dma s" "device_dma (complete_memory_copy r s) = device_dma s"
  "cache_state (complete_memory_copy r s) = cache_state s"
  "kernel_state_buf (complete_memory_copy r s) = kernel_state_buf s"
  "boot_generation (complete_memory_copy r s) = boot_generation s"
  by (simp_all add: complete_memory_copy_def upd_copy_def)

lemma start_cache_operation_Some:
  assumes "start_cache_operation a n md s = Some s'"
  shows "\<not> cp_cache_operation_pending s" and "cp_cache_operation_pending s'"
    and "memory_copy_state s' = memory_copy_state s" and "kernel_state_buf s' = kernel_state_buf s"
    and "host_dma s' = host_dma s" and "device_dma s' = device_dma s" and "tick_count s' = tick_count s"
    and "boot_generation s' = boot_generation s" and "g_num_sm s' = g_num_sm s"
    and "cs_started (cache_state s') = 1" and "cs_completion_token (cache_state s') = 0"
    and "sms s' = map (start_on_sm a n md (cp_cache_targets_for md)) (take (unat (g_num_sm s)) (sms s)) @
                   drop (unat (g_num_sm s)) (sms s)"
  using assms
  by (auto simp: start_cache_operation_def cp_cache_operation_start_def claim_cache_state_def
      cache_claim_now_def start_on_every_sm_def cache_mark_started_def cp_cache_operation_pending_def
      upd_cache_def split: if_splits)

lemma start_cache_operation_free:
  "start_cache_operation a n md s = None \<longleftrightarrow> cp_cache_operation_pending s"
  by (auto simp: start_cache_operation_def cp_cache_operation_start_def claim_cache_state_def
      cp_cache_operation_pending_def)





section \<open>Properties\<close>

text \<open>A device-to-device copy of 256 bytes and the firmware that has just accepted it.\<close>

definition demo_copy :: MemoryCopyPacket where
  "demo_copy = \<lparr>mp_header = 6, mp_src_domain = 2, mp_dst_domain = 2, mp_reserved0 = replicate 4 0,
     mp_src_addr = 0x82000000, mp_dst_addr = 0x82001000, mp_size = 256, mp_reserved1 = replicate 24 0,
     mp_completion_token = demo_token\<rparr>"

lemma demo_boot_regs:
  "g_num_sm demo_boot = 2" "g_global_alloc_base demo_boot = 0x82000000" "mcs_active (memory_copy_state demo_boot) = 0"
  "cs_pending (cache_state demo_boot) = 0" "tick_count demo_boot = 0"
  "list_all (\<lambda>k. ks_in_use k = 0) (kernel_state_buf demo_boot)" "length (kernel_state_buf demo_boot) = 4"
  by code_simp+

lemma demo_copy_ready:
  "\<not> cp_memory_copy_is_active demo_ready" "cp_firmware_is_ready demo_ready"
  "fsa_completion_token_boot_generation (mp_completion_token demo_copy) = ucast (cp_firmware_boot_generation demo_ready)"
  by (simp_all add: cp_memory_copy_is_active_def demo_ready_def demo_boot_regs cp_firmware_is_ready_def
      demo_copy_def demo_token_def abi_simps cp_firmware_boot_generation_def)

text \<open>
  The range checks are exact: a range is accepted as lying in a window precisely when it is
  non-empty and contained in the window as an interval of natural numbers, and two ranges of a
  device-to-device copy are reported as overlapping precisely when they are non-empty and share
  an address or run past the end of the address space.
\<close>

lemma range_checks_exact:
  "(range_in_window a n b w \<longleftrightarrow>
      0 < unat n \<and> {unat a..<unat a + unat n} \<subseteq> {unat b..<unat b + unat w}) \<and>
   (ranges_overlap a c n \<longleftrightarrow> n \<noteq> 0 \<and>
      (2 ^ 64 \<le> unat a + unat n \<or> 2 ^ 64 \<le> unat c + unat n \<or>
       (\<exists>x. x \<in> {unat a..<unat a + unat n} \<and> x \<in> {unat c..<unat c + unat n})))"
proof -
  have "{unat a..<unat a + unat n} \<subseteq> {unat b..<unat b + unat w} \<longleftrightarrow>
      unat b \<le> unat a \<and> unat a + unat n \<le> unat b + unat w" if "0 < unat n"
    using that ivl_subset [of "unat a" "unat a + unat n" "unat b" "unat b + unat w"] by auto
  moreover have "(\<exists>x. x \<in> {unat a..<unat a + unat n} \<and> x \<in> {unat c..<unat c + unat n}) \<longleftrightarrow>
      cells (unat a, unat n) \<inter> cells (unat c, unat n) \<noteq> {}"
    unfolding cells_def fst_conv snd_conv by blast
  ultimately show ?thesis
    by (simp only: range_in_window_iff ranges_overlap_iff unat_pos_iff) blast
qed

lemma if_fail:
  "C \<or> (\<exists>c. B = cp_publish_completion t (memory_copy_status_code c) s) \<Longrightarrow>
     \<exists>c. (if C then cp_publish_completion t (memory_copy_status_code x) s else B) =
         cp_publish_completion t (memory_copy_status_code c) s"
  by auto

lemma if_fail_last:
  "C \<Longrightarrow> \<exists>c. (if C then cp_publish_completion t (memory_copy_status_code x) s else B) =
         cp_publish_completion t (memory_copy_status_code c) s"
  by auto

definition memory_copy_acceptable :: "addr_map \<Rightarrow> fw \<Rightarrow> MemoryCopyPacket \<Rightarrow> bool" where
  "memory_copy_acceptable am s p \<longleftrightarrow>
     valid_memory_copy_domain_pair (mp_src_domain p) (mp_dst_domain p) \<and> mp_size p \<le> INT64_MAX \<and>
     (mp_size p = 0 \<or>
      (if mp_src_domain p = memory_domain_code FsaMemoryDomainHost then mp_src_addr p else mp_dst_addr p) \<noteq> 0 \<and>
      (mp_src_domain p = memory_domain_code FsaMemoryDomainDevice \<longrightarrow>
         valid_memory_range am s (mp_src_addr p) (mp_size p)) \<and>
      (mp_dst_domain p = memory_domain_code FsaMemoryDomainDevice \<longrightarrow>
         valid_memory_range am s (mp_dst_addr p) (mp_size p)) \<and>
      (mp_src_domain p = memory_domain_code FsaMemoryDomainDevice \<and>
       mp_dst_domain p = memory_domain_code FsaMemoryDomainDevice \<longrightarrow>
         \<not> ranges_overlap (mp_src_addr p) (mp_dst_addr p) (mp_size p)))"

lemma memory_copy_submit_exact_core:
  assumes "\<not> cp_memory_copy_is_active s" and "cp_firmware_is_ready s"
    and "fsa_completion_token_boot_generation (mp_completion_token p) = ucast (cp_firmware_boot_generation s)"
  shows "let s' = cp_memory_copy_submit am p s; m' = memory_copy_state s' in
     if memory_copy_acceptable am s p
     then cp_memory_copy_is_active s' \<and> mcs_phase m' = MemoryCopyPhaseWaitPredecessor \<and>
                mcs_src_domain m' = mp_src_domain p \<and> mcs_dst_domain m' = mp_dst_domain p \<and>
                mcs_src_addr m' = mp_src_addr p \<and> mcs_dst_addr m' = mp_dst_addr p \<and>
                mcs_size m' = mp_size p \<and> mcs_completion_token m' = mp_completion_token p \<and>
                completion_pool s' = completion_pool s
     else memory_copy_state s' = memory_copy_state s \<and>
          (\<exists>r. command_failure r \<and> s' = cp_publish_completion (mp_completion_token p) r s)"
proof -
  have ov: "ranges_overlap a b n \<Longrightarrow> n \<noteq> 0" for a b n by (auto simp: ranges_overlap_def split: if_splits)
  have pub: "memory_copy_state s' = memory_copy_state s \<and>
      (\<exists>r. command_failure r \<and> s' = cp_publish_completion (mp_completion_token p) r s)"
    if "s' = cp_publish_completion (mp_completion_token p) (memory_copy_status_code c) s" for s' c
    using that memory_copy_status_failure [of c] by auto
  show ?thesis
  proof (cases "memory_copy_acceptable am s p")
    case True
    have "cp_memory_copy_submit am p s = upd_copy (\<lambda>m. m\<lparr>mcs_active := 1\<rparr>)
        (enter_phase MemoryCopyPhaseWaitPredecessor
          (upd_copy (\<lambda>m. m\<lparr>mcs_src_addr := mp_src_addr p, mcs_dst_addr := mp_dst_addr p,
             mcs_size := mp_size p, mcs_src_domain := mp_src_domain p,
             mcs_dst_domain := mp_dst_domain p, mcs_completion_token := mp_completion_token p\<rparr>) s))"
    proof (cases "mp_size p = 0")
      case zero: True
      then have "\<not> ranges_overlap (mp_src_addr p) (mp_dst_addr p) (mp_size p)" using ov by blast
      with zero True assms(1-3) show ?thesis
        by (simp add: cp_memory_copy_submit_def Let_def memory_copy_acceptable_def)
    next
      case nz: False
      then show ?thesis
        using True assms(1-3)
        by (simp add: cp_memory_copy_submit_def Let_def memory_copy_acceptable_def) blast
    qed
    with True show ?thesis by (simp add: cp_memory_copy_is_active_def)
  next
    case False
    have "\<exists>c. cp_memory_copy_submit am p s =
        cp_publish_completion (mp_completion_token p) (memory_copy_status_code c) s"
    proof (cases "valid_memory_copy_domain_pair (mp_src_domain p) (mp_dst_domain p)")
      case no_pair: False
      then show ?thesis
        unfolding cp_memory_copy_submit_def Let_def by (intro if_fail [OF disjI2] if_fail_last)
    next
      case pair: True
      show ?thesis
        unfolding cp_memory_copy_submit_def Let_def
        by (intro if_fail [OF disjI2] if_fail_last)
          (use False pair in \<open>auto simp: memory_copy_acceptable_def split: if_splits\<close>)
    qed
    then show ?thesis using False pub by (auto simp: Let_def)
  qed
qed

text \<open>
  The reference for the answer to a packet, over intervals of addresses. The apertures are the on-chip
  memory, the uncached window and the global memory from the allocation base to its end.
\<close>

definition device_apertures :: "addr_map \<Rightarrow> fw \<Rightarrow> region set" where
  "device_apertures am s =
     {(unat (FSA_ONCHIP_GMEM_BASE am), unat (FSA_ONCHIP_GMEM_SIZE am)),
      (unat (FSA_NONCACHE_ALLOC_BASE am), unat (FSA_NONCACHE_ALLOC_SIZE am)),
      (unat (cp_hwinfo_global_alloc_base s),
       unat (FSA_GLOBAL_MEM_BASE am + FSA_GLOBAL_MEM_SIZE am - cp_hwinfo_global_alloc_base s))}"

definition in_aperture :: "addr_map \<Rightarrow> fw \<Rightarrow> u64 \<Rightarrow> u64 \<Rightarrow> bool" where
  "in_aperture am s a n \<longleftrightarrow> (\<exists>w \<in> device_apertures am s. cells (unat a, unat n) \<subseteq> cells w)"

definition clash :: "u64 \<Rightarrow> u64 \<Rightarrow> u64 \<Rightarrow> bool" where
  "clash a c n \<longleftrightarrow> 2 ^ 64 \<le> unat a + unat n \<or> 2 ^ 64 \<le> unat c + unat n \<or>
     cells (unat a, unat n) \<inter> cells (unat c, unat n) \<noteq> {}"

definition memory_copy_refusal :: "addr_map \<Rightarrow> fw \<Rightarrow> MemoryCopyPacket \<Rightarrow> FsaMemoryCopyStatus option" where
  "memory_copy_refusal am s p =
     (let host = memory_domain_code FsaMemoryDomainHost; device = memory_domain_code FsaMemoryDomainDevice;
          src = mp_src_domain p; dst = mp_dst_domain p; n = mp_size p
      in if cp_memory_copy_is_active s then Some FsaMemoryCopyStatusInternalError
         else if \<not> cp_firmware_is_ready s \<or>
           fsa_completion_token_boot_generation (mp_completion_token p) \<noteq> ucast (cp_firmware_boot_generation s)
         then Some FsaMemoryCopyStatusNotReady
         else if (src, dst) \<notin> {(host, device), (device, host), (device, device)}
         then Some FsaMemoryCopyStatusInvalidDomainPair
         else if n \<noteq> 0 \<and> (src = host \<and> mp_src_addr p = 0 \<or> src = device \<and> mp_dst_addr p = 0)
         then Some FsaMemoryCopyStatusInvalidAddress
         else if 2 ^ 63 \<le> unat n \<or>
           n \<noteq> 0 \<and> (src = device \<and> \<not> in_aperture am s (mp_src_addr p) n \<or>
                    dst = device \<and> \<not> in_aperture am s (mp_dst_addr p) n)
         then Some FsaMemoryCopyStatusInvalidRange
         else if n \<noteq> 0 \<and> src = device \<and> dst = device \<and> clash (mp_src_addr p) (mp_dst_addr p) n
         then Some FsaMemoryCopyStatusOverlap
         else None)"

lemma valid_memory_range_iff: "n \<noteq> 0 \<Longrightarrow> valid_memory_range am s a n \<longleftrightarrow> in_aperture am s a n"
  using range_checks_exact [of a n]
  by (simp add: valid_memory_range_def in_aperture_def device_apertures_def cells_def unat_pos_iff)

lemma ranges_overlap_clash: "ranges_overlap a c n \<longleftrightarrow> n \<noteq> 0 \<and> clash a c n"
  by (simp only: ranges_overlap_iff clash_def)

lemma size_fits_iff: "(n :: u64) \<le> INT64_MAX \<longleftrightarrow> unat n < 2 ^ 63"
  by (simp add: word_le_iff_unat) arith

lemma memory_copy_submit_refusal:
  "cp_memory_copy_submit am p s =
     (case memory_copy_refusal am s p of
        Some st \<Rightarrow> cp_publish_completion (mp_completion_token p) (memory_copy_status_code st) s
      | None \<Rightarrow> upd_copy (\<lambda>m. m\<lparr>mcs_active := 1\<rparr>)
          (enter_phase MemoryCopyPhaseWaitPredecessor
            (upd_copy (\<lambda>m. m\<lparr>mcs_src_addr := mp_src_addr p, mcs_dst_addr := mp_dst_addr p,
               mcs_size := mp_size p, mcs_src_domain := mp_src_domain p,
               mcs_dst_domain := mp_dst_domain p, mcs_completion_token := mp_completion_token p\<rparr>) s)))"
proof (cases "cp_memory_copy_is_active s \<or> \<not> cp_firmware_is_ready s \<or>
    fsa_completion_token_boot_generation (mp_completion_token p) \<noteq> ucast (cp_firmware_boot_generation s)")
  case True
  then show ?thesis
    by (cases "cp_memory_copy_is_active s") (simp_all only: cp_memory_copy_submit_def memory_copy_refusal_def Let_def if_True
        if_False simp_thms option.case)
next
  case ready: False
  note defs = cp_memory_copy_submit_def memory_copy_refusal_def Let_def valid_memory_copy_domain_pair_def
    ranges_overlap_clash size_fits_iff
  show ?thesis
  proof (cases "valid_memory_copy_domain_pair (mp_src_domain p) (mp_dst_domain p)")
    case False
    then have "(mp_src_domain p, mp_dst_domain p) \<notin> {(1, 2), (2, 1), (2, 2)}"
      by (auto simp: valid_memory_copy_domain_pair_def)
    with ready False show ?thesis by (simp add: cp_memory_copy_submit_def memory_copy_refusal_def Let_def)
  next
    case True
    then consider "mp_src_domain p = 1" "mp_dst_domain p = 2" | "mp_src_domain p = 2" "mp_dst_domain p = 1"
      | "mp_src_domain p = 2" "mp_dst_domain p = 2" by (auto simp: valid_memory_copy_domain_pair_def)
    then show ?thesis
      by cases (cases "mp_size p = 0"; use ready in \<open>simp add: defs valid_memory_range_iff not_less\<close>)+
  qed
qed

text \<open>
  C28. The answer to a memory-copy packet is exact. It is refused, with nothing changed but its own
  completion, with the first of these statuses that applies: internal error while a copy is
  active; not ready when the firmware is not ready or the token is of another boot; invalid domain
  pair unless the copy is host-to-device, device-to-host or device-to-device; invalid address when a
  non-empty copy has a null source on the host or a null destination otherwise; invalid range when
  the size does not fit a signed descriptor or a non-empty device range lies in none of the three
  apertures; overlap when the ranges of a non-empty device-to-device copy share an address or wrap. Otherwise it
  is accepted: the request is recorded, the copy is active in its first phase and nothing is published.
\<close>

theorem memory_copy_submit_exact:
  "case memory_copy_refusal am s p of
     Some st \<Rightarrow> cp_memory_copy_submit am p s =
       cp_publish_completion (mp_completion_token p) (memory_copy_status_code st) s
   | None \<Rightarrow>
       let s' = cp_memory_copy_submit am p s; m' = memory_copy_state s' in
       cp_memory_copy_is_active s' \<and> mcs_phase m' = MemoryCopyPhaseWaitPredecessor \<and>
       mcs_src_domain m' = mp_src_domain p \<and> mcs_dst_domain m' = mp_dst_domain p \<and>
       mcs_src_addr m' = mp_src_addr p \<and> mcs_dst_addr m' = mp_dst_addr p \<and>
       mcs_size m' = mp_size p \<and> mcs_completion_token m' = mp_completion_token p \<and>
       completion_pool s' = completion_pool s"
  unfolding memory_copy_submit_refusal
  by (simp add: Let_def cp_memory_copy_is_active_def split: option.split)

lemma demo_copy_acceptable: "memory_copy_acceptable small_addr_map demo_ready demo_copy"
  by (simp add: memory_copy_acceptable_def demo_copy_def valid_memory_copy_domain_pair_def
      valid_memory_range_def range_in_window_def ranges_overlap_def cp_hwinfo_global_alloc_base_def
      demo_ready_def demo_boot_regs small_addr_map_def default_addr_map_def)

definition demo_copying :: fw where
  "demo_copying = cp_memory_copy_submit small_addr_map demo_copy demo_ready"

lemma demo_copying_state:
  "cp_memory_copy_is_active demo_copying" "mcs_completion_token (memory_copy_state demo_copying) = demo_token"
  "mcs_phase (memory_copy_state demo_copying) = MemoryCopyPhaseWaitPredecessor"
  "completion_pool demo_copying = completion_pool demo_ready"
  "mcs_size (memory_copy_state demo_copying) = 256"
  "mcs_src_domain (memory_copy_state demo_copying) = 2" "mcs_dst_domain (memory_copy_state demo_copying) = 2"
  using memory_copy_submit_exact_core [OF demo_copy_ready, of small_addr_map] demo_copy_acceptable
  unfolding demo_copying_def by (simp_all add: Let_def demo_copy_def)

lemma demo_copying_boot: "boot_generation demo_copying = boot_generation demo_ready"
  "kernel_state_buf demo_copying = kernel_state_buf demo_ready" "tick_count demo_copying = tick_count demo_ready"
  unfolding demo_copying_def cp_memory_copy_submit_def Let_def by simp_all

lemma demo_copying_pending: "cp_completion_is_pending demo_copying demo_token" "pool_ok demo_copying"
  using demo_pending demo_pool_ok
  by (simp_all add: cp_completion_is_pending_def cp_firmware_boot_generation_def demo_copying_state
      demo_copying_boot pool_ok_def)


definition transfer_status :: "fw \<Rightarrow> u64" where
  "transfer_status s =
     (if uses_device_source s \<and> uses_device_destination s then dma_STATUS (device_dma s)
      else dma_STATUS (host_dma s))"



definition copy_inv :: "fw \<Rightarrow> bool" where
  "copy_inv s \<longleftrightarrow> (cp_memory_copy_is_active s \<longrightarrow>
     mcs_phase (memory_copy_state s) \<noteq> MemoryCopyPhaseIdle \<and>
     mcs_size (memory_copy_state s) \<le> INT64_MAX \<and>
     valid_memory_copy_domain_pair (mcs_src_domain (memory_copy_state s)) (mcs_dst_domain (memory_copy_state s)))"

lemma valid_pair_device:
  "valid_memory_copy_domain_pair (mcs_src_domain (memory_copy_state s)) (mcs_dst_domain (memory_copy_state s)) \<Longrightarrow>
     uses_device_source s \<or> uses_device_destination s"
  by (auto simp: valid_memory_copy_domain_pair_def uses_device_source_def uses_device_destination_def)

lemma fail_memory_copy_simps [simp]:
  "mcs_phase (memory_copy_state (fail_memory_copy r s)) =
     (if mcs_phase (memory_copy_state s) = MemoryCopyPhaseWaitDma then MemoryCopyPhaseDrainDma else MemoryCopyPhaseIdle)"
  "mcs_active (memory_copy_state (fail_memory_copy r s)) =
     (if mcs_phase (memory_copy_state s) = MemoryCopyPhaseWaitDma then mcs_active (memory_copy_state s) else 0)"
  "status (fail_memory_copy r s) = status s"
  "mcs_size (memory_copy_state (fail_memory_copy r s)) = mcs_size (memory_copy_state s)"
  "mcs_src_domain (memory_copy_state (fail_memory_copy r s)) = mcs_src_domain (memory_copy_state s)"
  "mcs_dst_domain (memory_copy_state (fail_memory_copy r s)) = mcs_dst_domain (memory_copy_state s)"
  by (auto simp: fail_memory_copy_def Let_def)

lemma status_fault [simp]: "status (cp_firmware_status_fault c s) = FsaFirmwareStatusFault"
  by (simp add: cp_firmware_status_fault_def)





text \<open>The description of the transfer does not change while the copy runs.\<close>

definition copy_request :: "fw \<Rightarrow> u8 \<times> u8 \<times> u64 \<times> u64 \<times> u64 \<times> u64" where
  "copy_request s = (let m = memory_copy_state s in
     (mcs_src_domain m, mcs_dst_domain m, mcs_src_addr m, mcs_dst_addr m, mcs_size m, mcs_completion_token m))"

lemma copy_request_simps [simp]:
  "copy_request (enter_phase ph s) = copy_request s" "copy_request (start_host_dma s) = copy_request s"
  "copy_request (start_device_dma s) = copy_request s" "copy_request (complete_memory_copy r s) = copy_request s"
  "copy_request (fail_memory_copy r s) = copy_request s"
  "copy_request (cp_firmware_status_fault c s) = copy_request s"
  "copy_request (upd_copy (\<lambda>m. m\<lparr>mcs_active := a\<rparr>) s) = copy_request s"
  "copy_request (upd_copy (\<lambda>m. m\<lparr>mcs_phase := ph, mcs_active := a\<rparr>) s) = copy_request s"
  by (simp_all add: copy_request_def Let_def complete_memory_copy_def fail_memory_copy_def)

lemma start_cache_request: "start_cache_operation a n md s = Some s' \<Longrightarrow> copy_request s' = copy_request s"
  by (simp add: copy_request_def start_cache_operation_Some(3))




lemma copy_inv_submit:
  assumes "copy_inv s"
  shows "copy_inv (cp_memory_copy_submit am p s)"
proof (cases "cp_memory_copy_is_active s \<or> \<not> cp_firmware_is_ready s \<or>
    fsa_completion_token_boot_generation (mp_completion_token p) \<noteq> ucast (cp_firmware_boot_generation s)")
  case True
  have "copy_inv (cp_publish_completion t r s)" for t r
    using assms by (simp add: copy_inv_def cp_memory_copy_is_active_def)
  with True show ?thesis
    unfolding cp_memory_copy_submit_def Let_def by (cases "cp_memory_copy_is_active s") simp_all
next
  case False
  then have e: "\<not> cp_memory_copy_is_active s" "cp_firmware_is_ready s"
    "fsa_completion_token_boot_generation (mp_completion_token p) = ucast (cp_firmware_boot_generation s)"
    by simp_all
  note core = memory_copy_submit_exact_core [OF e, of am, unfolded Let_def]
  show ?thesis
  proof (cases "memory_copy_acceptable am s p")
    case True
    with core show ?thesis by (simp add: copy_inv_def memory_copy_acceptable_def)
  next
    case no: False
    with core e(1) show ?thesis by (simp add: copy_inv_def cp_memory_copy_is_active_def)
  qed
qed


definition token_result :: "fw \<Rightarrow> FsaCompletionToken \<Rightarrow> FsaCompletionResult" where
  "token_result s t = fsa_completion_slot_result (completion_pool s ! token_slot t)"

lemma token_result_publish:
  assumes "pool_ok s" and "cp_completion_is_pending s t"
  shows "token_result (cp_publish_completion t r s) t = r"
  using publish_slot [OF assms(2,1), of r] by (simp add: token_result_def abi_simps)

lemma token_result_pending: "cp_completion_is_pending s t \<Longrightarrow> token_result s t = FSA_COMPLETION_RESULT_PENDING"
  by (simp add: cp_completion_is_pending_def token_result_def Let_def)


lemma token_result_cong: "completion_pool s = completion_pool s' \<Longrightarrow> token_result s t = token_result s' t"
  by (simp add: token_result_def)

lemma token_result_copy:
  assumes "pool_ok s" and "cp_completion_is_pending s t" and "t = mcs_completion_token (memory_copy_state s)"
  shows "token_result (complete_memory_copy r s) t = r"
    and "token_result (fail_memory_copy r (cp_firmware_status_fault c s)) t = r"
    and "token_result (enter_phase ph s') t = token_result s' t"
    and "token_result (start_host_dma s) t = FSA_COMPLETION_RESULT_PENDING"
    and "token_result (start_device_dma s) t = FSA_COMPLETION_RESULT_PENDING"
    and "start_cache_operation a n md s = Some s' \<Longrightarrow> token_result s' t = FSA_COMPLETION_RESULT_PENDING"
    and "token_result (upd_copy f s) t = FSA_COMPLETION_RESULT_PENDING"
    and "token_result s t = FSA_COMPLETION_RESULT_PENDING"
  using token_result_publish [OF assms(1,2)] token_result_pending [OF assms(2)] assms(3)
    token_result_cong [OF start_cache_pool]
  by (simp_all add: token_result_def publish_fault_pool)

text \<open>
  A pending copy token becomes Success only on these occasions: the copy is empty and no
  kernel or cache operation is active, the host transfer to a host destination is done, or the
  invalidation of the destination that follows a finished transfer has retired. When a phase
  times out the firmware is faulted and the token receives Timeout instead.
\<close>

lemma memory_copy_success_sound:
  assumes "pool_ok s" and "cp_memory_copy_is_active s"
    and "cp_completion_is_pending s (mcs_completion_token (memory_copy_state s))"
  defines "r' \<equiv> token_result (cp_memory_copy_task s) (mcs_completion_token (memory_copy_state s))"
  shows "(phase_timed_out s \<longrightarrow> r' = memory_copy_status_code FsaMemoryCopyStatusTimeout \<and>
            status (cp_memory_copy_task s) = FsaFirmwareStatusFault) \<and>
         (r' = FSA_COMPLETION_RESULT_SUCCESS \<longrightarrow> \<not> phase_timed_out s \<and>
           (case mcs_phase (memory_copy_state s) of
              MemoryCopyPhaseWaitPredecessor \<Rightarrow>
                mcs_size (memory_copy_state s) = 0 \<and> \<not> cp_has_active_kernel_or_cache s
            | MemoryCopyPhaseWaitDma \<Rightarrow>
                transfer_status s = dma_status_code DmaStatusDone \<and> \<not> uses_device_destination s
            | MemoryCopyPhaseInvalidateDestination \<Rightarrow> \<not> cp_cache_operation_pending s
            | _ \<Rightarrow> False))"
proof (cases "phase_timed_out s")
  case True
  with assms(2) have "cp_memory_copy_task s =
      fail_memory_copy (memory_copy_status_code FsaMemoryCopyStatusTimeout)
        (cp_firmware_status_fault FsaFirmwareFaultMemoryCopyTimeout s)"
    by (simp add: cp_memory_copy_task_def)
  then show ?thesis
    using True token_result_copy(2) [OF assms(1,3) refl] by (simp add: r'_def completion_result_defs)
next
  case False
  note tr = token_result_copy [OF assms(1,3) refl]
  have ps: "FSA_COMPLETION_RESULT_PENDING \<noteq> FSA_COMPLETION_RESULT_SUCCESS" by (simp add: completion_result_defs)
  have fs: "(6 :: u16) \<noteq> FSA_COMPLETION_RESULT_SUCCESS" "(4 :: u16) \<noteq> FSA_COMPLETION_RESULT_SUCCESS"
    by (simp_all add: completion_result_defs)
  have "r' = FSA_COMPLETION_RESULT_SUCCESS \<longrightarrow>
           (case mcs_phase (memory_copy_state s) of
              MemoryCopyPhaseWaitPredecessor \<Rightarrow>
                mcs_size (memory_copy_state s) = 0 \<and> \<not> cp_has_active_kernel_or_cache s
            | MemoryCopyPhaseWaitDma \<Rightarrow>
                transfer_status s = dma_status_code DmaStatusDone \<and> \<not> uses_device_destination s
            | MemoryCopyPhaseInvalidateDestination \<Rightarrow> \<not> cp_cache_operation_pending s
            | _ \<Rightarrow> False)"
    using False assms(2) ps fs
    by (cases "mcs_phase (memory_copy_state s)")
      (simp_all add: r'_def cp_memory_copy_task_def copy_turn_defs Let_def tr transfer_status_def
        split: option.splits)
  with False show ?thesis by simp
qed

text \<open>
  The environment finishing what the copy started: the cache operation retires and the DMA
  engines report completion.  \<open>copy_round\<close> is one fixed schedule, the responsive one: the environment
  finishes between any two turns of the task, the clock does not advance and nothing else runs.
\<close>

definition copy_env :: "fw \<Rightarrow> fw" where
  "copy_env s = cache_release (s\<lparr>host_dma := (host_dma s)\<lparr>dma_STATUS := dma_status_code DmaStatusDone\<rparr>,
     device_dma := (device_dma s)\<lparr>dma_STATUS := dma_status_code DmaStatusDone\<rparr>\<rparr>)"

definition copy_round :: "fw \<Rightarrow> fw" where
  "copy_round s = cp_memory_copy_task (copy_env s)"

definition copy_at :: "cp_memory_copy_phase \<Rightarrow> fw \<Rightarrow> fw \<Rightarrow> bool" where
  "copy_at ph s0 s \<longleftrightarrow> cp_memory_copy_is_active s \<and> mcs_phase (memory_copy_state s) = ph \<and>
     copy_request s = copy_request s0 \<and> completion_pool s = completion_pool s0 \<and>
     boot_generation s = boot_generation s0 \<and> kernel_state_buf s = kernel_state_buf s0 \<and>
     (ph \<noteq> MemoryCopyPhaseWaitPredecessor \<longrightarrow> mcs_phase_started_tick (memory_copy_state s) = tick_count s)"

lemma copy_env_simps [simp]:
  "memory_copy_state (copy_env s) = memory_copy_state s" "completion_pool (copy_env s) = completion_pool s"
  "boot_generation (copy_env s) = boot_generation s" "kernel_state_buf (copy_env s) = kernel_state_buf s"
  "tick_count (copy_env s) = tick_count s" "cp_cache_operation_pending (copy_env s) = False"
  "dma_STATUS (host_dma (copy_env s)) = dma_status_code DmaStatusDone"
  "dma_STATUS (device_dma (copy_env s)) = dma_status_code DmaStatusDone"
  "copy_request (copy_env s) = copy_request s"
  by (simp_all add: copy_env_def cache_release_def cp_cache_operation_pending_def upd_cache_def copy_request_def)

lemma copy_domains:
  "copy_request s = copy_request s0 \<Longrightarrow> uses_device_source s = uses_device_source s0"
  "copy_request s = copy_request s0 \<Longrightarrow> uses_device_destination s = uses_device_destination s0"
  "copy_request s = copy_request s0 \<Longrightarrow> mcs_size (memory_copy_state s) = mcs_size (memory_copy_state s0)"
  "copy_request s = copy_request s0 \<Longrightarrow>
     mcs_completion_token (memory_copy_state s) = mcs_completion_token (memory_copy_state s0)"
  by (simp_all add: copy_request_def Let_def uses_device_source_def uses_device_destination_def)

lemma copy_at_turn:
  assumes "copy_at ph s0 s" and "ph \<noteq> MemoryCopyPhaseIdle"
  shows "\<not> phase_timed_out (copy_env s)" and "cp_memory_copy_is_active (copy_env s)"
    and "mcs_phase (memory_copy_state (copy_env s)) = ph" and "copy_request (copy_env s) = copy_request s0"
    and "uses_device_source (copy_env s) = uses_device_source s0"
    and "uses_device_destination (copy_env s) = uses_device_destination s0"
  using assms copy_domains [of "copy_env s" s0]
  by (auto simp: copy_at_def phase_timed_out_def cp_memory_copy_is_active_def CP_MEMORY_COPY_TIMEOUT_TICKS_def)

lemma copy_at_start_cache:
  assumes "copy_at ph s0 s" and "start_cache_operation a n md (copy_env s) = Some s'"
    and "ph' \<noteq> MemoryCopyPhaseWaitPredecessor"
  shows "copy_at ph' s0 (enter_phase ph' s')"
  using assms start_cache_operation_Some [OF assms(2)] start_cache_request [OF assms(2)] start_cache_pool [OF assms(2)]
  by (simp add: copy_at_def cp_memory_copy_is_active_def)

lemma copy_at_start_dma:
  assumes "copy_at ph s0 s"
  shows "copy_at MemoryCopyPhaseWaitDma s0 (enter_phase MemoryCopyPhaseWaitDma (start_host_dma (copy_env s)))"
    and "copy_at MemoryCopyPhaseWaitDma s0 (enter_phase MemoryCopyPhaseWaitDma (start_device_dma (copy_env s)))"
  using assms by (simp_all add: copy_at_def cp_memory_copy_is_active_def)

lemma copy_env_starts: "\<exists>s'. start_cache_operation a n md (copy_env s) = Some s'"
  using start_cache_operation_free [of a n md "copy_env s"] by (cases "start_cache_operation a n md (copy_env s)") auto

lemma copy_round_steps:
  assumes at: "copy_at ph s0 s" and dev: "uses_device_source s0 \<or> uses_device_destination s0"
    and sz: "mcs_size (memory_copy_state s0) \<noteq> 0"
    and idle: "\<forall>k \<in> set (kernel_state_buf s0). ks_in_use k = 0"
  shows "ph = MemoryCopyPhaseWaitPredecessor \<Longrightarrow> copy_at MemoryCopyPhaseFlushSource s0 (copy_round s) \<or>
           copy_at MemoryCopyPhaseFlushDestination s0 (copy_round s)"
    and "ph = MemoryCopyPhaseFlushSource \<Longrightarrow> copy_at MemoryCopyPhaseFlushDestination s0 (copy_round s) \<or>
           copy_at MemoryCopyPhaseWaitDma s0 (copy_round s)"
    and "ph = MemoryCopyPhaseFlushDestination \<Longrightarrow> copy_at MemoryCopyPhaseWaitDma s0 (copy_round s)"
proof -
  note env = copy_at_turn [OF at] and cache = copy_at_start_cache [OF at] and dma = copy_at_start_dma [OF at]
  have task: "copy_round s = (case ph of MemoryCopyPhaseWaitPredecessor \<Rightarrow> copy_wait_predecessor (copy_env s)
      | MemoryCopyPhaseFlushSource \<Rightarrow> copy_flush_source (copy_env s)
      | MemoryCopyPhaseFlushDestination \<Rightarrow> copy_flush_destination (copy_env s) | _ \<Rightarrow> copy_round s)"
    if "ph \<noteq> MemoryCopyPhaseIdle"
    using env [OF that] by (auto simp: copy_round_def cp_memory_copy_task_def split: cp_memory_copy_phase.splits)
  have nk: "\<not> cp_has_active_kernel_or_cache (copy_env s)"
    using idle at by (simp add: cp_has_active_kernel_or_cache_def copy_at_def)
  have nz: "mcs_size (memory_copy_state s) \<noteq> 0" using copy_domains(3) [of s s0] at sz by (simp add: copy_at_def)
  { assume "ph = MemoryCopyPhaseWaitPredecessor"
    with task env nk nz dev cache show "copy_at MemoryCopyPhaseFlushSource s0 (copy_round s) \<or>
           copy_at MemoryCopyPhaseFlushDestination s0 (copy_round s)"
      by (auto simp: copy_wait_predecessor_def Let_def start_cache_operation_free split: option.splits) }
  { assume "ph = MemoryCopyPhaseFlushSource"
    with task env cache dma show "copy_at MemoryCopyPhaseFlushDestination s0 (copy_round s) \<or>
           copy_at MemoryCopyPhaseWaitDma s0 (copy_round s)"
      by (auto simp: copy_flush_source_def Let_def start_cache_operation_free split: option.splits) }
  { assume "ph = MemoryCopyPhaseFlushDestination"
    with task env dma show "copy_at MemoryCopyPhaseWaitDma s0 (copy_round s)"
      by (simp add: copy_flush_destination_def) }
qed

definition copy_succeeded :: "fw \<Rightarrow> fw \<Rightarrow> bool" where
  "copy_succeeded s0 s \<longleftrightarrow> \<not> cp_memory_copy_is_active s \<and>
     token_result s (mcs_completion_token (memory_copy_state s0)) = FSA_COMPLETION_RESULT_SUCCESS"

lemma copy_at_complete:
  assumes at: "copy_at ph s0 s" and "pool_ok s0"
    and "cp_completion_is_pending s0 (mcs_completion_token (memory_copy_state s0))"
  shows "copy_succeeded s0 (complete_memory_copy FSA_COMPLETION_RESULT_SUCCESS (copy_env s))"
proof -
  have tok: "mcs_completion_token (memory_copy_state s) = mcs_completion_token (memory_copy_state s0)"
    using copy_domains(4) [of s s0] at by (simp add: copy_at_def)
  have "cp_completion_is_pending (copy_env s) (mcs_completion_token (memory_copy_state s0))" "pool_ok (copy_env s)"
    using assms by (simp_all add: copy_at_def cp_completion_is_pending_def cp_firmware_boot_generation_def pool_ok_def)
  from token_result_copy(1) [OF this(2,1)] show ?thesis
    by (simp add: copy_succeeded_def tok cp_memory_copy_is_active_def)
qed

lemma copy_round_last:
  assumes at: "copy_at ph s0 s" and ok: "pool_ok s0"
    and pend: "cp_completion_is_pending s0 (mcs_completion_token (memory_copy_state s0))"
  shows "ph = MemoryCopyPhaseWaitDma \<Longrightarrow>
           copy_at MemoryCopyPhaseInvalidateDestination s0 (copy_round s) \<or> copy_succeeded s0 (copy_round s)"
    and "ph = MemoryCopyPhaseInvalidateDestination \<Longrightarrow> copy_succeeded s0 (copy_round s)"
proof -
  note env = copy_at_turn [OF at] and cache = copy_at_start_cache [OF at] and fin = copy_at_complete [OF assms]
  have task: "copy_round s = (case ph of MemoryCopyPhaseWaitDma \<Rightarrow> copy_wait_dma (copy_env s)
      | MemoryCopyPhaseInvalidateDestination \<Rightarrow> copy_invalidate_destination (copy_env s) | _ \<Rightarrow> copy_round s)"
    if "ph \<noteq> MemoryCopyPhaseIdle"
    using env [OF that] by (auto simp: copy_round_def cp_memory_copy_task_def split: cp_memory_copy_phase.splits)
  { assume "ph = MemoryCopyPhaseWaitDma"
    with task env cache fin show "copy_at MemoryCopyPhaseInvalidateDestination s0 (copy_round s) \<or>
        copy_succeeded s0 (copy_round s)"
      by (auto simp: copy_wait_dma_def Let_def start_cache_operation_free split: option.splits) }
  { assume "ph = MemoryCopyPhaseInvalidateDestination"
    with task fin show "copy_succeeded s0 (copy_round s)" by (simp add: copy_invalidate_destination_def) }
qed

text \<open>
  C19. Progress under the responsive schedule: once no kernel is running, a non-empty accepted copy
  finishes with Success after at most five turns of its task, when its cache operations retire and
  its DMA completes between every two turns and no other task runs in between.
\<close>

theorem memory_copy_completes:
  assumes "cp_memory_copy_is_active s" and "mcs_phase (memory_copy_state s) = MemoryCopyPhaseWaitPredecessor"
    and "copy_inv s" and "mcs_size (memory_copy_state s) \<noteq> 0"
    and "\<forall>k \<in> set (kernel_state_buf s). ks_in_use k = 0"
    and "pool_ok s" and "cp_completion_is_pending s (mcs_completion_token (memory_copy_state s))"
  shows "\<exists>k \<le> 5. copy_succeeded s ((copy_round ^^ k) s)"
proof -
  have dev: "uses_device_source s \<or> uses_device_destination s"
    using assms(1,3) valid_pair_device [of s] by (auto simp: copy_inv_def)
  note step = copy_round_steps [OF _ dev assms(4,5)] and last = copy_round_last [OF _ assms(6,7)]
  have start: "copy_at MemoryCopyPhaseWaitPredecessor s s" using assms(1,2) by (simp add: copy_at_def)
  have inv: "\<exists>k \<le> 1. copy_succeeded s ((copy_round ^^ k) x)" if "copy_at MemoryCopyPhaseInvalidateDestination s x" for x
    using last(2) [OF that refl] by (intro exI [of _ 1]) simp
  have bump: "\<exists>k \<le> Suc n. copy_succeeded s ((copy_round ^^ k) x)"
    if "\<exists>k \<le> n. copy_succeeded s ((copy_round ^^ k) (copy_round x))" for x n
    using that by (metis Suc_le_mono funpow_Suc_right comp_apply)
  have one: "\<exists>k \<le> n. copy_succeeded s ((copy_round ^^ k) (copy_round x))" if "copy_succeeded s (copy_round x)" for x n
    using that by (intro exI [of _ 0]) simp
  have dma: "\<exists>k \<le> 2. copy_succeeded s ((copy_round ^^ k) x)" if "copy_at MemoryCopyPhaseWaitDma s x" for x
    using last(1) [OF that refl] inv one bump [of 1 x] by (auto simp: numeral_2_eq_2)
  have fd: "\<exists>k \<le> 3. copy_succeeded s ((copy_round ^^ k) x)" if "copy_at MemoryCopyPhaseFlushDestination s x" for x
    using step(3) [OF that refl] dma bump [of 2 x] by (simp add: numeral_3_eq_3 numeral_2_eq_2)
  have fs: "\<exists>k \<le> 4. copy_succeeded s ((copy_round ^^ k) x)" if "copy_at MemoryCopyPhaseFlushSource s x" for x
  proof -
    from step(2) [OF that refl] have "\<exists>k \<le> 3. copy_succeeded s ((copy_round ^^ k) (copy_round x))"
      using fd dma by (meson le_trans numeral_le_iff semiring_norm)
    from bump [OF this] show ?thesis by (simp add: eval_nat_numeral)
  qed
  from step(1) [OF start refl] have "\<exists>k \<le> 4. copy_succeeded s ((copy_round ^^ k) (copy_round s))"
    using fs fd by (meson le_trans numeral_le_iff semiring_norm)
  from bump [OF this] show ?thesis by (simp add: eval_nat_numeral)
qed

theorem memory_copy_completes_witness: "\<exists>k \<le> 5. copy_succeeded demo_copying ((copy_round ^^ k) demo_copying)"
proof (rule memory_copy_completes)
  show "copy_inv demo_copying"
    by (simp add: copy_inv_def demo_copying_state valid_memory_copy_domain_pair_def)
  show "\<forall>k \<in> set (kernel_state_buf demo_copying). ks_in_use k = 0"
    using demo_boot_regs(6) by (simp add: demo_copying_boot demo_ready_def list_all_iff)
qed (simp_all add: demo_copying_state demo_copying_pending)

end
