(* ===== verification/Fw_Kernel.thy ===== *)
theory Fw_Kernel
  imports Fw_Memory_Copy
begin

text \<open>
  Kernel launch and retirement: \<^verbatim>\<open>fw/cp_kernel_dispatch.c\<close> and \<^verbatim>\<open>fw/cp_retire.c\<close>. The launch of one packet
  is a task that waits at several places; its program counter with the locals that are live
  there is a value of \<open>kernel_pc\<close>, and one step runs from one place to the next. Retirement is one
  turn of its task's loop. Work-groups are handed to an SM by the address of their slot.
\<close>

section \<open>Launch\<close>

definition signal_kernel_failure :: "KernelDispatchPacket \<Rightarrow> FsaCompletionResult \<Rightarrow> fw \<Rightarrow> fw" where
  "signal_kernel_failure p result s =
     cp_publish_completion (kp_completion_token p) result
       (if kp_kernel_status p \<noteq> 0
        then s\<lparr>mem := mem_store (mem s) (kp_kernel_status p) (kernel_status_bytes zero_kernel_status)\<rparr>
        else s)"

definition valid_kernel_dispatch_packet :: "KernelDispatchPacket \<Rightarrow> bool" where
  "valid_kernel_dispatch_packet p =
     (let flags = kp_dim_reserved0 p;
          allowed_flags = FSA_KERNEL_DISPATCH_DIM_MASK OR FSA_KERNEL_DISPATCH_HAS_PRINTF_META OR
                          FSA_KERNEL_DISPATCH_STACK_REMAP;
          dim = flags AND FSA_KERNEL_DISPATCH_DIM_MASK
      in if dim < 1 \<or> 3 < dim \<or> flags AND NOT allowed_flags \<noteq> 0 then False
         else kp_local_size_x p \<noteq> 0 \<and> kp_local_size_y p \<noteq> 0 \<and> kp_local_size_z p \<noteq> 0 \<and>
              kp_num_groups_x p \<noteq> 0 \<and> kp_num_groups_y p \<noteq> 0 \<and> kp_num_groups_z p \<noteq> 0)"

definition update_id :: "int \<Rightarrow> int \<Rightarrow> int \<Rightarrow> int \<times> int \<times> int \<Rightarrow> bool \<times> int \<times> int \<times> int" where
  "update_id num_x num_y num_z v =
     (case v of (x, y, z) \<Rightarrow>
        if z + 1 < num_z then (True, x, y, z + 1)
        else if y + 1 < num_y then (True, x, y + 1, 0)
        else if x + 1 < num_x then (True, x + 1, 0, 0)
        else (False, x + 1, 0, 0))"

text \<open>
  The round-robin search for an SM that can take a work-group; the result is the SM, the base of
  its local memory, and the new state.
\<close>

fun sm_alloc_loop :: "addr_map \<Rightarrow> u64 \<Rightarrow> nat list \<Rightarrow> fw \<Rightarrow> (nat \<times> u64 \<times> fw) option" where
  "sm_alloc_loop am local_mem_size [] s = None"
| "sm_alloc_loop am local_mem_size (i # is) s =
     (let sm_id = (prev_sm_id s + i) mod unat (g_num_sm s);
          next_sm_id = (sm_id + 1) mod unat (g_num_sm s)
      in if ENQ_VALID (sms s ! sm_id) \<noteq> 0 then sm_alloc_loop am local_mem_size is s
         else if local_mem_size = 0 then Some (sm_id, 0, s\<lparr>prev_sm_id := next_sm_id\<rparr>)
         else case cp_lmem_allocator_alloc am (g_num_sm s) (g_lmem_allocators s) sm_id local_mem_size True of
                (rc, base, allocs) \<Rightarrow>
                  if rc \<noteq> 0 then sm_alloc_loop am local_mem_size is (s\<lparr>g_lmem_allocators := allocs\<rparr>)
                  else Some (sm_id, case base of None \<Rightarrow> 0 | Some b \<Rightarrow> b,
                             s\<lparr>g_lmem_allocators := allocs, prev_sm_id := next_sm_id\<rparr>))"

definition sm_alloc :: "addr_map \<Rightarrow> u64 \<Rightarrow> fw \<Rightarrow> (nat \<times> u64 \<times> fw) option" where
  "sm_alloc am local_mem_size s = sm_alloc_loop am local_mem_size [0..<unat (g_num_sm s)] s"

definition num_groups :: "KernelDispatchPacket \<Rightarrow> int \<times> int \<times> int" where
  "num_groups p = (uint (kp_num_groups_x p), uint (kp_num_groups_y p), uint (kp_num_groups_z p))"

text \<open>\<open>wg_left\<close> receives the product of three \<open>int\<close> values, reduced to 32 bits.\<close>

definition kernel_begin :: "KernelDispatchPacket \<Rightarrow> nat \<Rightarrow> fw \<Rightarrow> fw" where
  "kernel_begin p kid s =
     (case num_groups p of (num_x, num_y, num_z) \<Rightarrow>
        upd_kstate kid (\<lambda>k. k\<lparr>ks_in_use := 1, ks_completion_token := kp_completion_token p,
          ks_wg_left := of_int (num_x * num_y * num_z), ks_result := FSA_COMPLETION_RESULT_SUCCESS,
          ks_status := zero_kernel_status\<rparr>) s)"

definition kernel_wginfo :: "addr_map \<Rightarrow> KernelDispatchPacket \<Rightarrow> fw \<Rightarrow> WGInfo" where
  "kernel_wginfo am p s =
     (let w = zero_wginfo\<lparr>wg_dim := ucast (kp_dim_reserved0 p AND FSA_KERNEL_DISPATCH_DIM_MASK),
            wg_local_size := [ucast (kp_local_size_x p), ucast (kp_local_size_y p), ucast (kp_local_size_z p)],
            wg_num_groups := [ucast (kp_num_groups_x p), ucast (kp_num_groups_y p), ucast (kp_num_groups_z p)],
            wg_global_offset := [ucast (kp_global_offset_x p), ucast (kp_global_offset_y p),
                                 ucast (kp_global_offset_z p)],
            wg_num_threads := ucast (kp_local_size_x p) * ucast (kp_local_size_y p) * ucast (kp_local_size_z p),
            wg_trampoline := kp_kernel_trampoline p,
            wg_stack_size := ucast (FSA_PER_THREAD_STACK_SIZE am),
            wg_local_memory_size := ucast (kp_local_mem_size p)\<rparr>;
          meta = mem_load (mem s) (kp_kernarg_address p) 24
      in if kp_dim_reserved0 p AND FSA_KERNEL_DISPATCH_HAS_PRINTF_META \<noteq> 0
         then w\<lparr>wg_printf_buffer := le_word (byte_field 0 8 meta),
                wg_printf_buffer_position := le_word (byte_field 8 8 meta),
                wg_printf_buffer_capacity := le_word (byte_field 16 4 meta),
                wg_kargs := kp_kernarg_address p + 24\<rparr>
         else w\<lparr>wg_kargs := kp_kernarg_address p\<rparr>)"

datatype kernel_pc =
    KInvClaim
  | KInvStart
  | KInvWait
  | KAlloc
  | KWgi nat WGInfo int int int
  | KSm nat WGInfo int int int nat
  | KRemap nat WGInfo int int int nat nat
  | KEnq nat WGInfo int int int nat nat
  | KDone
  | KPanic

definition kernel_dispatch_entry :: "KernelDispatchPacket \<Rightarrow> fw \<Rightarrow> kernel_pc \<times> fw" where
  "kernel_dispatch_entry p s =
     (if \<not> valid_kernel_dispatch_packet p
      then (KDone, signal_kernel_failure p (kernel_completion_code FsaKernelCompletionBadDimension) s)
      else if 1 < g_num_sm s then (KInvClaim, s) else (KAlloc, s))"

definition kernel_alloc_step :: "addr_map \<Rightarrow> KernelDispatchPacket \<Rightarrow> fw \<Rightarrow> kernel_pc \<times> fw" where
  "kernel_alloc_step am p s =
     (let k = cp_kernel_state_buf_alloc s
      in if k < 0 then (KAlloc, s)
         else let s1 = kernel_begin p (nat k) s
              in if ks_wg_left (kernel_state_buf s1 ! nat k) = 0
                 then (KDone, cp_kernel_state_buf_free (nat k)
                        (signal_kernel_failure p (kernel_completion_code FsaKernelCompletionBadDimension) s1))
                 else (KWgi (nat k) (kernel_wginfo am p s1) 0 0 0, s1))"

definition kernel_wgi_step ::
  "KernelDispatchPacket \<Rightarrow> nat \<Rightarrow> WGInfo \<Rightarrow> int \<Rightarrow> int \<Rightarrow> int \<Rightarrow> fw \<Rightarrow> kernel_pc \<times> fw" where
  "kernel_wgi_step p kid w x y z s =
     (let w' = w\<lparr>wg_id := [of_int x, of_int y, of_int z]\<rparr>
      in case cp_wgi_buf_alloc s of (wbid, s1) \<Rightarrow>
           if wbid < 0 then (KWgi kid w x y z, s)
           else (KSm kid w' x y z (nat wbid),
                 upd_wgi (nat wbid) (\<lambda>b. b\<lparr>wb_kid := int kid, wb_wbid := wbid,
                   wb_kernel_status_ptr := kp_kernel_status p, wb_wginfo := w'\<rparr>) s1))"

definition kernel_sm_step ::
  "addr_map \<Rightarrow> KernelDispatchPacket \<Rightarrow> nat \<Rightarrow> WGInfo \<Rightarrow> int \<Rightarrow> int \<Rightarrow> int \<Rightarrow> nat \<Rightarrow> fw \<Rightarrow> kernel_pc \<times> fw" where
  "kernel_sm_step am p kid w x y z wbid s =
     (case sm_alloc am (ucast (wg_local_memory_size w)) s of
        None \<Rightarrow> (KSm kid w x y z wbid, s)
      | Some (sm_id, local_mem_base, s1) \<Rightarrow>
          (case cp_hwinfo_threads_per_core s1 sm_id of
             None \<Rightarrow> (KPanic, s1)
           | Some t \<Rightarrow>
               let s2 = upd_wgi wbid (\<lambda>b. b\<lparr>wb_smid := int sm_id,
                          wb_wginfo := (wb_wginfo b)\<lparr>wg_local_memory_base := local_mem_base,
                            wg_stack_base := wg_slot_stack_base am t wbid\<rparr>\<rparr>) s1
               in if kp_dim_reserved0 p AND FSA_KERNEL_DISPATCH_STACK_REMAP \<noteq> 0
                  then (KRemap kid w x y z wbid sm_id, s2)
                  else (KEnq kid w x y z wbid sm_id, s2)))"

definition kernel_remap_step ::
  "addr_map \<Rightarrow> nat \<Rightarrow> WGInfo \<Rightarrow> int \<Rightarrow> int \<Rightarrow> int \<Rightarrow> nat \<Rightarrow> nat \<Rightarrow> fw \<Rightarrow> kernel_pc \<times> fw" where
  "kernel_remap_step am kid w x y z wbid sm_id s =
     (case cp_stack_remap_configure am (sms s ! sm_id) (wg_stack_base (wb_wginfo (wgi_buf s ! wbid))) of
        (st, slot, sm') \<Rightarrow>
          (case st of
             CpStackRemapFull \<Rightarrow> (KRemap kid w x y z wbid sm_id, s)
           | CpStackRemapInvalid \<Rightarrow> (KPanic, s)
           | CpStackRemapOkay \<Rightarrow>
               (KEnq kid w x y z wbid sm_id,
                upd_wgi wbid (\<lambda>b. b\<lparr>wb_stack_remap_slot := (case slot of None \<Rightarrow> -1 | Some i \<Rightarrow> i)\<rparr>)
                  (upd_sm sm_id (\<lambda>_. sm') s))))"

definition kernel_enq_step ::
  "addr_map \<Rightarrow> KernelDispatchPacket \<Rightarrow> nat \<Rightarrow> WGInfo \<Rightarrow> int \<Rightarrow> int \<Rightarrow> int \<Rightarrow> nat \<Rightarrow> nat \<Rightarrow> fw \<Rightarrow> kernel_pc \<times> fw" where
  "kernel_enq_step am p kid w x y z wbid sm_id s =
     (let s1 = upd_sm sm_id (\<lambda>sm. sm\<lparr>ENQ_KERNEL_PC := kp_kernel_object p,
                 ENQ_INFO_PTR := wgi_buf_ptr am wbid, ENQ_NUM_THREADS := ucast (wg_num_threads w),
                 ENQ_VALID := 1\<rparr>) s
      in case num_groups p of (num_x, num_y, num_z) \<Rightarrow>
           (case update_id num_x num_y num_z (x, y, z) of (continue, x', y', z') \<Rightarrow>
              if continue then (KWgi kid w x' y' z', s1) else (KDone, s1)))"

fun kernel_dispatch_step :: "addr_map \<Rightarrow> KernelDispatchPacket \<Rightarrow> kernel_pc \<Rightarrow> fw \<Rightarrow> kernel_pc \<times> fw" where
  "kernel_dispatch_step am p KInvClaim s =
     (case claim_cache_state CacheTargetDCache 0 s of None \<Rightarrow> (KInvClaim, s) | Some s' \<Rightarrow> (KInvStart, s'))"
| "kernel_dispatch_step am p KInvStart s =
     (KInvWait, start_on_every_sm 0 0 CacheOpInvalidate CacheTargetDCache s)"
| "kernel_dispatch_step am p KInvWait s =
     (if every_sm_done CacheTargetDCache s then (KAlloc, cache_release s) else (KInvWait, s))"
| "kernel_dispatch_step am p KAlloc s = kernel_alloc_step am p s"
| "kernel_dispatch_step am p (KWgi kid w x y z) s = kernel_wgi_step p kid w x y z s"
| "kernel_dispatch_step am p (KSm kid w x y z wbid) s = kernel_sm_step am p kid w x y z wbid s"
| "kernel_dispatch_step am p (KRemap kid w x y z wbid sm_id) s = kernel_remap_step am kid w x y z wbid sm_id s"
| "kernel_dispatch_step am p (KEnq kid w x y z wbid sm_id) s = kernel_enq_step am p kid w x y z wbid sm_id s"
| "kernel_dispatch_step am p KDone s = (KDone, s)"
| "kernel_dispatch_step am p KPanic s = (KPanic, s)"

section \<open>Retirement\<close>

definition to_kernel_completion_result :: "u64 \<Rightarrow> FsaCompletionResult" where
  "to_kernel_completion_result deq_status =
     (if deq_status = 0 then FSA_COMPLETION_RESULT_SUCCESS
      else if deq_status = 1 then kernel_completion_code FsaKernelCompletionException
      else if deq_status = 2 then kernel_completion_code FsaKernelCompletionBadDimension
      else kernel_completion_code FsaKernelCompletionUnknownError)"

definition sm_free :: "fw \<Rightarrow> nat option" where
  "sm_free s = find_index (\<lambda>sm. DEQ_VALID sm \<noteq> 0) (take (unat (g_num_sm s)) (sms s))"

definition free_wg_local_memory :: "cp_wgi_buf \<Rightarrow> fw \<Rightarrow> fw" where
  "free_wg_local_memory b s =
     (if wb_smid b < 0 \<or> uint (g_num_sm s) \<le> wb_smid b then s
      else if wg_local_memory_size (wb_wginfo b) = 0 then s
      else case cp_lmem_allocator_free (g_num_sm s) (g_lmem_allocators s) (nat (wb_smid b))
                  (wg_local_memory_base (wb_wginfo b)) of
             (rc, allocs) \<Rightarrow> s\<lparr>g_lmem_allocators := allocs\<rparr>)"

definition free_wg_stack_remap :: "addr_map \<Rightarrow> cp_wgi_buf \<Rightarrow> fw \<Rightarrow> fw" where
  "free_wg_stack_remap am b s =
     (if wb_smid b < 0 \<or> uint (g_num_sm s) \<le> wb_smid b then s
      else upd_sm (nat (wb_smid b)) (\<lambda>sm. cp_stack_remap_release am sm (wb_stack_remap_slot b)) s)"

definition free_wg :: "addr_map \<Rightarrow> cp_wgi_buf \<Rightarrow> nat \<Rightarrow> fw \<Rightarrow> fw" where
  "free_wg am b wbid s = cp_wgi_buf_free wbid (free_wg_stack_remap am b (free_wg_local_memory b s))"

text \<open>The slot behind a pointer that an SM returns; a pointer outside the buffer has none.\<close>

definition wgi_deref :: "addr_map \<Rightarrow> fw \<Rightarrow> u64 \<Rightarrow> cp_wgi_buf option" where
  "wgi_deref am s ptr =
     (let off = unat (ptr - FSA_WGI_BUF_BASE am); i = off div sizeof_cp_wgi_buf
      in if off mod sizeof_cp_wgi_buf = 0 \<and> i < length (wgi_buf s) then Some (wgi_buf s ! i) else None)"

definition clear_deq :: "nat \<Rightarrow> fw \<Rightarrow> fw" where
  "clear_deq i s = upd_sm i (\<lambda>sm. sm\<lparr>DEQ_VALID := 0\<rparr>) s"

definition kernel_finish :: "u64 \<Rightarrow> nat \<Rightarrow> fw \<Rightarrow> fw" where
  "kernel_finish kstatus_ptr kid s =
     (let ks = kernel_state_buf s ! kid;
          s1 = (if kstatus_ptr \<noteq> 0
                then s\<lparr>mem := mem_store (mem s) kstatus_ptr (kernel_status_bytes (ks_status ks))\<rparr> else s)
      in cp_kernel_state_buf_free kid (cp_publish_completion (ks_completion_token ks) (ks_result ks) s1))"

definition kernel_count_down :: "FsaCompletionResult \<Rightarrow> FsaKernelStatus \<Rightarrow> u64 \<Rightarrow> nat \<Rightarrow> fw \<Rightarrow> fw" where
  "kernel_count_down result kstatus kstatus_ptr kid s =
     (if ks_wg_left (kernel_state_buf s ! kid) = 0 then s
      else let s1 = upd_kstate kid (\<lambda>k. k\<lparr>ks_wg_left := ks_wg_left k - 1\<rparr>) s;
               s2 = (if result \<noteq> FSA_COMPLETION_RESULT_SUCCESS \<and>
                        ks_result (kernel_state_buf s1 ! kid) = FSA_COMPLETION_RESULT_SUCCESS
                     then upd_kstate kid (\<lambda>k. k\<lparr>ks_result := result, ks_status := kstatus\<rparr>) s1 else s1)
           in if ks_wg_left (kernel_state_buf s2 ! kid) = 0 then kernel_finish kstatus_ptr kid s2 else s2)"

datatype retire_result = RetireWait | RetireWild | Retired fw

definition cp_retire_sm :: "addr_map \<Rightarrow> fw \<Rightarrow> retire_result" where
  "cp_retire_sm am s =
     (case sm_free s of
        None \<Rightarrow> RetireWait
      | Some i \<Rightarrow>
          let sm = sms s ! i in
          if DEQ_INFO_PTR sm = 0 then Retired (clear_deq i s)
          else case wgi_deref am s (DEQ_INFO_PTR sm) of
            None \<Rightarrow> RetireWild
          | Some b \<Rightarrow>
              let kid = wb_kid b; wbid = wb_wbid b in
              if wbid < 0 \<or> uint (wgi_buf_len s) \<le> wbid then Retired (clear_deq i s)
              else if kid < 0 \<or> int (length (kernel_state_buf s)) \<le> kid
              then Retired (free_wg am b (nat wbid) (clear_deq i s))
              else if wb_in_use (wgi_buf s ! nat wbid) = 0 then Retired (clear_deq i s)
              else if ks_in_use (kernel_state_buf s ! nat kid) = 0
              then Retired (free_wg am b (nat wbid) (clear_deq i s))
              else Retired (kernel_count_down (to_kernel_completion_result (DEQ_STATUS sm))
                     \<lparr>ks_mcause = DEQ_MCAUSE sm, ks_mepc = DEQ_MEPC sm, ks_mtval = DEQ_MTVAL sm\<rparr>
                     (wb_kernel_status_ptr b) (nat kid) (free_wg am b (nat wbid) (clear_deq i s))))"

section \<open>Work-group identifiers\<close>

definition id_ok :: "int \<Rightarrow> int \<Rightarrow> int \<Rightarrow> int \<times> int \<times> int \<Rightarrow> bool" where
  "id_ok nx ny nz v = (case v of (x, y, z) \<Rightarrow> 0 \<le> x \<and> x < nx \<and> 0 \<le> y \<and> y < ny \<and> 0 \<le> z \<and> z < nz)"

definition id_rank :: "int \<Rightarrow> int \<Rightarrow> int \<Rightarrow> int \<times> int \<times> int \<Rightarrow> int" where
  "id_rank nx ny nz v = (case v of (x, y, z) \<Rightarrow> (x * ny + y) * nz + z)"

lemma id_rank_bounds:
  assumes "id_ok nx ny nz v"
  shows "0 \<le> id_rank nx ny nz v" and "id_rank nx ny nz v < nx * ny * nz"
proof -
  obtain x y z where v: "v = (x, y, z)" by (cases v)
  have b: "0 \<le> x" "x < nx" "0 \<le> y" "y < ny" "0 \<le> z" "z < nz" using assms by (auto simp: id_ok_def v)
  show "0 \<le> id_rank nx ny nz v" using b by (simp add: id_rank_def v)
  have "x * ny + y + 1 \<le> (x + 1) * ny" using b by (simp add: algebra_simps)
  also have "\<dots> \<le> nx * ny" using b by (intro mult_right_mono) auto
  finally have "(x * ny + y + 1) * nz \<le> nx * ny * nz" using b by (intro mult_right_mono) auto
  then show "id_rank nx ny nz v < nx * ny * nz" using b by (simp add: id_rank_def v algebra_simps)
qed

text \<open>One call moves to the identifier of the next rank, and stops exactly after the last one.\<close>

lemma update_id_step:
  assumes "id_ok nx ny nz v"
  shows "case update_id nx ny nz v of (continue, v') \<Rightarrow>
    (continue \<longleftrightarrow> id_rank nx ny nz v + 1 < nx * ny * nz) \<and>
    (continue \<longrightarrow> id_ok nx ny nz v' \<and> id_rank nx ny nz v' = id_rank nx ny nz v + 1)"
proof -
  obtain x y z where v: "v = (x, y, z)" by (cases v)
  have b: "0 \<le> x" "x < nx" "0 \<le> y" "y < ny" "0 \<le> z" "z < nz" using assms by (auto simp: id_ok_def v)
  consider (z) "z + 1 < nz" | (y) "z + 1 = nz" "y + 1 < ny" | (x) "z + 1 = nz" "y + 1 = ny" "x + 1 < nx"
    | (last) "z + 1 = nz" "y + 1 = ny" "x + 1 = nx" using b by linarith
  then show ?thesis
  proof cases
    case z
    have ok: "id_ok nx ny nz (x, y, z + 1)" using z b by (simp add: id_ok_def)
    from id_rank_bounds(2) [OF ok] show ?thesis using z ok by (simp add: update_id_def v id_rank_def)
  next
    case y
    have ok: "id_ok nx ny nz (x, y + 1, 0)" using y b by (simp add: id_ok_def)
    from id_rank_bounds(2) [OF ok] show ?thesis using y ok
      by (simp add: update_id_def v id_rank_def algebra_simps)
  next
    case x
    have ok: "id_ok nx ny nz (x + 1, 0, 0)" using x b by (simp add: id_ok_def)
    from id_rank_bounds(2) [OF ok] show ?thesis using x ok
      by (simp add: update_id_def v id_rank_def) (simp add: algebra_simps flip: x(1) x(2))
  next
    case last
    have "id_rank nx ny nz v + 1 = nx * ny * nz"
      unfolding id_rank_def v using last by (simp add: algebra_simps flip: last)
    then show ?thesis using last by (simp add: update_id_def v)
  qed
qed

lemma id_rank_inj:
  assumes "id_ok nx ny nz u" and "id_ok nx ny nz v" and "id_rank nx ny nz u = id_rank nx ny nz v"
  shows "u = v"
proof -
  obtain x y z x' y' z' where uv: "u = (x, y, z)" "v = (x', y', z')" by (cases u, cases v)
  have b: "0 \<le> y" "y < ny" "0 \<le> z" "z < nz" "0 \<le> y'" "y' < ny" "0 \<le> z'" "z' < nz"
    using assms(1,2) by (auto simp: id_ok_def uv)
  have e: "(x * ny + y) * nz + z = (x' * ny + y') * nz + z'" using assms(3) by (simp add: id_rank_def uv)
  have "z = z'" using b arg_cong [OF e, of "\<lambda>k. k mod nz"] by simp
  with e b have e2: "x * ny + y = x' * ny + y'" by simp
  have "y = y'" using b arg_cong [OF e2, of "\<lambda>k. k mod ny"] by simp
  with e2 b have "x = x'" by simp
  with \<open>z = z'\<close> \<open>y = y'\<close> show ?thesis by (simp add: uv)
qed

text \<open>The identifiers that the launch loop goes through, in its order.\<close>

function wg_ids :: "int \<Rightarrow> int \<Rightarrow> int \<Rightarrow> int \<times> int \<times> int \<Rightarrow> (int \<times> int \<times> int) list" where
  "wg_ids nx ny nz v =
     v # (case update_id nx ny nz v of (continue, v') \<Rightarrow> if continue then wg_ids nx ny nz v' else [])"
  by pat_completeness auto
termination
  by (relation "measures [\<lambda>(nx, ny, nz, x, y, z). nat (nx - x), \<lambda>(nx, ny, nz, x, y, z). nat (ny - y),
      \<lambda>(nx, ny, nz, x, y, z). nat (nz - z)]") (auto simp: update_id_def split: if_splits)

declare wg_ids.simps [simp del]

lemma wg_ids_ranks:
  "id_ok nx ny nz v \<Longrightarrow> map (id_rank nx ny nz) (wg_ids nx ny nz v) = [id_rank nx ny nz v .. nx * ny * nz - 1] \<and>
     (\<forall>u \<in> set (wg_ids nx ny nz v). id_ok nx ny nz u)"
proof (induction nx ny nz v rule: wg_ids.induct)
  case (1 nx ny nz v)
  obtain c v' where u: "update_id nx ny nz v = (c, v')" by (cases "update_id nx ny nz v")
  note st = update_id_step [OF 1(2)]
  have hd: "[id_rank nx ny nz v .. nx * ny * nz - 1] =
      id_rank nx ny nz v # [id_rank nx ny nz v + 1 .. nx * ny * nz - 1]"
    using id_rank_bounds [OF 1(2)] by (simp add: upto_rec1)
  show ?case
  proof (cases c)
    case True
    with st u have v': "id_ok nx ny nz v'" "id_rank nx ny nz v' = id_rank nx ny nz v + 1" by auto
    from 1(1) [OF u [symmetric] True v'(1)] True u v' 1(2) hd show ?thesis
      by (simp add: wg_ids.simps [of nx ny nz v])
  next
    case False
    with st u have "nx * ny * nz - 1 < id_rank nx ny nz v + 1" by auto
    then show ?thesis using False u 1(2) hd by (simp add: wg_ids.simps [of nx ny nz v])
  qed
qed

text \<open>
  C38. The launch loop visits every work-group identifier of the grid exactly once and no other, in
  the order of the rank \<open>(x * ny + y) * nz + z\<close>, for every grid with no empty dimension.
\<close>

theorem wg_ids_enumerate:
  assumes "0 < nx" and "0 < ny" and "0 < nz"
  shows "distinct (wg_ids nx ny nz (0, 0, 0)) \<and>
    set (wg_ids nx ny nz (0, 0, 0)) = {0..<nx} \<times> {0..<ny} \<times> {0..<nz} \<and>
    map (id_rank nx ny nz) (wg_ids nx ny nz (0, 0, 0)) = [0..nx * ny * nz - 1]"
proof -
  let ?ids = "wg_ids nx ny nz (0, 0, 0)"
  have ok0: "id_ok nx ny nz (0, 0, 0)" using assms by (simp add: id_ok_def)
  from wg_ids_ranks [OF ok0] have m: "map (id_rank nx ny nz) ?ids = [0..nx * ny * nz - 1]"
    and ok: "\<forall>u \<in> set ?ids. id_ok nx ny nz u" by (simp_all add: id_rank_def)
  have "distinct (map (id_rank nx ny nz) ?ids)" by (simp add: m)
  then have d: "distinct ?ids" by (simp add: distinct_map)
  have "u \<in> set ?ids" if u: "id_ok nx ny nz u" for u
  proof -
    from id_rank_bounds [OF u] have "id_rank nx ny nz u \<in> set (map (id_rank nx ny nz) ?ids)" by (simp add: m)
    then obtain u' where "u' \<in> set ?ids" "id_rank nx ny nz u = id_rank nx ny nz u'" by auto
    with ok u id_rank_inj show ?thesis by metis
  qed
  with ok have "set ?ids = {u. id_ok nx ny nz u}" by blast
  also have "\<dots> = {0..<nx} \<times> {0..<ny} \<times> {0..<nz}" by (auto simp: id_ok_def)
  finally show ?thesis using d m by simp
qed

theorem wg_ids_enumerate_witness:
  "set (wg_ids 2 1 2 (0, 0, 0)) = {0..<2} \<times> {0..<1} \<times> {0..<2} \<and>
   wg_ids 2 1 2 (0, 0, 0) = [(0, 0, 0), (0, 0, 1), (1, 0, 0), (1, 0, 1)]"
  using wg_ids_enumerate [of 2 1 2] by (simp add: wg_ids.simps update_id_def)

end
