(* ===== verification/Fw_Dispatch.thy ===== *)
theory Fw_Dispatch
  imports Fw_Kernel
begin

text \<open>
  The dispatch task, reboot and start-up: \<^verbatim>\<open>fw/cp_dispatch.c\<close>, \<^verbatim>\<open>fw/cp_reboot.c\<close>, \<^verbatim>\<open>fw/main.c\<close> and the
  wait statistics of \<^verbatim>\<open>fw/cp_moving_average.c\<close>. The dispatch task is a state machine: its program
  counter is a value of \<open>dispatch_pc\<close> with the locals that are live there, and one step runs to
  the next place where the task yields or can be preempted with an effect on others. The
  breakpoint instruction at the end of a turn is a debugging aid and does nothing here.
\<close>

section \<open>Reboot\<close>

definition cp_reboot_request_from_isr :: "fw \<Rightarrow> fw" where
  "cp_reboot_request_from_isr s = s\<lparr>reboot_requested := 1\<rparr>"

definition cp_reboot_is_requested :: "fw \<Rightarrow> bool" where
  "cp_reboot_is_requested s \<longleftrightarrow> reboot_requested s \<noteq> 0"

text \<open>The interrupt handler; the result says whether the pending software interrupt was cleared.\<close>

definition freertos_risc_v_application_interrupt_handler :: "u64 \<Rightarrow> fw \<Rightarrow> bool \<times> fw" where
  "freertos_risc_v_application_interrupt_handler mcause s =
     (let irq_bit = push_bit 63 1; msi = irq_bit OR 3
      in if mcause \<noteq> msi then (False, s) else (True, cp_reboot_request_from_isr s))"

definition reboot_draining :: "fw \<Rightarrow> bool" where
  "reboot_draining s \<longleftrightarrow> cp_has_active_kernel_or_cache s \<or> cp_memory_copy_is_active s \<or>
     \<not> cp_memory_copy_dma_is_idle s"

definition reboot_finish :: "fw \<Rightarrow> fw" where
  "reboot_finish s = cp_firmware_status_reset
     (upd_cp (\<lambda>c. c\<lparr>CP_RD_PTR := 0, CP_WR_PTR := 0, CP_FW_HOST_ADDR := 0, CP_FW_SIZE := 0\<rparr>) s)"

section \<open>Dispatch\<close>

definition host_token_from_packet :: "packet \<Rightarrow> FsaCompletionToken" where
  "host_token_from_packet cmd = le_word (byte_field FSA_COMPLETION_TOKEN_OFFSET 8 cmd)"

definition fail_host_token_if_present :: "packet \<Rightarrow> fw \<Rightarrow> fw" where
  "fail_host_token_if_present cmd s =
     (let token = host_token_from_packet cmd
      in if token \<noteq> 0 then cp_publish_completion token FSA_COMPLETION_RESULT_COMMAND_FAILURE_MIN s else s)"

definition host_launch_packet_is_blocked :: "packet \<Rightarrow> fw \<Rightarrow> bool" where
  "host_launch_packet_is_blocked cmd s \<longleftrightarrow>
     kp_header (kernel_dispatch_packet cmd) = packet_header_code KernelDispatchPacketHeader \<and>
     cp_has_active_kernel_or_cache s"

datatype dispatch_pc =
    DReady
  | DTop
  | DPoll
  | DFetch
  | DHandle packet
  | DKernel KernelDispatchPacket kernel_pc
  | DCacheClaim u64 u64 CacheOpMode u32 FsaCompletionToken
  | DCacheStart u64 u64 CacheOpMode u32
  | DCacheMark
  | DBarrier FsaCompletionToken
  | DReboot
  | DRebooted
  | DPanic

definition ring_head :: "fw \<Rightarrow> packet" where
  "ring_head s = cmd_ring s ! unat (CP_RD_PTR (cp s))"

definition dispatch_top :: "fw \<Rightarrow> dispatch_pc \<times> fw" where
  "dispatch_top s =
     (if cp_reboot_is_requested s then (DReboot, s)
      else if cp_firmware_is_faulted s then (DTop, s)
      else (DPoll, s))"

definition dispatch_poll :: "fw \<Rightarrow> dispatch_pc \<times> fw" where
  "dispatch_poll s =
     (if CP_RD_PTR (cp s) = CP_WR_PTR (cp s) \<or> cp_memory_copy_is_active s \<or>
         host_launch_packet_is_blocked (ring_head s) s
      then (if cp_reboot_is_requested s then DReboot else DPoll, s)
      else (DFetch, s))"

definition dispatch_fetch :: "fw \<Rightarrow> dispatch_pc \<times> fw" where
  "dispatch_fetch s =
     (if cp_reboot_is_requested s then (DReboot, s)
      else (DHandle (ring_head s),
            upd_cp (\<lambda>c. c\<lparr>CP_RD_PTR := (CP_RD_PTR c + 1) mod CP_CMD_RING_SIZE c\<rparr>) s))"

definition kernel_result :: "KernelDispatchPacket \<Rightarrow> kernel_pc \<times> fw \<Rightarrow> dispatch_pc \<times> fw" where
  "kernel_result p r = (case r of (k, s) \<Rightarrow>
     (if k = KDone then DTop else if k = KPanic then DPanic else DKernel p k, s))"

definition cache_packet :: "packet \<Rightarrow> CacheOpMode \<Rightarrow> fw \<Rightarrow> dispatch_pc \<times> fw" where
  "cache_packet cmd mode s =
     (case cp_cache_handle_packet cmd mode s of
        CacheRejected s' \<Rightarrow> (DTop, s')
      | CacheRequest addr sz m targets token \<Rightarrow> (DCacheClaim addr sz m targets token, s))"

definition dispatch_handle :: "addr_map \<Rightarrow> packet \<Rightarrow> fw \<Rightarrow> dispatch_pc \<times> fw" where
  "dispatch_handle am cmd s =
     (let header = kp_header (kernel_dispatch_packet cmd)
      in if \<not> cp_completion_is_pending s (host_token_from_packet cmd) then (DTop, s)
         else if header = packet_header_code KernelDispatchPacketHeader
         then kernel_result (kernel_dispatch_packet cmd) (kernel_dispatch_entry (kernel_dispatch_packet cmd) s)
         else if header = packet_header_code CacheFlushPacketHeader then cache_packet cmd CacheOpFlush s
         else if header = packet_header_code CacheInvalidatePacketHeader then cache_packet cmd CacheOpInvalidate s
         else if header = packet_header_code MemoryCopyPacketHeader
         then (DTop, cp_memory_copy_submit am (memory_copy_packet cmd) s)
         else if header = packet_header_code BarrierPacketHeader then (DBarrier (host_token_from_packet cmd), s)
         else (DTop, fail_host_token_if_present cmd s))"

definition dispatch_barrier :: "FsaCompletionToken \<Rightarrow> fw \<Rightarrow> dispatch_pc \<times> fw" where
  "dispatch_barrier token s =
     (if cp_has_active_kernel_or_cache s \<or> cp_memory_copy_is_active s
      then (if cp_reboot_is_requested s then DReboot else DBarrier token, s)
      else (DTop, if token \<noteq> 0 then cp_publish_completion token FSA_COMPLETION_RESULT_SUCCESS s else s))"

fun cp_dispatch :: "addr_map \<Rightarrow> dispatch_pc \<Rightarrow> fw \<Rightarrow> dispatch_pc \<times> fw" where
  "cp_dispatch am DReady s = (DTop, cp_firmware_status_ready s)"
| "cp_dispatch am DTop s = dispatch_top s"
| "cp_dispatch am DPoll s = dispatch_poll s"
| "cp_dispatch am DFetch s = dispatch_fetch s"
| "cp_dispatch am (DHandle cmd) s = dispatch_handle am cmd s"
| "cp_dispatch am (DKernel p k) s = kernel_result p (kernel_dispatch_step am p k s)"
| "cp_dispatch am (DCacheClaim addr sz mode targets token) s =
     (case claim_cache_state targets token s of
        None \<Rightarrow> (DCacheClaim addr sz mode targets token, s)
      | Some s' \<Rightarrow> (DCacheStart addr sz mode targets, s'))"
| "cp_dispatch am (DCacheStart addr sz mode targets) s =
     (DCacheMark, start_on_every_sm addr sz mode targets s)"
| "cp_dispatch am DCacheMark s = (DTop, cache_mark_started s)"
| "cp_dispatch am (DBarrier token) s = dispatch_barrier token s"
| "cp_dispatch am DReboot s = (if reboot_draining s then (DReboot, s) else (DRebooted, reboot_finish s))"
| "cp_dispatch am DRebooted s = (DRebooted, s)"
| "cp_dispatch am DPanic s = (DPanic, s)"

section \<open>Start-up\<close>

definition reset_stack_remaps :: "addr_map \<Rightarrow> fw \<Rightarrow> fw" where
  "reset_stack_remaps am s =
     s\<lparr>sms := map (cp_stack_remap_reset am) (take (unat (g_num_sm s)) (sms s)) @ drop (unat (g_num_sm s)) (sms s)\<rparr>"

text \<open>\<open>main\<close> up to the creation of the tasks; \<open>None\<close> when it panics.\<close>

definition fw_main :: "addr_map \<Rightarrow> fw \<Rightarrow> fw option" where
  "fw_main am s =
     (case cp_hwinfo_init am (cp_firmware_status_booting s) of
        None \<Rightarrow> None
      | Some s1 \<Rightarrow>
          (case cp_wgi_buf_init am s1 of
             None \<Rightarrow> None
           | Some (rc, s2) \<Rightarrow>
               if rc \<noteq> 0 then None
               else case cp_lmem_allocator_init am (take (unat (g_num_sm s2)) (g_per_sm_wg_resident_limits s2))
                           (g_lmem_allocators s2) of
                 (rc', allocs) \<Rightarrow>
                   if rc' \<noteq> 0 then None
                   else Some (reset_stack_remaps am (s2\<lparr>g_lmem_allocators := allocs\<rparr>))))"

section \<open>Wait statistics\<close>

datatype cp_ma_kind = CMD_FETCH | KERNEL_STATE_BUF_ALLOC | WGI_BUF_ALLOC | SM_ALLOC | SM_RETIRE | CACHE_START
  | CACHE_RETIRE

record cp_ma =
  ma_tickstamp :: u64
  ma_avg :: u64
  ma_count :: u64
  ma_id :: u64

definition cp_ma_init :: "cp_ma list \<Rightarrow> cp_ma list" where
  "cp_ma_init buf = map (\<lambda>i. (buf ! i)\<lparr>ma_id := of_nat i\<rparr>) [0..<length buf]"

definition cp_get_ma_by_kind :: "cp_ma list \<Rightarrow> nat \<Rightarrow> cp_ma option" where
  "cp_get_ma_by_kind buf kind = (if kind < length buf then Some (buf ! kind) else None)"

definition cp_ma_start :: "u64 \<Rightarrow> cp_ma \<Rightarrow> cp_ma" where
  "cp_ma_start tick ma = ma\<lparr>ma_tickstamp := tick\<rparr>"

definition cp_ma_end :: "u64 \<Rightarrow> cp_ma \<Rightarrow> cp_ma" where
  "cp_ma_end tick ma =
     (let elapsed = tick - ma_tickstamp ma; c = ma_count ma + 1
      in ma\<lparr>ma_count := c, ma_avg := (ma_avg ma * (c - 1) + elapsed) div c\<rparr>)"

definition cp_ma_get_tick :: "cp_ma \<Rightarrow> u64" where
  "cp_ma_get_tick ma = ma_avg ma"

end
