(* ===== verification/Fw_Kernel_Lmem.thy ===== *)
theory Fw_Kernel_Lmem
  imports Fw_Kernel_Inv
begin

text \<open>
  Local memory across launch and retirement: the live blocks of every SM's allocator are exactly
  the blocks recorded in the slots of the work-groups placed on that SM. Hence work-groups that
  share an SM have disjoint local memory, and no block outlives its work-group.
\<close>

section \<open>Ownership\<close>

fun unplaced :: "kernel_pc \<Rightarrow> nat set" where
  "unplaced (KSm k w x y z b) = {b}"
| "unplaced _ = {}"

definition wg_region :: "fw \<Rightarrow> nat \<Rightarrow> region" where
  "wg_region s w = region_of (wg_local_memory_base (wb_wginfo (wgi_buf s ! w)))
     (lmem_round (ucast (wg_local_memory_size (wb_wginfo (wgi_buf s ! w)))))"

definition lmem_slots :: "kernel_pc \<Rightarrow> fw \<Rightarrow> nat \<Rightarrow> nat set" where
  "lmem_slots pc s i = {w \<in> used_slots s - unplaced pc.
     wb_smid (wgi_buf s ! w) = int i \<and> wg_local_memory_size (wb_wginfo (wgi_buf s ! w)) \<noteq> 0}"

fun pc_lmem_size :: "kernel_pc \<Rightarrow> fw \<Rightarrow> bool" where
  "pc_lmem_size (KSm k w x y z b) s = (b \<in> used_slots s \<and>
     wg_local_memory_size (wb_wginfo (wgi_buf s ! b)) = wg_local_memory_size w)"
| "pc_lmem_size _ s = True"

definition lmem_owned :: "addr_map \<Rightarrow> kernel_pc \<Rightarrow> fw \<Rightarrow> bool" where
  "lmem_owned am pc s \<longleftrightarrow>
     unat (g_num_sm s) \<le> length (g_lmem_allocators s) \<and> unat (wgi_buf_len s) \<le> length (wgi_buf s) \<and>
     pc_lmem_size pc s \<and>
     (\<forall>w \<in> used_slots s - unplaced pc. 0 \<le> wb_smid (wgi_buf s ! w) \<and> wb_smid (wgi_buf s ! w) < uint (g_num_sm s)) \<and>
     (\<forall>i < unat (g_num_sm s). lmem_inv am (g_lmem_allocators s ! i) \<and>
        inj_on (wg_region s) (lmem_slots pc s i) \<and>
        lmem_live (g_lmem_allocators s ! i) = wg_region s ` lmem_slots pc s i)"

lemma request_ok_u32: "lmem_request_ok (ucast (n :: u32))"
proof -
  have lt: "unat n < 2 ^ 32" using unsigned_less [of n, where ?'a = nat] by simp
  then have "unat (ucast n :: u64) = unat n" by (simp add: unsigned_ucast_eq take_bit_nat_eq_self)
  with lt show ?thesis by (simp add: lmem_request_ok_def)
qed

lemma ucast_u32_zero: "(ucast (n :: u32) :: u64) = 0 \<longleftrightarrow> n = 0"
proof
  assume "(ucast n :: u64) = 0"
  then have "(ucast (ucast n :: u64) :: u32) = ucast (0 :: u64)" by simp
  then show "n = 0" by (simp add: ucast_ucast_up)
qed simp

lemma lmem_alloc_full:
  assumes inv: "lmem_table_inv am n i allocs" and ok: "lmem_request_ok lm"
    and a: "cp_lmem_allocator_alloc am n allocs i lm True = (rc, base, allocs')"
  shows "rc \<noteq> 0 \<Longrightarrow> allocs' = allocs"
    and "rc = 0 \<Longrightarrow> \<exists>b al'. base = Some b \<and> allocs' = allocs[i := al'] \<and> lmem_inv am al' \<and>
           lmem_live al' = insert (region_of b (lmem_round lm)) (lmem_live (allocs ! i)) \<and>
           region_of b (lmem_round lm) \<notin> lmem_live (allocs ! i)"
proof -
  show "rc \<noteq> 0 \<Longrightarrow> allocs' = allocs" using lmem_alloc_cases [OF inv ok] a by auto
  assume rc: "rc = 0"
  then obtain b al' where b: "base = Some b" "allocs' = allocs[i := al']" "lmem_inv am al'"
    "lmem_live al' = insert (region_of b (lmem_round lm)) (lmem_live (allocs ! i))"
    using lmem_alloc_cases [OF inv ok] a by auto
  have "lmem_alloc_op am n i lm allocs = Some (b, allocs')" using a b rc by (simp add: lmem_alloc_op_def)
  from lmem.alloc_live [OF inv ok this] b
  show "\<exists>b al'. base = Some b \<and> allocs' = allocs[i := al'] \<and> lmem_inv am al' \<and>
           lmem_live al' = insert (region_of b (lmem_round lm)) (lmem_live (allocs ! i)) \<and>
           region_of b (lmem_round lm) \<notin> lmem_live (allocs ! i)" by blast
qed

lemma sm_alloc_loop_lmem:
  assumes "sm_alloc_loop am lm is s = Some (i, b, s')" and "g_num_sm s \<noteq> 0" and ok: "lmem_request_ok lm"
    and "\<forall>j < unat (g_num_sm s). lmem_table_inv am (g_num_sm s) j (g_lmem_allocators s)"
  shows "if lm = 0 then g_lmem_allocators s' = g_lmem_allocators s
    else \<exists>al'. g_lmem_allocators s' = (g_lmem_allocators s)[i := al'] \<and> lmem_inv am al' \<and>
           lmem_live al' = insert (region_of b (lmem_round lm)) (lmem_live (g_lmem_allocators s ! i)) \<and>
           region_of b (lmem_round lm) \<notin> lmem_live (g_lmem_allocators s ! i)"
  using assms
proof (induction am lm "is" s rule: sm_alloc_loop.induct)
  case (2 am lm i0 "is" s)
  let ?m = "(prev_sm_id s + i0) mod unat (g_num_sm s)"
  obtain rc base allocs where
    a: "cp_lmem_allocator_alloc am (g_num_sm s) (g_lmem_allocators s) ?m lm True = (rc, base, allocs)"
    by (rule prod_cases3)
  have m: "?m < unat (g_num_sm s)" using 2(4) by (simp add: unat_gt_0)
  then have ti: "lmem_table_inv am (g_num_sm s) ?m (g_lmem_allocators s)" using 2(6) by blast
  note al = lmem_alloc_full [OF ti 2(5) a]
  consider (busy) "ENQ_VALID (sms s ! ?m) \<noteq> 0" | (nolm) "ENQ_VALID (sms s ! ?m) = 0" "lm = 0"
    | (full) "ENQ_VALID (sms s ! ?m) = 0" "lm \<noteq> 0" "rc \<noteq> 0"
    | (ok) "ENQ_VALID (sms s ! ?m) = 0" "lm \<noteq> 0" "rc = 0" by blast
  then show ?case
  proof cases
    case busy
    with 2(3) have "sm_alloc_loop am lm is s = Some (i, b, s')" by (simp add: Let_def)
    from 2(1) [OF refl refl busy this 2(4,5,6)] show ?thesis .
  next
    case nolm
    with 2(3) show ?thesis by (auto simp: Let_def)
  next
    case full
    with al have same: "allocs = g_lmem_allocators s" by blast
    from 2(3) full a have "sm_alloc_loop am lm is (s\<lparr>g_lmem_allocators := allocs\<rparr>) = Some (i, b, s')"
      by (simp add: Let_def)
    from 2(2) [OF refl refl _ full(2) a [symmetric] refl full(3) this] full(1) 2(4,5,6)
    show ?thesis using full(2) by (simp add: same)
  next
    case ok
    from al(2) [OF ok(3)] obtain b' al' where "base = Some b'" "allocs = (g_lmem_allocators s)[?m := al']" "lmem_inv am al'"
      "lmem_live al' = insert (region_of b' (lmem_round lm)) (lmem_live (g_lmem_allocators s ! ?m))"
      "region_of b' (lmem_round lm) \<notin> lmem_live (g_lmem_allocators s ! ?m)" by blast
    with 2(3) ok a show ?thesis by (auto simp: Let_def)
  qed
qed simp

section \<open>Preservation\<close>

text \<open>Only the local-memory view of the slots and the allocators matter.\<close>

definition lmem_key :: "cp_wgi_buf \<Rightarrow> int \<times> int \<times> u64 \<times> u32" where
  "lmem_key b = (wb_in_use b, wb_smid b, wg_local_memory_base (wb_wginfo b), wg_local_memory_size (wb_wginfo b))"

lemma lmem_owned_cong:
  assumes "lmem_owned am pc s" and "map lmem_key (wgi_buf s') = map lmem_key (wgi_buf s)"
    and "wgi_buf_len s' = wgi_buf_len s" and "g_num_sm s' = g_num_sm s"
    and "g_lmem_allocators s' = g_lmem_allocators s"
    and "unplaced pc' = unplaced pc" and "pc_lmem_size pc' s'"
  shows "lmem_owned am pc' s'"
proof -
  have le: "unat (wgi_buf_len s) \<le> length (wgi_buf s)" using assms(1) by (simp add: lmem_owned_def)
  have len: "length (wgi_buf s') = length (wgi_buf s)" using assms(2) by (rule map_eq_imp_length_eq)
  have k: "lmem_key (wgi_buf s' ! w) = lmem_key (wgi_buf s ! w)" if "w < unat (wgi_buf_len s)" for w
    using arg_cong [OF assms(2), of "\<lambda>l. l ! w"] that le len by simp
  then have u: "used_slots s' = used_slots s" using assms(3) by (auto simp: used_slots_def lmem_key_def)
  have keys: "wb_smid (wgi_buf s' ! w) = wb_smid (wgi_buf s ! w)" "wg_region s' w = wg_region s w"
    "wg_local_memory_size (wb_wginfo (wgi_buf s' ! w)) = wg_local_memory_size (wb_wginfo (wgi_buf s ! w))"
    if "w \<in> used_slots s" for w
    using k [of w] that by (auto simp: used_slots_def lmem_key_def wg_region_def)
  have ls: "lmem_slots pc' s' i = lmem_slots pc s i" for i
    unfolding lmem_slots_def u assms(6) by (auto simp: keys)
  have sub: "lmem_slots pc s i \<subseteq> used_slots s" for i by (auto simp: lmem_slots_def)
  have inj: "inj_on (wg_region s') (lmem_slots pc s i) = inj_on (wg_region s) (lmem_slots pc s i)"
    "wg_region s' ` lmem_slots pc s i = wg_region s ` lmem_slots pc s i" for i
    using sub [of i] keys(2) by (auto intro!: inj_on_cong image_cong)
  have smid: "\<forall>w \<in> used_slots s' - unplaced pc'. 0 \<le> wb_smid (wgi_buf s' ! w) \<and> wb_smid (wgi_buf s' ! w) < uint (g_num_sm s')"
    using assms(1) unfolding u assms(4,6) by (auto simp: keys lmem_owned_def)
  show ?thesis
    using assms(1) smid le len unfolding lmem_owned_def ls inj assms(3-5) by (simp add: assms(7))
qed

lemma lmem_key_update:
  "(\<And>b. lmem_key (f b) = lmem_key b) \<Longrightarrow> map lmem_key (wgi_buf (upd_wgi i f s)) = map lmem_key (wgi_buf s)"
  by (cases "i < length (wgi_buf s)") (auto intro!: nth_equalityI simp: nth_list_update)

text \<open>A new slot is unplaced; it owns nothing.\<close>

lemma lmem_wgi_step:
  assumes own: "lmem_owned am (KWgi kid w x y z) s" and st: "kernel_wgi_step p kid w x y z s = (pc', s')"
  shows "lmem_owned am pc' s'"
proof (cases "find_index (\<lambda>b. wb_in_use b = 0) (take (unat (wgi_buf_len s)) (wgi_buf s))")
  case None
  with st own show ?thesis by (simp add: kernel_wgi_step_def cp_wgi_buf_alloc_def Let_def)
next
  case (Some b)
  have len: "unat (wgi_buf_len s) \<le> length (wgi_buf s)" using own by (simp add: lmem_owned_def)
  have b: "b < unat (wgi_buf_len s)" "b < length (wgi_buf s)" "wb_in_use (wgi_buf s ! b) = 0"
    using Some len by (auto simp: find_index_Some)
  let ?w = "w\<lparr>wg_id := [of_int x, of_int y, of_int z]\<rparr>"
  have pc': "pc' = KSm kid ?w x y z b" using st Some by (auto simp: kernel_wgi_step_def cp_wgi_buf_alloc_def Let_def)
  have s': "g_lmem_allocators s' = g_lmem_allocators s" "g_num_sm s' = g_num_sm s" "wgi_buf_len s' = wgi_buf_len s"
    "length (wgi_buf s') = length (wgi_buf s)" "\<forall>j. j \<noteq> b \<longrightarrow> wgi_buf s' ! j = wgi_buf s ! j"
    "wb_in_use (wgi_buf s' ! b) = 1" "wb_wginfo (wgi_buf s' ! b) = ?w"
    using st Some b by (auto simp: kernel_wgi_step_def cp_wgi_buf_alloc_def Let_def)
  have u: "used_slots s' = insert b (used_slots s)" "b \<notin> used_slots s" using b s' by (auto simp: used_slots_def)
  have pl: "used_slots s' - unplaced pc' = used_slots s" using u by (auto simp: pc')
  have ls: "lmem_slots pc' s' i = lmem_slots (KWgi kid w x y z) s i" for i
    unfolding lmem_slots_def pl using s'(5) u(2) by auto
  have "\<forall>j \<in> lmem_slots (KWgi kid w x y z) s i. wg_region s' j = wg_region s j" for i
    using s'(5) u(2) by (auto simp: lmem_slots_def wg_region_def)
  then have rg: "inj_on (wg_region s') (lmem_slots (KWgi kid w x y z) s i) =
      inj_on (wg_region s) (lmem_slots (KWgi kid w x y z) s i)"
    "wg_region s' ` lmem_slots (KWgi kid w x y z) s i = wg_region s ` lmem_slots (KWgi kid w x y z) s i" for i
    by (auto intro!: inj_on_cong image_cong)
  have "pc_lmem_size pc' s'" using u s'(7) by (simp add: pc')
  moreover have "\<forall>j \<in> used_slots s. 0 \<le> wb_smid (wgi_buf s' ! j) \<and> wb_smid (wgi_buf s' ! j) < uint (g_num_sm s)"
    using own s'(5) u(2) by (auto simp: lmem_owned_def)
  ultimately show ?thesis
    using own unfolding lmem_owned_def pl ls rg s'(1-4) by simp
qed

lemma lmem_owned_table: "lmem_owned am pc s \<Longrightarrow> i < unat (g_num_sm s) \<Longrightarrow> lmem_table_inv am (g_num_sm s) i (g_lmem_allocators s)"
  by (simp add: lmem_owned_def lmem_table_inv_def)

text \<open>Placing the slot: its block is new on the chosen SM.\<close>

lemma lmem_place:
  assumes own: "lmem_owned am (KSm kid w x y z b) s" and pc': "unplaced pc' = {}" "pc_lmem_size pc' s'"
    and i: "i < unat (g_num_sm s)"
    and al: "if lm = 0 then allocs = g_lmem_allocators s
      else \<exists>al'. allocs = (g_lmem_allocators s)[i := al'] \<and> lmem_inv am al' \<and>
           lmem_live al' = insert (region_of base (lmem_round lm)) (lmem_live (g_lmem_allocators s ! i)) \<and>
           region_of base (lmem_round lm) \<notin> lmem_live (g_lmem_allocators s ! i)"
    and lm: "lm = ucast (wg_local_memory_size w)"
    and s': "g_lmem_allocators s' = allocs" "g_num_sm s' = g_num_sm s" "wgi_buf_len s' = wgi_buf_len s"
      "length (wgi_buf s') = length (wgi_buf s)" "\<forall>j. j \<noteq> b \<longrightarrow> wgi_buf s' ! j = wgi_buf s ! j"
      "wb_in_use (wgi_buf s' ! b) = wb_in_use (wgi_buf s ! b)" "wb_smid (wgi_buf s' ! b) = int i"
      "wg_local_memory_base (wb_wginfo (wgi_buf s' ! b)) = base"
      "wg_local_memory_size (wb_wginfo (wgi_buf s' ! b)) = wg_local_memory_size (wb_wginfo (wgi_buf s ! b))"
  shows "lmem_owned am pc' s'"
proof -
  let ?pc = "KSm kid w x y z b"
  have b: "b \<in> used_slots s" "wg_local_memory_size (wb_wginfo (wgi_buf s ! b)) = wg_local_memory_size w"
    using own by (simp_all add: lmem_owned_def)
  have u: "used_slots s' = used_slots s" using s'(3,5,6) by (auto simp: used_slots_def) metis+
  have lm0: "lm = 0 \<longleftrightarrow> wg_local_memory_size w = 0" by (simp add: lm ucast_u32_zero)
  have ls: "lmem_slots pc' s' j = (if j = i \<and> lm \<noteq> 0 then insert b (lmem_slots ?pc s j) else lmem_slots ?pc s j)" for j
  proof (rule set_eqI)
    fix k
    show "k \<in> lmem_slots pc' s' j \<longleftrightarrow>
        k \<in> (if j = i \<and> lm \<noteq> 0 then insert b (lmem_slots ?pc s j) else lmem_slots ?pc s j)"
      using b s'(5,7,9) lm0 by (cases "k = b") (auto simp: lmem_slots_def u pc'(1))
  qed
  have bn: "b \<notin> lmem_slots ?pc s j" for j by (simp add: lmem_slots_def)
  have rb: "wg_region s' b = region_of base (lmem_round lm)" using b s'(8,9) by (simp add: wg_region_def lm)
  have rg: "wg_region s' j = wg_region s j" if "j \<noteq> b" for j using s'(5) that by (simp add: wg_region_def)
  have img: "wg_region s' ` lmem_slots ?pc s j = wg_region s ` lmem_slots ?pc s j"
    "inj_on (wg_region s') (lmem_slots ?pc s j) = inj_on (wg_region s) (lmem_slots ?pc s j)" for j
    using bn rg by (metis image_cong, metis inj_on_cong)
  have main: "lmem_inv am (allocs ! j) \<and> inj_on (wg_region s') (lmem_slots pc' s' j) \<and>
      lmem_live (allocs ! j) = wg_region s' ` lmem_slots pc' s' j" if j: "j < unat (g_num_sm s)" for j
  proof -
    have old: "lmem_inv am (g_lmem_allocators s ! j)" "inj_on (wg_region s) (lmem_slots ?pc s j)"
      "lmem_live (g_lmem_allocators s ! j) = wg_region s ` lmem_slots ?pc s j" and len: "j < length (g_lmem_allocators s)"
      using own j by (auto simp: lmem_owned_def)
    show ?thesis
    proof (cases "j = i \<and> lm \<noteq> 0")
      case True
      then obtain al' where al': "allocs = (g_lmem_allocators s)[i := al']" "lmem_inv am al'"
        "lmem_live al' = insert (region_of base (lmem_round lm)) (lmem_live (g_lmem_allocators s ! i))"
        "region_of base (lmem_round lm) \<notin> lmem_live (g_lmem_allocators s ! i)" using al by auto
      have "inj_on (wg_region s') (insert b (lmem_slots ?pc s j))"
        using old bn al'(4) True rb by (auto simp: img)
      then show ?thesis using True al' old len by (simp add: ls rb img)
    next
      case False
      then have "allocs ! j = g_lmem_allocators s ! j" using al by (auto split: if_splits)
      moreover have "lmem_slots pc' s' j = lmem_slots ?pc s j" using False ls by presburger
      ultimately show ?thesis using old by (simp add: img)
    qed
  qed
  have "length allocs = length (g_lmem_allocators s)" using al by (auto split: if_splits)
  moreover have "\<forall>j \<in> used_slots s. 0 \<le> wb_smid (wgi_buf s' ! j) \<and> wb_smid (wgi_buf s' ! j) < uint (g_num_sm s)"
  proof
    fix j assume "j \<in> used_slots s"
    with own s'(5,7) i show "0 \<le> wb_smid (wgi_buf s' ! j) \<and> wb_smid (wgi_buf s' ! j) < uint (g_num_sm s)"
      by (cases "j = b") (auto simp: lmem_owned_def)
  qed
  ultimately show ?thesis
    using own main pc' unfolding lmem_owned_def u s'(1-4) by simp
qed

lemma lmem_sm_step:
  assumes own: "lmem_owned am (KSm kid w x y z b) s" and st: "kernel_sm_step am p kid w x y z b s = (pc', s')"
    and np: "pc' \<noteq> KPanic"
  shows "lmem_owned am pc' s'"
proof (cases "sm_alloc am (ucast (wg_local_memory_size w)) s")
  case None
  with st own show ?thesis by (simp add: kernel_sm_step_def)
next
  case (Some r)
  obtain i base s1 where r: "r = (i, base, s1)" by (cases r)
  note fr = sm_alloc_frame [OF Some [unfolded r]]
  have n0: "g_num_sm s \<noteq> 0" using fr(1) by auto
  have al: "if (ucast (wg_local_memory_size w) :: u64) = 0 then g_lmem_allocators s1 = g_lmem_allocators s
      else \<exists>al'. g_lmem_allocators s1 = (g_lmem_allocators s)[i := al'] \<and> lmem_inv am al' \<and>
           lmem_live al' = insert (region_of base (lmem_round (ucast (wg_local_memory_size w)))) (lmem_live (g_lmem_allocators s ! i)) \<and>
           region_of base (lmem_round (ucast (wg_local_memory_size w))) \<notin> lmem_live (g_lmem_allocators s ! i)"
    by (rule sm_alloc_loop_lmem [OF _ n0 request_ok_u32]) (use Some r own lmem_owned_table in \<open>auto simp: sm_alloc_def\<close>)
  from st Some r np obtain f where pc': "pc' = KRemap kid w x y z b i \<or> pc' = KEnq kid w x y z b i"
    and s': "s' = upd_wgi b (\<lambda>e. e\<lparr>wb_smid := int i, wb_wginfo := (wb_wginfo e)\<lparr>wg_local_memory_base := base,
                wg_stack_base := f\<rparr>\<rparr>) s1"
    by (fastforce simp: kernel_sm_step_def Let_def split: option.splits if_splits)
  obtain allocs n where s1: "s1 = s\<lparr>g_lmem_allocators := allocs, prev_sm_id := n\<rparr>" using fr(3) by blast
  have bl: "b < length (wgi_buf s)" using own by (auto simp: lmem_owned_def used_slots_def)
  show ?thesis
    by (rule lmem_place [OF own _ _ fr(1) al refl]) (use pc' bl in \<open>auto simp: s' s1\<close>)
qed

text \<open>Retiring a work-group gives back exactly its block.\<close>

lemma live_base_unique:
  assumes "lmem_table_inv am n i allocs" and "(a, m) \<in> lmem_live (allocs ! i)" and "(a, m') \<in> lmem_live (allocs ! i)"
  shows "m = m'"
proof (rule ccontr)
  assume "m \<noteq> m'"
  with lmem.live_disjoint [OF assms] have "cells (a, m) \<inter> cells (a, m') = {}" by simp
  moreover have "0 < m" "0 < m'" using lmem.live_pos [OF assms(1)] assms(2,3) by force+
  ultimately show False by (auto simp: cells_def)
qed

lemma free_wg_local_memory_live:
  assumes own: "lmem_owned am pc s" and w: "w \<in> used_slots s - unplaced pc" and i: "wb_smid (wgi_buf s ! w) = int i"
  shows "\<exists>al'. g_lmem_allocators (free_wg_local_memory (wgi_buf s ! w) s) = (g_lmem_allocators s)[i := al'] \<and>
    lmem_inv am al' \<and> lmem_live al' = (if w \<in> lmem_slots pc s i then lmem_live (g_lmem_allocators s ! i) - {wg_region s w}
      else lmem_live (g_lmem_allocators s ! i))"
proof -
  have "0 \<le> wb_smid (wgi_buf s ! w) \<and> wb_smid (wgi_buf s ! w) < uint (g_num_sm s)"
    using own w by (auto simp: lmem_owned_def)
  then have il: "i < unat (g_num_sm s)" using i by simp
  then have sm: "\<not> uint (g_num_sm s) \<le> wb_smid (wgi_buf s ! w)" using i by simp
  have al: "lmem_inv am (g_lmem_allocators s ! i)" using own il by (simp add: lmem_owned_def)
  note ti = lmem_owned_table [OF own il]
  show ?thesis
  proof (cases "wg_local_memory_size (wb_wginfo (wgi_buf s ! w)) = 0")
    case True
    then have "w \<notin> lmem_slots pc s i" by (simp add: lmem_slots_def)
    then show ?thesis using True al i sm
      by (intro exI [of _ "g_lmem_allocators s ! i"]) (simp add: free_wg_local_memory_def)
  next
    case False
    then have ws: "w \<in> lmem_slots pc s i" using w i by (simp add: lmem_slots_def)
    let ?b = "wg_local_memory_base (wb_wginfo (wgi_buf s ! w))"
    have mem: "(unat ?b, snd (wg_region s w)) \<in> lmem_live (g_lmem_allocators s ! i)"
      using own il ws by (auto simp: lmem_owned_def wg_region_def region_of_def)
    have reg: "wg_region s w = (unat ?b, snd (wg_region s w))" by (simp add: wg_region_def region_of_def)
    from lmem_free_cases [OF ti, of ?b] mem obtain m al' where
      m: "(unat ?b, m) \<in> lmem_live (g_lmem_allocators s ! i)"
        "cp_lmem_allocator_free (g_num_sm s) (g_lmem_allocators s) i ?b = (0, (g_lmem_allocators s)[i := al'])"
        "lmem_inv am al'" "lmem_live al' = lmem_live (g_lmem_allocators s ! i) - {(unat ?b, m)}" by blast
    have "m = snd (wg_region s w)" by (rule live_base_unique [OF ti m(1) mem])
    with m reg have "lmem_live al' = lmem_live (g_lmem_allocators s ! i) - {wg_region s w}" by simp
    then show ?thesis using False ws m i sm
      by (intro exI [of _ al']) (simp add: free_wg_local_memory_def)
  qed
qed

lemma free_wg_allocators: "g_lmem_allocators (free_wg am b w s) = g_lmem_allocators (free_wg_local_memory b s)"
  by (simp add: free_wg_def cp_wgi_buf_free_def free_wg_stack_remap_def)

lemma lmem_free_wg:
  assumes own: "lmem_owned am pc s" and w: "w \<in> used_slots s" "w \<notin> unplaced pc"
  shows "lmem_owned am pc (free_wg am (wgi_buf s ! w) w s)"
proof -
  let ?s = "free_wg am (wgi_buf s ! w) w s"
  have smid: "0 \<le> wb_smid (wgi_buf s ! w)" "wb_smid (wgi_buf s ! w) < uint (g_num_sm s)" using own w by (auto simp: lmem_owned_def)
  then obtain i where i: "wb_smid (wgi_buf s ! w) = int i" "i < unat (g_num_sm s)" by (metis int_less_uint nonneg_int_cases)
  from free_wg_local_memory_live [OF own _ i(1)] w obtain al' where
    al: "g_lmem_allocators ?s = (g_lmem_allocators s)[i := al']" "lmem_inv am al'"
      "lmem_live al' = (if w \<in> lmem_slots pc s i then lmem_live (g_lmem_allocators s ! i) - {wg_region s w}
        else lmem_live (g_lmem_allocators s ! i))" by (auto simp: free_wg_allocators)
  have len: "unat (wgi_buf_len s) \<le> length (wgi_buf s)" using own by (simp add: lmem_owned_def)
  have wg: "j \<noteq> w \<Longrightarrow> wgi_buf ?s ! j = wgi_buf s ! j" "wb_in_use (wgi_buf ?s ! w) = 0" for j
    using w(1) len by (simp_all add: free_wg_frame used_slots_def)
  have u: "used_slots ?s = used_slots s - {w}"
  proof (rule set_eqI)
    fix k show "k \<in> used_slots ?s \<longleftrightarrow> k \<in> used_slots s - {w}"
      using wg by (cases "k = w") (simp_all add: used_slots_def free_wg_frame(2))
  qed
  have ls: "lmem_slots pc ?s j = lmem_slots pc s j - {w}" for j
    unfolding lmem_slots_def u using wg(1) by auto
  have rg: "k \<noteq> w \<Longrightarrow> wg_region ?s k = wg_region s k" for k by (simp add: wg_region_def wg(1))
  have img: "wg_region ?s ` (lmem_slots pc s j - {w}) = wg_region s ` (lmem_slots pc s j - {w})"
    "inj_on (wg_region ?s) (lmem_slots pc s j - {w}) = inj_on (wg_region s) (lmem_slots pc s j - {w})" for j
    by (intro image_cong inj_on_cong refl; simp add: rg)+
  have main: "lmem_inv am (g_lmem_allocators ?s ! j) \<and> inj_on (wg_region ?s) (lmem_slots pc ?s j) \<and>
      lmem_live (g_lmem_allocators ?s ! j) = wg_region ?s ` lmem_slots pc ?s j" if j: "j < unat (g_num_sm s)" for j
  proof -
    have old: "lmem_inv am (g_lmem_allocators s ! j)" "inj_on (wg_region s) (lmem_slots pc s j)"
      "lmem_live (g_lmem_allocators s ! j) = wg_region s ` lmem_slots pc s j" and jl: "j < length (g_lmem_allocators s)"
      using own j by (auto simp: lmem_owned_def)
    have inj: "inj_on (wg_region s) (lmem_slots pc s j - {w})" using old(2) by (rule inj_on_subset) blast
    have minus: "wg_region s ` (lmem_slots pc s j - {w}) = (if w \<in> lmem_slots pc s j then wg_region s ` lmem_slots pc s j - {wg_region s w} else wg_region s ` lmem_slots pc s j)"
      using old(2) by (auto simp: inj_on_image_set_diff [of _ "lmem_slots pc s j"] dest: inj_onD)
    show ?thesis
    proof (cases "j = i")
      case True
      then show ?thesis using al old inj minus jl unfolding ls img by simp
    next
      case False
      then have "w \<notin> lmem_slots pc s j" using i by (simp add: lmem_slots_def)
      with False show ?thesis using al(1) old inj minus unfolding ls img by simp
    qed
  qed
  have "pc_lmem_size pc ?s"
    using own w(2) by (cases pc) (auto simp: lmem_owned_def u wg(1))
  moreover have "\<forall>j \<in> used_slots ?s - unplaced pc. 0 \<le> wb_smid (wgi_buf ?s ! j) \<and> wb_smid (wgi_buf ?s ! j) < uint (g_num_sm s)"
    using own by (auto simp: u wg(1) lmem_owned_def)
  ultimately show ?thesis
    using own main al(1) unfolding lmem_owned_def by (simp add: free_wg_frame)
qed

lemma lmem_dispatch_step:
  assumes own: "lmem_owned am pc s" and st: "kernel_dispatch_step am p pc s = (pc', s')" and np: "pc' \<noteq> KPanic"
  shows "lmem_owned am pc' s'"
proof (cases pc)
  case (KWgi kid w x y z)
  with lmem_wgi_step own st show ?thesis by simp
next
  case (KSm kid w x y z b)
  with lmem_sm_step [OF _ _ np] own st show ?thesis by simp
next
  case (KRemap kid w x y z b i)
  with st np have "(pc', s') = (pc, s) \<or> (\<exists>f sm. unplaced pc' = {} \<and> pc_lmem_size pc' s' \<and>
      s' = upd_wgi b (\<lambda>e. e\<lparr>wb_stack_remap_slot := f\<rparr>) (upd_sm i (\<lambda>_. sm) s))"
    by (auto simp: kernel_remap_step_def split: prod.splits CpStackRemapStatus.splits)
  then show ?thesis
  proof (elim disjE exE conjE)
    fix f sm assume u: "unplaced pc' = {}" "pc_lmem_size pc' s'"
      and s': "s' = upd_wgi b (\<lambda>e. e\<lparr>wb_stack_remap_slot := f\<rparr>) (upd_sm i (\<lambda>_. sm) s)"
    have "map lmem_key (wgi_buf s') = map lmem_key (wgi_buf (upd_sm i (\<lambda>_. sm) s))"
      unfolding s' by (rule lmem_key_update) (simp add: lmem_key_def)
    then show ?thesis using u KRemap by (intro lmem_owned_cong [OF own]) (simp_all add: s')
  qed (use own in simp)
next
  case (KEnq kid w x y z b i)
  with st obtain f where "s' = upd_sm i f s" "unplaced pc' = {}" "\<And>t. pc_lmem_size pc' t"
    by (auto simp: kernel_enq_step_def Let_def split: prod.splits if_splits)
  with KEnq show ?thesis by (intro lmem_owned_cong [OF own]) simp_all
qed (use own st in \<open>auto intro!: lmem_owned_cong [OF own] split: if_splits
      simp: claim_cache_state_def cache_claim_now_def start_on_every_sm_def cache_release_def kernel_alloc_step_def
        Let_def kernel_begin_def cp_kernel_state_buf_free_def signal_kernel_failure_def split: prod.splits\<close>)

end
