(* ===== verification/Fw_Kernel_Own.thy ===== *)
theory Fw_Kernel_Own
  imports Fw_Kernel_Lmem "HOL-Library.Multiset"
begin

text \<open>
  Who holds a work-group: the slots in use, apart from the one the launch is still filling, are
  exactly the pointers that sit in an SM's enqueue register, in its resident set or in its
  dequeue register. The resident sets stand for the hardware, which takes a pointer from the
  enqueue register and later returns it once through the dequeue register. With this the launch
  never panics and the retire task never follows a stray pointer.
\<close>

section \<open>Definitions\<close>

definition remap_ready :: "addr_map \<Rightarrow> fw \<Rightarrow> bool" where
  "remap_ready am s \<longleftrightarrow> unat (g_num_sm s) \<le> length (sms s) \<and>
     (\<forall>i < unat (g_num_sm s). g_per_sm_threads s ! i = THREADS_PER_CORE (sms s ! i) \<and>
        stack_remap_entry_count_valid am (STACK_REMAP_ENTRY_COUNT (sms s ! i)) \<and>
        (\<forall>w < unat (wgi_buf_len s). stack_base_is_aligned am
           (wg_slot_stack_base am (THREADS_PER_CORE (sms s ! i)) w) (THREADS_PER_CORE (sms s ! i))))"

fun place_ok :: "addr_map \<Rightarrow> kernel_pc \<Rightarrow> fw \<Rightarrow> bool" where
  "place_ok am (KRemap k w x y z b i) s = (i < unat (g_num_sm s) \<and> ENQ_VALID (sms s ! i) = 0 \<and>
     wg_stack_base (wb_wginfo (wgi_buf s ! b)) = wg_slot_stack_base am (THREADS_PER_CORE (sms s ! i)) b)"
| "place_ok am (KEnq k w x y z b i) s = (i < unat (g_num_sm s) \<and> ENQ_VALID (sms s ! i) = 0)"
| "place_ok am _ s = True"

definition sm_ptrs :: "sm_mmio \<Rightarrow> u64 multiset" where
  "sm_ptrs sm = (if ENQ_VALID sm \<noteq> 0 then {#ENQ_INFO_PTR sm#} else {#}) +
     (if DEQ_VALID sm \<noteq> 0 then {#DEQ_INFO_PTR sm#} else {#})"

definition hw_ptrs :: "fw \<Rightarrow> (nat \<Rightarrow> u64 multiset) \<Rightarrow> u64 multiset" where
  "hw_ptrs s res = (\<Sum>i < unat (g_num_sm s). sm_ptrs (sms s ! i) + res i)"

definition launched_slots :: "kernel_pc \<Rightarrow> fw \<Rightarrow> nat set" where
  "launched_slots pc s = {w \<in> used_slots s. pc_slot pc \<noteq> Some w}"

definition hw_owned :: "addr_map \<Rightarrow> kernel_pc \<Rightarrow> fw \<Rightarrow> (nat \<Rightarrow> u64 multiset) \<Rightarrow> bool" where
  "hw_owned am pc s res \<longleftrightarrow> hw_ptrs s res = image_mset (wgi_buf_ptr am) (mset_set (launched_slots pc s))"

definition wgi_window_ok :: "addr_map \<Rightarrow> bool" where
  "wgi_window_ok am \<longleftrightarrow> FSA_WGI_BUF_BASE am \<noteq> 0 \<and> unat (FSA_WGI_BUF_BASE am) + unat (FSA_WGI_BUF_SIZE am) < 2 ^ 64"

definition launch_inv :: "addr_map \<Rightarrow> KernelDispatchPacket \<Rightarrow> kernel_pc \<Rightarrow> fw \<Rightarrow> (nat \<Rightarrow> u64 multiset) \<Rightarrow> bool" where
  "launch_inv am p pc s res \<longleftrightarrow> wgi_window_ok am \<and> length (wgi_buf s) \<le> wgi_buf_capacity am \<and>
     kernel_inv p pc s \<and> lmem_owned am pc s \<and> remap_ready am s \<and> place_ok am pc s \<and> hw_owned am pc s res"

text \<open>What these invariants read.\<close>

definition sm_view :: "sm_mmio \<Rightarrow> u64 \<times> u64 \<times> u64 \<times> u64 \<times> u64 \<times> u64" where
  "sm_view sm = (ENQ_VALID sm, ENQ_INFO_PTR sm, DEQ_VALID sm, DEQ_INFO_PTR sm, THREADS_PER_CORE sm,
     STACK_REMAP_ENTRY_COUNT sm)"

definition kernel_view where
  "kernel_view s = (kernel_state_buf s, wgi_buf s, wgi_buf_len s, g_num_sm s, g_lmem_allocators s,
     g_per_sm_threads s, map sm_view (sms s))"

lemma sm_view_nth:
  assumes "map sm_view xs = map sm_view ys" and "i < length ys"
  shows "length xs = length ys" and "ENQ_VALID (xs ! i) = ENQ_VALID (ys ! i)"
    and "THREADS_PER_CORE (xs ! i) = THREADS_PER_CORE (ys ! i)"
    and "STACK_REMAP_ENTRY_COUNT (xs ! i) = STACK_REMAP_ENTRY_COUNT (ys ! i)"
    and "sm_ptrs (xs ! i) = sm_ptrs (ys ! i)"
    and "DEQ_VALID (xs ! i) = DEQ_VALID (ys ! i)"
proof -
  show l: "length xs = length ys" using assms(1) by (rule map_eq_imp_length_eq)
  have "sm_view (xs ! i) = sm_view (ys ! i)" using arg_cong [OF assms(1), of "\<lambda>l. l ! i"] assms(2) l by simp
  then show "ENQ_VALID (xs ! i) = ENQ_VALID (ys ! i)" "THREADS_PER_CORE (xs ! i) = THREADS_PER_CORE (ys ! i)"
    "STACK_REMAP_ENTRY_COUNT (xs ! i) = STACK_REMAP_ENTRY_COUNT (ys ! i)" "sm_ptrs (xs ! i) = sm_ptrs (ys ! i)"
    "DEQ_VALID (xs ! i) = DEQ_VALID (ys ! i)"
    by (simp_all add: sm_view_def sm_ptrs_def)
qed

lemma launch_inv_view:
  assumes inv: "launch_inv am p pc s res" and v: "kernel_view s' = kernel_view s"
  shows "launch_inv am p pc s' res"
proof -
  have e: "kernel_state_buf s' = kernel_state_buf s" "wgi_buf s' = wgi_buf s" "wgi_buf_len s' = wgi_buf_len s"
    "g_num_sm s' = g_num_sm s" "g_lmem_allocators s' = g_lmem_allocators s"
    "g_per_sm_threads s' = g_per_sm_threads s" "map sm_view (sms s') = map sm_view (sms s)"
    using v by (simp_all add: kernel_view_def)
  have n: "unat (g_num_sm s) \<le> length (sms s)" using inv by (simp add: launch_inv_def remap_ready_def)
  note sm = sm_view_nth [OF e(7)]
  have ki: "kernel_inv p pc s" "pc_ok p pc s" using inv by (simp_all add: launch_inv_def kernel_inv_def)
  have k: "kernel_inv p pc s'"
    by (rule kernel_inv_cong [OF ki(1) _ e(3,1) refl ki(2)]) (simp add: e(2))
  have us: "used_slots s' = used_slots s" by (simp add: used_slots_def e)
  have "pc_lmem_size pc s'" using inv by (cases pc) (simp_all add: launch_inv_def lmem_owned_def us e)
  moreover have "lmem_owned am pc s" using inv by (simp add: launch_inv_def)
  ultimately have l: "lmem_owned am pc s'"
    using lmem_owned_cong [OF _ _ e(3,4,5) refl] e(2) by simp
  have r: "remap_ready am s'"
    using inv sm n map_eq_imp_length_eq [OF e(7)] by (simp add: launch_inv_def remap_ready_def e)
  have pl: "place_ok am pc s'"
    using inv sm n by (cases pc) (simp_all add: launch_inv_def e)
  have "hw_ptrs s' res = hw_ptrs s res"
    unfolding hw_ptrs_def e(4) by (rule sum.cong) (use sm n in simp_all)
  then have "hw_owned am pc s' res" using inv by (simp add: launch_inv_def hw_owned_def launched_slots_def us)
  with inv k l r pl e show ?thesis by (simp add: launch_inv_def)
qed

section \<open>Launch steps\<close>

definition launch_rest :: "addr_map \<Rightarrow> kernel_pc \<Rightarrow> fw \<Rightarrow> (nat \<Rightarrow> u64 multiset) \<Rightarrow> bool" where
  "launch_rest am pc s res \<longleftrightarrow> remap_ready am s \<and> place_ok am pc s \<and> hw_owned am pc s res"

lemma remap_ready_cong:
  assumes "remap_ready am s" and "g_num_sm s' = g_num_sm s" and "g_per_sm_threads s' = g_per_sm_threads s"
    and "wgi_buf_len s' = wgi_buf_len s" and "length (sms s') = length (sms s)"
    and "\<And>i. i < length (sms s) \<Longrightarrow> THREADS_PER_CORE (sms s' ! i) = THREADS_PER_CORE (sms s ! i) \<and>
       STACK_REMAP_ENTRY_COUNT (sms s' ! i) = STACK_REMAP_ENTRY_COUNT (sms s ! i)"
  shows "remap_ready am s'"
  using assms unfolding remap_ready_def by simp

lemma hw_owned_cong:
  assumes "hw_owned am pc s res" and "g_num_sm s' = g_num_sm s"
    and "\<And>i. i < unat (g_num_sm s) \<Longrightarrow> sm_ptrs (sms s' ! i) = sm_ptrs (sms s ! i)"
    and "launched_slots pc' s' = launched_slots pc s"
  shows "hw_owned am pc' s' res"
proof -
  have "hw_ptrs s' res = hw_ptrs s res"
    unfolding hw_ptrs_def assms(2) by (rule sum.cong) (simp_all add: assms(3))
  then show ?thesis using assms(1,4) by (simp add: hw_owned_def)
qed

lemma start_on_every_sm_nth:
  "length (sms (start_on_every_sm a z m tg s)) = length (sms s)"
  "i < length (sms s) \<Longrightarrow> sms (start_on_every_sm a z m tg s) ! i =
     (if i < unat (g_num_sm s) then start_on_sm a z m tg (sms s ! i) else sms s ! i)"
  by (auto simp: start_on_every_sm_def nth_append)

lemma start_on_sm_view: "sm_view (start_on_sm a z m tg sm) = sm_view sm"
  by (simp add: sm_view_def start_on_sm_def Let_def)

lemma start_on_every_sm_view: "map sm_view (sms (start_on_every_sm a z m tg s)) = map sm_view (sms s)"
  by (rule nth_equalityI) (simp_all add: start_on_every_sm_nth start_on_sm_view)

lemma cache_steps_view:
  "kernel_view (cache_claim_now tg tk s) = kernel_view s" "kernel_view (cache_release s) = kernel_view s"
  "kernel_view (cache_mark_started s) = kernel_view s" "kernel_view (start_on_every_sm a z m tg s) = kernel_view s"
  by (simp_all add: kernel_view_def start_on_every_sm_view)
    (simp_all add: cache_claim_now_def cache_release_def cache_mark_started_def start_on_every_sm_def upd_cache_def)

lemma kernel_begin_frame:
  "wgi_buf (kernel_begin p k s) = wgi_buf s" "wgi_buf_len (kernel_begin p k s) = wgi_buf_len s"
  "g_num_sm (kernel_begin p k s) = g_num_sm s" "g_per_sm_threads (kernel_begin p k s) = g_per_sm_threads s"
  "sms (kernel_begin p k s) = sms s" "completion_pool (kernel_begin p k s) = completion_pool s"
  by (simp_all add: kernel_begin_def upd_kstate_def split: prod.splits)

lemma signal_failure_frame:
  "wgi_buf (signal_kernel_failure p r s) = wgi_buf s" "wgi_buf_len (signal_kernel_failure p r s) = wgi_buf_len s"
  "g_num_sm (signal_kernel_failure p r s) = g_num_sm s"
  "g_per_sm_threads (signal_kernel_failure p r s) = g_per_sm_threads s"
  "sms (signal_kernel_failure p r s) = sms s" "kernel_state_buf (signal_kernel_failure p r s) = kernel_state_buf s"
  "g_lmem_allocators (signal_kernel_failure p r s) = g_lmem_allocators s"
  "memory_copy_state (signal_kernel_failure p r s) = memory_copy_state s"
  "cache_state (signal_kernel_failure p r s) = cache_state s" "cp (signal_kernel_failure p r s) = cp s"
  "cmd_ring (signal_kernel_failure p r s) = cmd_ring s"
  by (simp_all add: signal_kernel_failure_def)

lemma kstate_free_frame:
  "wgi_buf (cp_kernel_state_buf_free k s) = wgi_buf s" "wgi_buf_len (cp_kernel_state_buf_free k s) = wgi_buf_len s"
  "g_num_sm (cp_kernel_state_buf_free k s) = g_num_sm s" "sms (cp_kernel_state_buf_free k s) = sms s"
  "g_per_sm_threads (cp_kernel_state_buf_free k s) = g_per_sm_threads s"
  by (simp_all add: cp_kernel_state_buf_free_def upd_kstate_def)

lemma kernel_alloc_rest:
  assumes "launch_rest am KAlloc s res" and "kernel_alloc_step am p s = (pc', s')"
  shows "launch_rest am pc' s' res" and "pc' \<noteq> KPanic"
proof -
  have f: "wgi_buf s' = wgi_buf s" "wgi_buf_len s' = wgi_buf_len s" "g_num_sm s' = g_num_sm s"
    "g_per_sm_threads s' = g_per_sm_threads s" "sms s' = sms s" "pc_slot pc' = None" "\<And>t. place_ok am pc' t"
    and np: "pc' \<noteq> KPanic"
    using assms(2) by (auto simp: kernel_alloc_step_def Let_def kernel_begin_frame signal_failure_frame
        kstate_free_frame split: if_splits)
  have "launched_slots pc' s' = launched_slots KAlloc s" by (simp add: launched_slots_def used_slots_def f)
  then show "launch_rest am pc' s' res"
    using assms(1) hw_owned_cong [of am KAlloc s res s' pc'] remap_ready_cong [of am s s'] f
    by (simp add: launch_rest_def)
  show "pc' \<noteq> KPanic" by (rule np)
qed

lemma kernel_wgi_rest:
  assumes "launch_rest am (KWgi kid w x y z) s res" and "kernel_wgi_step p kid w x y z s = (pc', s')"
    and len: "unat (wgi_buf_len s) \<le> length (wgi_buf s)"
  shows "launch_rest am pc' s' res" and "pc' \<noteq> KPanic"
proof -
  have f: "wgi_buf_len s' = wgi_buf_len s" "g_num_sm s' = g_num_sm s"
    "g_per_sm_threads s' = g_per_sm_threads s" "sms s' = sms s" "\<And>t. place_ok am pc' t" and np: "pc' \<noteq> KPanic"
    using assms(2) by (auto simp: kernel_wgi_step_def cp_wgi_buf_alloc_def Let_def upd_wgi_def split: option.splits if_splits)
  have "launched_slots pc' s' = launched_slots (KWgi kid w x y z) s"
  proof (cases "find_index (\<lambda>b. wb_in_use b = 0) (take (unat (wgi_buf_len s)) (wgi_buf s))")
    case None
    with assms(2) show ?thesis by (simp add: kernel_wgi_step_def cp_wgi_buf_alloc_def Let_def)
  next
    case (Some b)
    then have b: "wb_in_use (wgi_buf s ! b) = 0" using len by (auto simp: find_index_Some)
    have "pc_slot pc' = Some b" "\<forall>j. j \<noteq> b \<longrightarrow> wgi_buf s' ! j = wgi_buf s ! j"
      using assms(2) Some by (auto simp: kernel_wgi_step_def cp_wgi_buf_alloc_def Let_def)
    with b show ?thesis by (auto simp: launched_slots_def used_slots_def f)
  qed
  then show "launch_rest am pc' s' res"
    using assms(1) hw_owned_cong [of am "KWgi kid w x y z" s res s' pc'] remap_ready_cong [of am s s'] f
    by (simp add: launch_rest_def)
  show "pc' \<noteq> KPanic" by (rule np)
qed

lemma slot_update_used:
  "(\<And>e. wb_in_use (f e) = wb_in_use e) \<Longrightarrow> used_slots (upd_wgi b f s) = used_slots s"
  by (cases "b < length (wgi_buf s)")
    (auto simp: used_slots_def nth_list_update list_update_beyond not_less)

lemma kernel_sm_rest:
  assumes r: "launch_rest am (KSm kid w x y z b) s res" and st: "kernel_sm_step am p kid w x y z b s = (pc', s')"
    and b: "b < length (wgi_buf s)"
  shows "launch_rest am pc' s' res" and "pc' \<noteq> KPanic"
proof -
  have "launch_rest am pc' s' res \<and> pc' \<noteq> KPanic"
  proof (cases "sm_alloc am (ucast (wg_local_memory_size w)) s")
    case None
    with st r show ?thesis by (auto simp: kernel_sm_step_def)
  next
    case (Some q)
    obtain i base s1 where q: "q = (i, base, s1)" by (cases q)
    note fr = sm_alloc_frame [OF Some [unfolded q]]
    obtain allocs n where s1: "s1 = s\<lparr>g_lmem_allocators := allocs, prev_sm_id := n\<rparr>" using fr(3) by blast
    have t: "cp_hwinfo_threads_per_core s1 i = Some (THREADS_PER_CORE (sms s ! i))"
      using fr(1) r by (simp add: cp_hwinfo_threads_per_core_def s1 launch_rest_def remap_ready_def)
    let ?f = "\<lambda>e. e\<lparr>wb_smid := int i, wb_wginfo := (wb_wginfo e)\<lparr>wg_local_memory_base := base,
        wg_stack_base := wg_slot_stack_base am (THREADS_PER_CORE (sms s ! i)) b\<rparr>\<rparr>"
    have pc': "pc' = KRemap kid w x y z b i \<or> pc' = KEnq kid w x y z b i" and s': "s' = upd_wgi b ?f s1"
      using st Some q t by (auto simp: kernel_sm_step_def Let_def split: if_splits)
    have u: "used_slots s' = used_slots s"
      unfolding s' by (subst slot_update_used) (simp_all add: used_slots_def s1)
    have "place_ok am pc' s'" using pc' fr(1,2) b by (auto simp: s' s1)
    moreover have "remap_ready am s'"
      using r by (intro remap_ready_cong [of am s s']) (simp_all add: launch_rest_def s' s1 upd_wgi_def)
    moreover have "hw_owned am pc' s' res"
      using r pc' u by (intro hw_owned_cong [of am "KSm kid w x y z b" s res s' pc'])
        (auto simp: launch_rest_def s' s1 launched_slots_def)
    ultimately show ?thesis using pc' by (auto simp: launch_rest_def)
  qed
  then show "launch_rest am pc' s' res" and "pc' \<noteq> KPanic" by simp_all
qed

lemma kernel_remap_rest:
  assumes r: "launch_rest am (KRemap kid w x y z b i) s res"
    and st: "kernel_remap_step am kid w x y z b i s = (pc', s')" and b: "b < unat (wgi_buf_len s)"
  shows "launch_rest am pc' s' res" and "pc' \<noteq> KPanic"
proof -
  have i: "i < unat (g_num_sm s)" "i < length (sms s)" "ENQ_VALID (sms s ! i) = 0"
    "wg_stack_base (wb_wginfo (wgi_buf s ! b)) = wg_slot_stack_base am (THREADS_PER_CORE (sms s ! i)) b"
    "stack_remap_entry_count_valid am (STACK_REMAP_ENTRY_COUNT (sms s ! i))"
    "stack_base_is_aligned am (wg_slot_stack_base am (THREADS_PER_CORE (sms s ! i)) b) (THREADS_PER_CORE (sms s ! i))"
    using r b by (auto simp: launch_rest_def remap_ready_def)
  then have "(pc', s') = (KRemap kid w x y z b i, s) \<or>
      (\<exists>f tbl. pc' = KEnq kid w x y z b i \<and> s' = upd_wgi b (\<lambda>e. e\<lparr>wb_stack_remap_slot := f\<rparr>)
         (upd_sm i (\<lambda>_. (sms s ! i)\<lparr>STACK_REMAP_TABLE := tbl\<rparr>) s))"
    using st by (auto simp: kernel_remap_step_def cp_stack_remap_configure_def Let_def split: option.splits)
  then have "launch_rest am pc' s' res \<and> pc' \<noteq> KPanic"
  proof (elim disjE exE conjE)
    fix f tbl assume pc': "pc' = KEnq kid w x y z b i"
      and s': "s' = upd_wgi b (\<lambda>e. e\<lparr>wb_stack_remap_slot := f\<rparr>) (upd_sm i (\<lambda>_. (sms s ! i)\<lparr>STACK_REMAP_TABLE := tbl\<rparr>) s)"
    have u: "used_slots s' = used_slots s"
      unfolding s' by (subst slot_update_used) (simp_all add: used_slots_def)
    have "remap_ready am s'"
      using r i(2) by (intro remap_ready_cong [of am s s'])
        (auto simp: launch_rest_def s' nth_list_update upd_wgi_def upd_sm_def)
    moreover have "hw_owned am pc' s' res"
      using r u i(2) by (intro hw_owned_cong [of am "KRemap kid w x y z b i" s res s' pc'])
        (auto simp: launch_rest_def s' launched_slots_def pc' nth_list_update sm_ptrs_def)
    ultimately show ?thesis using pc' i by (simp add: launch_rest_def s')
  qed (use r in auto)
  then show "launch_rest am pc' s' res" and "pc' \<noteq> KPanic" by simp_all
qed

text \<open>The sum over the SMs when one of them changes.\<close>

lemma hw_ptrs_change:
  assumes "i < unat (g_num_sm s)" and "g_num_sm s' = g_num_sm s"
    and "\<And>j. j \<noteq> i \<Longrightarrow> sm_ptrs (sms s' ! j) = sm_ptrs (sms s ! j) \<and> res' j = res j"
    and "sm_ptrs (sms s' ! i) + res' i + d = sm_ptrs (sms s ! i) + res i + e"
  shows "hw_ptrs s' res' + d = hw_ptrs s res + e"
proof -
  let ?I = "{..<unat (g_num_sm s)}"
  have I: "finite ?I" "i \<in> ?I" using assms(1) by simp_all
  have rest: "(\<Sum>j \<in> ?I - {i}. sm_ptrs (sms s' ! j) + res' j) = (\<Sum>j \<in> ?I - {i}. sm_ptrs (sms s ! j) + res j)"
    by (rule sum.cong) (use assms(3) in auto)
  have "hw_ptrs s' res' + d = (sm_ptrs (sms s' ! i) + res' i + d) + (\<Sum>j \<in> ?I - {i}. sm_ptrs (sms s' ! j) + res' j)"
    unfolding hw_ptrs_def assms(2) by (subst sum.remove [OF I]) (simp add: ac_simps)
  also have "\<dots> = (sm_ptrs (sms s ! i) + res i + e) + (\<Sum>j \<in> ?I - {i}. sm_ptrs (sms s ! j) + res j)"
    by (simp add: assms(4) rest)
  also have "\<dots> = hw_ptrs s res + e"
    unfolding hw_ptrs_def by (subst sum.remove [OF I]) (simp add: ac_simps)
  finally show ?thesis .
qed

lemma kernel_enq_rest:
  assumes r: "launch_rest am (KEnq kid w x y z b i) s res"
    and st: "kernel_enq_step am p kid w x y z b i s = (pc', s')" and b: "b \<in> used_slots s"
  shows "launch_rest am pc' s' res" and "pc' \<noteq> KPanic"
proof -
  have i: "i < unat (g_num_sm s)" "i < length (sms s)" "ENQ_VALID (sms s ! i) = 0"
    using r by (auto simp: launch_rest_def remap_ready_def)
  let ?f = "\<lambda>sm. sm\<lparr>ENQ_KERNEL_PC := kp_kernel_object p, ENQ_INFO_PTR := wgi_buf_ptr am b,
      ENQ_NUM_THREADS := ucast (wg_num_threads w), ENQ_VALID := 1\<rparr>"
  have s': "s' = upd_sm i ?f s" and pc': "pc_slot pc' = None" "pc' \<noteq> KPanic" "\<And>t. place_ok am pc' t"
    using st by (auto simp: kernel_enq_step_def Let_def split: prod.splits if_splits)
  have "hw_ptrs s' res + {#} = hw_ptrs s res + {#wgi_buf_ptr am b#}"
    by (rule hw_ptrs_change [OF i(1)]) (use i in \<open>auto simp: s' sm_ptrs_def\<close>)
  moreover have l: "launched_slots pc' s' = insert b (launched_slots (KEnq kid w x y z b i) s)"
    "b \<notin> launched_slots (KEnq kid w x y z b i) s" "finite (launched_slots (KEnq kid w x y z b i) s)"
    using b pc'(1) by (auto simp: launched_slots_def used_slots_def s')
  ultimately have "hw_owned am pc' s' res" using r by (simp add: hw_owned_def launch_rest_def)
  moreover have "remap_ready am s'"
    using r i(2) by (intro remap_ready_cong [of am s s'])
      (auto simp: launch_rest_def s' nth_list_update upd_sm_def)
  ultimately show "launch_rest am pc' s' res" using pc' by (simp add: launch_rest_def)
  show "pc' \<noteq> KPanic" by (rule pc'(2))
qed

lemma dispatch_step_rest:
  assumes r: "launch_rest am pc s res" and k: "kernel_inv p pc s" and st: "kernel_dispatch_step am p pc s = (pc', s')"
    and np: "pc \<noteq> KPanic"
  shows "launch_rest am pc' s' res \<and> pc' \<noteq> KPanic"
proof -
  have len: "unat (wgi_buf_len s) \<le> length (wgi_buf s)" using k by (simp add: kernel_inv_def slots_ok_def)
  have view: "launch_rest am a s res \<Longrightarrow> kernel_view t = kernel_view s \<Longrightarrow> pc_slot b = pc_slot a \<Longrightarrow>
      (\<And>u. place_ok am b u) \<Longrightarrow> launch_rest am b t res" for a b t
  proof -
    assume a: "launch_rest am a s res" and v: "kernel_view t = kernel_view s" and b: "pc_slot b = pc_slot a"
      and pl: "\<And>u. place_ok am b u"
    have e: "g_num_sm t = g_num_sm s" "g_per_sm_threads t = g_per_sm_threads s" "wgi_buf_len t = wgi_buf_len s"
      "map sm_view (sms t) = map sm_view (sms s)" "wgi_buf t = wgi_buf s" using v by (simp_all add: kernel_view_def)
    have n: "unat (g_num_sm s) \<le> length (sms s)" using a by (simp add: launch_rest_def remap_ready_def)
    note sm = sm_view_nth [OF e(4)]
    have "remap_ready am t" using a e sm map_eq_imp_length_eq [OF e(4)]
      by (intro remap_ready_cong [of am s t]) (auto simp: launch_rest_def)
    moreover have "hw_owned am b t res"
      using a e sm n b by (intro hw_owned_cong [of am a s res t b]) (auto simp: launch_rest_def launched_slots_def used_slots_def)
    ultimately show "launch_rest am b t res" using pl by (simp add: launch_rest_def)
  qed
  show ?thesis
  proof (cases pc)
    case KInvClaim
    have "launch_rest am KInvStart (cache_claim_now tg tk s) res" for tg tk
      using r KInvClaim by (auto intro: view cache_steps_view)
    with KInvClaim r st show ?thesis by (auto simp: claim_cache_state_def split: if_splits)
  next
    case KInvStart
    have "launch_rest am KInvWait (start_on_every_sm a z m tg s) res" for a z m tg
      using r KInvStart by (auto intro: view cache_steps_view)
    with KInvStart st show ?thesis by auto
  next
    case KInvWait
    have "launch_rest am KAlloc (cache_release s) res"
      using r KInvWait by (auto intro: view cache_steps_view)
    with KInvWait r st show ?thesis by (auto split: if_splits)
  next
    case KAlloc
    with kernel_alloc_rest r st show ?thesis by simp
  next
    case (KWgi kid w x y z)
    with kernel_wgi_rest [OF _ _ len] r st show ?thesis by simp
  next
    case (KSm kid w x y z b)
    then have "b < length (wgi_buf s)" using k len by (auto simp: kernel_inv_def kid_slots_def used_slots_def)
    with kernel_sm_rest [OF _ _ this] r st KSm show ?thesis by simp
  next
    case (KRemap kid w x y z b i)
    then have "b < unat (wgi_buf_len s)" using k by (auto simp: kernel_inv_def kid_slots_def used_slots_def)
    with kernel_remap_rest [OF _ _ this] r st KRemap show ?thesis by simp
  next
    case (KEnq kid w x y z b i)
    then have "b \<in> used_slots s" using k by (auto simp: kernel_inv_def kid_slots_def)
    with kernel_enq_rest [OF _ _ this] r st KEnq show ?thesis by simp
  qed (use r st np in auto)
qed

lemma dispatch_step_length:
  "kernel_dispatch_step am p pc s = (pc', s') \<Longrightarrow> length (wgi_buf s') = length (wgi_buf s)"
proof (cases pc)
  case (KSm kid w x y z b)
  assume st: "kernel_dispatch_step am p pc s = (pc', s')"
  show ?thesis
  proof (cases "sm_alloc am (ucast (wg_local_memory_size w)) s")
    case (Some q)
    obtain i base s1 where q: "q = (i, base, s1)" by (cases q)
    from sm_alloc_frame(3) [OF Some [unfolded q]] have "wgi_buf s1 = wgi_buf s" by auto
    then show ?thesis using st KSm Some q by (auto simp: kernel_sm_step_def Let_def split: option.splits if_splits)
  qed (use st KSm in \<open>simp add: kernel_sm_step_def\<close>)
qed (auto simp: claim_cache_state_def kernel_alloc_step_def Let_def kernel_begin_frame
    signal_failure_frame kstate_free_frame kernel_wgi_step_def cp_wgi_buf_alloc_def kernel_remap_step_def kernel_enq_step_def
    split: option.splits if_splits prod.splits CpStackRemapStatus.splits)

lemma launch_step_inv:
  assumes inv: "launch_inv am p pc s res" and v: "valid_kernel_dispatch_packet p" and fit: "wg_total p < 2 ^ 32"
    and st: "kernel_dispatch_step am p pc s = (pc', s')" and np: "pc \<noteq> KPanic"
  shows "launch_inv am p pc' s' res" and "pc' \<noteq> KPanic"
proof -
  have i: "wgi_window_ok am" "length (wgi_buf s) \<le> wgi_buf_capacity am" "kernel_inv p pc s" "lmem_owned am pc s"
    "launch_rest am pc s res" using inv by (simp_all add: launch_inv_def launch_rest_def)
  note r = dispatch_step_rest [OF i(5,3) st np]
  show "pc' \<noteq> KPanic" using r ..
  then show "launch_inv am p pc' s' res"
    using i r kernel_dispatch_inv [OF i(3) v fit st] lmem_dispatch_step [OF i(4) st] dispatch_step_length [OF st]
    by (simp add: launch_inv_def launch_rest_def)
qed

section \<open>Retirement and the SMs\<close>

lemma wgi_ptr_unat:
  assumes "wgi_window_ok am" and "w \<le> wgi_buf_capacity am"
  shows "unat (wgi_buf_ptr am w) = unat (FSA_WGI_BUF_BASE am) + w * sizeof_cp_wgi_buf"
proof -
  have "w * sizeof_cp_wgi_buf \<le> wgi_buf_capacity am * sizeof_cp_wgi_buf" using assms(2) by (rule mult_le_mono1)
  also have "\<dots> \<le> unat (FSA_WGI_BUF_SIZE am)" by (simp add: wgi_buf_capacity_def)
  finally have le: "w * sizeof_cp_wgi_buf \<le> unat (FSA_WGI_BUF_SIZE am)" .
  then have "unat (of_nat (w * sizeof_cp_wgi_buf) :: u64) = w * sizeof_cp_wgi_buf"
    using unat_lt64 [of "FSA_WGI_BUF_SIZE am"] by (intro unat_of_nat_lt) simp
  with le assms(1) show ?thesis
    by (simp add: wgi_buf_ptr_def wgi_window_ok_def unat_add_no_wrap del: of_nat_mult)
qed

lemma wgi_ptr_inj:
  assumes "wgi_window_ok am" and "w \<le> wgi_buf_capacity am" and "w' \<le> wgi_buf_capacity am"
    and "wgi_buf_ptr am w = wgi_buf_ptr am w'"
  shows "w = w'"
proof -
  have "unat (FSA_WGI_BUF_BASE am) + w * sizeof_cp_wgi_buf = unat (FSA_WGI_BUF_BASE am) + w' * sizeof_cp_wgi_buf"
    by (simp only: flip: wgi_ptr_unat [OF assms(1,2)] wgi_ptr_unat [OF assms(1,3)]) (simp only: assms(4))
  then show ?thesis by (simp add: sizeof_cp_wgi_buf_def)
qed

lemma wgi_ptr_nonzero: "wgi_window_ok am \<Longrightarrow> w \<le> wgi_buf_capacity am \<Longrightarrow> wgi_buf_ptr am w \<noteq> 0"
  using wgi_ptr_unat [of am w] by (auto simp: wgi_window_ok_def unsigned_eq_0_iff)

lemma launched_finite [simp]: "finite (launched_slots pc s)"
  by (simp add: launched_slots_def used_slots_def)

lemma owned_ptr:
  assumes "hw_owned am pc s res" and "i < unat (g_num_sm s)" and "q \<in># sm_ptrs (sms s ! i) + res i"
  shows "\<exists>w \<in> launched_slots pc s. q = wgi_buf_ptr am w"
proof -
  have "sm_ptrs (sms s ! i) + res i \<subseteq># hw_ptrs s res"
    unfolding hw_ptrs_def using assms(2) by (subst sum.remove [of _ i]) simp_all
  with assms(3) have "q \<in># hw_ptrs s res" by (rule mset_subset_eqD [rotated])
  with assms(1) show ?thesis by (auto simp: hw_owned_def)
qed

lemma launch_inv_bound: "launch_inv am p pc s res \<Longrightarrow> w \<in> used_slots s \<Longrightarrow> w < wgi_buf_capacity am"
  by (auto simp: launch_inv_def used_slots_def kernel_inv_def slots_ok_def)

lemma launch_inv_deq:
  assumes inv: "launch_inv am p pc s res"
  shows "deq_ok am pc s"
  unfolding deq_ok_def
proof (intro allI impI disjI2)
  fix i assume i: "i < unat (g_num_sm s)" "DEQ_VALID (sms s ! i) \<noteq> 0"
  have "DEQ_INFO_PTR (sms s ! i) \<in># sm_ptrs (sms s ! i) + res i" using i(2) by (simp add: sm_ptrs_def)
  with owned_ptr inv i(1) obtain w where w: "w \<in> launched_slots pc s" "DEQ_INFO_PTR (sms s ! i) = wgi_buf_ptr am w"
    by (metis launch_inv_def)
  then have u: "w \<in> used_slots s" "pc_slot pc \<noteq> Some w" by (simp_all add: launched_slots_def)
  then have "w < unat (wgi_buf_len s)" by (simp add: used_slots_def)
  moreover have "wb_wbid (wgi_buf s ! w) = int w \<and> (\<exists>kid. wb_kid (wgi_buf s ! w) = int kid \<and> kernel_active s kid)"
    using inv u(1) by (auto simp: launch_inv_def kernel_inv_def slots_ok_def)
  ultimately show "\<exists>w < unat (wgi_buf_len s). DEQ_INFO_PTR (sms s ! i) = wgi_buf_ptr am w \<and>
      wb_wbid (wgi_buf s ! w) = int w \<and> 0 \<le> wb_kid (wgi_buf s ! w) \<and>
      wb_kid (wgi_buf s ! w) < int (length (kernel_state_buf s)) \<and> pc_slot pc \<noteq> Some w"
    using w(2) u(2) by (auto simp: kernel_active_def)
qed

lemma retire_never_wild:
  assumes inv: "launch_inv am p pc s res"
  shows "cp_retire_sm am s \<noteq> RetireWild"
proof
  assume w: "cp_retire_sm am s = RetireWild"
  then obtain i where i: "sm_free s = Some i" by (auto simp: cp_retire_sm_def split: option.splits)
  then have iv: "i < unat (g_num_sm s)" "DEQ_VALID (sms s ! i) \<noteq> 0" by (auto simp: sm_free_def find_index_Some)
  with launch_inv_deq [OF inv] have "DEQ_INFO_PTR (sms s ! i) = 0 \<or>
      (\<exists>w < unat (wgi_buf_len s). DEQ_INFO_PTR (sms s ! i) = wgi_buf_ptr am w)" by (auto simp: deq_ok_def)
  then show False
  proof (elim disjE exE conjE)
    assume "DEQ_INFO_PTR (sms s ! i) = 0"
    with w i show False by (simp add: cp_retire_sm_def Let_def)
  next
    fix k assume k: "k < unat (wgi_buf_len s)" "DEQ_INFO_PTR (sms s ! i) = wgi_buf_ptr am k"
    have "k < length (wgi_buf s)" "length (wgi_buf s) \<le> wgi_buf_capacity am"
      using k(1) inv by (auto simp: launch_inv_def kernel_inv_def slots_ok_def)
    with w i k(2) show False by (auto simp: cp_retire_sm_def Let_def wgi_deref_ptr split: if_splits)
  qed
qed

text \<open>Every dequeue is the retirement of a work-group in flight.\<close>

lemma retire_owned:
  assumes inv: "launch_inv am p pc s res" and r: "cp_retire_sm am s = Retired s'"
  obtains i w kid where "sm_free s = Some i" "w \<in> kid_slots s kid" "pc_slot pc \<noteq> Some w"
      "DEQ_INFO_PTR (sms s ! i) = wgi_buf_ptr am w" "kernel_active s kid"
      "s' = kernel_count_down (to_kernel_completion_result (DEQ_STATUS (sms s ! i)))
         \<lparr>ks_mcause = DEQ_MCAUSE (sms s ! i), ks_mepc = DEQ_MEPC (sms s ! i), ks_mtval = DEQ_MTVAL (sms s ! i)\<rparr>
         (wb_kernel_status_ptr (wgi_buf s ! w)) kid (free_wg am (wgi_buf s ! w) w (clear_deq i s))"
proof -
  have k: "kernel_inv p pc s" and cap: "length (wgi_buf s) \<le> wgi_buf_capacity am" and win: "wgi_window_ok am"
    and own: "hw_owned am pc s res" using inv by (simp_all add: launch_inv_def)
  show ?thesis
  proof (rule retire_cases [OF k launch_inv_deq [OF inv] cap r])
    fix i assume i: "sm_free s = Some i"
      and d: "DEQ_INFO_PTR (sms s ! i) = 0 \<or> (\<exists>w < unat (wgi_buf_len s). DEQ_INFO_PTR (sms s ! i) = wgi_buf_ptr am w \<and> w \<notin> used_slots s)"
    have iv: "i < unat (g_num_sm s)" "DEQ_VALID (sms s ! i) \<noteq> 0" using i by (auto simp: sm_free_def find_index_Some)
    then have "DEQ_INFO_PTR (sms s ! i) \<in># sm_ptrs (sms s ! i) + res i" by (simp add: sm_ptrs_def)
    from owned_ptr [OF own iv(1) this] obtain w where w: "w \<in> used_slots s" "DEQ_INFO_PTR (sms s ! i) = wgi_buf_ptr am w"
      by (auto simp: launched_slots_def)
    note wb = launch_inv_bound [OF inv w(1)]
    have "unat (wgi_buf_len s) \<le> wgi_buf_capacity am" using k cap by (simp add: kernel_inv_def slots_ok_def)
    with d w wb wgi_ptr_nonzero [OF win, of w] wgi_ptr_inj [OF win] show thesis by (metis less_le_not_le nless_le order_trans)
  qed (rule that)
qed

lemma free_wg_sms:
  "length (sms (free_wg am b w s)) = length (sms s)"
  "sm_view (sms (free_wg am b w s) ! i) = sm_view (sms s ! i)"
  "g_per_sm_threads (free_wg am b w s) = g_per_sm_threads s"
proof -
  have v: "sm_view (cp_stack_remap_release am sm sl) = sm_view sm" for sm sl
    by (simp add: cp_stack_remap_release_def Let_def sm_view_def)
  have sms: "sms (free_wg am b w s) = (if wb_smid b < 0 \<or> uint (g_num_sm s) \<le> wb_smid b then sms s
      else (sms s)[nat (wb_smid b) := cp_stack_remap_release am (sms s ! nat (wb_smid b)) (wb_stack_remap_slot b)])"
    by (simp add: free_wg_def cp_wgi_buf_free_def free_wg_stack_remap_def free_wg_local_memory_def split: prod.splits)
  show "length (sms (free_wg am b w s)) = length (sms s)" by (simp add: sms)
  show "sm_view (sms (free_wg am b w s) ! i) = sm_view (sms s ! i)"
  proof (cases "nat (wb_smid b) < length (sms s)")
    case True
    then show ?thesis by (auto simp: sms nth_list_update v)
  next
    case False
    then show ?thesis by (simp add: sms list_update_beyond not_less)
  qed
  show "g_per_sm_threads (free_wg am b w s) = g_per_sm_threads s"
    by (simp add: free_wg_def cp_wgi_buf_free_def free_wg_stack_remap_def free_wg_local_memory_def upd_wgi_def upd_sm_def
        split: prod.splits)
qed

lemma retire_launch_inv:
  assumes inv: "launch_inv am p pc s res" and r: "cp_retire_sm am s = Retired s'"
  shows "launch_inv am p pc s' res"
proof (rule retire_owned [OF inv r])
  fix i w kid
  let ?cd = "kernel_count_down (to_kernel_completion_result (DEQ_STATUS (sms s ! i)))
      \<lparr>ks_mcause = DEQ_MCAUSE (sms s ! i), ks_mepc = DEQ_MEPC (sms s ! i), ks_mtval = DEQ_MTVAL (sms s ! i)\<rparr>
      (wb_kernel_status_ptr (wgi_buf s ! w)) kid"
  assume i: "sm_free s = Some i" and w: "w \<in> kid_slots s kid" "pc_slot pc \<noteq> Some w"
    and ptr: "DEQ_INFO_PTR (sms s ! i) = wgi_buf_ptr am w" and act: "kernel_active s kid"
    and s': "s' = ?cd (free_wg am (wgi_buf s ! w) w (clear_deq i s))"
  have k: "kernel_inv p pc s" and own: "hw_owned am pc s res" and rr: "remap_ready am s"
    and lo: "lmem_owned am pc s" and pl: "place_ok am pc s" using inv by (simp_all add: launch_inv_def)
  have iv: "i < unat (g_num_sm s)" "DEQ_VALID (sms s ! i) \<noteq> 0" "i < length (sms s)"
    using i rr by (auto simp: sm_free_def find_index_Some remap_ready_def)
  let ?t = "free_wg am (wgi_buf s ! w) w (clear_deq i s)"
  have thr: "g_per_sm_threads (?cd t) = g_per_sm_threads t" for t
    by (simp add: kernel_count_down_def kernel_finish_def Let_def cp_kernel_state_buf_free_def upd_kstate_def)
  have cdf: "sms s' = sms ?t" "g_num_sm s' = g_num_sm s" "wgi_buf_len s' = wgi_buf_len s" "wgi_buf s' = wgi_buf ?t"
    "g_lmem_allocators s' = g_lmem_allocators ?t" "g_per_sm_threads s' = g_per_sm_threads s"
    by (simp_all add: s' kernel_count_down_frame free_wg_frame clear_deq_frame thr free_wg_sms)
      (simp add: clear_deq_def upd_sm_def)
  have view: "sm_view (sms s' ! j) = sm_view (sms (clear_deq i s) ! j)" for j by (simp add: cdf free_wg_sms)
  have cl: "sms (clear_deq i s) ! j = (if j = i then (sms s ! i)\<lparr>DEQ_VALID := 0\<rparr> else sms s ! j)" for j
    using iv(3) by (simp add: clear_deq_def nth_list_update)
  have fields: "ENQ_VALID (sms s' ! j) = ENQ_VALID (sms s ! j)" "THREADS_PER_CORE (sms s' ! j) = THREADS_PER_CORE (sms s ! j)"
    "STACK_REMAP_ENTRY_COUNT (sms s' ! j) = STACK_REMAP_ENTRY_COUNT (sms s ! j)" for j
    using view [of j] by (auto simp: sm_view_def cl split: if_splits)
  have ptrs: "j \<noteq> i \<Longrightarrow> sm_ptrs (sms s' ! j) = sm_ptrs (sms s ! j)"
    "sm_ptrs (sms s' ! i) + {#wgi_buf_ptr am w#} = sm_ptrs (sms s ! i)" for j
    using view [of j] view [of i] iv(2) ptr by (auto simp: sm_view_def cl sm_ptrs_def)
  note rs = retire_slots [OF k w(1) act s']
  have wu: "w \<in> launched_slots pc s" using w by (auto simp: launched_slots_def kid_slots_def)
  have "launched_slots pc s' = launched_slots pc s - {w}" by (auto simp: launched_slots_def rs(1))
  then have ms: "mset_set (launched_slots pc s) = add_mset w (mset_set (launched_slots pc s'))"
    using wu by (simp add: mset_set.remove)
  have "hw_ptrs s' res + {#wgi_buf_ptr am w#} = hw_ptrs s res + {#}"
    by (rule hw_ptrs_change [OF iv(1) cdf(2)]) (simp_all add: ptrs flip: ptrs(2))
  with own ms have ho: "hw_owned am pc s' res" by (simp add: hw_owned_def)
  have rr': "remap_ready am s'"
    using fields by (intro remap_ready_cong [OF rr]) (simp_all add: cdf free_wg_sms clear_deq_def)
  have "lmem_owned am pc (clear_deq i s)"
    by (rule lmem_owned_cong [OF lo]) (use lo in \<open>cases pc; simp add: clear_deq_frame clear_deq_def lmem_owned_def used_slots_def\<close>)+
  from lmem_free_wg [OF this, of w] w have "lmem_owned am pc ?t"
    by (cases pc) (auto simp: clear_deq_frame kid_slots_def used_slots_def)
  moreover have "pc_lmem_size pc s'" if "pc_lmem_size pc ?t"
    using that by (cases pc) (simp_all add: cdf used_slots_def free_wg_frame clear_deq_frame)
  ultimately have lo': "lmem_owned am pc s'"
    using lmem_owned_cong [of am pc ?t s' pc] by (simp add: cdf free_wg_frame clear_deq_frame lmem_owned_def)
  have pl': "place_ok am pc s'"
    using pl w(2) fields by (cases pc) (simp_all add: cdf free_wg_frame clear_deq_frame)
  show ?thesis
    using inv retire_kernel_inv [OF k w act s'] ho rr' lo' pl' cdf by (simp add: launch_inv_def free_wg_frame clear_deq_frame)
qed

end
