(* ===== verification/Fw_Boot.thy ===== *)
theory Fw_Boot
  imports Fw_Dispatch Fw_Kernel_Own
begin

text \<open>
  Start-up establishes the launch invariant: after \<open>main\<close> the pools are empty, every SM's
  local-memory allocator is fresh, and every slot's stack is aligned for the remap table of every SM,
  so that no later launch can find an invalid remap configuration.
\<close>

section \<open>Stack alignment of the slots\<close>

definition remap_mask_ok :: "addr_map \<Rightarrow> bool" where
  "remap_mask_ok am \<longleftrightarrow> FSA_STACK_REMAP_ADDRESS_MASK am = mask 48 \<and>
     unat (FSA_GLOBAL_MEM_BASE am + FSA_GLOBAL_MEM_SIZE am) \<le> 2 ^ 48"

lemma slot_stack_aligned:
  assumes al: "stack_base_is_aligned am (FSA_STACK_BASE am) t" and t: "t \<noteq> 0"
    and fit: "t \<le> (base - FSA_STACK_BASE am) div FSA_PER_THREAD_STACK_SIZE am div len"
    and b: "FSA_STACK_BASE am < base" "base < FSA_GLOBAL_MEM_BASE am + FSA_GLOBAL_MEM_SIZE am"
    and w: "w < unat len" and ok: "remap_mask_ok am"
  shows "stack_base_is_aligned am (wg_slot_stack_base am t w) t"
proof -
  let ?Z = "FSA_PER_THREAD_STACK_SIZE am"
  have a: "\<not> UINT64_MAX div ?Z < t" "t * ?Z \<noteq> 0" "(t * ?Z) AND (t * ?Z - 1) = 0"
    "FSA_STACK_BASE am AND (t * ?Z - 1) = 0"
    using al by (auto simp: stack_base_is_aligned_def Let_def)
  from and_pred_zero_word [OF a(3,2)] obtain k where k: "k < 64" "unat (t * ?Z) = 2 ^ k" "t * ?Z - 1 = mask k" by auto
  have "unat t \<le> unat UINT64_MAX div unat ?Z" using a(1) by (simp add: not_less word_le_iff_unat unat_div)
  then have "unat t * unat ?Z \<le> unat UINT64_MAX" by (meson div_times_less_eq_dividend le_trans mult_le_mono1)
  also have "\<dots> < 2 ^ 64" by (rule unat_lt64)
  finally have R: "unat t * unat ?Z = 2 ^ k" using k(2) by (simp add: unat_word_ariths)
  have dvd: "x AND mask k = 0 \<longleftrightarrow> 2 ^ k dvd unat x" for x :: u64
  proof -
    have "x AND mask k = take_bit k x" by (simp add: take_bit_eq_mask)
    moreover have "unat (take_bit k x) = unat x mod 2 ^ k" 
      by (simp only: unsigned_take_bit_eq) (simp add: take_bit_eq_mod)
    ultimately show ?thesis by (simp add: word_eq_iff_unat dvd_eq_mod_eq_0)
  qed
  note fits = slot_stack_fits [OF fit b(1) w]
  have "2 ^ k dvd unat (wg_slot_stack_base am t w)"
    using a(4) k(3) dvd [of "FSA_STACK_BASE am"] by (simp add: fits(2) R)
  then have low: "wg_slot_stack_base am t w AND (t * ?Z - 1) = 0" by (simp add: k(3) dvd)
  have "unat (wg_slot_stack_base am t w) \<le> unat base" using fits by simp
  also have "\<dots> < 2 ^ 48" using b(2) ok by (simp add: word_less_iff_unat remap_mask_ok_def)
  finally have "unat (wg_slot_stack_base am t w AND NOT (mask 48)) = 0" by (simp add: unat_and_not_mask)
  then have "wg_slot_stack_base am t w AND NOT (mask 48) = 0" by (simp add: word_eq_iff_unat)
  with low a ok show ?thesis by (simp add: stack_base_is_aligned_def Let_def remap_mask_ok_def)
qed

section \<open>The state after start-up\<close>

text \<open>Memory as the start-up code hands it to \<open>main\<close>: cleared globals and idle hardware.\<close>

definition bss_clear :: "addr_map \<Rightarrow> fw \<Rightarrow> bool" where
  "bss_clear am s \<longleftrightarrow> sm_arrays_ok s \<and> length (wgi_buf s) = wgi_buf_capacity am \<and>
     length (g_lmem_allocators s) = FORMOSA_MAX_NUM_SM \<and> unat (NUM_SM (system_info s)) \<le> length (sms s) \<and>
     (\<forall>k \<in> set (kernel_state_buf s). ks_in_use k = 0) \<and> cs_pending (cache_state s) = 0 \<and>
     mcs_active (memory_copy_state s) = 0 \<and> reboot_requested s = 0 \<and>
     (\<forall>sm \<in> set (sms s). ENQ_VALID sm = 0 \<and> DEQ_VALID sm = 0)"

definition boot_map_ok :: "addr_map \<Rightarrow> bool" where
  "boot_map_ok am \<longleftrightarrow> wgi_window_ok am \<and> lmem_window_ok am \<and> remap_mask_ok am"

lemma booting_frame:
  "sms (cp_firmware_status_booting s) = sms s" "wgi_buf (cp_firmware_status_booting s) = wgi_buf s"
  "g_lmem_allocators (cp_firmware_status_booting s) = g_lmem_allocators s"
  "kernel_state_buf (cp_firmware_status_booting s) = kernel_state_buf s"
  "system_info (cp_firmware_status_booting s) = system_info s"
  "cache_state (cp_firmware_status_booting s) = cache_state s"
  "memory_copy_state (cp_firmware_status_booting s) = memory_copy_state s"
  "reboot_requested (cp_firmware_status_booting s) = reboot_requested s"
  "cmd_ring (cp_firmware_status_booting s) = cmd_ring s"
  "sm_arrays_ok (cp_firmware_status_booting s) = sm_arrays_ok s"
  by (simp_all add: cp_firmware_status_booting_def Let_def upd_cp_def sm_arrays_ok_def)

lemma hwinfo_loop_frame:
  "hwinfo_sm_loop am is s = Some s' \<Longrightarrow> \<exists>a b. s' = s\<lparr>g_per_sm_threads := a, g_per_sm_wg_resident_limits := b\<rparr>"
proof (induction "is" arbitrary: s)
  case Nil
  have "s = s\<lparr>g_per_sm_threads := g_per_sm_threads s, g_per_sm_wg_resident_limits := g_per_sm_wg_resident_limits s\<rparr>" by simp
  with Nil show ?case by (metis hwinfo_sm_loop.simps(1) option.inject)
next
  case (Cons i "is")
  let ?s = "s\<lparr>g_per_sm_threads := (g_per_sm_threads s)[i := THREADS_PER_CORE (sms s ! i)],
      g_per_sm_wg_resident_limits := (g_per_sm_wg_resident_limits s)[i := WG_RESIDENT_LIMIT (sms s ! i)]\<rparr>"
  have "hwinfo_sm_loop am is ?s = Some s'" using Cons.prems by (auto simp: Let_def split: if_splits)
  from Cons.IH [OF this] show ?case by auto
qed

lemma hwinfo_init_frame:
  assumes "cp_hwinfo_init am s = Some s'"
  shows "\<exists>a b. s' = s\<lparr>g_num_sm := NUM_SM (system_info s), g_global_alloc_base := GLOBAL_ALLOC_BASE (system_info s),
    g_per_sm_threads := a, g_per_sm_wg_resident_limits := b\<rparr>"
proof -
  let ?s = "s\<lparr>g_num_sm := NUM_SM (system_info s), g_global_alloc_base := GLOBAL_ALLOC_BASE (system_info s)\<rparr>"
  have "hwinfo_sm_loop am [0..<unat (NUM_SM (system_info s))] ?s = Some s'"
    using assms by (auto simp: cp_hwinfo_init_def Let_def split: if_splits)
  from hwinfo_loop_frame [OF this] show ?thesis by auto
qed

text \<open>What \<open>main\<close> went through when it succeeds.\<close>

lemma fw_main_Some:
  assumes "fw_main am s = Some s'"
  obtains s1 s2 allocs where "cp_hwinfo_init am (cp_firmware_status_booting s) = Some s1"
    "cp_wgi_buf_init am s1 = Some (0, s2)"
    "cp_lmem_allocator_init am (take (unat (g_num_sm s2)) (g_per_sm_wg_resident_limits s2)) (g_lmem_allocators s2) = (0, allocs)"
    "s' = reset_stack_remaps am (s2\<lparr>g_lmem_allocators := allocs\<rparr>)"
  using assms by (auto simp: fw_main_def split: option.splits prod.splits if_splits)

lemma stack_remap_reset_view: "sm_view (cp_stack_remap_reset am sm) = sm_view sm"
  by (simp add: cp_stack_remap_reset_def sm_view_def Let_def)

lemma reset_stack_remaps_view: "map sm_view (sms (reset_stack_remaps am s)) = map sm_view (sms s)"
  by (rule nth_equalityI) (auto simp: reset_stack_remaps_def nth_append stack_remap_reset_view)

lemma boot_launch_inv:
  assumes m: "fw_main am s = Some s'" and bss: "bss_clear am s" and am: "boot_map_ok am"
  shows "launch_inv am p KDone s' (\<lambda>_. {#})" and "\<forall>k \<in> set (kernel_state_buf s'). ks_in_use k = 0"
    and "cs_pending (cache_state s') = 0" and "mcs_active (memory_copy_state s') = 0"
    and "reboot_requested s' = 0" and "completion_pool s' = completion_pool s" and "cmd_ring s' = cmd_ring s"
    and "cp s' = cp (cp_firmware_status_booting s)"
    and "boot_generation s' = boot_generation (cp_firmware_status_booting s)"
proof -
  from fw_main_Some [OF m] obtain s1 s2 allocs where
    h: "cp_hwinfo_init am (cp_firmware_status_booting s) = Some s1" and wi: "cp_wgi_buf_init am s1 = Some (0, s2)"
    and li: "cp_lmem_allocator_init am (take (unat (g_num_sm s2)) (g_per_sm_wg_resident_limits s2)) (g_lmem_allocators s2) = (0, allocs)"
    and s': "s' = reset_stack_remaps am (s2\<lparr>g_lmem_allocators := allocs\<rparr>)" by blast
  have arr: "sm_arrays_ok (cp_firmware_status_booting s)" using bss by (simp add: bss_clear_def booting_frame)
  note ho = cp_hwinfo_init_ok [OF h arr]
  have cap: "wgi_buf_capacity am < 2 ^ 64"
    unfolding wgi_buf_capacity_def by (rule le_less_trans [OF div_le_dividend unat_lt64])
  note w = wgi_init_Some [OF wi cap]
  obtain len where s2: "s2 = s1\<lparr>wgi_buf_len := len, wgi_buf := map wgi_slot_reset (take (unat len) (wgi_buf s1)) @
      drop (unat len) (wgi_buf s1)\<rparr>" using w(5) by blast
  obtain a b where s1: "s1 = (cp_firmware_status_booting s)\<lparr>g_num_sm := NUM_SM (system_info s),
      g_global_alloc_base := GLOBAL_ALLOC_BASE (system_info s), g_per_sm_threads := a, g_per_sm_wg_resident_limits := b\<rparr>"
    using hwinfo_init_frame [OF h] by (auto simp: booting_frame)
  have n: "unat (g_num_sm s1) \<le> length (sms s)" "unat (g_num_sm s1) \<le> FORMOSA_MAX_NUM_SM"
    using bss ho(1) by (simp_all add: s1 bss_clear_def hwinfo_ok_def)
  have wl: "length (wgi_buf s2) = wgi_buf_capacity am" "unat len \<le> wgi_buf_capacity am"
    using bss w(2) by (simp_all add: s2 s1 booting_frame bss_clear_def)
  have free: "wb_in_use (wgi_buf s2 ! j) = 0" if "j < unat len" for j
    using that wl bss by (simp add: s2 s1 booting_frame bss_clear_def nth_append wgi_slot_reset_def)
  have fr: "kernel_state_buf s' = kernel_state_buf s" "wgi_buf s' = wgi_buf s2" "wgi_buf_len s' = len"
    "g_num_sm s' = g_num_sm s1" "g_lmem_allocators s' = allocs" "g_per_sm_threads s' = g_per_sm_threads s1"
    "map sm_view (sms s') = map sm_view (sms s)"
    unfolding s' by (simp_all add: reset_stack_remaps_view) (simp_all add: reset_stack_remaps_def s2 s1 booting_frame)
  have used: "used_slots s' = {}" using free by (auto simp: used_slots_def fr)
  have act: "\<not> kernel_active s' k" for k using bss by (auto simp: kernel_active_def fr bss_clear_def)
  have ki: "kernel_inv p KDone s'"
    using wl used act by (simp add: kernel_inv_def slots_ok_def counts_ok_def fr)
  let ?lim = "take (unat (g_num_sm s2)) (g_per_sm_wg_resident_limits s2)"
  have limn: "length ?lim = unat (g_num_sm s1)"
    using ho(2) n(2) by (simp add: s2 sm_arrays_ok_def)
  have lims: "list_all limit_ok ?lim"
    using li lmem_init_from_bad [of ?lim am 0 "g_lmem_allocators s2"] by (force simp: cp_lmem_allocator_init_def)
  have al: "length allocs = FORMOSA_MAX_NUM_SM"
    "\<forall>j < unat (g_num_sm s1). allocs ! j = lmem_init_one am (unat (?lim ! j))"
    using lmem_init_from_ok [OF lims, of 0 "g_lmem_allocators s2" am] li limn n bss
    by (auto simp: cp_lmem_allocator_init_def s2 s1 booting_frame bss_clear_def)
  have "lmem_inv am (allocs ! j) \<and> lmem_live (allocs ! j) = {}" if j: "j < unat (g_num_sm s1)" for j
  proof -
    have "limit_ok (?lim ! j)" using lims limn j by (simp only: list_all_length)
    then have "unat (?lim ! j) \<le> FORMOSA_MAX_WG_RESIDENT_LIMIT" by (rule limit_ok_unat)
    with lmem_inv_init_one am al(2) j lmem_init_one_live show ?thesis by (metis boot_map_ok_def)
  qed
  then have lo: "lmem_owned am KDone s'"
    using n(2) al(1) wl by (simp add: lmem_owned_def fr used lmem_slots_def)
  have sm': "THREADS_PER_CORE (sms s' ! i) = THREADS_PER_CORE (sms s ! i)"
    "STACK_REMAP_ENTRY_COUNT (sms s' ! i) = STACK_REMAP_ENTRY_COUNT (sms s ! i)"
    "sm_ptrs (sms s' ! i) = sm_ptrs (sms s ! i)" if "i < unat (g_num_sm s1)" for i
    using sm_view_nth [OF fr(7)] that n(1) by simp_all
  have hw: "g_per_sm_threads s1 ! i = THREADS_PER_CORE (sms s ! i)" "THREADS_PER_CORE (sms s ! i) \<noteq> 0"
    "cp_stack_remap_validate_config am (sms s ! i)" if "i < unat (g_num_sm s1)" for i
    using ho(1) that by (simp_all add: hwinfo_ok_def ho(3) booting_frame)
  have gb: "FSA_STACK_BASE am < g_global_alloc_base s1"
    "g_global_alloc_base s1 < FSA_GLOBAL_MEM_BASE am + FSA_GLOBAL_MEM_SIZE am" using ho(1) by (simp_all add: hwinfo_ok_def)
  have rr: "remap_ready am s'"
    unfolding remap_ready_def fr
  proof (intro conjI allI impI)
    show "unat (g_num_sm s1) \<le> length (sms s')" using n(1) map_eq_imp_length_eq [OF fr(7)] by simp
    fix i assume i: "i < unat (g_num_sm s1)"
    show "g_per_sm_threads s1 ! i = THREADS_PER_CORE (sms s' ! i)" using hw sm' i by simp
    show "stack_remap_entry_count_valid am (STACK_REMAP_ENTRY_COUNT (sms s' ! i))"
      using hw(3) [OF i] sm' i by (simp add: cp_stack_remap_validate_config_def Let_def)
    fix k assume k: "k < unat len"
    have "stack_base_is_aligned am (FSA_STACK_BASE am) (THREADS_PER_CORE (sms s ! i))"
      using hw(3) [OF i] by (simp add: cp_stack_remap_validate_config_def Let_def)
    moreover have "THREADS_PER_CORE (sms s ! i) \<le>
        (g_global_alloc_base s1 - FSA_STACK_BASE am) div FSA_PER_THREAD_STACK_SIZE am div len"
      unfolding hw(1) [OF i, symmetric] using w(4) i by (simp add: s2)
    ultimately show "stack_base_is_aligned am (wg_slot_stack_base am (THREADS_PER_CORE (sms s' ! i)) k) (THREADS_PER_CORE (sms s' ! i))"
      using slot_stack_aligned [OF _ hw(2) [OF i] _ gb k] am sm' i by (simp add: boot_map_ok_def)
  qed
  have "sm_ptrs (sms s' ! i) = {#}" if "i < unat (g_num_sm s1)" for i
    using sm'(3) [OF that] bss that n(1) by (auto simp: bss_clear_def sm_ptrs_def)
  then have own: "hw_owned am KDone s' (\<lambda>_. {#})" by (simp add: hw_owned_def hw_ptrs_def fr launched_slots_def used)
  show "launch_inv am p KDone s' (\<lambda>_. {#})"
    using am wl ki lo rr own by (simp add: launch_inv_def boot_map_ok_def fr)
  show "\<forall>k \<in> set (kernel_state_buf s'). ks_in_use k = 0" using bss by (simp add: fr bss_clear_def)
  show "cs_pending (cache_state s') = 0" "mcs_active (memory_copy_state s') = 0" "reboot_requested s' = 0"
    "completion_pool s' = completion_pool s" "cmd_ring s' = cmd_ring s" "cp s' = cp (cp_firmware_status_booting s)"
    "boot_generation s' = boot_generation (cp_firmware_status_booting s)"
    using bss by (simp_all add: s' reset_stack_remaps_def s2 s1 booting_frame bss_clear_def)
qed

end
