(* ===== verification/Fw_System.thy ===== *)
theory Fw_System
  imports Fw_Boot
begin

text \<open>
  The firmware as a whole: the four tasks, the interrupt, the SMs, the DMA engines and the host
  interleave in any order. A step of the relation \<open>cp_step\<close> is one step of the dispatch task, one turn
  of one of the other tasks, or one action of the environment. The environment is what the
  firmware relies on: an SM takes a pointer from its enqueue register and returns each pointer it
  holds at most once, cache controllers and DMA engines finish, the host adds packets to the ring
  behind the write pointer, any packet at all. After the jump to the boot ROM, or a panic, no task
  runs any more.

  Reachability takes a predicate on packets: \<open>cp_reachable am P\<close> are the states of runs in which every
  packet of the ring satisfies \<open>P\<close>. The invariant is proved for \<open>packet_fits\<close>, launches of fewer than
  \<open>2\<^sup>3\<^sup>2\<close> work-groups. Neither the host nor the firmware checks that bound: each dimension is a 16-bit
  number, and the counter \<^verbatim>\<open>wg_left\<close> that receives the product of the three has 32 bits, so that a
  larger launch is counted modulo \<open>2\<^sup>3\<^sup>2\<close>.
\<close>

section \<open>The step relation\<close>

record cp_sys =
  d_pc :: dispatch_pc
  fws :: fw
  residents :: "nat \<Rightarrow> u64 multiset"

definition sm_accept :: "nat \<Rightarrow> cp_sys \<Rightarrow> cp_sys" where
  "sm_accept i c = c\<lparr>fws := upd_sm i (\<lambda>sm. sm\<lparr>ENQ_VALID := 0\<rparr>) (fws c),
     residents := (residents c)(i := add_mset (ENQ_INFO_PTR (sms (fws c) ! i)) (residents c i))\<rparr>"

definition sm_finish :: "nat \<Rightarrow> u64 \<Rightarrow> u64 \<Rightarrow> FsaKernelStatus \<Rightarrow> cp_sys \<Rightarrow> cp_sys" where
  "sm_finish i q st ks c = c\<lparr>fws := upd_sm i (\<lambda>sm. sm\<lparr>DEQ_VALID := 1, DEQ_INFO_PTR := q, DEQ_STATUS := st,
       DEQ_MCAUSE := ks_mcause ks, DEQ_MEPC := ks_mepc ks, DEQ_MTVAL := ks_mtval ks\<rparr>) (fws c),
     residents := (residents c)(i := residents c i - {#q#})\<rparr>"

definition packet_fits :: "packet \<Rightarrow> bool" where
  "packet_fits cmd \<longleftrightarrow> wg_total (kernel_dispatch_packet cmd) < 2 ^ 32"

definition host_push :: "packet \<Rightarrow> fw \<Rightarrow> fw" where
  "host_push cmd s = upd_cp (\<lambda>c. c\<lparr>CP_WR_PTR := (CP_WR_PTR c + 1) mod CP_CMD_RING_SIZE c\<rparr>)
     (s\<lparr>cmd_ring := (cmd_ring s)[unat (CP_WR_PTR (cp s)) := cmd]\<rparr>)"

definition running :: "dispatch_pc \<Rightarrow> bool" where
  "running pc \<longleftrightarrow> pc \<noteq> DRebooted \<and> pc \<noteq> DPanic"

inductive cp_step :: "addr_map \<Rightarrow> cp_sys \<Rightarrow> cp_sys \<Rightarrow> bool" for am :: addr_map where
  dispatch: "cp_dispatch am (d_pc c) (fws c) = (pc', s') \<Longrightarrow> cp_step am c (c\<lparr>d_pc := pc', fws := s'\<rparr>)"
| retire_sm: "running (d_pc c) \<Longrightarrow> cp_retire_sm am (fws c) = Retired s' \<Longrightarrow> cp_step am c (c\<lparr>fws := s'\<rparr>)"
| retire_cache: "running (d_pc c) \<Longrightarrow> cp_retire_cache (fws c) = Some s' \<Longrightarrow> cp_step am c (c\<lparr>fws := s'\<rparr>)"
| memory_copy: "running (d_pc c) \<Longrightarrow> cp_step am c (c\<lparr>fws := cp_memory_copy_task (fws c)\<rparr>)"
| interrupt: "running (d_pc c) \<Longrightarrow> cp_step am c (c\<lparr>fws := snd (freertos_risc_v_application_interrupt_handler mcause (fws c))\<rparr>)"
| accept: "i < unat (g_num_sm (fws c)) \<Longrightarrow> ENQ_VALID (sms (fws c) ! i) \<noteq> 0 \<Longrightarrow> cp_step am c (sm_accept i c)"
| finish: "i < unat (g_num_sm (fws c)) \<Longrightarrow> DEQ_VALID (sms (fws c) ! i) = 0 \<Longrightarrow> q \<in># residents c i \<Longrightarrow>
     cp_step am c (sm_finish i q st ks c)"
| icache_done: "cp_step am c (c\<lparr>fws := upd_sm i (\<lambda>sm. sm\<lparr>ICACHE_CONTROL_START := 0\<rparr>) (fws c)\<rparr>)"
| dcache_done: "cp_step am c (c\<lparr>fws := upd_sm i (\<lambda>sm. sm\<lparr>DCACHE_CONTROL_START := 0\<rparr>) (fws c)\<rparr>)"
| host_dma_status: "cp_step am c (c\<lparr>fws := (fws c)\<lparr>host_dma := (host_dma (fws c))\<lparr>dma_STATUS := st\<rparr>\<rparr>\<rparr>)"
| device_dma_status: "cp_step am c (c\<lparr>fws := (fws c)\<lparr>device_dma := (device_dma (fws c))\<lparr>dma_STATUS := st\<rparr>\<rparr>\<rparr>)"
| tick: "cp_step am c (c\<lparr>fws := (fws c)\<lparr>tick_count := tick_count (fws c) + 1\<rparr>\<rparr>)"
| host_command: "(CP_WR_PTR (cp (fws c)) + 1) mod CP_CMD_RING_SIZE (cp (fws c)) \<noteq> CP_RD_PTR (cp (fws c)) \<Longrightarrow>
     cp_step am c (c\<lparr>fws := host_push cmd (fws c)\<rparr>)"
| host_pool: "length pool = length (completion_pool (fws c)) \<Longrightarrow>
     cp_step am c (c\<lparr>fws := (fws c)\<lparr>completion_pool := pool\<rparr>\<rparr>)"
| memory: "cp_step am c (c\<lparr>fws := (fws c)\<lparr>mem := m\<rparr>\<rparr>)"

text \<open>A run from the state that \<open>main\<close> leaves, in which the ring holds packets that satisfy \<open>P\<close>.\<close>

definition ring_ok :: "fw \<Rightarrow> bool" where
  "ring_ok s \<longleftrightarrow> length (cmd_ring s) = unat (CP_CMD_RING_SIZE (cp s)) \<and>
     CP_RD_PTR (cp s) < CP_CMD_RING_SIZE (cp s) \<and> CP_WR_PTR (cp s) < CP_CMD_RING_SIZE (cp s)"

inductive cp_reachable :: "addr_map \<Rightarrow> (packet \<Rightarrow> bool) \<Rightarrow> cp_sys \<Rightarrow> bool" for am :: addr_map and P :: "packet \<Rightarrow> bool" where
  boot: "fw_main am s0 = Some s \<Longrightarrow> bss_clear am s0 \<Longrightarrow> boot_map_ok am \<Longrightarrow> ring_ok s0 \<Longrightarrow> pool_ok s0 \<Longrightarrow>
     list_all P (cmd_ring s0) \<Longrightarrow> cp_reachable am P \<lparr>d_pc = DReady, fws = s, residents = (\<lambda>_. {#})\<rparr>"
| step: "cp_reachable am P c \<Longrightarrow> cp_step am c c' \<Longrightarrow> list_all P (cmd_ring (fws c')) \<Longrightarrow> cp_reachable am P c'"

section \<open>Views\<close>

definition ring_view where
  "ring_view s = (cmd_ring s, CP_CMD_RING_SIZE (cp s), CP_RD_PTR (cp s), CP_WR_PTR (cp s))"

definition quiet_view where
  "quiet_view s = (kernel_view s, ring_view s, length (completion_pool s))"

lemma quiet_updates [simp]:
  "quiet_view (upd_copy f s) = quiet_view s" "quiet_view (upd_cache g s) = quiet_view s"
  "quiet_view (cp_publish_completion t r s) = quiet_view s" "quiet_view (s\<lparr>mem := m\<rparr>) = quiet_view s"
  "quiet_view (enter_phase ph s) = quiet_view s" "quiet_view (start_host_dma s) = quiet_view s"
  "quiet_view (start_device_dma s) = quiet_view s" "quiet_view (cp_firmware_status_fault c s) = quiet_view s"
  "quiet_view (cp_firmware_status_ready s) = quiet_view s" "quiet_view (s\<lparr>host_dma := d\<rparr>) = quiet_view s"
  "quiet_view (s\<lparr>device_dma := d\<rparr>) = quiet_view s" "quiet_view (s\<lparr>tick_count := n\<rparr>) = quiet_view s"
  by (simp_all add: quiet_view_def kernel_view_def ring_view_def upd_copy_def upd_cache_def cp_publish_completion_def
      enter_phase_def start_host_dma_def start_device_dma_def cp_firmware_status_fault_def
      cp_firmware_status_ready_def upd_cp_def Let_def)

lemma quiet_cache [simp]:
  "quiet_view (cache_claim_now tg tk s) = quiet_view s" "quiet_view (cache_release s) = quiet_view s"
  "quiet_view (cache_mark_started s) = quiet_view s" "quiet_view (start_on_every_sm a z m tg s) = quiet_view s"
  by (simp_all add: cache_claim_now_def cache_release_def cache_mark_started_def)
    (simp add: quiet_view_def cache_steps_view, simp add: ring_view_def start_on_every_sm_def)

lemma quiet_copy [simp]:
  "quiet_view (complete_memory_copy r s) = quiet_view s" "quiet_view (fail_memory_copy r s) = quiet_view s"
  by (simp_all add: complete_memory_copy_def fail_memory_copy_def Let_def)

lemma quiet_start_cache: "start_cache_operation a n md s = Some s' \<Longrightarrow> quiet_view s' = quiet_view s"
  by (auto simp: start_cache_operation_def cp_cache_operation_start_def claim_cache_state_def
      split: if_splits option.splits)

lemma quiet_turns [simp]:
  "quiet_view (copy_wait_predecessor s) = quiet_view s" "quiet_view (copy_flush_source s) = quiet_view s"
  "quiet_view (copy_flush_destination s) = quiet_view s" "quiet_view (copy_wait_dma s) = quiet_view s"
  "quiet_view (copy_invalidate_destination s) = quiet_view s" "quiet_view (copy_drain_dma s) = quiet_view s"
  by (simp_all add: copy_turn_defs Let_def quiet_start_cache split: option.splits)

lemma quiet_copy_task [simp]: "quiet_view (cp_memory_copy_task s) = quiet_view s"
  unfolding cp_memory_copy_task_def by (simp split: cp_memory_copy_phase.splits)

lemma quiet_submit [simp]: "quiet_view (cp_memory_copy_submit am p s) = quiet_view s"
  unfolding cp_memory_copy_submit_def Let_def by simp

section \<open>The system invariant\<close>

fun launch_part :: "addr_map \<Rightarrow> dispatch_pc \<Rightarrow> fw \<Rightarrow> (nat \<Rightarrow> u64 multiset) \<Rightarrow> bool" where
  "launch_part am (DKernel p k) s res = (launch_inv am p k s res \<and> valid_kernel_dispatch_packet p \<and>
     wg_total p < 2 ^ 32 \<and> k \<noteq> KPanic \<and> k \<noteq> KDone)"
| "launch_part am _ s res = (\<forall>p. launch_inv am p KDone s res)"

fun pc_kid :: "kernel_pc \<Rightarrow> nat option" where
  "pc_kid (KWgi k w x y z) = Some k"
| "pc_kid (KSm k w x y z b) = Some k"
| "pc_kid (KRemap k w x y z b i) = Some k"
| "pc_kid (KEnq k w x y z b i) = Some k"
| "pc_kid _ = None"

text \<open>While the dispatch task handles a packet no copy is active; a launch runs alone.\<close>

fun dispatch_excl :: "dispatch_pc \<Rightarrow> fw \<Rightarrow> bool" where
  "dispatch_excl DFetch s = (CP_RD_PTR (cp s) \<noteq> CP_WR_PTR (cp s) \<and> \<not> cp_memory_copy_is_active s \<and>
     \<not> host_launch_packet_is_blocked (ring_head s) s)"
| "dispatch_excl (DHandle cmd) s = (\<not> cp_memory_copy_is_active s \<and> \<not> host_launch_packet_is_blocked cmd s \<and>
     packet_fits cmd)"
| "dispatch_excl (DKernel p k) s = (\<not> cp_memory_copy_is_active s \<and>
     (\<forall>kid. kernel_active s kid \<longrightarrow> pc_kid k = Some kid))"
| "dispatch_excl (DCacheClaim a z m tg tk) s = (\<not> cp_memory_copy_is_active s)"
| "dispatch_excl (DCacheStart a z m tg) s = (\<not> cp_memory_copy_is_active s)"
| "dispatch_excl DCacheMark s = (\<not> cp_memory_copy_is_active s)"
| "dispatch_excl DRebooted s = (\<not> cp_has_active_kernel_or_cache s \<and> \<not> cp_memory_copy_is_active s)"
| "dispatch_excl DPanic s = False"
| "dispatch_excl _ s = True"

definition one_kernel :: "fw \<Rightarrow> bool" where
  "one_kernel s \<longleftrightarrow> (\<forall>k k'. kernel_active s k \<longrightarrow> kernel_active s k' \<longrightarrow> k = k')"

definition sys_inv :: "addr_map \<Rightarrow> cp_sys \<Rightarrow> bool" where
  "sys_inv am c \<longleftrightarrow> launch_part am (d_pc c) (fws c) (residents c) \<and> dispatch_excl (d_pc c) (fws c) \<and>
     one_kernel (fws c) \<and> ring_ok (fws c) \<and> list_all packet_fits (cmd_ring (fws c)) \<and> pool_ok (fws c)"

lemma launch_done_any: "launch_inv am p KDone s res \<longleftrightarrow> launch_inv am p' KDone s res"
  by (simp add: launch_inv_def kernel_inv_def counts_ok_def)

lemma launch_part_any:
  "\<forall>p k. pc \<noteq> DKernel p k \<Longrightarrow> launch_part am pc s res \<longleftrightarrow> (\<forall>p. launch_inv am p KDone s res)"
  by (cases pc) auto

lemma has_active_iff: "cp_has_active_kernel_or_cache s \<longleftrightarrow> cs_pending (cache_state s) \<noteq> 0 \<or> (\<exists>k. kernel_active s k)"
  unfolding cp_has_active_kernel_or_cache_def cp_cache_operation_pending_def kernel_active_def
  by (metis in_set_conv_nth)

lemma view_active:
  assumes "kernel_view s' = kernel_view s"
  shows "kernel_active s' = kernel_active s"
  using assms by (simp add: kernel_view_def kernel_active_def fun_eq_iff)

lemma launch_part_view:
  assumes "launch_part am pc s res" and "kernel_view s' = kernel_view s"
  shows "launch_part am pc s' res"
  using assms launch_inv_view [OF _ assms(2)] by (cases pc) auto

text \<open>
  The rest of the invariant after a step of another task: what it may have changed besides the
  views is that a copy or a cache operation ended.
\<close>

lemma sys_inv_quiet:
  assumes inv: "sys_inv am c" and q: "quiet_view s' = quiet_view (fws c)"
    and cp: "cp_memory_copy_is_active s' \<longrightarrow> cp_memory_copy_is_active (fws c)"
    and ca: "cs_pending (cache_state s') \<noteq> 0 \<longrightarrow> cs_pending (cache_state (fws c)) \<noteq> 0 \<or> cp_memory_copy_is_active (fws c)"
  shows "sys_inv am (c\<lparr>fws := s'\<rparr>)"
proof -
  let ?s = "fws c"
  have kv: "kernel_view s' = kernel_view ?s" and rv: "ring_view s' = ring_view ?s"
    and pl: "length (completion_pool s') = length (completion_pool ?s)"
    using q by (simp_all add: quiet_view_def)
  have act: "kernel_active s' = kernel_active ?s" by (rule view_active [OF kv])
  have ring: "cmd_ring s' = cmd_ring ?s" "CP_RD_PTR (cp s') = CP_RD_PTR (cp ?s)" "CP_WR_PTR (cp s') = CP_WR_PTR (cp ?s)"
    "CP_CMD_RING_SIZE (cp s') = CP_CMD_RING_SIZE (cp ?s)" using rv by (simp_all add: ring_view_def)
  have blk: "host_launch_packet_is_blocked cmd s' \<Longrightarrow> \<not> cp_memory_copy_is_active ?s \<Longrightarrow> host_launch_packet_is_blocked cmd ?s" for cmd
    using ca by (auto simp: host_launch_packet_is_blocked_def has_active_iff act)
  have "dispatch_excl (d_pc c) s'"
    using inv cp blk ca by (cases "d_pc c") (auto simp: sys_inv_def act ring ring_head_def has_active_iff)
  with inv launch_part_view [OF _ kv] act ring pl show ?thesis
    by (simp add: sys_inv_def one_kernel_def ring_ok_def pool_ok_def)
qed

section \<open>Dispatch steps\<close>

lemma sys_inv_move:
  assumes inv: "sys_inv am c" and q: "quiet_view s' = quiet_view (fws c)"
    and pc: "\<forall>p k. d_pc c \<noteq> DKernel p k" "\<forall>p k. pc' \<noteq> DKernel p k" and ex: "dispatch_excl pc' s'"
  shows "sys_inv am (c\<lparr>d_pc := pc', fws := s'\<rparr>)"
proof -
  have kv: "kernel_view s' = kernel_view (fws c)" and rv: "ring_view s' = ring_view (fws c)"
    and pl: "length (completion_pool s') = length (completion_pool (fws c))"
    using q by (simp_all add: quiet_view_def)
  have "launch_part am pc' s' (residents c)"
    using inv launch_inv_view [OF _ kv] pc by (simp add: sys_inv_def launch_part_any)
  with inv ex rv pl view_active [OF kv] show ?thesis
    by (simp add: sys_inv_def one_kernel_def ring_ok_def pool_ok_def ring_view_def)
qed

lemma launch_idle_pc:
  assumes "launch_inv am p KDone s res" and "k \<in> {KInvClaim, KAlloc}"
  shows "launch_inv am p k s res"
  using assms by (auto simp: launch_inv_def kernel_inv_def counts_ok_def lmem_owned_def hw_owned_def
      launched_slots_def lmem_slots_def)

definition calm_view where
  "calm_view s = (ring_view s, memory_copy_state s, length (completion_pool s))"

lemma calm_updates [simp]:
  "calm_view (upd_wgi b f s) = calm_view s" "calm_view (upd_sm i g s) = calm_view s"
  "calm_view (upd_kstate k h s) = calm_view s" "calm_view (upd_cache e s) = calm_view s"
  "calm_view (s\<lparr>mem := m\<rparr>) = calm_view s" "calm_view (cp_publish_completion t r s) = calm_view s"
  "calm_view (s\<lparr>g_lmem_allocators := al\<rparr>) = calm_view s" "calm_view (s\<lparr>prev_sm_id := n\<rparr>) = calm_view s"
  "calm_view (start_on_every_sm a z md tg s) = calm_view s"
  by (simp_all add: calm_view_def ring_view_def upd_wgi_def upd_sm_def upd_kstate_def upd_cache_def
      start_on_every_sm_def)

lemma kernel_step_calm:
  assumes "kernel_dispatch_step am p pc s = (pc', s')"
  shows "calm_view s' = calm_view s"
proof (cases pc)
  case (KSm kid w x y z b)
  show ?thesis
  proof (cases "sm_alloc am (ucast (wg_local_memory_size w)) s")
    case (Some q)
    obtain i base s1 where q: "q = (i, base, s1)" by (cases q)
    from sm_alloc_frame(3) [OF Some [unfolded q]] have "calm_view s1 = calm_view s" by auto
    then show ?thesis using assms KSm Some q by (auto simp: kernel_sm_step_def Let_def split: option.splits if_splits)
  qed (use assms KSm in \<open>simp add: kernel_sm_step_def\<close>)
qed (use assms in \<open>auto simp: claim_cache_state_def cache_claim_now_def cache_release_def kernel_alloc_step_def
    Let_def kernel_begin_def cp_kernel_state_buf_free_def signal_kernel_failure_def kernel_wgi_step_def
    cp_wgi_buf_alloc_def kernel_remap_step_def kernel_enq_step_def
    split: option.splits if_splits prod.splits CpStackRemapStatus.splits\<close>)

text \<open>Which kernel is active during a launch.\<close>

lemma kernel_step_active:
  assumes a: "\<forall>kid. kernel_active s kid \<longrightarrow> pc_kid pc = Some kid" and st: "kernel_dispatch_step am p pc s = (pc', s')"
    and np: "pc' \<noteq> KPanic" and kid: "kernel_active s' kid"
  shows "pc_kid pc' = Some kid \<or> (pc' = KDone \<and> pc_kid pc = Some kid)"
proof (cases pc)
  case KAlloc
  then have none: "\<not> kernel_active s k" for k using a by auto
  have "kid = nat (cp_kernel_state_buf_alloc s)" if k0: "\<not> cp_kernel_state_buf_alloc s < 0"
  proof (rule ccontr)
    assume "kid \<noteq> nat (cp_kernel_state_buf_alloc s)"
    with st KAlloc k0 kid none [of kid] show False
      by (auto simp: kernel_alloc_step_def Let_def kernel_active_def kernel_begin_def signal_failure_frame
          cp_kernel_state_buf_free_def split: if_splits prod.splits)
  qed
  moreover have "pc' = KWgi (nat (cp_kernel_state_buf_alloc s)) (kernel_wginfo am p (kernel_begin p (nat (cp_kernel_state_buf_alloc s)) s)) 0 0 0"
    if "kernel_active s' (nat (cp_kernel_state_buf_alloc s))"
    using st KAlloc that none
    by (auto simp: kernel_alloc_step_def Let_def kernel_active_def cp_kernel_state_buf_free_def split: if_splits)
  moreover have "\<not> cp_kernel_state_buf_alloc s < 0"
    using st KAlloc none kid by (auto simp: kernel_alloc_step_def Let_def)
  ultimately show ?thesis using kid by auto
next
  case (KSm k w x y z b)
  have "kernel_state_buf s' = kernel_state_buf s"
  proof (cases "sm_alloc am (ucast (wg_local_memory_size w)) s")
    case (Some q)
    obtain i base s1 where q: "q = (i, base, s1)" by (cases q)
    from sm_alloc_frame(3) [OF Some [unfolded q]] have "kernel_state_buf s1 = kernel_state_buf s" by auto
    then show ?thesis using st KSm Some q by (auto simp: kernel_sm_step_def Let_def split: option.splits if_splits)
  qed (use st KSm in \<open>simp add: kernel_sm_step_def\<close>)
  with a kid st KSm np show ?thesis
    by (auto simp: kernel_active_def kernel_sm_step_def Let_def split: option.splits if_splits)
qed (use a st np kid in \<open>auto simp: kernel_active_def claim_cache_state_def kernel_wgi_step_def Let_def
    cp_wgi_buf_alloc_def kernel_remap_step_def kernel_enq_step_def
    split: option.splits if_splits prod.splits CpStackRemapStatus.splits\<close>)

lemma kernel_result_inv:
  assumes inv: "sys_inv am c" and pc: "d_pc c = DKernel p k"
    and st: "kernel_result p (kernel_dispatch_step am p k (fws c)) = (pc', s')"
  shows "sys_inv am (c\<lparr>d_pc := pc', fws := s'\<rparr>)"
proof -
  obtain k' where ks: "kernel_dispatch_step am p k (fws c) = (k', s')"
    and pc': "pc' = (if k' = KDone then DTop else if k' = KPanic then DPanic else DKernel p k')"
    using st by (auto simp: kernel_result_def split: prod.splits)
  have i: "launch_inv am p k (fws c) (residents c)" "valid_kernel_dispatch_packet p" "wg_total p < 2 ^ 32" "k \<noteq> KPanic"
    "\<not> cp_memory_copy_is_active (fws c)" "\<forall>kid. kernel_active (fws c) kid \<longrightarrow> pc_kid k = Some kid"
    using inv pc by (simp_all add: sys_inv_def)
  note l = launch_step_inv [OF i(1-3) ks i(4)]
  have v: "ring_view s' = ring_view (fws c)" "memory_copy_state s' = memory_copy_state (fws c)"
    "length (completion_pool s') = length (completion_pool (fws c))"
    using kernel_step_calm [OF ks] by (simp_all add: calm_view_def)
  have act: "kernel_active s' kid \<Longrightarrow> pc_kid k' = Some kid \<or> (k' = KDone \<and> pc_kid k = Some kid)" for kid
    by (rule kernel_step_active [OF i(6) ks l(2)])
  have "kernel_active s' kid \<Longrightarrow> (if k' = KDone then pc_kid k else pc_kid k') = Some kid" for kid
    using act [of kid] by auto
  then have one: "one_kernel s'" unfolding one_kernel_def by (metis option.inject)
  have lp: "launch_part am pc' s' (residents c)"
    using l i(2,3) launch_done_any [of am p s' "residents c"] by (auto simp: pc')
  have "dispatch_excl pc' s'" using act i(5) v(2) l(2) by (auto simp: pc' cp_memory_copy_is_active_def)
  with inv one lp v show ?thesis by (simp add: sys_inv_def ring_ok_def pool_ok_def ring_view_def)
qed

lemma dispatch_handle_inv:
  assumes inv: "sys_inv am c" and pc: "d_pc c = DHandle cmd" and st: "dispatch_handle am cmd (fws c) = (pc', s')"
  shows "sys_inv am (c\<lparr>d_pc := pc', fws := s'\<rparr>)"
proof -
  let ?s = "fws c" and ?p = "kernel_dispatch_packet cmd"
  have ex: "\<not> cp_memory_copy_is_active ?s" "\<not> host_launch_packet_is_blocked cmd ?s" "packet_fits cmd"
    and lp: "\<forall>p. launch_inv am p KDone ?s (residents c)" using inv pc by (simp_all add: sys_inv_def)
  consider (launch) k where "pc' = DKernel ?p k" "k \<in> {KInvClaim, KAlloc}" "s' = ?s" "valid_kernel_dispatch_packet ?p"
      "kp_header ?p = packet_header_code KernelDispatchPacketHeader"
    | (other) "\<forall>p k. pc' \<noteq> DKernel p k" "quiet_view s' = quiet_view ?s" "dispatch_excl pc' s'"
    using st ex(1)
    by (fastforce simp: dispatch_handle_def Let_def kernel_result_def kernel_dispatch_entry_def cache_packet_def
        cp_cache_handle_packet_def fail_host_token_if_present_def signal_kernel_failure_def split: if_splits)
  then show ?thesis
  proof cases
    case launch
    then have "\<not> kernel_active ?s kid" for kid
      using ex(2) by (auto simp: host_launch_packet_is_blocked_def has_active_iff)
    then show ?thesis using launch inv ex lp launch_idle_pc [OF _ launch(2)]
      by (auto simp: sys_inv_def packet_fits_def)
  next
    case other
    then show ?thesis using sys_inv_move [OF inv other(2) _ other(1,3)] pc by simp
  qed
qed

lemma dispatch_fetch_inv:
  assumes inv: "sys_inv am c" and pc: "d_pc c = DFetch" and st: "dispatch_fetch (fws c) = (pc', s')"
  shows "sys_inv am (c\<lparr>d_pc := pc', fws := s'\<rparr>)"
proof (cases "cp_reboot_is_requested (fws c)")
  case True
  then show ?thesis using st sys_inv_move [OF inv refl] pc by (simp add: dispatch_fetch_def)
next
  case False
  let ?s = "fws c"
  have s': "pc' = DHandle (ring_head ?s)"
    "s' = upd_cp (\<lambda>c. c\<lparr>CP_RD_PTR := (CP_RD_PTR c + 1) mod CP_CMD_RING_SIZE c\<rparr>) ?s"
    using st False by (auto simp: dispatch_fetch_def)
  have ring: "ring_ok ?s" "list_all packet_fits (cmd_ring ?s)" and ex: "dispatch_excl DFetch ?s"
    and lp: "\<forall>p. launch_inv am p KDone ?s (residents c)" using inv pc by (simp_all add: sys_inv_def)
  have kv: "kernel_view s' = kernel_view ?s" by (simp add: s' kernel_view_def upd_cp_def)
  have hd: "packet_fits (ring_head ?s)"
    using ring by (simp add: ring_ok_def ring_head_def word_less_iff_unat list_all_length)
  have "(x + 1) mod CP_CMD_RING_SIZE (cp ?s) < CP_CMD_RING_SIZE (cp ?s)" for x
    using ring by (intro word_mod_less_divisor) (auto simp: ring_ok_def word_gt_0)
  then have "ring_ok s'" using ring by (simp add: ring_ok_def s' upd_cp_def)
  moreover have "dispatch_excl pc' s'" using ex hd
    by (simp add: s' cp_memory_copy_is_active_def host_launch_packet_is_blocked_def cp_has_active_kernel_or_cache_def
        cp_cache_operation_pending_def)
  moreover have fits: "list_all packet_fits (cmd_ring s')" using ring(2) by (simp add: s'(2) upd_cp_def)
  moreover have "pool_ok s'" using inv by (simp add: sys_inv_def pool_ok_def s')
  ultimately show ?thesis
    using inv lp launch_inv_view [OF _ kv] view_active [OF kv] fits by (simp add: sys_inv_def s'(1) one_kernel_def)
qed

lemma dispatch_inv:
  assumes inv: "sys_inv am c" and st: "cp_dispatch am (d_pc c) (fws c) = (pc', s')"
  shows "sys_inv am (c\<lparr>d_pc := pc', fws := s'\<rparr>)"
proof (cases "d_pc c")
  case DFetch
  with dispatch_fetch_inv [OF inv] st show ?thesis by simp
next
  case (DHandle cmd)
  with dispatch_handle_inv [OF inv] st show ?thesis by simp
next
  case (DKernel p k)
  with kernel_result_inv [OF inv DKernel] st show ?thesis by simp
next
  case DReboot
  show ?thesis
  proof (cases "reboot_draining (fws c)")
    case True
    with st DReboot sys_inv_move [OF inv refl] show ?thesis by simp
  next
    case False
    with st DReboot have s': "pc' = DRebooted" "s' = reboot_finish (fws c)" by auto
    have kv: "kernel_view s' = kernel_view (fws c)"
      by (simp add: s' reboot_finish_def cp_firmware_status_reset_def kernel_view_def upd_cp_def)
    have "ring_ok s'" "pool_ok s'" "cmd_ring s' = cmd_ring (fws c)" using inv
      by (auto simp: s' reboot_finish_def cp_firmware_status_reset_def ring_ok_def pool_ok_def sys_inv_def upd_cp_def word_gt_0)
    moreover have "dispatch_excl pc' s'" using False
      by (simp add: s' reboot_draining_def cp_memory_copy_is_active_def cp_has_active_kernel_or_cache_def
          cp_cache_operation_pending_def reboot_finish_def cp_firmware_status_reset_def upd_cp_def)
    ultimately show ?thesis
      using inv launch_inv_view [OF _ kv] view_active [OF kv] DReboot by (simp add: sys_inv_def s'(1) one_kernel_def)
  qed
next
  case (DCacheClaim a z m tg tk)
  have na: "\<not> cp_memory_copy_is_active (fws c)" using inv by (simp add: sys_inv_def DCacheClaim)
  have "pc' = DCacheClaim a z m tg tk \<and> s' = fws c \<or> pc' = DCacheStart a z m tg \<and> s' = cache_claim_now tg tk (fws c)"
    using st unfolding DCacheClaim by (auto simp: claim_cache_state_def split: if_splits)
  with na have "quiet_view s' = quiet_view (fws c)" "dispatch_excl pc' s'" "\<forall>p k. pc' \<noteq> DKernel p k"
    by (auto simp: cp_memory_copy_is_active_def)
  then show ?thesis using sys_inv_move [OF inv] DCacheClaim by simp
next
  case (DCacheStart a z m tg)
  with st inv show ?thesis
    by (intro sys_inv_move [OF inv]) (auto simp: sys_inv_def cp_memory_copy_is_active_def)
next
  case (DBarrier t)
  have "quiet_view s' = quiet_view (fws c)" "dispatch_excl pc' s'" "\<forall>p k. pc' \<noteq> DKernel p k"
    using st unfolding DBarrier by (auto simp: dispatch_barrier_def split: if_splits)
  then show ?thesis using sys_inv_move [OF inv] DBarrier by simp
next
  case DPanic
  with inv show ?thesis by (simp add: sys_inv_def)
next
  case DRebooted
  with st have "c\<lparr>d_pc := pc', fws := s'\<rparr> = c" by (cases c) auto
  with inv show ?thesis by simp
qed (use inv st in \<open>auto intro!: sys_inv_move [OF inv] simp: dispatch_top_def dispatch_poll_def
    cp_memory_copy_is_active_def host_launch_packet_is_blocked_def split: if_splits\<close>)

section \<open>Steps of the other tasks\<close>

lemma copy_task_flags:
  "cp_memory_copy_is_active (cp_memory_copy_task s) \<longrightarrow> cp_memory_copy_is_active s"
  "cs_pending (cache_state (cp_memory_copy_task s)) \<noteq> 0 \<longrightarrow> cs_pending (cache_state s) \<noteq> 0 \<or> cp_memory_copy_is_active s"
  by (cases "cp_memory_copy_is_active s"; simp add: cp_memory_copy_task_def)+

lemma retire_cache_inv:
  assumes inv: "sys_inv am c" and r: "cp_retire_cache (fws c) = Some s'"
  shows "sys_inv am (c\<lparr>fws := s'\<rparr>)"
  using r by (intro sys_inv_quiet [OF inv])
    (auto simp: cp_retire_cache_def Let_def cp_memory_copy_is_active_def split: if_splits)

lemma count_down_views:
  "calm_view (kernel_count_down r st ptr kid s) = calm_view s"
  "cache_state (kernel_count_down r st ptr kid s) = cache_state s"
  by (simp_all add: kernel_count_down_def Let_def kernel_finish_def cp_kernel_state_buf_free_def)

lemma free_wg_views:
  "calm_view (free_wg am b w s) = calm_view s" "cache_state (free_wg am b w s) = cache_state s"
  "calm_view (clear_deq i s) = calm_view s" "cache_state (clear_deq i s) = cache_state s"
  by (simp_all add: free_wg_def cp_wgi_buf_free_def free_wg_stack_remap_def free_wg_local_memory_def clear_deq_def
      split: prod.splits)

lemma retire_sm_inv:
  assumes inv: "sys_inv am c" and r: "cp_retire_sm am (fws c) = Retired s'"
  shows "sys_inv am (c\<lparr>fws := s'\<rparr>)"
proof -
  let ?s = "fws c"
  have parts: "dispatch_excl (d_pc c) ?s" "one_kernel ?s" "ring_ok ?s" "pool_ok ?s"
    "launch_part am (d_pc c) ?s (residents c)" "list_all packet_fits (cmd_ring ?s)" using inv by (simp_all add: sys_inv_def)
  have some: "\<exists>p k. launch_inv am p k ?s (residents c)" using parts(5) by (cases "d_pc c") auto
  then obtain p k where l: "launch_inv am p k ?s (residents c)" by blast
  have lp: "launch_part am (d_pc c) s' (residents c)"
    using parts(5) retire_launch_inv [OF _ r] by (cases "d_pc c") auto
  from retire_owned [OF l r] obtain i w kid result ks ptr where
    w: "w \<in> kid_slots ?s kid" "kernel_active ?s kid" "s' = kernel_count_down result ks ptr kid (free_wg am (wgi_buf ?s ! w) w (clear_deq i ?s))"
    by metis
  have v: "calm_view s' = calm_view ?s" "cache_state s' = cache_state ?s"
    by (simp_all add: w(3) count_down_views free_wg_views)
  have act: "kernel_active s' k' \<Longrightarrow> kernel_active ?s k'" for k'
    using retire_slots(4) [OF _ w] l by (auto simp: launch_inv_def)
  have ring: "cmd_ring s' = cmd_ring ?s" "CP_RD_PTR (cp s') = CP_RD_PTR (cp ?s)" "CP_WR_PTR (cp s') = CP_WR_PTR (cp ?s)"
    "CP_CMD_RING_SIZE (cp s') = CP_CMD_RING_SIZE (cp ?s)" "memory_copy_state s' = memory_copy_state ?s"
    "length (completion_pool s') = length (completion_pool ?s)" using v(1) by (simp_all add: calm_view_def ring_view_def)
  have blk: "host_launch_packet_is_blocked cmd s' \<Longrightarrow> host_launch_packet_is_blocked cmd ?s" for cmd
    using act v(2) by (auto simp: host_launch_packet_is_blocked_def has_active_iff)
  have "dispatch_excl (d_pc c) s'"
    using parts(1) act blk v(2) by (cases "d_pc c")
      (auto simp: ring ring_head_def cp_memory_copy_is_active_def has_active_iff)
  then show ?thesis
    using lp parts act by (simp add: sys_inv_def one_kernel_def ring_ok_def pool_ok_def ring)
qed

section \<open>Steps of the environment\<close>

text \<open>An SM moves a pointer between its registers and its resident set.\<close>

lemma launch_inv_hw:
  assumes inv: "launch_inv am p k s res" and i: "i < unat (g_num_sm s)"
    and s': "s' = upd_sm i f s"
    and f: "THREADS_PER_CORE (f (sms s ! i)) = THREADS_PER_CORE (sms s ! i)"
      "STACK_REMAP_ENTRY_COUNT (f (sms s ! i)) = STACK_REMAP_ENTRY_COUNT (sms s ! i)"
      "ENQ_VALID (sms s ! i) = 0 \<longrightarrow> ENQ_VALID (f (sms s ! i)) = 0"
      "sm_ptrs (f (sms s ! i)) + res' i = sm_ptrs (sms s ! i) + res i"
    and res: "\<And>j. j \<noteq> i \<Longrightarrow> res' j = res j"
  shows "launch_inv am p k s' res'"
proof -
  have parts: "kernel_inv p k s" "lmem_owned am k s" "remap_ready am s" "place_ok am k s" "hw_owned am k s res"
    using inv by (simp_all add: launch_inv_def)
  have il: "i < length (sms s)" using i parts(3) by (simp add: remap_ready_def)
  have k': "kernel_inv p k s'"
    by (rule kernel_inv_cong [OF parts(1)]) (use parts(1) in \<open>simp_all add: s' kernel_inv_def\<close>)
  have "pc_lmem_size k s'" using parts(2) by (cases k) (simp_all add: s' lmem_owned_def used_slots_def)
  then have l': "lmem_owned am k s'" using lmem_owned_cong [OF parts(2)] by (simp add: s')
  have r': "remap_ready am s'"
    by (rule remap_ready_cong [OF parts(3)]) (use il f in \<open>auto simp: s' nth_list_update upd_sm_def\<close>)
  have p': "place_ok am k s'" using parts(4) il f by (cases k) (auto simp: s' nth_list_update)
  have "hw_ptrs s' res' + {#} = hw_ptrs s res + {#}"
    by (rule hw_ptrs_change [OF i]) (use il f res in \<open>simp_all add: s' nth_list_update\<close>)
  then have "hw_owned am k s' res'"
    using parts(5) by (simp add: hw_owned_def launched_slots_def used_slots_def s')
  with inv k' l' r' p' show ?thesis by (simp add: launch_inv_def s')
qed

lemma sys_inv_sm:
  assumes inv: "sys_inv am c" and s': "s' = upd_sm i f (fws c)"
    and lp: "\<And>p k. launch_inv am p k (fws c) (residents c) \<Longrightarrow> launch_inv am p k s' res'"
  shows "sys_inv am (c\<lparr>fws := s', residents := res'\<rparr>)"
proof -
  have v: "ring_view s' = ring_view (fws c)" by (simp add: s' ring_view_def upd_sm_def)
  have a: "kernel_active s' = kernel_active (fws c)" by (simp add: kernel_active_def fun_eq_iff s')
  have "launch_part am (d_pc c) s' res'" using inv lp by (cases "d_pc c") (auto simp: sys_inv_def)
  moreover have fr: "memory_copy_state s' = memory_copy_state (fws c)" "cache_state s' = cache_state (fws c)"
    "completion_pool s' = completion_pool (fws c)" by (simp_all add: s')
  moreover have "dispatch_excl (d_pc c) s'" using inv v
    by (cases "d_pc c") (auto simp: sys_inv_def a fr cp_memory_copy_is_active_def host_launch_packet_is_blocked_def
        has_active_iff ring_view_def ring_head_def)
  ultimately show ?thesis using inv v a by (simp add: sys_inv_def one_kernel_def ring_ok_def pool_ok_def ring_view_def)
qed

lemma sm_accept_inv:
  assumes inv: "sys_inv am c" and i: "i < unat (g_num_sm (fws c))" and e: "ENQ_VALID (sms (fws c) ! i) \<noteq> 0"
  shows "sys_inv am (sm_accept i c)"
  unfolding sm_accept_def
  by (rule sys_inv_sm [OF inv refl]) (rule launch_inv_hw [OF _ i refl], use e in \<open>simp_all add: sm_ptrs_def\<close>)

lemma sm_finish_inv:
  assumes inv: "sys_inv am c" and i: "i < unat (g_num_sm (fws c))" and d: "DEQ_VALID (sms (fws c) ! i) = 0"
    and q: "q \<in># residents c i"
  shows "sys_inv am (sm_finish i q st ks c)"
  unfolding sm_finish_def
  by (rule sys_inv_sm [OF inv refl]) (rule launch_inv_hw [OF _ i refl], use d q in \<open>simp_all add: sm_ptrs_def\<close>)

lemma host_push_inv:
  assumes inv: "sys_inv am c" and full: "(CP_WR_PTR (cp (fws c)) + 1) mod CP_CMD_RING_SIZE (cp (fws c)) \<noteq> CP_RD_PTR (cp (fws c))"
    and fits: "list_all packet_fits (cmd_ring (host_push cmd (fws c)))"
  shows "sys_inv am (c\<lparr>fws := host_push cmd (fws c)\<rparr>)"
proof -
  let ?s = "fws c" and ?s' = "host_push cmd (fws c)"
  have ring: "ring_ok ?s" using inv by (simp add: sys_inv_def)
  have kv: "kernel_view ?s' = kernel_view ?s" by (simp add: host_push_def kernel_view_def upd_cp_def)
  have lt: "(x + 1) mod CP_CMD_RING_SIZE (cp ?s) < CP_CMD_RING_SIZE (cp ?s)" for x
    using ring by (intro word_mod_less_divisor) (auto simp: ring_ok_def word_gt_0)
  have ring': "ring_ok ?s'"
    using ring lt by (auto simp: ring_ok_def host_push_def upd_cp_def)
  have hd: "ring_head ?s' = ring_head ?s" if "CP_RD_PTR (cp ?s) \<noteq> CP_WR_PTR (cp ?s)"
    using that by (simp add: ring_head_def host_push_def upd_cp_def word_eq_iff_unat)
  have fr: "memory_copy_state ?s' = memory_copy_state ?s" "cache_state ?s' = cache_state ?s"
    "completion_pool ?s' = completion_pool ?s" "CP_RD_PTR (cp ?s') = CP_RD_PTR (cp ?s)"
    "CP_WR_PTR (cp ?s') = (CP_WR_PTR (cp ?s) + 1) mod CP_CMD_RING_SIZE (cp ?s)"
    by (simp_all add: host_push_def upd_cp_def)
  have "dispatch_excl (d_pc c) ?s'"
    using inv full hd by (cases "d_pc c") (auto simp: sys_inv_def fr cp_memory_copy_is_active_def
        host_launch_packet_is_blocked_def has_active_iff view_active [OF kv])
  with inv ring' fits launch_part_view [OF _ kv] view_active [OF kv] show ?thesis
    by (simp add: sys_inv_def one_kernel_def pool_ok_def fr)
qed

lemma cache_done_quiet:
  "quiet_view (upd_sm i (\<lambda>sm. sm\<lparr>ICACHE_CONTROL_START := 0\<rparr>) s) = quiet_view s"
  "quiet_view (upd_sm i (\<lambda>sm. sm\<lparr>DCACHE_CONTROL_START := 0\<rparr>) s) = quiet_view s"
proof -
  have "map sm_view ((sms s)[i := f (sms s ! i)]) = map sm_view (sms s)" if "\<And>sm. sm_view (f sm) = sm_view sm" for f
    using that by (cases "i < length (sms s)") (auto intro!: nth_equalityI simp: nth_list_update)
  then show "quiet_view (upd_sm i (\<lambda>sm. sm\<lparr>ICACHE_CONTROL_START := 0\<rparr>) s) = quiet_view s"
    "quiet_view (upd_sm i (\<lambda>sm. sm\<lparr>DCACHE_CONTROL_START := 0\<rparr>) s) = quiet_view s"
    by (simp_all add: quiet_view_def kernel_view_def ring_view_def upd_sm_def sm_view_def)
qed

lemma cp_step_inv:
  assumes st: "cp_step am c c'" and inv: "sys_inv am c" and fits: "list_all packet_fits (cmd_ring (fws c'))"
  shows "sys_inv am c'"
  using st
proof cases
  case (dispatch pc' s')
  with dispatch_inv [OF inv] show ?thesis by simp
next
  case (retire_sm s')
  with retire_sm_inv [OF inv] show ?thesis by simp
next
  case (retire_cache s')
  with retire_cache_inv [OF inv] show ?thesis by simp
next
  case memory_copy
  with sys_inv_quiet [OF inv] copy_task_flags [of "fws c"] show ?thesis by simp
next
  case (accept i)
  with sm_accept_inv [OF inv] show ?thesis by simp
next
  case (finish i q st ks)
  with sm_finish_inv [OF inv] show ?thesis by simp
next
  case (host_command cmd)
  with host_push_inv [OF inv] fits show ?thesis by simp
next
  case (interrupt mcause)
  have "quiet_view (s\<lparr>reboot_requested := 1\<rparr>) = quiet_view s" for s
    by (simp add: quiet_view_def kernel_view_def ring_view_def)
  with interrupt inv show ?thesis
    by (auto intro!: sys_inv_quiet [OF inv] simp: freertos_risc_v_application_interrupt_handler_def
        cp_reboot_request_from_isr_def Let_def cp_memory_copy_is_active_def)
next
  case (host_pool pool)
  have "quiet_view ((fws c)\<lparr>completion_pool := pool\<rparr>) = quiet_view (fws c)"
    using host_pool by (simp add: quiet_view_def kernel_view_def ring_view_def)
  with host_pool show ?thesis by (auto intro!: sys_inv_quiet [OF inv] simp: cp_memory_copy_is_active_def)
qed (auto intro!: sys_inv_quiet [OF inv] simp: cp_memory_copy_is_active_def cache_done_quiet)

lemma cp_boot_inv:
  assumes "fw_main am s0 = Some s" and "bss_clear am s0" and "boot_map_ok am" and "ring_ok s0" and "pool_ok s0"
    and "list_all packet_fits (cmd_ring s0)"
  shows "sys_inv am \<lparr>d_pc = DReady, fws = s, residents = (\<lambda>_. {#})\<rparr>"
proof -
  note b = boot_launch_inv [OF assms(1-3)]
  have "\<not> kernel_active s k" for k using b(2) by (auto simp: kernel_active_def)
  moreover have "ring_ok s" "pool_ok s" "list_all packet_fits (cmd_ring s)"
    using assms(4-6) by (simp_all add: ring_ok_def pool_ok_def b cp_firmware_status_booting_def Let_def)
  ultimately show ?thesis using b(1) by (simp add: sys_inv_def one_kernel_def)
qed

lemma reachable_inv: "cp_reachable am packet_fits c \<Longrightarrow> sys_inv am c"
  by (induction rule: cp_reachable.induct) (auto intro: cp_boot_inv cp_step_inv)

end
