(* ===== verification/Fw_Properties.thy ===== *)
theory Fw_Properties
  imports Fw_System
begin

text \<open>
  What the system invariant gives for every reachable state of the firmware, whatever the order in
  which its tasks, the SMs, the DMA engines and the host act.
\<close>

section \<open>Helper lemmas\<close>

fun sys_pending :: "dispatch_pc \<Rightarrow> nat \<Rightarrow> nat" where
  "sys_pending (DKernel p k) kid = launch_pending p k kid"
| "sys_pending _ kid = 0"

fun sys_kpc :: "dispatch_pc \<Rightarrow> kernel_pc" where
  "sys_kpc (DKernel p k) = k"
| "sys_kpc _ = KDone"

fun sys_packet :: "dispatch_pc \<Rightarrow> KernelDispatchPacket" where
  "sys_packet (DKernel p k) = p"
| "sys_packet _ = kernel_dispatch_packet []"

lemma reachable_launch:
  assumes "cp_reachable am packet_fits c"
  shows "launch_inv am (sys_packet (d_pc c)) (sys_kpc (d_pc c)) (fws c) (residents c)"
    and "launch_pending (sys_packet (d_pc c)) (sys_kpc (d_pc c)) = sys_pending (d_pc c)"
  using reachable_inv [OF assms] by (cases "d_pc c"; simp add: sys_inv_def fun_eq_iff)+

text \<open>A booted system on the two-SM machine, at which the properties are applied.\<close>

definition demo_main :: fw where
  "demo_main = the (fw_main small_addr_map demo_fw)"

definition demo_sys :: cp_sys where
  "demo_sys = \<lparr>d_pc = DReady, fws = demo_main, residents = (\<lambda>_. {#})\<rparr>"

lemma demo_main_Some: "fw_main small_addr_map demo_fw = Some demo_main"
proof -
  have "fw_main small_addr_map demo_fw \<noteq> None" by code_simp
  then show ?thesis by (simp add: demo_main_def)
qed

lemma demo_bss: "bss_clear small_addr_map demo_fw"
  by (simp add: bss_clear_def demo_arrays)
    (simp add: demo_fw_def demo_kernel_state_def demo_sm_def wgi_buf_capacity_def small_addr_map_def
      sizeof_cp_wgi_buf_def FORMOSA_MAX_NUM_SM_def)

lemma demo_map: "boot_map_ok small_addr_map"
  by (simp add: boot_map_ok_def wgi_window_ok_def lmem_window_ok_def remap_mask_ok_def small_addr_map_def
      default_addr_map_def mask_numeral)

lemma zero_packet_fits: "packet_fits (replicate 64 0)"
proof -
  have "wg_total (kernel_dispatch_packet (replicate 64 0)) = 0" by code_simp
  then show ?thesis by (simp add: packet_fits_def)
qed

lemma demo_ring: "ring_ok demo_fw" "list_all packet_fits (cmd_ring demo_fw)"
  using zero_packet_fits by (simp_all add: ring_ok_def demo_fw_def list_all_length)

lemma demo_pool: "pool_ok demo_fw"
  by (simp add: pool_ok_def demo_fw_def FSA_COMPLETION_SLOT_COUNT_def)

lemma demo_reachable: "cp_reachable small_addr_map packet_fits demo_sys"
  unfolding demo_sys_def by (rule cp_reachable.boot [OF demo_main_Some demo_bss demo_map demo_ring(1) demo_pool demo_ring(2)])

text \<open>
  A run on a machine with one SM: the host marks a completion pending and pushes the launch of one
  work-group with 300 bytes of local memory; the dispatch task takes it and hands it to the SM,
  which accepts it and reports success.
\<close>

definition demo1_fw :: fw where
  "demo1_fw = demo_fw\<lparr>system_info := (system_info demo_fw)\<lparr>NUM_SM := 1\<rparr>\<rparr>"

definition demo_packet :: KernelDispatchPacket where
  "demo_packet = \<lparr>kp_header = 1, kp_dim_reserved0 = 1, kp_local_size_x = 8, kp_local_size_y = 1, kp_local_size_z = 1,
     kp_local_mem_size = 300, kp_num_groups_x = 1, kp_num_groups_y = 1, kp_num_groups_z = 1,
     kp_global_offset_x = 0, kp_global_offset_y = 0, kp_global_offset_z = 0, kp_kernel_object = 0,
     kp_kernarg_address = 0, kp_kernel_trampoline = 0, kp_kernel_status = 0, kp_completion_token = 0x0001000000010003\<rparr>"

lemma demo_token_eq: "demo_token = 0x0001000000010003"
  by code_simp

definition demo_launch :: packet where
  "demo_launch = kernel_dispatch_packet_bytes demo_packet"

definition dstep :: "addr_map \<Rightarrow> cp_sys \<Rightarrow> cp_sys" where
  "dstep am c = (case cp_dispatch am (d_pc c) (fws c) of (pc', s') \<Rightarrow> c\<lparr>d_pc := pc', fws := s'\<rparr>)"

definition demo1_boot :: cp_sys where
  "demo1_boot = \<lparr>d_pc = DReady, fws = the (fw_main small_addr_map demo1_fw), residents = (\<lambda>_. {#})\<rparr>"

definition demo1_host :: cp_sys where
  "demo1_host = (let c = demo1_boot\<lparr>fws := (fws demo1_boot)\<lparr>completion_pool := (completion_pool (fws demo1_boot))
        [3 := fsa_completion_slot_encode (fsa_completion_token_alloc_tag demo_token) FSA_COMPLETION_RESULT_PENDING]\<rparr>\<rparr>
     in c\<lparr>fws := host_push demo_launch (fws c)\<rparr>)"

definition demo1_fetched :: fw where
  "demo1_fetched = upd_cp (\<lambda>c. c\<lparr>CP_RD_PTR := (CP_RD_PTR c + 1) mod CP_CMD_RING_SIZE c\<rparr>)
     (cp_firmware_status_ready (fws demo1_host))"

definition demo1_launched :: cp_sys where
  "demo1_launched = (dstep small_addr_map ^^ 4) (demo1_host\<lparr>d_pc := DKernel demo_packet KAlloc, fws := demo1_fetched\<rparr>)"

definition demo1_done :: cp_sys where
  "demo1_done = sm_finish 0 (FSA_WGI_BUF_BASE small_addr_map) 0 zero_kernel_status (sm_accept 0 demo1_launched)"

lemma dstep_reachable:
  assumes "cp_reachable am packet_fits c"
  shows "cp_reachable am packet_fits (dstep am c)"
proof -
  obtain pc' s' where d: "cp_dispatch am (d_pc c) (fws c) = (pc', s')" by fastforce
  have "sys_inv am (c\<lparr>d_pc := pc', fws := s'\<rparr>)" by (rule dispatch_inv [OF reachable_inv [OF assms] d])
  then have "list_all packet_fits (cmd_ring s')" by (simp add: sys_inv_def)
  with cp_reachable.step [OF assms cp_step.dispatch [OF d]] d show ?thesis by (simp add: dstep_def)
qed

text \<open>A step of the environment that leaves the ring alone.\<close>

lemma env_reachable:
  assumes "cp_reachable am packet_fits c" and "cp_step am c c'" and "cmd_ring (fws c') = cmd_ring (fws c)"
  shows "cp_reachable am packet_fits c'"
  using assms reachable_inv [OF assms(1)] by (auto intro: cp_reachable.step simp: sys_inv_def)

lemma dsteps_reachable: "cp_reachable am packet_fits c \<Longrightarrow> cp_reachable am packet_fits ((dstep am ^^ n) c)"
  by (induction n) (simp_all add: dstep_reachable)

lemma dsteps_residents: "residents ((dstep am ^^ n) c) = residents c"
  by (induction n) (simp_all add: dstep_def split: prod.splits)

lemma demo1_boot_reachable: "cp_reachable small_addr_map packet_fits demo1_boot"
proof -
  have "fw_main small_addr_map demo1_fw \<noteq> None" by code_simp
  then have m: "fw_main small_addr_map demo1_fw = Some (the (fw_main small_addr_map demo1_fw))" by simp
  have "bss_clear small_addr_map demo1_fw" "ring_ok demo1_fw" "pool_ok demo1_fw" "list_all packet_fits (cmd_ring demo1_fw)"
    using demo_bss demo_ring demo_pool
    by (simp_all add: bss_clear_def demo1_fw_def ring_ok_def pool_ok_def sm_arrays_ok_def demo_fw_def)
  from cp_reachable.boot [OF m this(1) demo_map this(2-4)] show ?thesis by (simp add: demo1_boot_def)
qed

lemma demo_launch_packet: "kernel_dispatch_packet demo_launch = demo_packet"
  by (simp add: demo_launch_def abi_simps)

lemma host_token_kernel: "host_token_from_packet cmd = kp_completion_token (kernel_dispatch_packet cmd)"
  by (simp add: host_token_from_packet_def kernel_dispatch_packet_def FSA_COMPLETION_TOKEN_OFFSET_def
      FSA_COMMAND_PACKET_BYTES_def)

lemma demo_launch_fits: "packet_fits demo_launch"
  by (simp add: packet_fits_def demo_launch_packet wg_total_def demo_packet_def)

lemma demo1_boot_regs:
  "CP_WR_PTR (cp (fws demo1_boot)) = 0 \<and> CP_RD_PTR (cp (fws demo1_boot)) = 0 \<and> CP_CMD_RING_SIZE (cp (fws demo1_boot)) = 4 \<and>
   length (cmd_ring (fws demo1_boot)) = 4 \<and> reboot_requested (fws demo1_boot) = 0 \<and> boot_generation (fws demo1_boot) = 1 \<and>
   mcs_active (memory_copy_state (fws demo1_boot)) = 0 \<and> cs_pending (cache_state (fws demo1_boot)) = 0 \<and>
   list_all (\<lambda>k. ks_in_use k = 0) (kernel_state_buf (fws demo1_boot)) \<and> g_num_sm (fws demo1_boot) = 1 \<and>
   length (completion_pool (fws demo1_boot)) = 64"
  by code_simp

lemma demo1_host_reachable: "cp_reachable small_addr_map packet_fits demo1_host"
proof -
  let ?c = "demo1_boot\<lparr>fws := (fws demo1_boot)\<lparr>completion_pool := (completion_pool (fws demo1_boot))
        [3 := fsa_completion_slot_encode (fsa_completion_token_alloc_tag demo_token) FSA_COMPLETION_RESULT_PENDING]\<rparr>\<rparr>"
  have c: "cp_reachable small_addr_map packet_fits ?c"
    by (rule env_reachable [OF demo1_boot_reachable cp_step.host_pool]) simp_all
  have "(CP_WR_PTR (cp (fws ?c)) + 1) mod CP_CMD_RING_SIZE (cp (fws ?c)) \<noteq> CP_RD_PTR (cp (fws ?c))"
    using demo1_boot_regs by simp
  note push = cp_step.host_command [OF this, of small_addr_map demo_launch]
  have "list_all packet_fits (cmd_ring (fws ?c))" using reachable_inv [OF c] by (simp only: sys_inv_def)
  then have "list_all packet_fits (cmd_ring (host_push demo_launch (fws ?c)))"
    using demo_launch_fits set_update_subset_insert [of "cmd_ring (fws ?c)" "unat (CP_WR_PTR (cp (fws ?c)))" demo_launch]
    by (auto simp: host_push_def upd_cp_def list_all_iff)
  with cp_reachable.step [OF c push] show ?thesis by (simp add: demo1_host_def Let_def)
qed

lemma demo1_fetched_pending: "cp_completion_is_pending demo1_fetched demo_token"
proof -
  have "token_slot demo_token = 3" by (simp add: demo_token_def abi_simps)
  then show ?thesis using demo1_boot_regs
    by (simp add: cp_completion_is_pending_def demo1_fetched_def demo1_host_def host_push_def Let_def abi_simps
        cp_firmware_boot_generation_def upd_cp_def cp_firmware_status_ready_def)
      (simp add: demo_token_def abi_simps token_make_valid_slot FSA_COMPLETION_SLOT_COUNT_def)
qed

lemma demo1_dispatch:
  "(dstep small_addr_map ^^ 5) demo1_host = demo1_host\<lparr>d_pc := DKernel demo_packet KAlloc, fws := demo1_fetched\<rparr>"
proof -
  note r = demo1_boot_regs
  let ?c = "\<lambda>pc s. demo1_host\<lparr>d_pc := pc, fws := s\<rparr>" and ?s = "cp_firmware_status_ready (fws demo1_host)"
  have idle: "\<not> cp_has_active_kernel_or_cache ?s" "\<not> cp_memory_copy_is_active ?s" "\<not> cp_reboot_is_requested ?s"
    "\<not> cp_firmware_is_faulted ?s" "CP_RD_PTR (cp ?s) = 0" "CP_WR_PTR (cp ?s) = 1" "ring_head ?s = demo_launch"
    "g_num_sm ?s = 1"
    using r by (auto simp: cp_has_active_kernel_or_cache_def cp_cache_operation_pending_def demo1_host_def host_push_def
        cp_memory_copy_is_active_def cp_reboot_is_requested_def cp_firmware_is_faulted_def ring_head_def Let_def
        list_all_iff upd_cp_def cp_firmware_status_ready_def)
  have "d_pc demo1_host = DReady" by (simp add: demo1_host_def Let_def demo1_boot_def)
  then have 1: "dstep small_addr_map demo1_host = ?c DTop ?s" by (simp add: dstep_def)
  have 2: "dstep small_addr_map (?c DTop ?s) = ?c DPoll ?s" using idle by (simp add: dstep_def dispatch_top_def)
  have 3: "dstep small_addr_map (?c DPoll ?s) = ?c DFetch ?s"
    using idle by (simp add: dstep_def dispatch_poll_def host_launch_packet_is_blocked_def)
  have 4: "dstep small_addr_map (?c DFetch ?s) = ?c (DHandle demo_launch) demo1_fetched"
    using idle by (simp add: dstep_def dispatch_fetch_def demo1_fetched_def)
  have "valid_kernel_dispatch_packet demo_packet" by code_simp
  moreover have "\<not> 1 < g_num_sm demo1_fetched" using idle by (simp add: demo1_fetched_def)
  moreover have "kp_header demo_packet = 1" "kp_completion_token demo_packet = demo_token"
    by (simp_all add: demo_packet_def demo_token_eq)
  ultimately have 5: "dstep small_addr_map (?c (DHandle demo_launch) demo1_fetched) = ?c (DKernel demo_packet KAlloc) demo1_fetched"
    using demo1_fetched_pending
    by (simp add: dstep_def dispatch_handle_def Let_def host_token_kernel demo_launch_packet kernel_dispatch_entry_def kernel_result_def)
  show ?thesis by (simp add: numeral_eq_Suc 1 2 3 4 5)
qed

lemma demo1_launched_reachable: "cp_reachable small_addr_map packet_fits demo1_launched"
  unfolding demo1_launched_def demo1_dispatch [symmetric]
  by (intro dsteps_reachable demo1_host_reachable)

lemma demo1_launched_regs:
  "g_num_sm (fws demo1_launched) = 1 \<and> ENQ_VALID (sms (fws demo1_launched) ! 0) = 1 \<and>
   ENQ_INFO_PTR (sms (fws demo1_launched) ! 0) = FSA_WGI_BUF_BASE small_addr_map \<and>
   DEQ_VALID (sms (fws demo1_launched) ! 0) = 0 \<and> d_pc demo1_launched = DTop \<and> 0 < length (sms (fws demo1_launched)) \<and>
   kernel_active (fws demo1_launched) 0"
  by code_simp

lemma demo1_done_reachable: "cp_reachable small_addr_map packet_fits demo1_done"
proof -
  note r = demo1_launched_regs
  have acc: "cp_reachable small_addr_map packet_fits (sm_accept 0 demo1_launched)"
    by (rule env_reachable [OF demo1_launched_reachable cp_step.accept]) (use r in \<open>simp_all add: sm_accept_def upd_sm_def\<close>)
  show ?thesis
    unfolding demo1_done_def
    by (rule env_reachable [OF acc cp_step.finish]) (use r in \<open>simp_all add: sm_accept_def sm_finish_def upd_sm_def\<close>)
qed

lemma demo1_retires: "\<exists>s'. cp_retire_sm small_addr_map (fws demo1_done) = Retired s'"
proof -
  have "(case cp_retire_sm small_addr_map (fws demo1_done) of Retired s' \<Rightarrow> True | _ \<Rightarrow> False)" by code_simp
  then show ?thesis by (auto split: retire_result.splits)
qed

section \<open>Properties\<close>

text \<open>
  C1. The running firmware never panics: no reachable state has the dispatch task in a panic (an SM
  number out of range, an invalid stack-remap configuration), and the retire task never follows a
  pointer that is not a work-group slot.
\<close>

theorem firmware_never_panics:
  assumes "cp_reachable am packet_fits c"
  shows "d_pc c \<noteq> DPanic \<and> cp_retire_sm am (fws c) \<noteq> RetireWild"
proof
  show "d_pc c \<noteq> DPanic" using reachable_inv [OF assms] by (auto simp: sys_inv_def)
  show "cp_retire_sm am (fws c) \<noteq> RetireWild" by (rule retire_never_wild [OF reachable_launch(1) [OF assms]])
qed

theorem firmware_never_panics_witness: "d_pc demo_sys \<noteq> DPanic \<and> cp_retire_sm small_addr_map (fws demo_sys) \<noteq> RetireWild"
  by (rule firmware_never_panics [OF demo_reachable])

text \<open>
  C6. Kernel bookkeeping in every state that is reachable with launches of fewer than \<open>2\<^sup>3\<^sup>2\<close> work-groups: at most one kernel is active; an active kernel's
  counter of remaining work-groups is not zero and equals the work-groups the launch loop has still to
  place plus the slots in use for it; and every slot in use belongs to an active kernel.
\<close>

theorem kernel_bookkeeping:
  assumes "cp_reachable am packet_fits c"
  shows "(\<forall>k k'. kernel_active (fws c) k \<longrightarrow> kernel_active (fws c) k' \<longrightarrow> k = k') \<and>
    (\<forall>k. kernel_active (fws c) k \<longrightarrow>
       ks_wg_left (kernel_state_buf (fws c) ! k) \<noteq> 0 \<and>
       unat (ks_wg_left (kernel_state_buf (fws c) ! k)) = sys_pending (d_pc c) k + card (kid_slots (fws c) k)) \<and>
    (\<forall>w \<in> used_slots (fws c). \<exists>k. kernel_active (fws c) k \<and> w \<in> kid_slots (fws c) k)"
proof -
  note l = reachable_launch [OF assms]
  have "kernel_inv (sys_packet (d_pc c)) (sys_kpc (d_pc c)) (fws c)" using l(1) by (simp add: launch_inv_def)
  then show ?thesis
    using reachable_inv [OF assms] l(2)
    by (auto simp: sys_inv_def one_kernel_def kernel_inv_def counts_ok_def slots_ok_def kid_slots_def)
qed

theorem kernel_bookkeeping_witness:
  "kernel_active (fws demo1_launched) 0 \<and>
   unat (ks_wg_left (kernel_state_buf (fws demo1_launched) ! 0)) = card (kid_slots (fws demo1_launched) 0)"
  using kernel_bookkeeping [OF demo1_launched_reachable] demo1_launched_regs by simp

text \<open>What one retirement does to the kernel of the work-group.\<close>

lemma kernel_count_down_last:
  assumes "ks_wg_left (kernel_state_buf s ! kid) = 1" and "kid < length (kernel_state_buf s)"
  shows "completion_pool (kernel_count_down r st ptr kid s) =
      completion_pool (cp_publish_completion (ks_completion_token (kernel_state_buf s ! kid))
        (if ks_result (kernel_state_buf s ! kid) = FSA_COMPLETION_RESULT_SUCCESS then r
         else ks_result (kernel_state_buf s ! kid)) s)"
  using assms by (auto simp: kernel_count_down_def kernel_finish_def Let_def cp_kernel_state_buf_free_def
      cp_publish_completion_def cp_completion_is_pending_def cp_firmware_boot_generation_def)

lemma kernel_count_down_more:
  assumes "ks_wg_left (kernel_state_buf s ! kid) \<noteq> 1" and "kid < length (kernel_state_buf s)"
  shows "completion_pool (kernel_count_down r st ptr kid s) = completion_pool s"
  using assms by (auto simp: kernel_count_down_def Let_def)

lemma kernel_count_down_result:
  assumes "ks_wg_left (kernel_state_buf s ! kid) \<noteq> 0" and "kid < length (kernel_state_buf s)"
  shows "ks_result (kernel_state_buf (kernel_count_down r st ptr kid s) ! kid) =
    (if ks_result (kernel_state_buf s ! kid) = FSA_COMPLETION_RESULT_SUCCESS then r
     else ks_result (kernel_state_buf s ! kid))"
  using assms by (auto simp: kernel_count_down_def kernel_finish_def Let_def cp_kernel_state_buf_free_def)

text \<open>
  C3. A kernel's completion is published by the retirement of its last work-group, and not before.
  In every state that is reachable with launches of fewer than \<open>2\<^sup>3\<^sup>2\<close> work-groups, a turn of the retire task takes a work-group slot \<open>w\<close> of an active kernel
  \<open>kid\<close> that an SM returned, frees that slot and no other, and records the first failure. If
  that work-group was the kernel's last (none is left to be placed and no other slot is in use for
  it), the kernel ends and its token is published with the recorded result; otherwise the
  kernel stays active and no completion changes.
\<close>

theorem kernel_completion_exact:
  assumes "cp_reachable am packet_fits c" and "cp_retire_sm am (fws c) = Retired s'"
  shows "\<exists>i w kid. sm_free (fws c) = Some i \<and> kernel_active (fws c) kid \<and> w \<in> kid_slots (fws c) kid \<and>
    DEQ_INFO_PTR (sms (fws c) ! i) = wgi_buf_ptr am w \<and> used_slots s' = used_slots (fws c) - {w} \<and>
    (let k = kernel_state_buf (fws c) ! kid;
         r = to_kernel_completion_result (DEQ_STATUS (sms (fws c) ! i));
         result = (if ks_result k = FSA_COMPLETION_RESULT_SUCCESS then r else ks_result k)
     in ks_result (kernel_state_buf s' ! kid) = result \<and>
        (if sys_pending (d_pc c) kid + card (kid_slots (fws c) kid) = 1
         then \<not> kernel_active s' kid \<and>
              completion_pool s' = completion_pool (cp_publish_completion (ks_completion_token k) result (fws c))
         else kernel_active s' kid \<and> completion_pool s' = completion_pool (fws c)))"
proof -
  note l = reachable_launch [OF assms(1)]
  have ki: "kernel_inv (sys_packet (d_pc c)) (sys_kpc (d_pc c)) (fws c)" using l(1) by (simp add: launch_inv_def)
  from retire_owned [OF l(1) assms(2)] obtain i w kid where
    i: "sm_free (fws c) = Some i" and w: "w \<in> kid_slots (fws c) kid" and act: "kernel_active (fws c) kid"
    and ptr: "DEQ_INFO_PTR (sms (fws c) ! i) = wgi_buf_ptr am w"
    and s': "s' = kernel_count_down (to_kernel_completion_result (DEQ_STATUS (sms (fws c) ! i)))
         \<lparr>ks_mcause = DEQ_MCAUSE (sms (fws c) ! i), ks_mepc = DEQ_MEPC (sms (fws c) ! i), ks_mtval = DEQ_MTVAL (sms (fws c) ! i)\<rparr>
         (wb_kernel_status_ptr (wgi_buf (fws c) ! w)) kid (free_wg am (wgi_buf (fws c) ! w) w (clear_deq i (fws c)))"
    by metis
  note rs = retire_slots [OF ki w act s', unfolded l(2)]
  let ?t = "free_wg am (wgi_buf (fws c) ! w) w (clear_deq i (fws c))"
  have t: "kernel_state_buf ?t = kernel_state_buf (fws c)" "completion_pool ?t = completion_pool (fws c)"
    "cp_completion_is_pending ?t tk = cp_completion_is_pending (fws c) tk" for tk
    by (simp_all add: free_wg_frame clear_deq_frame)
  have pub: "completion_pool (cp_publish_completion tk r ?t) = completion_pool (cp_publish_completion tk r (fws c))" for tk r
    by (simp add: cp_publish_completion_def t)
  have kl: "kid < length (kernel_state_buf ?t)" "ks_wg_left (kernel_state_buf ?t ! kid) \<noteq> 0"
    using act ki by (auto simp: t kernel_active_def kernel_inv_def counts_ok_def)
  have one: "ks_wg_left (kernel_state_buf ?t ! kid) = 1 \<longleftrightarrow> sys_pending (d_pc c) kid + card (kid_slots (fws c) kid) = 1"
    using rs(5) by (simp add: t word_eq_iff_unat)
  have "ks_result (kernel_state_buf s' ! kid) =
      (if ks_result (kernel_state_buf (fws c) ! kid) = FSA_COMPLETION_RESULT_SUCCESS
       then to_kernel_completion_result (DEQ_STATUS (sms (fws c) ! i)) else ks_result (kernel_state_buf (fws c) ! kid))"
    using kernel_count_down_result [OF kl(2,1)] by (simp add: s' t)
  moreover have "kernel_active s' kid \<longleftrightarrow> sys_pending (d_pc c) kid + card (kid_slots (fws c) kid) \<noteq> 1"
    using rs(4,5) act by simp
  moreover have "completion_pool s' = (if sys_pending (d_pc c) kid + card (kid_slots (fws c) kid) = 1
      then completion_pool (cp_publish_completion (ks_completion_token (kernel_state_buf (fws c) ! kid))
        (if ks_result (kernel_state_buf (fws c) ! kid) = FSA_COMPLETION_RESULT_SUCCESS
         then to_kernel_completion_result (DEQ_STATUS (sms (fws c) ! i)) else ks_result (kernel_state_buf (fws c) ! kid)) (fws c))
      else completion_pool (fws c))"
    using kernel_count_down_last [OF _ kl(1)] kernel_count_down_more [OF _ kl(1)] one by (simp add: s' t pub)
  ultimately show ?thesis
    using i w act ptr rs(1) by (intro exI [of _ i] exI [of _ w] exI [of _ kid]) (simp add: Let_def)
qed

theorem kernel_completion_exact_witness:
  "\<exists>s' w. cp_retire_sm small_addr_map (fws demo1_done) = Retired s' \<and> w \<in> used_slots (fws demo1_done) \<and>
     used_slots s' = used_slots (fws demo1_done) - {w}"
proof -
  obtain s' where r: "cp_retire_sm small_addr_map (fws demo1_done) = Retired s'" using demo1_retires by blast
  from kernel_completion_exact [OF demo1_done_reachable r] r show ?thesis by (auto simp: kid_slots_def)
qed

end
