(* ===== verification/Fw_Guarantees.thy ===== *)
theory Fw_Guarantees
  imports Fw_Properties
begin

text \<open>
  Further guarantees of the running firmware: work-groups have local memory of their own, commands
  leave the ring in the order the host wrote them, completions only move from pending to a result,
  and a barrier or a reboot finds the machine empty.
\<close>

section \<open>The command ring as a queue\<close>

definition ring_length :: "fw \<Rightarrow> nat" where
  "ring_length s = (unat (CP_WR_PTR (cp s)) + unat (CP_CMD_RING_SIZE (cp s)) - unat (CP_RD_PTR (cp s)))
     mod unat (CP_CMD_RING_SIZE (cp s))"

definition ring_queue :: "fw \<Rightarrow> packet list" where
  "ring_queue s = map (\<lambda>j. cmd_ring s ! ((unat (CP_RD_PTR (cp s)) + j) mod unat (CP_CMD_RING_SIZE (cp s))))
     [0..<ring_length s]"

lemma ring_queue_cong: "ring_view s' = ring_view s \<Longrightarrow> ring_queue s' = ring_queue s"
  by (simp add: ring_view_def ring_queue_def ring_length_def)

text \<open>Modular distance, the arithmetic behind both ends of the ring.\<close>

lemma mod_wrap: "x < n + n \<Longrightarrow> x mod n = (if x < n then x else x - n)" for x n :: nat
  by (simp add: mod_if)

lemma mod_dist: "r < n \<Longrightarrow> w < n \<Longrightarrow> (w + n - r) mod n = (if r \<le> w then w - r else w + n - r)" for r w n :: nat
  by (subst mod_wrap) auto

lemma mod_succ: "w < n \<Longrightarrow> Suc w mod n = (if Suc w = n then 0 else Suc w)" for w n :: nat
  by auto

lemma ring_dist_push:
  fixes r w n :: nat
  assumes "r < n" "w < n" "(w + 1) mod n \<noteq> r"
  shows "((w + 1) mod n + n - r) mod n = (w + n - r) mod n + 1" and "(r + (w + n - r) mod n) mod n = w"
proof -
  have "(w + 1) mod n < n" using assms by simp
  then show "((w + 1) mod n + n - r) mod n = (w + n - r) mod n + 1"
    using assms by (simp only: mod_dist) (auto simp: mod_succ split: if_splits)
  show "(r + (w + n - r) mod n) mod n = w" using assms by (simp add: mod_dist)
qed

lemma ring_dist_pop:
  fixes r w n :: nat
  assumes "r < n" "w < n" "r \<noteq> w"
  shows "(w + n - r) mod n = Suc ((w + n - (r + 1) mod n) mod n)"
    and "j < (w + n - r) mod n \<Longrightarrow> (r + j) mod n \<noteq> w"
proof -
  have "(r + 1) mod n < n" using assms by simp
  then show "(w + n - r) mod n = Suc ((w + n - (r + 1) mod n) mod n)"
    using assms by (simp only: mod_dist) (auto simp: mod_succ split: if_splits)
  assume j: "j < (w + n - r) mod n"
  then have "j < n" using assms by (simp add: mod_dist split: if_splits)
  then show "(r + j) mod n \<noteq> w" using j assms by (subst mod_wrap) (auto simp: mod_dist split: if_splits)
qed

lemma unat_succ_mod:
  assumes "(x :: u64) < n"
  shows "unat ((x + 1) mod n) = (unat x + 1) mod unat n"
proof -
  have "unat x + 1 < 2 ^ 64"
    using assms unsigned_less [of n, where ?'a = nat] by (simp add: word_less_iff_unat)
  then have "unat (x + 1) = unat x + 1" by (simp add: unat_word_ariths)
  then show ?thesis by (simp add: unat_mod)
qed

lemma ring_nats:
  assumes "ring_ok s"
  shows "unat (CP_RD_PTR (cp s)) < unat (CP_CMD_RING_SIZE (cp s))"
    and "unat (CP_WR_PTR (cp s)) < unat (CP_CMD_RING_SIZE (cp s))"
    and "length (cmd_ring s) = unat (CP_CMD_RING_SIZE (cp s))"
  using assms by (simp_all add: ring_ok_def word_less_iff_unat)

lemma ring_push:
  assumes ok: "ring_ok s" and room: "(CP_WR_PTR (cp s) + 1) mod CP_CMD_RING_SIZE (cp s) \<noteq> CP_RD_PTR (cp s)"
  shows "ring_queue (host_push cmd s) = ring_queue s @ [cmd]"
proof -
  let ?r = "unat (CP_RD_PTR (cp s))" and ?w = "unat (CP_WR_PTR (cp s))" and ?n = "unat (CP_CMD_RING_SIZE (cp s))"
  note b = ring_nats [OF ok]
  have wr: "unat ((CP_WR_PTR (cp s) + 1) mod CP_CMD_RING_SIZE (cp s)) = (?w + 1) mod ?n"
    using ok by (intro unat_succ_mod) (simp add: ring_ok_def)
  then have room': "(?w + 1) mod ?n \<noteq> ?r" using room by (metis word_unat_eq_iff)
  note d = ring_dist_push [OF b(1,2) room']
  have len: "ring_length (host_push cmd s) = ring_length s + 1"
    using d(1) by (simp add: ring_length_def host_push_def upd_cp_def wr)
  have "?r \<noteq> ?w \<or> ring_length s = 0" using b by (auto simp: ring_length_def)
  then have other: "j < ring_length s \<Longrightarrow> (?r + j) mod ?n \<noteq> ?w" for j
    using ring_dist_pop(2) [OF b(1,2), of j] by (auto simp: ring_length_def)
  have last: "(?r + ring_length s) mod ?n = ?w" using d(2) by (simp add: ring_length_def)
  have "ring_queue (host_push cmd s) =
      map (\<lambda>j. (cmd_ring s)[?w := cmd] ! ((?r + j) mod ?n)) ([0..<ring_length s] @ [ring_length s])"
    unfolding ring_queue_def len by (simp add: host_push_def upd_cp_def)
  also have "\<dots> = ring_queue s @ [cmd]"
    using other [THEN not_sym] last b by (simp add: ring_queue_def)
  finally show ?thesis .
qed

definition ring_pop :: "fw \<Rightarrow> fw" where
  "ring_pop s = upd_cp (\<lambda>c. c\<lparr>CP_RD_PTR := (CP_RD_PTR c + 1) mod CP_CMD_RING_SIZE c\<rparr>) s"

lemma ring_queue_pop:
  assumes ok: "ring_ok s" and ne: "CP_RD_PTR (cp s) \<noteq> CP_WR_PTR (cp s)"
  shows "ring_queue s = ring_head s # ring_queue (ring_pop s)"
proof -
  let ?r = "unat (CP_RD_PTR (cp s))" and ?w = "unat (CP_WR_PTR (cp s))" and ?n = "unat (CP_CMD_RING_SIZE (cp s))"
  note b = ring_nats [OF ok]
  have rd: "unat ((CP_RD_PTR (cp s) + 1) mod CP_CMD_RING_SIZE (cp s)) = (?r + 1) mod ?n"
    using ok by (intro unat_succ_mod) (simp add: ring_ok_def)
  have ne': "?r \<noteq> ?w" using ne by (metis word_unat_eq_iff)
  have len: "ring_length s = Suc (ring_length (ring_pop s))"
    using ring_dist_pop(1) [OF b(1,2) ne'] by (simp add: ring_length_def ring_pop_def upd_cp_def rd)
  have "ring_queue s = map (\<lambda>j. cmd_ring s ! ((?r + j) mod ?n)) (0 # map Suc [0..<ring_length (ring_pop s)])"
    unfolding ring_queue_def len by (simp add: upt_conv_Cons map_Suc_upt del: upt_Suc)
  also have "\<dots> = ring_head s # ring_queue (ring_pop s)"
    using b(1) by (simp add: ring_queue_def ring_head_def ring_pop_def upd_cp_def rd mod_add_left_eq)
  finally show ?thesis .
qed

lemma ring_queue_empty: "ring_ok s \<Longrightarrow> CP_RD_PTR (cp s) = CP_WR_PTR (cp s) \<Longrightarrow> ring_queue s = []"
  by (simp add: ring_queue_def ring_length_def)

text \<open>
  The abstract command queue: the packets that wait and the one in the hands of the dispatcher. It
  is an ordinary FIFO; the reset stands for the reboot, which discards what is queued.
\<close>

type_synonym command_queue = "packet list \<times> packet option"

inductive queue_step :: "command_queue \<Rightarrow> command_queue \<Rightarrow> bool" where
  stay: "queue_step (q, h) (q, h)"
| push: "queue_step (q, h) (q @ [cmd], h)"
| pop: "queue_step (cmd # q, None) (q, Some cmd)"
| handled: "queue_step (q, Some cmd) (q, None)"
| discard: "queue_step (q, None) ([], None)"

fun in_hand :: "dispatch_pc \<Rightarrow> packet option" where
  "in_hand (DHandle cmd) = Some cmd"
| "in_hand _ = None"

definition command_queue :: "cp_sys \<Rightarrow> command_queue" where
  "command_queue c = (ring_queue (fws c), in_hand (d_pc c))"

lemma quiet_ring: "quiet_view s' = quiet_view s \<Longrightarrow> ring_view s' = ring_view s"
  by (simp add: quiet_view_def)

lemma calm_ring: "calm_view s' = calm_view s \<Longrightarrow> ring_view s' = ring_view s"
  by (simp add: calm_view_def)

lemmas ring_updates [simp] = quiet_updates [THEN quiet_ring] quiet_cache [THEN quiet_ring] quiet_submit [THEN quiet_ring]
  quiet_copy_task [THEN quiet_ring] cache_done_quiet [THEN quiet_ring]
  count_down_views(1) [THEN calm_ring] free_wg_views(1,3) [THEN calm_ring]

lemma ring_failure [simp]: "ring_view (signal_kernel_failure p r s) = ring_view s"
  by (simp add: signal_kernel_failure_def)

lemma handle_ring:
  assumes "dispatch_handle am cmd s = (pc', s')"
  shows "ring_view s' = ring_view s \<and> in_hand pc' = None"
  using assms
  by (auto simp: dispatch_handle_def Let_def kernel_result_def kernel_dispatch_entry_def cache_packet_def
      cp_cache_handle_packet_def fail_host_token_if_present_def split: if_splits)

lemma dispatch_ring:
  assumes "cp_dispatch am pc s = (pc', s')" and "pc \<noteq> DFetch" and "pc \<noteq> DReboot"
  shows "ring_view s' = ring_view s \<and> in_hand pc' = None"
proof (cases pc)
  case (DKernel p k)
  with assms kernel_step_calm [of am p k s] show ?thesis
    by (auto simp: kernel_result_def dest!: calm_ring split: prod.splits if_splits)
qed (use assms handle_ring in \<open>auto simp: dispatch_top_def dispatch_poll_def dispatch_barrier_def
    claim_cache_state_def split: if_splits option.splits\<close>)

lemma retire_ring:
  assumes "cp_retire_sm am s = Retired s'"
  shows "ring_view s' = ring_view s"
  using assms by (auto simp: cp_retire_sm_def Let_def
      split: option.splits if_splits)

lemma queue_stay:
  assumes "ring_view (fws c') = ring_view (fws c)" and "d_pc c' = d_pc c"
  shows "queue_step (command_queue c) (command_queue c')"
  using ring_queue_cong [OF assms(1)] assms(2) by (simp add: command_queue_def queue_step.stay)

lemma dispatch_queue:
  assumes ok: "ring_ok s" and ex: "dispatch_excl pc s" and st: "cp_dispatch am pc s = (pc', s')"
  shows "queue_step (ring_queue s, in_hand pc) (ring_queue s', in_hand pc')"
proof (cases "pc = DFetch \<or> pc = DReboot")
  case False
  then have v: "ring_view s' = ring_view s" "in_hand pc' = None" using dispatch_ring [OF st] by auto
  with ring_queue_cong [OF v(1)] show ?thesis
    by (cases "in_hand pc") (simp_all add: queue_step.stay queue_step.handled)
next
  case True
  have "s' = s \<and> in_hand pc' = None \<or> CP_RD_PTR (cp s) \<noteq> CP_WR_PTR (cp s) \<and> pc' = DHandle (ring_head s) \<and> s' = ring_pop s \<or>
      s' = reboot_finish s \<and> in_hand pc' = None"
    using True
  proof
    assume "pc = DFetch"
    with st ex show ?thesis by (auto simp: dispatch_fetch_def ring_pop_def split: if_splits)
  next
    assume "pc = DReboot"
    with st show ?thesis by (auto split: if_splits)
  qed
  then consider (stay) "s' = s" "in_hand pc' = None" | (pop) "CP_RD_PTR (cp s) \<noteq> CP_WR_PTR (cp s)"
      "pc' = DHandle (ring_head s)" "s' = ring_pop s" | (reset) "s' = reboot_finish s" "in_hand pc' = None" by metis
  then show ?thesis
  proof cases
    case pop
    with ring_queue_pop [OF ok] True show ?thesis by (auto intro: queue_step.pop)
  next
    case reset
    have "ring_queue s' = []"
      using ok by (intro ring_queue_empty)
        (auto simp: reset ring_ok_def reboot_finish_def cp_firmware_status_reset_def upd_cp_def word_gt_0)
    with reset True show ?thesis by (auto intro: queue_step.discard)
  qed (use True in \<open>auto intro: queue_step.stay\<close>)
qed

lemma ring_upd_sm [simp]: "ring_view (upd_sm i f s) = ring_view s"
  by (simp add: ring_view_def upd_sm_def)

text \<open>
  C12. The command ring refines a FIFO queue. Seen through the abstraction that reads the ring from the
  read pointer to the write pointer, every step of a reachable system is a step of the
  abstract queue: the host appends at the end, the dispatcher takes the packet at the front and
  no other, nothing else changes the queue, and only the reboot discards it.
\<close>

theorem command_ring_refines_queue:
  assumes r: "cp_reachable am packet_fits c" and st: "cp_step am c c'"
  shows "queue_step (command_queue c) (command_queue c')"
proof -
  have ok: "ring_ok (fws c)" and ex: "dispatch_excl (d_pc c) (fws c)"
    using reachable_inv [OF r] by (simp_all add: sys_inv_def)
  show ?thesis
    using st
  proof cases
    case (dispatch pc' s')
    with dispatch_queue [OF ok ex] show ?thesis by (simp add: command_queue_def)
  next
    case (host_command cmd)
    with ring_push [OF ok] show ?thesis by (simp add: command_queue_def queue_step.push)
  next
    case (retire_sm s')
    with queue_stay [OF retire_ring] show ?thesis by simp
  next
    case (retire_cache s')
    then show ?thesis by (intro queue_stay) (auto simp: cp_retire_cache_def Let_def split: if_splits)
  next
    case (interrupt mcause)
    then show ?thesis
      by (intro queue_stay) (auto simp: freertos_risc_v_application_interrupt_handler_def cp_reboot_request_from_isr_def Let_def,
          simp add: ring_view_def)
  next
    case (host_pool pool)
    then show ?thesis by (intro queue_stay) (simp_all add: ring_view_def)
  qed (intro queue_stay; simp add: sm_accept_def sm_finish_def)+
qed

lemma demo1_push: "cp_step small_addr_map demo1_boot (demo1_boot\<lparr>fws := host_push demo_launch (fws demo1_boot)\<rparr>)"
  by (rule cp_step.host_command) (use demo1_boot_regs in simp_all)

theorem command_ring_refines_queue_witness:
  "cp_step small_addr_map demo1_boot (demo1_boot\<lparr>fws := host_push demo_launch (fws demo1_boot)\<rparr>) \<and>
   queue_step (command_queue demo1_boot) (command_queue (demo1_boot\<lparr>fws := host_push demo_launch (fws demo1_boot)\<rparr>))"
  using command_ring_refines_queue [OF demo1_boot_reachable demo1_push] demo1_push by simp

section \<open>Local memory\<close>

text \<open>
  C16. Local memory of the work-groups: in every reachable state the live blocks of an SM's allocator
  are exactly the blocks recorded in the slots of the work-groups placed on that SM (so no block
  leaks), each lies inside the local-memory window, and the blocks of different work-groups on the same
  SM are disjoint.
\<close>

theorem local_memory_isolated:
  assumes "cp_reachable am packet_fits c" and "i < unat (g_num_sm (fws c))"
  shows "lmem_live (g_lmem_allocators (fws c) ! i) = wg_region (fws c) ` lmem_slots (sys_kpc (d_pc c)) (fws c) i \<and>
    (\<forall>w \<in> lmem_slots (sys_kpc (d_pc c)) (fws c) i.
       cells (wg_region (fws c) w) \<subseteq> {unat (FSA_LMEM_BASE am)..<unat (FSA_LMEM_BASE am) + unat (FSA_LMEM_SIZE am)} \<and>
       (\<forall>w' \<in> lmem_slots (sys_kpc (d_pc c)) (fws c) i.
          w \<noteq> w' \<longrightarrow> cells (wg_region (fws c) w) \<inter> cells (wg_region (fws c) w') = {}))"
proof -
  let ?L = "lmem_slots (sys_kpc (d_pc c)) (fws c) i" and ?a = "g_lmem_allocators (fws c) ! i"
  have o: "lmem_inv am ?a" "inj_on (wg_region (fws c)) ?L" "lmem_live ?a = wg_region (fws c) ` ?L"
    using reachable_launch(1) [OF assms(1)] assms(2) by (simp_all add: launch_inv_def lmem_owned_def)
  have t: "tiling (unat (FSA_LMEM_BASE am)) (unat (FSA_LMEM_SIZE am)) (abs_free ?a) (wg_region (fws c) ` ?L)"
    using o by (simp add: lmem_inv_def)
  have "cells (wg_region (fws c) w) \<inter> cells (wg_region (fws c) w') = {}" if "w \<in> ?L" "w' \<in> ?L" "w \<noteq> w'" for w w'
    using tiling_live_disjoint [OF t] that o(2) by (simp add: inj_on_eq_iff)
  then show ?thesis using o(3) tiling_live_window [OF t] by blast
qed

theorem local_memory_isolated_witness:
  "lmem_live (g_lmem_allocators (fws demo1_launched) ! 0) =
     wg_region (fws demo1_launched) ` lmem_slots KDone (fws demo1_launched) 0"
  using local_memory_isolated [OF demo1_launched_reachable, of 0] demo1_launched_regs by simp

section \<open>Mutual exclusion and quiescence\<close>

text \<open>
  C33. The dispatcher serialises the work: in every reachable state, while it handles a packet, launches a
  kernel or starts a cache operation no copy is active, and while it launches a kernel no other
  kernel is active.
\<close>

theorem dispatch_exclusive:
  assumes "cp_reachable am packet_fits c"
  shows "(in_hand (d_pc c) \<noteq> None \<longrightarrow> \<not> cp_memory_copy_is_active (fws c)) \<and>
    (\<forall>p k. d_pc c = DKernel p k \<longrightarrow> \<not> cp_memory_copy_is_active (fws c) \<and>
       (\<forall>kid. kernel_active (fws c) kid \<longrightarrow> pc_kid k = Some kid)) \<and>
    (\<forall>a n md tg. d_pc c = DCacheStart a n md tg \<longrightarrow> \<not> cp_memory_copy_is_active (fws c)) \<and>
    (d_pc c = DRebooted \<longrightarrow> \<not> cp_has_active_kernel_or_cache (fws c) \<and> \<not> cp_memory_copy_is_active (fws c))"
  using reachable_inv [OF assms] by (cases "d_pc c") (simp_all add: sys_inv_def)

lemma demo1_kernel_reachable: "cp_reachable small_addr_map packet_fits (demo1_host\<lparr>d_pc := DKernel demo_packet KAlloc, fws := demo1_fetched\<rparr>)"
  unfolding demo1_dispatch [symmetric] by (intro dsteps_reachable demo1_host_reachable)

theorem dispatch_exclusive_witness: "\<not> cp_memory_copy_is_active demo1_fetched"
  using dispatch_exclusive [OF demo1_kernel_reachable] by simp

text \<open>
  When no kernel is active, as after a barrier and before the jump to the boot ROM, the machine holds
  nothing of earlier kernels: no work-group slot is in use, every SM's local memory is
  entirely free, and no SM holds a work-group pointer in a register or inside.
\<close>

lemma quiescent_is_empty:
  assumes "cp_reachable am packet_fits c" and "\<forall>kid. \<not> kernel_active (fws c) kid"
  shows "used_slots (fws c) = {} \<and> hw_ptrs (fws c) (residents c) = {#} \<and>
    (\<forall>i < unat (g_num_sm (fws c)). lmem_live (g_lmem_allocators (fws c) ! i) = {})"
proof -
  note l = reachable_launch [OF assms(1)]
  have u: "used_slots (fws c) = {}"
    using l(1) assms(2) by (fastforce simp: launch_inv_def kernel_inv_def slots_ok_def)
  then show ?thesis
    using l(1) by (simp add: launch_inv_def hw_owned_def launched_slots_def lmem_owned_def lmem_slots_def)
qed

section \<open>Completions\<close>

lemma pool_publish_cong:
  "completion_pool t = completion_pool s \<Longrightarrow> boot_generation t = boot_generation s \<Longrightarrow>
   completion_advance (completion_pool s) (completion_pool (cp_publish_completion tk r t))"
  using publish_advance [of t tk r] by simp

lemma failure_advance: "completion_advance (completion_pool s) (completion_pool (signal_kernel_failure p r s))"
  by (simp add: signal_kernel_failure_def pool_publish_cong)

lemma kernel_step_advance:
  assumes "kernel_dispatch_step am p pc s = (pc', s')"
  shows "completion_advance (completion_pool s) (completion_pool s')"
proof (cases pc)
  case KAlloc
  then show ?thesis
    using assms failure_advance [of "kernel_begin p (nat (cp_kernel_state_buf_alloc s)) s"]
    by (auto simp: kernel_alloc_step_def Let_def cp_kernel_state_buf_free_def kernel_begin_def
        split: if_splits prod.splits)
next
  case (KSm kid w x y z b)
  show ?thesis
  proof (cases "sm_alloc am (ucast (wg_local_memory_size w)) s")
    case (Some q)
    obtain i base s1 where q: "q = (i, base, s1)" by (cases q)
    from sm_alloc_frame(3) [OF Some [unfolded q]] have "completion_pool s1 = completion_pool s" by auto
    then show ?thesis using assms KSm Some q by (auto simp: kernel_sm_step_def Let_def split: option.splits if_splits)
  qed (use assms KSm in \<open>simp add: kernel_sm_step_def\<close>)
qed (use assms in \<open>auto simp: claim_cache_state_def cache_claim_now_def cache_release_def
    kernel_wgi_step_def cp_wgi_buf_alloc_def kernel_remap_step_def kernel_enq_step_def Let_def
    split: option.splits if_splits prod.splits CpStackRemapStatus.splits\<close>)

lemma handle_advance:
  "completion_advance (completion_pool s) (completion_pool (snd (dispatch_handle am cmd s)))"
  by (auto simp: dispatch_handle_def Let_def kernel_result_def kernel_dispatch_entry_def cache_packet_def
      cp_cache_handle_packet_def fail_host_token_if_present_def publish_advance failure_advance submit_advance
      split: if_splits)

lemma dispatch_advance:
  "completion_advance (completion_pool s) (completion_pool (snd (cp_dispatch am pc s)))"
proof (cases pc)
  case (DHandle cmd)
  then show ?thesis using handle_advance by simp
next
  case (DKernel p k)
  obtain k' s' where "kernel_dispatch_step am p k s = (k', s')" by (cases "kernel_dispatch_step am p k s")
  with DKernel kernel_step_advance show ?thesis by (simp add: kernel_result_def)
qed (auto simp: dispatch_top_def dispatch_poll_def dispatch_fetch_def dispatch_barrier_def claim_cache_state_def
    reboot_finish_def publish_advance split: option.splits)

lemma count_down_advance:
  "completion_advance (completion_pool s) (completion_pool (kernel_count_down r st ptr kid s))"
proof -
  have fin: "completion_advance (completion_pool t) (completion_pool (kernel_finish ptr kid t))" for t
    by (simp add: kernel_finish_def Let_def cp_kernel_state_buf_free_def pool_publish_cong)
  show ?thesis
    unfolding kernel_count_down_def Let_def
    using fin [of "upd_kstate kid (\<lambda>k. k\<lparr>ks_wg_left := ks_wg_left k - 1\<rparr>) s"]
      fin [of "upd_kstate kid (\<lambda>k. k\<lparr>ks_result := r, ks_status := st\<rparr>) (upd_kstate kid (\<lambda>k. k\<lparr>ks_wg_left := ks_wg_left k - 1\<rparr>) s)"]
    by simp
qed

lemma retire_advance:
  assumes "cp_retire_sm am s = Retired s'"
  shows "completion_advance (completion_pool s) (completion_pool s')"
proof -
  have "completion_advance (completion_pool s) (completion_pool (kernel_count_down r st ptr kid (free_wg am b w (clear_deq i s))))"
    for r st ptr kid b w i
    using count_down_advance [of "free_wg am b w (clear_deq i s)"] by (simp add: free_wg_frame clear_deq_frame)
  then show ?thesis
    using assms by (auto simp: cp_retire_sm_def Let_def free_wg_frame clear_deq_frame split: option.splits if_splits)
qed

text \<open>
  C17. Completions only advance: whatever task of the firmware runs, in whatever state, a slot of the
  completion pool either keeps its value or goes from pending to another result under the same
  allocation tag. In particular a result that the host has seen never changes.
\<close>

theorem completions_only_advance:
  shows "completion_advance (completion_pool s) (completion_pool (snd (cp_dispatch am pc s))) \<and>
    (\<forall>s'. cp_retire_sm am s = Retired s' \<longrightarrow> completion_advance (completion_pool s) (completion_pool s')) \<and>
    (\<forall>s'. cp_retire_cache s = Some s' \<longrightarrow> completion_advance (completion_pool s) (completion_pool s')) \<and>
    completion_advance (completion_pool s) (completion_pool (cp_memory_copy_task s))"
proof -
  have "completion_advance (completion_pool s) (completion_pool s')" if "cp_retire_cache s = Some s'" for s'
    using that by (auto simp: cp_retire_cache_def Let_def cache_release_def publish_advance pool_publish_cong split: if_splits)
  then show ?thesis using dispatch_advance retire_advance copy_task_advance by blast
qed

theorem completions_only_advance_witness:
  "\<exists>s'. cp_retire_sm small_addr_map (fws demo1_done) = Retired s' \<and>
     completion_advance (completion_pool (fws demo1_done)) (completion_pool s')"
  using demo1_retires completions_only_advance [of "fws demo1_done" small_addr_map] by blast

lemma booting_generation:
  "(ucast (boot_generation (cp_firmware_status_booting s)) :: u16) \<noteq> ucast (FW_BOOT_GENERATION (cp s))"
proof -
  have "(ucast (g + 1) :: u16) \<noteq> ucast g" for g :: u64
  proof
    assume "(ucast (g + 1) :: u16) = ucast g"
    then have "bit (ucast (g + 1) :: u16) 0 = bit (ucast g :: u16) 0" by simp
    then have "bit (g + 1) 0 = bit g 0" by (simp only: bit_ucast_iff) simp
    then show False by (simp add: bit_0)
  qed
  moreover have "g = UINT64_MAX" if "g + 1 = 0" for g :: u64
    using that by (simp add: add_eq_0_iff2)
  ultimately show ?thesis
    by (auto simp: cp_firmware_status_booting_def Let_def)
qed

lemma fw_main_generation:
  assumes "fw_main am s = Some s'"
  shows "boot_generation s' = boot_generation (cp_firmware_status_booting s)"
proof -
  from fw_main_Some [OF assms] obtain s1 s2 allocs where
    h: "cp_hwinfo_init am (cp_firmware_status_booting s) = Some s1" and wi: "cp_wgi_buf_init am s1 = Some (0, s2)"
    and s': "s' = reset_stack_remaps am (s2\<lparr>g_lmem_allocators := allocs\<rparr>)" by blast
  have "boot_generation s2 = boot_generation s1"
    using wi by (auto simp: cp_wgi_buf_init_def Let_def split: if_splits option.splits)
  then show ?thesis using hwinfo_init_frame [OF h] by (auto simp: s' reset_stack_remaps_def)
qed

text \<open>
  A token does not survive a reboot: every boot changes the generation that tokens carry, so
  after a boot a token of the previous boot is not pending, whatever the pool holds, and
  publishing it changes nothing.
\<close>

lemma reboot_invalidates_tokens:
  assumes b: "fw_main am s0 = Some s"
    and old: "fsa_completion_token_boot_generation token = ucast (FW_BOOT_GENERATION (cp s0))"
  shows "\<not> cp_completion_is_pending (s\<lparr>completion_pool := pool\<rparr>) token \<and>
    cp_publish_completion token result (s\<lparr>completion_pool := pool\<rparr>) = s\<lparr>completion_pool := pool\<rparr>"
proof -
  have g: "boot_generation s = boot_generation (cp_firmware_status_booting s0)" 
    using b by (rule fw_main_generation)
  have "(ucast (boot_generation (cp_firmware_status_booting s0)) :: u16) \<noteq> ucast (FW_BOOT_GENERATION (cp s0))"
    by (rule booting_generation)
  then have "\<not> cp_completion_is_pending (s\<lparr>completion_pool := pool\<rparr>) token"
    using old by (simp add: cp_completion_is_pending_def cp_firmware_boot_generation_def g)
  then show ?thesis by (simp add: cp_publish_completion_def)
qed

end
