(* ===== verification/Host_Firmware.thy ===== *)
theory Host_Firmware
  imports Hal_Order Hal_Memory Fw_Guarantees
begin

text \<open>
  Host and firmware together: the completion slots as the channel from the firmware to the host, and the commands as
  the host builds them and the firmware takes them apart.
\<close>

section \<open>The completion channel\<close>

text \<open>
  What the two sides rely on: a publication for a token that is not pending does nothing, one for a pending token is what the
  host then reads, and publications for other tokens are not seen.
\<close>

locale completion_channel =
  fixes inv :: "'s \<Rightarrow> bool"
    and pending :: "'s \<Rightarrow> 't \<Rightarrow> bool"
    and publish :: "'t \<Rightarrow> 'r \<Rightarrow> 's \<Rightarrow> 's"
    and observe :: "'s \<Rightarrow> 't \<Rightarrow> 'r option"
    and unset :: 'r
  assumes publish_inv: "inv s \<Longrightarrow> inv (publish t r s)"
    and pending_observe: "pending s t \<Longrightarrow> observe s t = Some unset"
    and publish_observe: "inv s \<Longrightarrow> pending s t \<Longrightarrow> observe (publish t r s) t = Some r"
    and publish_pending: "inv s \<Longrightarrow> pending s t \<Longrightarrow> pending (publish t r s) t \<longleftrightarrow> r = unset"
    and publish_ignored: "\<not> pending s t \<Longrightarrow> publish t r s = s"
    and observe_other: "inv s \<Longrightarrow> t' \<noteq> t \<Longrightarrow> observe (publish t' r s) t = observe s t"
    and pending_other: "inv s \<Longrightarrow> t' \<noteq> t \<Longrightarrow> pending (publish t' r s) t = pending s t"
begin

definition publish_all :: "('t \<times> 'r) list \<Rightarrow> 's \<Rightarrow> 's" where
  "publish_all ps s = fold (\<lambda>(t, r). publish t r) ps s"

definition first_result :: "'t \<Rightarrow> ('t \<times> 'r) list \<Rightarrow> 'r option" where
  "first_result t ps = map_option snd (find (\<lambda>(t', r). t' = t \<and> r \<noteq> unset) ps)"

lemma settled:
  assumes "inv s" and "\<not> pending s t"
  shows "observe (publish_all ps s) t = observe s t"
  using assms
proof (induction ps arbitrary: s)
  case (Cons p ps)
  obtain t' r where p: "p = (t', r)" by fastforce
  show ?case
  proof (cases "t' = t")
    case True
    then show ?thesis using Cons publish_ignored [OF Cons(3)] by (simp add: publish_all_def p)
  next
    case False
    then show ?thesis
      using Cons(1) [OF publish_inv [OF Cons(2)], of t' r] pending_other [OF Cons(2) False] observe_other [OF Cons(2) False] Cons(3)
      by (simp add: publish_all_def p)
  qed
qed (simp add: publish_all_def)

lemma first_result_wins:
  assumes "inv s" and "pending s t"
  shows "observe (publish_all ps s) t = Some (case first_result t ps of None \<Rightarrow> unset | Some r \<Rightarrow> r)"
  using assms
proof (induction ps arbitrary: s)
  case Nil
  then show ?case by (simp add: publish_all_def first_result_def pending_observe)
next
  case (Cons p ps)
  obtain t' r where p: "p = (t', r)" by fastforce
  note inv' = publish_inv [OF Cons(2), of t' r]
  have step: "publish_all (p # ps) s = publish_all ps (publish t' r s)" by (simp add: publish_all_def p)
  show ?case
  proof (cases "t' = t \<and> r \<noteq> unset")
    case True
    then have "observe (publish_all ps (publish t' r s)) t = Some r"
      using settled [OF inv', of t ps] publish_pending [OF Cons(2,3)] publish_observe [OF Cons(2,3)] by simp
    then show ?thesis unfolding step using True by (simp add: first_result_def p)
  next
    case False
    then have "pending (publish t' r s) t"
      using publish_pending [OF Cons(2,3)] pending_other [OF Cons(2), of t' t r] Cons(3) by (cases "t' = t") auto
    moreover have "first_result t (p # ps) = first_result t ps" using False by (auto simp: first_result_def p)
    ultimately show ?thesis unfolding step using Cons(1) [OF inv'] by simp
  qed
qed

end

text \<open>What the host reads for a token from the pool: the result, if the slot carries the token's tag.\<close>

definition observed_result :: "fw \<Rightarrow> FsaCompletionToken \<Rightarrow> FsaCompletionResult option" where
  "observed_result f t = (let slot = completion_pool f ! token_slot t
     in if fsa_completion_slot_alloc_tag slot = fsa_completion_token_alloc_tag t then Some (fsa_completion_slot_result slot) else None)"

lemma observed_other:
  assumes "pool_ok f" and "t' \<noteq> t"
  shows "observed_result (cp_publish_completion t' r f) t = observed_result f t"
proof (cases "cp_completion_is_pending f t' \<and> token_slot t' = token_slot t")
  case True
  then have "fsa_completion_token_slot_index t' = fsa_completion_token_slot_index t" by (simp add: word_eq_iff_unat)
  then have tag: "fsa_completion_token_alloc_tag t' \<noteq> fsa_completion_token_alloc_tag t" using assms(2) token_eqI by blast
  then show ?thesis
    using True publish_slot [of f t' r] assms(1)
    by (auto simp: observed_result_def cp_completion_is_pending_def Let_def abi_simps)
next
  case False
  then show ?thesis using publish_other_slot [of "token_slot t" t' r f]
    by (auto simp: observed_result_def Let_def cp_publish_completion_def)
qed

interpretation channel: completion_channel pool_ok cp_completion_is_pending cp_publish_completion observed_result
  FSA_COMPLETION_RESULT_PENDING
proof
  fix s :: fw and t t' :: FsaCompletionToken and r :: FsaCompletionResult
  show "pool_ok s \<Longrightarrow> pool_ok (cp_publish_completion t r s)" by (simp add: pool_ok_def)
  show "cp_completion_is_pending s t \<Longrightarrow> observed_result s t = Some FSA_COMPLETION_RESULT_PENDING"
    by (simp add: observed_result_def cp_completion_is_pending_def Let_def)
  show "pool_ok s \<Longrightarrow> cp_completion_is_pending s t \<Longrightarrow> observed_result (cp_publish_completion t r s) t = Some r"
    using publish_slot [of s t r] by (simp add: observed_result_def abi_simps)
  show "pool_ok s \<Longrightarrow> cp_completion_is_pending s t \<Longrightarrow>
      cp_completion_is_pending (cp_publish_completion t r s) t \<longleftrightarrow> r = FSA_COMPLETION_RESULT_PENDING"
    using publish_slot [of s t r]
    by (auto simp: cp_completion_is_pending_def Let_def abi_simps cp_firmware_boot_generation_def)
  show "\<not> cp_completion_is_pending s t \<Longrightarrow> cp_publish_completion t r s = s" by (simp add: cp_publish_completion_def)
  show "pool_ok s \<Longrightarrow> t' \<noteq> t \<Longrightarrow> observed_result (cp_publish_completion t' r s) t = observed_result s t" by (rule observed_other)
  show "pool_ok s \<Longrightarrow> t' \<noteq> t \<Longrightarrow> cp_completion_is_pending (cp_publish_completion t' r s) t = cp_completion_is_pending s t"
    using publish_pending_other [of s t t' r] by simp
qed

section \<open>From submission to result\<close>

lemma find_token_slot:
  assumes "find_completion_slot t h = Some i"
  shows "i = token_slot t" "fsa_completion_token_has_valid_slot t"
  using assms by (auto simp: find_completion_slot_def Let_def split: if_splits)

lemma submitted_pending:
  assumes "fsa_completion_token_has_valid_slot t" and "ucast (boot_generation f) = fsa_completion_token_boot_generation t"
    and "completion_pool f ! token_slot t = fsa_completion_slot_encode (fsa_completion_token_alloc_tag t) FSA_COMPLETION_RESULT_PENDING"
  shows "cp_completion_is_pending f t"
  using assms by (simp add: cp_completion_is_pending_def Let_def cp_firmware_boot_generation_def abi_simps)

text \<open>
  C8. From submission to result: the slot as the host's submission writes it makes its token pending for a firmware of
  the token's boot. Whatever the firmware then publishes, for this and for other tokens, a poll that reads
  the pool reports pending until the first result for this token, and that result from then on.
\<close>

theorem completion_handshake:
  assumes "find_completion_slot t h = Some i" and "\<not> firmware_session_failed h"
    and "pool_ok f" and "ucast (boot_generation f) = fsa_completion_token_boot_generation t"
    and "completion_pool f ! i = fsa_completion_slot_encode (fsa_completion_token_alloc_tag t) FSA_COMPLETION_RESULT_PENDING"
    and "f' = fold (\<lambda>(t, r). cp_publish_completion t r) published f"
    and "read_firmware_snapshot hm h = (Some (boot_generation f), h1)"
    and "copy_from_scratchpad (FSA_COMPLETION_POOL_BASE hm + of_nat i * 8) 8 h1 = (0, le_bytes 8 (completion_pool f' ! i), h2)"
    and "\<not> transport_failed h2"
  shows "cp_completion_is_pending f t \<and>
    fsa_poll_completion hm t h =
      (case find (\<lambda>(t', r). t' = t \<and> r \<noteq> FSA_COMPLETION_RESULT_PENDING) published of
         None \<Rightarrow> (FsaCompletionPollPending, Some FSA_COMPLETION_RESULT_PENDING, h2)
       | Some (_, r) \<Rightarrow> (FsaCompletionPollTerminal, Some r, h2))"
proof -
  note i = find_token_slot [OF assms(1)]
  have p: "cp_completion_is_pending f t" using submitted_pending [OF i(2) assms(4)] assms(5) i(1) by simp
  have f': "f' = channel.publish_all published f" by (simp add: assms(6) channel.publish_all_def)
  have o: "observed_result f' t = Some (case channel.first_result t published of None \<Rightarrow> FSA_COMPLETION_RESULT_PENDING | Some r \<Rightarrow> r)"
    unfolding f' by (rule channel.first_result_wins [OF assms(3) p])
  have w: "le_word (le_bytes 8 (completion_pool f' ! i)) = completion_pool f' ! i" by (simp add: le_word_le_bytes)
  have r: "r \<noteq> FSA_COMPLETION_RESULT_PENDING" if "channel.first_result t published = Some r" for r
    using that by (auto simp: channel.first_result_def find_Some_iff)
  have "fsa_poll_completion hm t h =
      (case channel.first_result t published of None \<Rightarrow> (FsaCompletionPollPending, Some FSA_COMPLETION_RESULT_PENDING, h2)
       | Some r \<Rightarrow> (FsaCompletionPollTerminal, Some r, h2))"
    using o r assms(1,2,4,7-9) i(1) w
    by (auto simp: fsa_poll_completion_def firmware_rebooted_def observed_result_def Let_def split: option.splits if_splits)
  then show ?thesis using p by (simp add: channel.first_result_def case_prod_unfold split: option.splits)
qed

section \<open>Commands as the firmware reads them\<close>



























text \<open>A host that polls a barrier which the firmware above has completed.\<close>

definition demo_poller :: hal where
  "demo_poller = (demo_hal [demo_data 1, demo_data 0x1000000010001])\<lparr>completion_slots :=
     replicate 3 empty_slot @ \<lparr>slot_in_use = True, slot_token = demo_token\<rparr> # replicate 60 empty_slot\<rparr>"

theorem completion_handshake_witness:
  "fst (fsa_poll_completion demo_hal_map demo_token demo_poller) = FsaCompletionPollTerminal \<and>
   fst (snd (fsa_poll_completion demo_hal_map demo_token demo_poller)) = Some FSA_COMPLETION_RESULT_SUCCESS"
proof -
  let ?h1 = "snd (read_firmware_snapshot demo_hal_map demo_poller)"
  let ?r = "copy_from_scratchpad (FSA_COMPLETION_POOL_BASE demo_hal_map + of_nat 3 * 8) 8 ?h1"
  let ?f = "fold (\<lambda>(t, r). cp_publish_completion t r) [(demo_token, FSA_COMPLETION_RESULT_SUCCESS)] demo_ready"
  have sl: "token_slot demo_token = 3" by (simp add: demo_token_def abi_simps)
  have f: "find_completion_slot demo_token demo_poller = Some 3" "\<not> firmware_session_failed demo_poller" by code_simp+
  have g: "ucast (boot_generation demo_ready) = fsa_completion_token_boot_generation demo_token"
      "completion_pool demo_ready ! 3 = fsa_completion_slot_encode (fsa_completion_token_alloc_tag demo_token) FSA_COMPLETION_RESULT_PENDING"
    by (simp_all add: demo_ready_def demo_token_def abi_simps)
  have "completion_pool ?f ! 3 = fsa_completion_slot_encode (fsa_completion_token_alloc_tag demo_token) FSA_COMPLETION_RESULT_SUCCESS"
    using publish_slot [OF demo_pending demo_pool_ok] sl by simp
  also have "\<dots> = 0x1000000010001" by code_simp
  finally have w: "completion_pool ?f ! 3 = 0x1000000010001" .
  have "fst (read_firmware_snapshot demo_hal_map demo_poller) = Some 1" by code_simp
  then have s: "read_firmware_snapshot demo_hal_map demo_poller = (Some (boot_generation demo_ready), ?h1)"
    by (simp add: demo_ready_def prod_eq_iff)
  have "fst ?r = 0" "fst (snd ?r) = le_bytes 8 (0x1000000010001 :: u64)" "\<not> transport_failed (snd (snd ?r))" by code_simp+
  then have c: "?r = (0, le_bytes 8 (completion_pool ?f ! 3), snd (snd ?r))" "\<not> transport_failed (snd (snd ?r))"
    using w by (simp_all add: prod_eq_iff)
  from completion_handshake [OF f demo_pool_ok g refl s c] show ?thesis by (simp add: completion_result_defs)
qed

end
