(* ===== verification/Rv64_Isa.thy ===== *)
theory Rv64_Isa
  imports Prelude
begin

text \<open>
  The instruction set of the command processor's RV64 interpreter: the enumerations of
  \<^verbatim>\<open>rv64/riscv.h\<close> and \<^verbatim>\<open>rv64/trap.h\<close>, the bit macros of \<^verbatim>\<open>rv64/util.h\<close>, the field and immediate
  accessors of \<^verbatim>\<open>struct Instruction\<close> (\<^verbatim>\<open>rv64/instr.h\<close>), the mask and encoding constants of
  \<^verbatim>\<open>rv64/instr.cc\<close> and its \<^verbatim>\<open>getType\<close>.  The flat C++ enumeration \<^verbatim>\<open>Opcode::Mapping\<close> is split along
  the extension headings its declaration carries.
\<close>

section \<open>Enumerations\<close>

type_synonym PrivilegeLevel = u32

abbreviation (input) MachineMode :: PrivilegeLevel where "MachineMode \<equiv> 0b11"
abbreviation (input) HypervisorMode :: PrivilegeLevel where "HypervisorMode \<equiv> 0b10"
abbreviation (input) SupervisorMode :: PrivilegeLevel where "SupervisorMode \<equiv> 0b01"
abbreviation (input) UserMode :: PrivilegeLevel where "UserMode \<equiv> 0b00"
abbreviation (input) NoneMode :: PrivilegeLevel where "NoneMode \<equiv> 0xffffffff"

datatype CoreExecStatus = Runnable | HitBreakpoint | Terminated

datatype RV32I_op =
    LUI | AUIPC | JAL | JALR | BEQ | BNE | BLT | BGE | BLTU | BGEU | LB | LH | LW | LBU |
    LHU | SB | SH | SW | ADDI | SLTI | SLTIU | XORI | ORI | ANDI | SLLI | SRLI | SRAI |
    ADD | SUB | SLL | SLT | SLTU | XOR_op | SRL | SRA | OR_op | AND_op | FENCE | ECALL |
    EBREAK

datatype Zifencei_op =
    FENCE_I

datatype Zicsr_op =
    CSRRW | CSRRS | CSRRC | CSRRWI | CSRRSI | CSRRCI

datatype RV32M_op =
    MUL | MULH | MULHSU | MULHU | DIV | DIVU | REM | REMU

datatype RV32A_op =
    LR_W | SC_W | AMOSWAP_W | AMOADD_W | AMOXOR_W | AMOAND_W | AMOOR_W | AMOMIN_W |
    AMOMAX_W | AMOMINU_W | AMOMAXU_W

datatype RV64I_op =
    LWU | LD | SD | ADDIW | SLLIW | SRLIW | SRAIW | ADDW | SUBW | SLLW | SRLW | SRAW

datatype RV64M_op =
    MULW | DIVW | DIVUW | REMW | REMUW

datatype RV64A_op =
    LR_D | SC_D | AMOSWAP_D | AMOADD_D | AMOXOR_D | AMOAND_D | AMOOR_D | AMOMIN_D |
    AMOMAX_D | AMOMINU_D | AMOMAXU_D

datatype RV32F_op =
    FLW | FSW | FMADD_S | FMSUB_S | FNMADD_S | FNMSUB_S | FADD_S | FSUB_S | FMUL_S |
    FDIV_S | FSQRT_S | FSGNJ_S | FSGNJN_S | FSGNJX_S | FMIN_S | FMAX_S | FCVT_W_S |
    FCVT_WU_S | FMV_X_W | FEQ_S | FLT_S | FLE_S | FCLASS_S | FCVT_S_W | FCVT_S_WU |
    FMV_W_X

datatype RV64F_op =
    FCVT_L_S | FCVT_LU_S | FCVT_S_L | FCVT_S_LU

datatype RV32D_op =
    FLD | FSD | FMADD_D | FMSUB_D | FNMSUB_D | FNMADD_D | FADD_D | FSUB_D | FMUL_D |
    FDIV_D | FSQRT_D | FSGNJ_D | FSGNJN_D | FSGNJX_D | FMIN_D | FMAX_D | FCVT_S_D |
    FCVT_D_S | FEQ_D | FLT_D | FLE_D | FCLASS_D | FCVT_W_D | FCVT_WU_D | FCVT_D_W |
    FCVT_D_WU

datatype RV64D_op =
    FCVT_L_D | FCVT_LU_D | FMV_X_D | FCVT_D_L | FCVT_D_LU | FMV_D_X

datatype Privileged_op =
    URET | SRET | MRET | WFI | SFENCE_VMA

datatype Mapping =
    UNDEF
  | RV32I RV32I_op
  | Zifencei Zifencei_op
  | Zicsr Zicsr_op
  | RV32M RV32M_op
  | RV32A RV32A_op
  | RV64I RV64I_op
  | RV64M RV64M_op
  | RV64A RV64A_op
  | RV32F RV32F_op
  | RV64F RV64F_op
  | RV32D RV32D_op
  | RV64D RV64D_op
  | Privileged Privileged_op

datatype Type = Type_UNKNOWN | Type_R | Type_I | Type_S | Type_B | Type_U | Type_J | Type_R4

text \<open>The compressed opcodes of \<^verbatim>\<open>namespace Compressed\<close>, by quadrant.\<close>

datatype Compressed_Opcode =
    C_Illegal | C_Reserved | C_ADDI4SPN | C_FLD | C_LQ | C_LW | C_FLW | C_LD
  | C_FSD | C_SQ | C_SW | C_FSW | C_SD
  | C_NOP | C_ADDI | C_JAL | C_ADDIW | C_LI | C_ADDI16SP | C_LUI | C_SRLI | C_SRAI | C_ANDI
  | C_SUB | C_XOR | C_OR | C_AND | C_SUBW | C_ADDW | C_J | C_BEQZ | C_BNEZ
  | C_SLLI | C_FLDSP | C_LQSP | C_LWSP | C_FLWSP | C_LDSP | C_JR | C_MV | C_EBREAK | C_JALR
  | C_ADD | C_FSDSP | C_SQSP | C_SWSP | C_FSWSP | C_SDSP

section \<open>Bit macros\<close>

text \<open>
  The instruction word is kept in an \<^verbatim>\<open>int32_t\<close>, so a right shift of it is arithmetic; the
  macros that shift come in two readings, for a signed and for an unsigned operand.
\<close>

definition BIT_RANGE :: "u32 \<Rightarrow> nat \<Rightarrow> nat \<Rightarrow> u32" where
  "BIT_RANGE i upper lower = i AND push_bit lower (push_bit (upper - lower + 1) 1 - 1)"

definition BIT_SLICE :: "u32 \<Rightarrow> nat \<Rightarrow> nat \<Rightarrow> u32" where
  "BIT_SLICE i upper lower = signed_drop_bit lower (BIT_RANGE i upper lower)"

definition BIT_SLICE_U :: "u32 \<Rightarrow> nat \<Rightarrow> nat \<Rightarrow> u32" where
  "BIT_SLICE_U i upper lower = drop_bit lower (BIT_RANGE i upper lower)"

definition BIT_SINGLE :: "u32 \<Rightarrow> nat \<Rightarrow> u32" where
  "BIT_SINGLE i pos = i AND push_bit pos 1"

definition BIT_SINGLE_P1 :: "u32 \<Rightarrow> nat \<Rightarrow> u32" where
  "BIT_SINGLE_P1 i pos = signed_drop_bit pos (BIT_SINGLE i pos)"

definition BIT_SINGLE_P1_U :: "u32 \<Rightarrow> nat \<Rightarrow> u32" where
  "BIT_SINGLE_P1_U i pos = drop_bit pos (BIT_SINGLE i pos)"

definition BIT_SINGLE_PN :: "u32 \<Rightarrow> nat \<Rightarrow> nat \<Rightarrow> u32" where
  "BIT_SINGLE_PN i pos new_pos = push_bit new_pos (BIT_SINGLE_P1 i pos)"

definition BIT_SINGLE_PN_U :: "u32 \<Rightarrow> nat \<Rightarrow> nat \<Rightarrow> u32" where
  "BIT_SINGLE_PN_U i pos new_pos = push_bit new_pos (BIT_SINGLE_P1_U i pos)"

definition EXTRACT_SIGN_BIT :: "u32 \<Rightarrow> nat \<Rightarrow> nat \<Rightarrow> u32" where
  "EXTRACT_SIGN_BIT i pos new_pos = signed_drop_bit (31 - new_pos) (push_bit 31 (BIT_SINGLE_P1 i pos))"

section \<open>Fields of an instruction\<close>

type_synonym Instruction = u32

definition quadrant :: "Instruction \<Rightarrow> u32" where
  "quadrant i = i AND 0x3"

definition is_compressed :: "Instruction \<Rightarrow> bool" where
  "is_compressed i \<longleftrightarrow> quadrant i < 3"

definition c_format :: "Instruction \<Rightarrow> u32" where
  "c_format i = i AND 0xffff"

definition c_opcode :: "Instruction \<Rightarrow> u32" where
  "c_opcode i = BIT_SLICE i 15 13"

definition c_b12 :: "Instruction \<Rightarrow> u32" where
  "c_b12 i = BIT_SINGLE_P1 i 12"

definition rd :: "Instruction \<Rightarrow> u32" where
  "rd i = signed_drop_bit 7 (BIT_RANGE i 11 7)"

definition c_rd :: "Instruction \<Rightarrow> u32" where
  "c_rd i = rd i"

definition c_rd_small :: "Instruction \<Rightarrow> u32" where
  "c_rd_small i = BIT_SLICE i 9 7 OR 8"

definition c_rs2_small :: "Instruction \<Rightarrow> u32" where
  "c_rs2_small i = BIT_SLICE i 4 2 OR 8"

definition c_rs2 :: "Instruction \<Rightarrow> u32" where
  "c_rs2 i = BIT_SLICE i 6 2"

definition c_imm :: "Instruction \<Rightarrow> u32" where
  "c_imm i = BIT_SLICE i 6 2 OR EXTRACT_SIGN_BIT i 12 5"

definition c_uimm :: "Instruction \<Rightarrow> u32" where
  "c_uimm i = BIT_SLICE i 6 2 OR push_bit 5 (BIT_SINGLE_P1 i 12)"

definition c_f2_high :: "Instruction \<Rightarrow> u32" where
  "c_f2_high i = BIT_SLICE i 11 10"

definition c_f2_low :: "Instruction \<Rightarrow> u32" where
  "c_f2_low i = BIT_SLICE i 6 5"

definition csr_field :: "Instruction \<Rightarrow> u32" where
  "csr_field i = drop_bit 20 (BIT_RANGE i 31 20)"

definition zimm :: "Instruction \<Rightarrow> u32" where
  "zimm i = signed_drop_bit 15 (BIT_RANGE i 19 15)"

definition instr_shamt :: "Instruction \<Rightarrow> u32" where
  "instr_shamt i = signed_drop_bit 20 (BIT_RANGE i 25 20)"

definition instr_shamt_w :: "Instruction \<Rightarrow> u32" where
  "instr_shamt_w i = signed_drop_bit 20 (BIT_RANGE i 24 20)"

definition funct2 :: "Instruction \<Rightarrow> u32" where
  "funct2 i = signed_drop_bit 25 (BIT_RANGE i 26 25)"

definition funct3 :: "Instruction \<Rightarrow> u32" where
  "funct3 i = signed_drop_bit 12 (BIT_RANGE i 14 12)"

definition funct12 :: "Instruction \<Rightarrow> u32" where
  "funct12 i = drop_bit 20 (BIT_RANGE i 31 20)"

definition funct7 :: "Instruction \<Rightarrow> u32" where
  "funct7 i = drop_bit 25 (BIT_RANGE i 31 25)"

definition funct6 :: "Instruction \<Rightarrow> u32" where
  "funct6 i = drop_bit 26 (BIT_RANGE i 31 26)"

definition funct5 :: "Instruction \<Rightarrow> u32" where
  "funct5 i = drop_bit 27 (BIT_RANGE i 31 27)"

definition opcode :: "Instruction \<Rightarrow> u32" where
  "opcode i = BIT_RANGE i 6 0"

definition rs1 :: "Instruction \<Rightarrow> u32" where
  "rs1 i = signed_drop_bit 15 (BIT_RANGE i 19 15)"

definition rs2 :: "Instruction \<Rightarrow> u32" where
  "rs2 i = signed_drop_bit 20 (BIT_RANGE i 24 20)"

definition J_imm :: "Instruction \<Rightarrow> u32" where
  "J_imm i = signed_drop_bit 11 (BIT_SINGLE i 31) OR BIT_RANGE i 19 12
     OR signed_drop_bit 9 (BIT_SINGLE i 20) OR signed_drop_bit 20 (BIT_RANGE i 30 21)"

definition I_imm :: "Instruction \<Rightarrow> u32" where
  "I_imm i = signed_drop_bit 20 (BIT_RANGE i 31 20)"

definition S_imm :: "Instruction \<Rightarrow> u32" where
  "S_imm i = signed_drop_bit 20 (BIT_RANGE i 31 25) OR signed_drop_bit 7 (BIT_RANGE i 11 7)"

definition B_imm :: "Instruction \<Rightarrow> u32" where
  "B_imm i = signed_drop_bit 19 (BIT_SINGLE i 31) OR push_bit 4 (BIT_SINGLE i 7)
     OR signed_drop_bit 20 (BIT_RANGE i 30 25) OR signed_drop_bit 7 (BIT_RANGE i 11 8)"

definition U_imm :: "Instruction \<Rightarrow> u32" where
  "U_imm i = BIT_RANGE i 31 12"

section \<open>Masks and encodings\<close>

text \<open>
  The pair of constants \<^verbatim>\<open>X_MASK\<close>, \<^verbatim>\<open>X_ENCODING\<close> of every instruction \<open>X\<close>; nothing matches \<open>UNDEF\<close>.
\<close>

fun RV32I_code :: "RV32I_op \<Rightarrow> u32 \<times> u32" where
  "RV32I_code LUI = (0x0000007F, 0x00000037)"
| "RV32I_code AUIPC = (0x0000007F, 0x00000017)"
| "RV32I_code JAL = (0x0000007F, 0x0000006F)"
| "RV32I_code JALR = (0x0000707F, 0x00000067)"
| "RV32I_code BEQ = (0x0000707F, 0x00000063)"
| "RV32I_code BNE = (0x0000707F, 0x00001063)"
| "RV32I_code BLT = (0x0000707F, 0x00004063)"
| "RV32I_code BGE = (0x0000707F, 0x00005063)"
| "RV32I_code BLTU = (0x0000707F, 0x00006063)"
| "RV32I_code BGEU = (0x0000707F, 0x00007063)"
| "RV32I_code LB = (0x0000707F, 0x00000003)"
| "RV32I_code LH = (0x0000707F, 0x00001003)"
| "RV32I_code LW = (0x0000707F, 0x00002003)"
| "RV32I_code LBU = (0x0000707F, 0x00004003)"
| "RV32I_code LHU = (0x0000707F, 0x00005003)"
| "RV32I_code SB = (0x0000707F, 0x00000023)"
| "RV32I_code SH = (0x0000707F, 0x00001023)"
| "RV32I_code SW = (0x0000707F, 0x00002023)"
| "RV32I_code ADDI = (0x0000707F, 0x00000013)"
| "RV32I_code SLTI = (0x0000707F, 0x00002013)"
| "RV32I_code SLTIU = (0x0000707F, 0x00003013)"
| "RV32I_code XORI = (0x0000707F, 0x00004013)"
| "RV32I_code ORI = (0x0000707F, 0x00006013)"
| "RV32I_code ANDI = (0x0000707F, 0x00007013)"
| "RV32I_code SLLI = (0xFC00707F, 0x00001013)"
| "RV32I_code SRLI = (0xFC00707F, 0x00005013)"
| "RV32I_code SRAI = (0xFC00707F, 0x40005013)"
| "RV32I_code ADD = (0xFE00707F, 0x00000033)"
| "RV32I_code SUB = (0xFE00707F, 0x40000033)"
| "RV32I_code SLL = (0xFE00707F, 0x00001033)"
| "RV32I_code SLT = (0xFE00707F, 0x00002033)"
| "RV32I_code SLTU = (0xFE00707F, 0x00003033)"
| "RV32I_code XOR_op = (0xFE00707F, 0x00004033)"
| "RV32I_code SRL = (0xFE00707F, 0x00005033)"
| "RV32I_code SRA = (0xFE00707F, 0x40005033)"
| "RV32I_code OR_op = (0xFE00707F, 0x00006033)"
| "RV32I_code AND_op = (0xFE00707F, 0x00007033)"
| "RV32I_code FENCE = (0x0000707F, 0x0000000F)"
| "RV32I_code ECALL = (0xFFFFFFFF, 0x00000073)"
| "RV32I_code EBREAK = (0xFFFFFFFF, 0x00100073)"

fun Zifencei_code :: "Zifencei_op \<Rightarrow> u32 \<times> u32" where
  "Zifencei_code FENCE_I = (0x0000707F, 0x0000100F)"

fun Zicsr_code :: "Zicsr_op \<Rightarrow> u32 \<times> u32" where
  "Zicsr_code CSRRW = (0x0000707F, 0x00001073)"
| "Zicsr_code CSRRS = (0x0000707F, 0x00002073)"
| "Zicsr_code CSRRC = (0x0000707F, 0x00003073)"
| "Zicsr_code CSRRWI = (0x0000707F, 0x00005073)"
| "Zicsr_code CSRRSI = (0x0000707F, 0x00006073)"
| "Zicsr_code CSRRCI = (0x0000707F, 0x00007073)"

fun RV32M_code :: "RV32M_op \<Rightarrow> u32 \<times> u32" where
  "RV32M_code MUL = (0xFE00707F, 0x02000033)"
| "RV32M_code MULH = (0xFE00707F, 0x02001033)"
| "RV32M_code MULHSU = (0xFE00707F, 0x02002033)"
| "RV32M_code MULHU = (0xFE00707F, 0x02003033)"
| "RV32M_code DIV = (0xFE00707F, 0x02004033)"
| "RV32M_code DIVU = (0xFE00707F, 0x02005033)"
| "RV32M_code REM = (0xFE00707F, 0x02006033)"
| "RV32M_code REMU = (0xFE00707F, 0x02007033)"

fun RV32A_code :: "RV32A_op \<Rightarrow> u32 \<times> u32" where
  "RV32A_code LR_W = (0xF9F0707F, 0x1000202F)"
| "RV32A_code SC_W = (0xF800707F, 0x1800202F)"
| "RV32A_code AMOSWAP_W = (0xF800707F, 0x0800202F)"
| "RV32A_code AMOADD_W = (0xF800707F, 0x0000202F)"
| "RV32A_code AMOXOR_W = (0xF800707F, 0x2000202F)"
| "RV32A_code AMOAND_W = (0xF800707F, 0x6000202F)"
| "RV32A_code AMOOR_W = (0xF800707F, 0x4000202F)"
| "RV32A_code AMOMIN_W = (0xF800707F, 0x8000202F)"
| "RV32A_code AMOMAX_W = (0xF800707F, 0xA000202F)"
| "RV32A_code AMOMINU_W = (0xF800707F, 0xC000202F)"
| "RV32A_code AMOMAXU_W = (0xF800707F, 0xE000202F)"

fun RV64I_code :: "RV64I_op \<Rightarrow> u32 \<times> u32" where
  "RV64I_code LWU = (0x0000707F, 0x00006003)"
| "RV64I_code LD = (0x0000707F, 0x00003003)"
| "RV64I_code SD = (0x0000707F, 0x00003023)"
| "RV64I_code ADDIW = (0x0000707F, 0x0000001B)"
| "RV64I_code SLLIW = (0xFE00707F, 0x0000101B)"
| "RV64I_code SRLIW = (0xFE00707F, 0x0000501B)"
| "RV64I_code SRAIW = (0xFE00707F, 0x4000501B)"
| "RV64I_code ADDW = (0xFE00707F, 0x0000003B)"
| "RV64I_code SUBW = (0xFE00707F, 0x4000003B)"
| "RV64I_code SLLW = (0xFE00707F, 0x0000103B)"
| "RV64I_code SRLW = (0xFE00707F, 0x0000503B)"
| "RV64I_code SRAW = (0xFE00707F, 0x4000503B)"

fun RV64M_code :: "RV64M_op \<Rightarrow> u32 \<times> u32" where
  "RV64M_code MULW = (0xFE00707F, 0x0200003B)"
| "RV64M_code DIVW = (0xFE00707F, 0x0200403B)"
| "RV64M_code DIVUW = (0xFE00707F, 0x0200503B)"
| "RV64M_code REMW = (0xFE00707F, 0x0200603B)"
| "RV64M_code REMUW = (0xFE00707F, 0x0200703B)"

fun RV64A_code :: "RV64A_op \<Rightarrow> u32 \<times> u32" where
  "RV64A_code LR_D = (0xF9F0707F, 0x1000302F)"
| "RV64A_code SC_D = (0xF800707F, 0x1800302F)"
| "RV64A_code AMOSWAP_D = (0xF800707F, 0x0800302F)"
| "RV64A_code AMOADD_D = (0xF800707F, 0x0000302F)"
| "RV64A_code AMOXOR_D = (0xF800707F, 0x2000302F)"
| "RV64A_code AMOAND_D = (0xF800707F, 0x6000302F)"
| "RV64A_code AMOOR_D = (0xF800707F, 0x4000302F)"
| "RV64A_code AMOMIN_D = (0xF800707F, 0x8000302F)"
| "RV64A_code AMOMAX_D = (0xF800707F, 0xA000302F)"
| "RV64A_code AMOMINU_D = (0xF800707F, 0xC000302F)"
| "RV64A_code AMOMAXU_D = (0xF800707F, 0xE000302F)"

fun RV32F_code :: "RV32F_op \<Rightarrow> u32 \<times> u32" where
  "RV32F_code FLW = (0x0000707F, 0x00002007)"
| "RV32F_code FSW = (0x0000707F, 0x00002027)"
| "RV32F_code FMADD_S = (0x0600007F, 0x00000043)"
| "RV32F_code FMSUB_S = (0x0600007F, 0x00000047)"
| "RV32F_code FNMADD_S = (0x0600007F, 0x0000004F)"
| "RV32F_code FNMSUB_S = (0x0600007F, 0x0000004B)"
| "RV32F_code FADD_S = (0xFE00007F, 0x00000053)"
| "RV32F_code FSUB_S = (0xFE00007F, 0x08000053)"
| "RV32F_code FMUL_S = (0xFE00007F, 0x10000053)"
| "RV32F_code FDIV_S = (0xFE00007F, 0x18000053)"
| "RV32F_code FSQRT_S = (0xFFF0007F, 0x58000053)"
| "RV32F_code FSGNJ_S = (0xFE00707F, 0x20000053)"
| "RV32F_code FSGNJN_S = (0xFE00707F, 0x20001053)"
| "RV32F_code FSGNJX_S = (0xFE00707F, 0x20002053)"
| "RV32F_code FMIN_S = (0xFE00707F, 0x28000053)"
| "RV32F_code FMAX_S = (0xFE00707F, 0x28001053)"
| "RV32F_code FCVT_W_S = (0xFFF0007F, 0xC0000053)"
| "RV32F_code FCVT_WU_S = (0xFFF0007F, 0xC0100053)"
| "RV32F_code FMV_X_W = (0xFFF0707F, 0xE0000053)"
| "RV32F_code FEQ_S = (0xFE00707F, 0xA0002053)"
| "RV32F_code FLT_S = (0xFE00707F, 0xA0001053)"
| "RV32F_code FLE_S = (0xFE00707F, 0xA0000053)"
| "RV32F_code FCLASS_S = (0xFFF0707F, 0xE0001053)"
| "RV32F_code FCVT_S_W = (0xFFF0007F, 0xD0000053)"
| "RV32F_code FCVT_S_WU = (0xFFF0007F, 0xD0100053)"
| "RV32F_code FMV_W_X = (0xFFF0707F, 0xF0000053)"

fun RV64F_code :: "RV64F_op \<Rightarrow> u32 \<times> u32" where
  "RV64F_code FCVT_L_S = (0xFFF0007F, 0xC0200053)"
| "RV64F_code FCVT_LU_S = (0xFFF0007F, 0xC0300053)"
| "RV64F_code FCVT_S_L = (0xFFF0007F, 0xD0200053)"
| "RV64F_code FCVT_S_LU = (0xFFF0007F, 0xD0300053)"

fun RV32D_code :: "RV32D_op \<Rightarrow> u32 \<times> u32" where
  "RV32D_code FLD = (0x0000707F, 0x00003007)"
| "RV32D_code FSD = (0x0000707F, 0x00003027)"
| "RV32D_code FMADD_D = (0x0600007F, 0x02000043)"
| "RV32D_code FMSUB_D = (0x0600007F, 0x02000047)"
| "RV32D_code FNMSUB_D = (0x0600007F, 0x0200004B)"
| "RV32D_code FNMADD_D = (0x0600007F, 0x0200004F)"
| "RV32D_code FADD_D = (0xFE00007F, 0x02000053)"
| "RV32D_code FSUB_D = (0xFE00007F, 0x0A000053)"
| "RV32D_code FMUL_D = (0xFE00007F, 0x12000053)"
| "RV32D_code FDIV_D = (0xFE00007F, 0x1A000053)"
| "RV32D_code FSQRT_D = (0xFFF0007F, 0x5A000053)"
| "RV32D_code FSGNJ_D = (0xFE00707F, 0x22000053)"
| "RV32D_code FSGNJN_D = (0xFE00707F, 0x22001053)"
| "RV32D_code FSGNJX_D = (0xFE00707F, 0x22002053)"
| "RV32D_code FMIN_D = (0xFE00707F, 0x2A000053)"
| "RV32D_code FMAX_D = (0xFE00707F, 0x2A001053)"
| "RV32D_code FCVT_S_D = (0xFFF0007F, 0x40100053)"
| "RV32D_code FCVT_D_S = (0xFFF0007F, 0x42000053)"
| "RV32D_code FEQ_D = (0xFE00707F, 0xA2002053)"
| "RV32D_code FLT_D = (0xFE00707F, 0xA2001053)"
| "RV32D_code FLE_D = (0xFE00707F, 0xA2000053)"
| "RV32D_code FCLASS_D = (0xFFF0707F, 0xE2001053)"
| "RV32D_code FCVT_W_D = (0xFFF0007F, 0xC2000053)"
| "RV32D_code FCVT_WU_D = (0xFFF0007F, 0xC2100053)"
| "RV32D_code FCVT_D_W = (0xFFF0007F, 0xD2000053)"
| "RV32D_code FCVT_D_WU = (0xFFF0007F, 0xD2100053)"

fun RV64D_code :: "RV64D_op \<Rightarrow> u32 \<times> u32" where
  "RV64D_code FCVT_L_D = (0xFFF0007F, 0xC2200053)"
| "RV64D_code FCVT_LU_D = (0xFFF0007F, 0xC2300053)"
| "RV64D_code FMV_X_D = (0xFFF0707F, 0xE2000053)"
| "RV64D_code FCVT_D_L = (0xFFF0007F, 0xD2200053)"
| "RV64D_code FCVT_D_LU = (0xFFF0007F, 0xD2300053)"
| "RV64D_code FMV_D_X = (0xFFF0707F, 0xF2000053)"

fun Privileged_code :: "Privileged_op \<Rightarrow> u32 \<times> u32" where
  "Privileged_code URET = (0xFFFFFFFF, 0x00200073)"
| "Privileged_code SRET = (0xFFFFFFFF, 0x10200073)"
| "Privileged_code MRET = (0xFFFFFFFF, 0x30200073)"
| "Privileged_code WFI = (0xFFFFFFFF, 0x10500073)"
| "Privileged_code SFENCE_VMA = (0xFE007FFF, 0x12000073)"

fun instr_code :: "Mapping \<Rightarrow> u32 \<times> u32" where
  "instr_code UNDEF = (0, 1)"
| "instr_code (RV32I c) = RV32I_code c"
| "instr_code (Zifencei c) = Zifencei_code c"
| "instr_code (Zicsr c) = Zicsr_code c"
| "instr_code (RV32M c) = RV32M_code c"
| "instr_code (RV32A c) = RV32A_code c"
| "instr_code (RV64I c) = RV64I_code c"
| "instr_code (RV64M c) = RV64M_code c"
| "instr_code (RV64A c) = RV64A_code c"
| "instr_code (RV32F c) = RV32F_code c"
| "instr_code (RV64F c) = RV64F_code c"
| "instr_code (RV32D c) = RV32D_code c"
| "instr_code (RV64D c) = RV64D_code c"
| "instr_code (Privileged c) = Privileged_code c"

definition matches :: "Instruction \<Rightarrow> Mapping \<Rightarrow> bool" where
  "matches i op \<longleftrightarrow> i AND fst (instr_code op) = snd (instr_code op)"

text \<open>The macro \<^verbatim>\<open>MATCH_AND_RETURN_INSTR\<close>.\<close>

definition match_and_return :: "Instruction \<Rightarrow> Mapping \<Rightarrow> Mapping" where
  "match_and_return i op = (if matches i op then op else UNDEF)"

section \<open>Instruction formats\<close>

fun RV32I_type :: "RV32I_op \<Rightarrow> Type" where
  "RV32I_type LUI = Type_U"
| "RV32I_type AUIPC = Type_U"
| "RV32I_type JAL = Type_J"
| "RV32I_type JALR = Type_I"
| "RV32I_type BEQ = Type_B"
| "RV32I_type BNE = Type_B"
| "RV32I_type BLT = Type_B"
| "RV32I_type BGE = Type_B"
| "RV32I_type BLTU = Type_B"
| "RV32I_type BGEU = Type_B"
| "RV32I_type LB = Type_I"
| "RV32I_type LH = Type_I"
| "RV32I_type LW = Type_I"
| "RV32I_type LBU = Type_I"
| "RV32I_type LHU = Type_I"
| "RV32I_type SB = Type_S"
| "RV32I_type SH = Type_S"
| "RV32I_type SW = Type_S"
| "RV32I_type ADDI = Type_I"
| "RV32I_type SLTI = Type_I"
| "RV32I_type SLTIU = Type_I"
| "RV32I_type XORI = Type_I"
| "RV32I_type ORI = Type_I"
| "RV32I_type ANDI = Type_I"
| "RV32I_type SLLI = Type_R"
| "RV32I_type SRLI = Type_R"
| "RV32I_type SRAI = Type_R"
| "RV32I_type ADD = Type_R"
| "RV32I_type SUB = Type_R"
| "RV32I_type SLL = Type_R"
| "RV32I_type SLT = Type_R"
| "RV32I_type SLTU = Type_R"
| "RV32I_type XOR_op = Type_R"
| "RV32I_type SRL = Type_R"
| "RV32I_type SRA = Type_R"
| "RV32I_type OR_op = Type_R"
| "RV32I_type AND_op = Type_R"
| "RV32I_type FENCE = Type_UNKNOWN"
| "RV32I_type ECALL = Type_UNKNOWN"
| "RV32I_type EBREAK = Type_UNKNOWN"

fun RV64I_type :: "RV64I_op \<Rightarrow> Type" where
  "RV64I_type LWU = Type_I"
| "RV64I_type LD = Type_I"
| "RV64I_type SD = Type_S"
| "RV64I_type ADDIW = Type_I"
| "RV64I_type SLLIW = Type_I"
| "RV64I_type SRLIW = Type_I"
| "RV64I_type SRAIW = Type_I"
| "RV64I_type ADDW = Type_R"
| "RV64I_type SUBW = Type_R"
| "RV64I_type SLLW = Type_R"
| "RV64I_type SRLW = Type_R"
| "RV64I_type SRAW = Type_R"

fun RV32F_type :: "RV32F_op \<Rightarrow> Type" where
  "RV32F_type FLW = Type_I"
| "RV32F_type FSW = Type_S"
| "RV32F_type FMADD_S = Type_R4"
| "RV32F_type FMSUB_S = Type_R4"
| "RV32F_type FNMADD_S = Type_R4"
| "RV32F_type FNMSUB_S = Type_R4"
| "RV32F_type FADD_S = Type_R"
| "RV32F_type FSUB_S = Type_R"
| "RV32F_type FMUL_S = Type_R"
| "RV32F_type FDIV_S = Type_R"
| "RV32F_type FSQRT_S = Type_R"
| "RV32F_type FSGNJ_S = Type_R"
| "RV32F_type FSGNJN_S = Type_R"
| "RV32F_type FSGNJX_S = Type_R"
| "RV32F_type FMIN_S = Type_R"
| "RV32F_type FMAX_S = Type_R"
| "RV32F_type FCVT_W_S = Type_R"
| "RV32F_type FCVT_WU_S = Type_R"
| "RV32F_type FMV_X_W = Type_R"
| "RV32F_type FEQ_S = Type_R"
| "RV32F_type FLT_S = Type_R"
| "RV32F_type FLE_S = Type_R"
| "RV32F_type FCLASS_S = Type_R"
| "RV32F_type FCVT_S_W = Type_R"
| "RV32F_type FCVT_S_WU = Type_R"
| "RV32F_type FMV_W_X = Type_R"

fun RV32D_type :: "RV32D_op \<Rightarrow> Type" where
  "RV32D_type FLD = Type_I"
| "RV32D_type FSD = Type_S"
| "RV32D_type FMADD_D = Type_R4"
| "RV32D_type FMSUB_D = Type_R4"
| "RV32D_type FNMSUB_D = Type_R4"
| "RV32D_type FNMADD_D = Type_R4"
| "RV32D_type FADD_D = Type_R"
| "RV32D_type FSUB_D = Type_R"
| "RV32D_type FMUL_D = Type_R"
| "RV32D_type FDIV_D = Type_R"
| "RV32D_type FSQRT_D = Type_R"
| "RV32D_type FSGNJ_D = Type_R"
| "RV32D_type FSGNJN_D = Type_R"
| "RV32D_type FSGNJX_D = Type_R"
| "RV32D_type FMIN_D = Type_R"
| "RV32D_type FMAX_D = Type_R"
| "RV32D_type FCVT_S_D = Type_R"
| "RV32D_type FCVT_D_S = Type_R"
| "RV32D_type FEQ_D = Type_R"
| "RV32D_type FLT_D = Type_R"
| "RV32D_type FLE_D = Type_R"
| "RV32D_type FCLASS_D = Type_R"
| "RV32D_type FCVT_W_D = Type_R"
| "RV32D_type FCVT_WU_D = Type_R"
| "RV32D_type FCVT_D_W = Type_R"
| "RV32D_type FCVT_D_WU = Type_R"

fun getType :: "Mapping \<Rightarrow> Type" where
  "getType UNDEF = Type_UNKNOWN"
| "getType (RV32I c) = RV32I_type c"
| "getType (Zifencei c) = Type_UNKNOWN"
| "getType (Zicsr c) = Type_UNKNOWN"
| "getType (RV32M c) = Type_R"
| "getType (RV32A c) = Type_R"
| "getType (RV64I c) = RV64I_type c"
| "getType (RV64M c) = Type_R"
| "getType (RV64A c) = Type_R"
| "getType (RV32F c) = RV32F_type c"
| "getType (RV64F c) = Type_R"
| "getType (RV32D c) = RV32D_type c"
| "getType (RV64D c) = Type_R"
| "getType (Privileged c) = Type_UNKNOWN"

section \<open>Bits of the fields\<close>

named_theorems field_bits \<open>which bit of the instruction word each bit of a field is\<close>
named_theorems field_defs \<open>the field and immediate accessors\<close>

declare rd_def [field_defs] rs1_def [field_defs] rs2_def [field_defs] funct2_def [field_defs]
  funct3_def [field_defs] funct5_def [field_defs] funct6_def [field_defs] funct7_def [field_defs]
  funct12_def [field_defs] opcode_def [field_defs] csr_field_def [field_defs] zimm_def [field_defs]
  instr_shamt_def [field_defs] instr_shamt_w_def [field_defs] I_imm_def [field_defs]
  S_imm_def [field_defs] B_imm_def [field_defs] U_imm_def [field_defs] J_imm_def [field_defs]

lemma bit_BIT_RANGE [field_bits]:
  assumes "u < 31 \<or> 0 < l" "l \<le> u"
  shows "bit (BIT_RANGE i u l) n \<longleftrightarrow> l \<le> n \<and> n \<le> u \<and> bit i n"
proof -
  have "push_bit (u - l + 1) 1 - 1 = (mask (Suc (u - l)) :: u32)"
    by (simp add: mask_eq_exp_minus_1 push_bit_eq_mult)
  then show ?thesis
    using assms by (auto simp: BIT_RANGE_def bit_simps dest: bit_imp_le_length)
qed

lemma bit_BIT_SINGLE [field_bits]: "bit (BIT_SINGLE i p) n \<longleftrightarrow> n = p \<and> bit i p"
  by (auto simp: BIT_SINGLE_def bit_simps dest: bit_imp_le_length)

lemma bit_signed_drop_bit_u32 [field_bits]:
  "bit (signed_drop_bit k (i::u32)) n \<longleftrightarrow> n < 32 \<and> bit i (if n + k < 31 then n + k else 31)"
proof (cases "32 - k \<le> n \<and> n < 32")
  case True
  then have "n + k < 31 \<Longrightarrow> False" by linarith
  with True show ?thesis by (auto simp: bit_signed_drop_bit_iff)
next
  case False
  then consider "n + k < 32" "n < 32" | "32 \<le> n" by linarith
  then show ?thesis
  proof cases
    case 1
    then have "n + k < 31 \<or> n + k = 31" by linarith
    with 1 False show ?thesis by (auto simp: bit_signed_drop_bit_iff ac_simps)
  next
    case 2
    then show ?thesis by (auto dest: bit_imp_le_length)
  qed
qed

lemma bit_drop_bit_u32 [field_bits]: "bit (drop_bit k (i::u32)) n \<longleftrightarrow> bit i (n + k)"
  by (simp add: bit_drop_bit_eq ac_simps)

end
