(* ===== verification/Rv64_Decode.thy ===== *)
theory Rv64_Decode
  imports Rv64_Isa
begin

text \<open>
  The decoder of the RV64 interpreter (\<^verbatim>\<open>rv64/instr.cc\<close>): \<^verbatim>\<open>decode_32\<close> with its nested switches (one
  definition per major opcode), the immediates of the compressed formats, \<^verbatim>\<open>InstructionFactory\<close>,
  \<^verbatim>\<open>decode_16\<close>, \<^verbatim>\<open>expand_16\<close> and \<^verbatim>\<open>decode\<close>.  The switches are shown to implement the table of masks and
  encodings exactly, and the expansion of a compressed instruction to be an instruction the
  32-bit decoder reads back with the operands that were put in.
\<close>

section \<open>Decoding of 32-bit instructions\<close>

definition decode_branch :: "Instruction \<Rightarrow> Mapping" where
  "decode_branch i = (
     if funct3 i = 0x0 then match_and_return i (RV32I BEQ)
     else if funct3 i = 0x1 then match_and_return i (RV32I BNE)
     else if funct3 i = 0x4 then match_and_return i (RV32I BLT)
     else if funct3 i = 0x5 then match_and_return i (RV32I BGE)
     else if funct3 i = 0x6 then match_and_return i (RV32I BLTU)
     else if funct3 i = 0x7 then match_and_return i (RV32I BGEU)
     else UNDEF)"

definition decode_load :: "Instruction \<Rightarrow> Mapping" where
  "decode_load i = (
     if funct3 i = 0x0 then match_and_return i (RV32I LB)
     else if funct3 i = 0x1 then match_and_return i (RV32I LH)
     else if funct3 i = 0x2 then match_and_return i (RV32I LW)
     else if funct3 i = 0x4 then match_and_return i (RV32I LBU)
     else if funct3 i = 0x5 then match_and_return i (RV32I LHU)
     else if funct3 i = 0x6 then match_and_return i (RV64I LWU)
     else if funct3 i = 0x3 then match_and_return i (RV64I LD)
     else UNDEF)"

definition decode_store :: "Instruction \<Rightarrow> Mapping" where
  "decode_store i = (
     if funct3 i = 0x0 then match_and_return i (RV32I SB)
     else if funct3 i = 0x1 then match_and_return i (RV32I SH)
     else if funct3 i = 0x2 then match_and_return i (RV32I SW)
     else if funct3 i = 0x3 then match_and_return i (RV64I SD)
     else UNDEF)"

definition decode_op_imm :: "Instruction \<Rightarrow> Mapping" where
  "decode_op_imm i = (
     if funct3 i = 0x0 then match_and_return i (RV32I ADDI)
     else if funct3 i = 0x2 then match_and_return i (RV32I SLTI)
     else if funct3 i = 0x3 then match_and_return i (RV32I SLTIU)
     else if funct3 i = 0x4 then match_and_return i (RV32I XORI)
     else if funct3 i = 0x6 then match_and_return i (RV32I ORI)
     else if funct3 i = 0x7 then match_and_return i (RV32I ANDI)
     else if funct3 i = 0x1 then match_and_return i (RV32I SLLI)
     else if funct3 i = 0x5 then
       (if funct6 i = 0x0 then match_and_return i (RV32I SRLI)
       else if funct6 i = 0x10 then match_and_return i (RV32I SRAI)
       else UNDEF)
     else UNDEF)"

definition decode_op_imm_32 :: "Instruction \<Rightarrow> Mapping" where
  "decode_op_imm_32 i = (
     if funct3 i = 0x0 then match_and_return i (RV64I ADDIW)
     else if funct3 i = 0x1 then match_and_return i (RV64I SLLIW)
     else if funct3 i = 0x5 then
       (if funct7 i = 0x0 then match_and_return i (RV64I SRLIW)
       else if funct7 i = 0x20 then match_and_return i (RV64I SRAIW)
       else UNDEF)
     else UNDEF)"

definition decode_op :: "Instruction \<Rightarrow> Mapping" where
  "decode_op i = (
     if funct7 i = 0x0 then
       (if funct3 i = 0x0 then match_and_return i (RV32I ADD)
       else if funct3 i = 0x1 then match_and_return i (RV32I SLL)
       else if funct3 i = 0x2 then match_and_return i (RV32I SLT)
       else if funct3 i = 0x3 then match_and_return i (RV32I SLTU)
       else if funct3 i = 0x4 then match_and_return i (RV32I XOR_op)
       else if funct3 i = 0x5 then match_and_return i (RV32I SRL)
       else if funct3 i = 0x6 then match_and_return i (RV32I OR_op)
       else if funct3 i = 0x7 then match_and_return i (RV32I AND_op)
       else UNDEF)
     else if funct7 i = 0x20 then
       (if funct3 i = 0x0 then match_and_return i (RV32I SUB)
       else if funct3 i = 0x5 then match_and_return i (RV32I SRA)
       else UNDEF)
     else if funct7 i = 0x1 then
       (if funct3 i = 0x0 then match_and_return i (RV32M MUL)
       else if funct3 i = 0x1 then match_and_return i (RV32M MULH)
       else if funct3 i = 0x2 then match_and_return i (RV32M MULHSU)
       else if funct3 i = 0x3 then match_and_return i (RV32M MULHU)
       else if funct3 i = 0x4 then match_and_return i (RV32M DIV)
       else if funct3 i = 0x5 then match_and_return i (RV32M DIVU)
       else if funct3 i = 0x6 then match_and_return i (RV32M REM)
       else if funct3 i = 0x7 then match_and_return i (RV32M REMU)
       else UNDEF)
     else UNDEF)"

definition decode_op_32 :: "Instruction \<Rightarrow> Mapping" where
  "decode_op_32 i = (
     if funct7 i = 0x0 then
       (if funct3 i = 0x0 then match_and_return i (RV64I ADDW)
       else if funct3 i = 0x1 then match_and_return i (RV64I SLLW)
       else if funct3 i = 0x5 then match_and_return i (RV64I SRLW)
       else UNDEF)
     else if funct7 i = 0x20 then
       (if funct3 i = 0x0 then match_and_return i (RV64I SUBW)
       else if funct3 i = 0x5 then match_and_return i (RV64I SRAW)
       else UNDEF)
     else if funct7 i = 0x1 then
       (if funct3 i = 0x0 then match_and_return i (RV64M MULW)
       else if funct3 i = 0x4 then match_and_return i (RV64M DIVW)
       else if funct3 i = 0x5 then match_and_return i (RV64M DIVUW)
       else if funct3 i = 0x6 then match_and_return i (RV64M REMW)
       else if funct3 i = 0x7 then match_and_return i (RV64M REMUW)
       else UNDEF)
     else UNDEF)"

definition decode_system :: "Instruction \<Rightarrow> Mapping" where
  "decode_system i = (
     if funct3 i = 0x0 then
       (if funct12 i = 0x0 then match_and_return i (RV32I ECALL)
       else if funct12 i = 0x1 then match_and_return i (RV32I EBREAK)
       else if funct12 i = 0x2 then match_and_return i (Privileged URET)
       else if funct12 i = 0x102 then match_and_return i (Privileged SRET)
       else if funct12 i = 0x302 then match_and_return i (Privileged MRET)
       else if funct12 i = 0x105 then match_and_return i (Privileged WFI)
       else match_and_return i (Privileged SFENCE_VMA))
     else if funct3 i = 0x1 then match_and_return i (Zicsr CSRRW)
     else if funct3 i = 0x2 then match_and_return i (Zicsr CSRRS)
     else if funct3 i = 0x3 then match_and_return i (Zicsr CSRRC)
     else if funct3 i = 0x5 then match_and_return i (Zicsr CSRRWI)
     else if funct3 i = 0x6 then match_and_return i (Zicsr CSRRSI)
     else if funct3 i = 0x7 then match_and_return i (Zicsr CSRRCI)
     else UNDEF)"

definition decode_amo :: "Instruction \<Rightarrow> Mapping" where
  "decode_amo i = (
     if funct5 i = 0x2 then (if funct3 i = 0x3 then match_and_return i (RV64A LR_D) else match_and_return i (RV32A LR_W))
     else if funct5 i = 0x3 then (if funct3 i = 0x3 then match_and_return i (RV64A SC_D) else match_and_return i (RV32A SC_W))
     else if funct5 i = 0x1 then (if funct3 i = 0x3 then match_and_return i (RV64A AMOSWAP_D) else match_and_return i (RV32A AMOSWAP_W))
     else if funct5 i = 0x0 then (if funct3 i = 0x3 then match_and_return i (RV64A AMOADD_D) else match_and_return i (RV32A AMOADD_W))
     else if funct5 i = 0x4 then (if funct3 i = 0x3 then match_and_return i (RV64A AMOXOR_D) else match_and_return i (RV32A AMOXOR_W))
     else if funct5 i = 0xC then (if funct3 i = 0x3 then match_and_return i (RV64A AMOAND_D) else match_and_return i (RV32A AMOAND_W))
     else if funct5 i = 0x8 then (if funct3 i = 0x3 then match_and_return i (RV64A AMOOR_D) else match_and_return i (RV32A AMOOR_W))
     else if funct5 i = 0x10 then (if funct3 i = 0x3 then match_and_return i (RV64A AMOMIN_D) else match_and_return i (RV32A AMOMIN_W))
     else if funct5 i = 0x14 then (if funct3 i = 0x3 then match_and_return i (RV64A AMOMAX_D) else match_and_return i (RV32A AMOMAX_W))
     else if funct5 i = 0x18 then (if funct3 i = 0x3 then match_and_return i (RV64A AMOMINU_D) else match_and_return i (RV32A AMOMINU_W))
     else if funct5 i = 0x1C then (if funct3 i = 0x3 then match_and_return i (RV64A AMOMAXU_D) else match_and_return i (RV32A AMOMAXU_W))
     else UNDEF)"

definition decode_op_fp :: "Instruction \<Rightarrow> Mapping" where
  "decode_op_fp i = (
     if funct7 i = 0x0 then match_and_return i (RV32F FADD_S)
     else if funct7 i = 0x1 then match_and_return i (RV32D FADD_D)
     else if funct7 i = 0x4 then match_and_return i (RV32F FSUB_S)
     else if funct7 i = 0x5 then match_and_return i (RV32D FSUB_D)
     else if funct7 i = 0x21 then match_and_return i (RV32D FCVT_D_S)
     else if funct7 i = 0x8 then match_and_return i (RV32F FMUL_S)
     else if funct7 i = 0x9 then match_and_return i (RV32D FMUL_D)
     else if funct7 i = 0xC then match_and_return i (RV32F FDIV_S)
     else if funct7 i = 0xD then match_and_return i (RV32D FDIV_D)
     else if funct7 i = 0x50 then
       (if funct3 i = 0x0 then match_and_return i (RV32F FLE_S)
       else if funct3 i = 0x1 then match_and_return i (RV32F FLT_S)
       else if funct3 i = 0x2 then match_and_return i (RV32F FEQ_S)
       else UNDEF)
     else if funct7 i = 0x11 then
       (if funct3 i = 0x0 then match_and_return i (RV32D FSGNJ_D)
       else if funct3 i = 0x1 then match_and_return i (RV32D FSGNJN_D)
       else if funct3 i = 0x2 then match_and_return i (RV32D FSGNJX_D)
       else UNDEF)
     else if funct7 i = 0x14 then
       (if funct3 i = 0x0 then match_and_return i (RV32F FMIN_S)
       else if funct3 i = 0x1 then match_and_return i (RV32F FMAX_S)
       else UNDEF)
     else if funct7 i = 0x15 then
       (if funct3 i = 0x0 then match_and_return i (RV32D FMIN_D)
       else if funct3 i = 0x1 then match_and_return i (RV32D FMAX_D)
       else UNDEF)
     else if funct7 i = 0x20 then match_and_return i (RV32D FCVT_S_D)
     else if funct7 i = 0x10 then
       (if funct3 i = 0x0 then match_and_return i (RV32F FSGNJ_S)
       else if funct3 i = 0x1 then match_and_return i (RV32F FSGNJN_S)
       else if funct3 i = 0x2 then match_and_return i (RV32F FSGNJX_S)
       else UNDEF)
     else if funct7 i = 0x51 then
       (if funct3 i = 0x0 then match_and_return i (RV32D FLE_D)
       else if funct3 i = 0x1 then match_and_return i (RV32D FLT_D)
       else if funct3 i = 0x2 then match_and_return i (RV32D FEQ_D)
       else UNDEF)
     else if funct7 i = 0x68 then
       (if rs2 i = 0x0 then match_and_return i (RV32F FCVT_S_W)
       else if rs2 i = 0x1 then match_and_return i (RV32F FCVT_S_WU)
       else if rs2 i = 0x2 then match_and_return i (RV64F FCVT_S_L)
       else if rs2 i = 0x3 then match_and_return i (RV64F FCVT_S_LU)
       else UNDEF)
     else if funct7 i = 0x69 then
       (if rs2 i = 0x0 then match_and_return i (RV32D FCVT_D_W)
       else if rs2 i = 0x1 then match_and_return i (RV32D FCVT_D_WU)
       else if rs2 i = 0x2 then match_and_return i (RV64D FCVT_D_L)
       else if rs2 i = 0x3 then match_and_return i (RV64D FCVT_D_LU)
       else UNDEF)
     else if funct7 i = 0x61 then
       (if rs2 i = 0x0 then match_and_return i (RV32D FCVT_W_D)
       else if rs2 i = 0x1 then match_and_return i (RV32D FCVT_WU_D)
       else if rs2 i = 0x2 then match_and_return i (RV64D FCVT_L_D)
       else if rs2 i = 0x3 then match_and_return i (RV64D FCVT_LU_D)
       else UNDEF)
     else if funct7 i = 0x2C then match_and_return i (RV32F FSQRT_S)
     else if funct7 i = 0x2D then match_and_return i (RV32D FSQRT_D)
     else if funct7 i = 0x60 then
       (if rs2 i = 0x0 then match_and_return i (RV32F FCVT_W_S)
       else if rs2 i = 0x1 then match_and_return i (RV32F FCVT_WU_S)
       else if rs2 i = 0x2 then match_and_return i (RV64F FCVT_L_S)
       else if rs2 i = 0x3 then match_and_return i (RV64F FCVT_LU_S)
       else UNDEF)
     else if funct7 i = 0x70 then
       (if funct3 i = 0x0 then match_and_return i (RV32F FMV_X_W)
       else if funct3 i = 0x1 then match_and_return i (RV32F FCLASS_S)
       else UNDEF)
     else if funct7 i = 0x71 then
       (if funct3 i = 0x0 then match_and_return i (RV64D FMV_X_D)
       else if funct3 i = 0x1 then match_and_return i (RV32D FCLASS_D)
       else UNDEF)
     else if funct7 i = 0x78 then match_and_return i (RV32F FMV_W_X)
     else if funct7 i = 0x79 then match_and_return i (RV64D FMV_D_X)
     else UNDEF)"

definition decode_32 :: "Instruction \<Rightarrow> Mapping" where
  "decode_32 i = (
     if opcode i = 0x37 then match_and_return i (RV32I LUI)
     else if opcode i = 0x17 then match_and_return i (RV32I AUIPC)
     else if opcode i = 0x6F then match_and_return i (RV32I JAL)
     else if opcode i = 0x67 then match_and_return i (RV32I JALR)
     else if opcode i = 0x63 then decode_branch i
     else if opcode i = 0x03 then decode_load i
     else if opcode i = 0x23 then decode_store i
     else if opcode i = 0x13 then decode_op_imm i
     else if opcode i = 0x1B then decode_op_imm_32 i
     else if opcode i = 0x33 then decode_op i
     else if opcode i = 0x3B then decode_op_32 i
     else if opcode i = 0x0F then
       (if funct3 i = 0x0 then match_and_return i (RV32I FENCE)
        else if funct3 i = 0x1 then match_and_return i (Zifencei FENCE_I)
        else UNDEF)
     else if opcode i = 0x73 then decode_system i
     else if opcode i = 0x2F then decode_amo i
     else if opcode i = 0x43 then
       (if funct2 i = 0x0 then match_and_return i (RV32F FMADD_S)
        else if funct2 i = 0x1 then match_and_return i (RV32D FMADD_D)
        else UNDEF)
     else if opcode i = 0x53 then decode_op_fp i
     else if opcode i = 0x07 then
       (if funct3 i = 0x2 then match_and_return i (RV32F FLW)
        else if funct3 i = 0x3 then match_and_return i (RV32D FLD)
        else UNDEF)
     else if opcode i = 0x27 then
       (if funct3 i = 0x2 then match_and_return i (RV32F FSW)
        else if funct3 i = 0x3 then match_and_return i (RV32D FSD)
        else UNDEF)
     else if opcode i = 0x47 then
       (if funct2 i = 0x0 then match_and_return i (RV32F FMSUB_S)
        else if funct2 i = 0x1 then match_and_return i (RV32D FMSUB_D)
        else UNDEF)
     else if opcode i = 0x4B then
       (if funct2 i = 0x0 then match_and_return i (RV32F FNMSUB_S)
        else if funct2 i = 0x1 then match_and_return i (RV32D FNMSUB_D)
        else UNDEF)
     else if opcode i = 0x4F then
       (if funct2 i = 0x0 then match_and_return i (RV32F FNMADD_S)
        else if funct2 i = 0x1 then match_and_return i (RV32D FNMADD_D)
        else UNDEF)
     else UNDEF)"

section \<open>Immediates of the compressed formats\<close>

definition C_ADDI4SPN_NZUIMM :: "u32 \<Rightarrow> u32" where
  "C_ADDI4SPN_NZUIMM n = push_bit 4 (BIT_SLICE_U n 12 11) OR push_bit 6 (BIT_SLICE_U n 10 7)
     OR push_bit 2 (BIT_SINGLE_P1_U n 6) OR push_bit 3 (BIT_SINGLE_P1_U n 5)"

definition C_LW_UIMM :: "u32 \<Rightarrow> u32" where
  "C_LW_UIMM n = push_bit 3 (BIT_SLICE_U n 12 10) OR push_bit 2 (BIT_SINGLE_P1_U n 6)
     OR push_bit 6 (BIT_SINGLE_P1_U n 5)"

definition C_LD_UIMM :: "u32 \<Rightarrow> u32" where
  "C_LD_UIMM n = push_bit 3 (BIT_SLICE_U n 12 10) OR push_bit 6 (BIT_SLICE_U n 6 5)"

definition C_SW_UIMM :: "u32 \<Rightarrow> u32" where
  "C_SW_UIMM n = C_LW_UIMM n"

definition C_SD_UIMM :: "u32 \<Rightarrow> u32" where
  "C_SD_UIMM n = C_LD_UIMM n"

definition C_JAL_IMM :: "u32 \<Rightarrow> u32" where
  "C_JAL_IMM n = EXTRACT_SIGN_BIT n 12 11 OR BIT_SINGLE_PN n 11 4
     OR push_bit 8 (BIT_SLICE n 10 9) OR BIT_SINGLE_PN n 8 10
     OR BIT_SINGLE_PN n 7 6 OR BIT_SINGLE_PN n 6 7
     OR push_bit 1 (BIT_SLICE n 5 3) OR BIT_SINGLE_PN n 2 5"

definition C_ADDI16SP_NZIMM :: "u32 \<Rightarrow> u32" where
  "C_ADDI16SP_NZIMM n = EXTRACT_SIGN_BIT n 12 9 OR BIT_SINGLE_PN n 6 4
     OR BIT_SINGLE_PN n 5 6 OR push_bit 7 (BIT_SLICE n 4 3) OR BIT_SINGLE_PN n 2 5"

definition C_LUI_NZIMM :: "u32 \<Rightarrow> u32" where
  "C_LUI_NZIMM n = EXTRACT_SIGN_BIT n 12 17 OR push_bit 12 (BIT_SLICE n 6 2)"

definition C_J_IMM :: "u32 \<Rightarrow> u32" where
  "C_J_IMM n = C_JAL_IMM n"

definition C_BRANCH_IMM :: "u32 \<Rightarrow> u32" where
  "C_BRANCH_IMM n = EXTRACT_SIGN_BIT n 12 8 OR push_bit 3 (BIT_SLICE n 11 10)
     OR push_bit 6 (BIT_SLICE n 6 5) OR push_bit 1 (BIT_SLICE n 4 3) OR BIT_SINGLE_PN n 2 5"

definition C_LWSP_UIMM :: "u32 \<Rightarrow> u32" where
  "C_LWSP_UIMM n = BIT_SINGLE_PN_U n 12 5 OR push_bit 2 (BIT_SLICE_U n 6 4)
     OR push_bit 6 (BIT_SLICE_U n 3 2)"

definition C_SWSP_UIMM :: "u32 \<Rightarrow> u32" where
  "C_SWSP_UIMM n = push_bit 2 (BIT_SLICE_U n 12 9) OR push_bit 6 (BIT_SLICE_U n 8 7)"

definition C_LDSP_UIMM :: "u32 \<Rightarrow> u32" where
  "C_LDSP_UIMM n = BIT_SINGLE_PN_U n 12 5 OR push_bit 3 (BIT_SLICE_U n 6 5)
     OR push_bit 6 (BIT_SLICE_U n 4 2)"

definition C_SDSP_UIMM :: "u32 \<Rightarrow> u32" where
  "C_SDSP_UIMM n = push_bit 3 (BIT_SLICE_U n 12 10) OR push_bit 6 (BIT_SLICE_U n 9 7)"

section \<open>InstructionFactory\<close>

text \<open>
  The functions of \<^verbatim>\<open>struct InstructionFactory\<close>, as calls with their arguments and the word each
  call builds.  The operand parts of the words are the ones the C++ bodies repeat: register
  operands (\<open>reg_operands\<close>), the I, S and B immediates.
\<close>

datatype factory_call =
    F_ADD u32 u32 u32 | F_AND u32 u32 u32 | F_OR u32 u32 u32 | F_XOR u32 u32 u32 | F_SUB u32 u32 u32
  | F_LW u32 u32 u32 | F_LD u32 u32 u32 | F_FLW u32 u32 u32 | F_FLD u32 u32 u32
  | F_SW u32 u32 u32 | F_SD u32 u32 u32 | F_FSW u32 u32 u32 | F_FSD u32 u32 u32
  | F_LUI u32 u32 | F_ADDI u32 u32 u32 | F_ANDI u32 u32 u32
  | F_SRLI u32 u32 u32 | F_SRAI u32 u32 u32 | F_SLLI u32 u32 u32
  | F_JAL u32 u32 | F_JALR u32 u32 u32 | F_BEQ u32 u32 u32 | F_BNE u32 u32 u32 | F_EBREAK
  | F_ADDIW u32 u32 u32 | F_ADDW u32 u32 u32 | F_SUBW u32 u32 u32

definition reg_operands :: "u32 \<Rightarrow> u32 \<Rightarrow> u32 \<Rightarrow> u32" where
  "reg_operands d s1 s2 = push_bit 7 (d AND 0x1f) OR push_bit 15 (s1 AND 0x1f) OR push_bit 20 (s2 AND 0x1f)"

definition imm_operands :: "u32 \<Rightarrow> u32 \<Rightarrow> u32 \<Rightarrow> u32" where
  "imm_operands d s1 imm = push_bit 20 (imm AND 4095) OR push_bit 7 (d AND 0x1f) OR push_bit 15 (s1 AND 0x1f)"

definition store_operands :: "u32 \<Rightarrow> u32 \<Rightarrow> u32 \<Rightarrow> u32" where
  "store_operands s1 s2 imm = (push_bit 7 (imm AND 0b11111) OR push_bit 20 (imm AND push_bit 5 0b1111111))
     OR push_bit 15 (s1 AND 0x1f) OR push_bit 20 (s2 AND 0x1f)"

definition shift_operands :: "u32 \<Rightarrow> u32 \<Rightarrow> u32 \<Rightarrow> u32" where
  "shift_operands d s1 sh = push_bit 7 (d AND 0x1f) OR push_bit 15 (s1 AND 0x1f) OR push_bit 20 (sh AND 63)"

definition branch_operands :: "u32 \<Rightarrow> u32 \<Rightarrow> u32 \<Rightarrow> u32" where
  "branch_operands s1 s2 imm =
     ((push_bit 7 (imm AND 0b11110) OR drop_bit 4 (imm AND push_bit 11 1))
      OR (push_bit 20 (imm AND push_bit 5 0b111111) OR push_bit 19 (imm AND push_bit 12 1)))
     OR push_bit 15 (s1 AND 0x1f) OR push_bit 20 (s2 AND 0x1f)"

fun InstructionFactory :: "factory_call \<Rightarrow> Instruction" where
  "InstructionFactory (F_ADD d s1 s2) = reg_operands d s1 s2 OR 51 OR push_bit 12 0 OR push_bit 25 0"
| "InstructionFactory (F_AND d s1 s2) = reg_operands d s1 s2 OR 51 OR push_bit 12 7 OR push_bit 25 0"
| "InstructionFactory (F_OR d s1 s2) = reg_operands d s1 s2 OR 51 OR push_bit 12 6 OR push_bit 25 0"
| "InstructionFactory (F_XOR d s1 s2) = reg_operands d s1 s2 OR 51 OR push_bit 12 4 OR push_bit 25 0"
| "InstructionFactory (F_SUB d s1 s2) = reg_operands d s1 s2 OR 51 OR push_bit 12 0 OR push_bit 25 32"
| "InstructionFactory (F_LW d s1 imm) = imm_operands d s1 imm OR 3 OR push_bit 12 2"
| "InstructionFactory (F_LD d s1 imm) = imm_operands d s1 imm OR 3 OR push_bit 12 3"
| "InstructionFactory (F_FLW d s1 imm) = imm_operands d s1 imm OR 7 OR push_bit 12 2"
| "InstructionFactory (F_FLD d s1 imm) = imm_operands d s1 imm OR 7 OR push_bit 12 3"
| "InstructionFactory (F_SW s1 s2 imm) = store_operands s1 s2 imm OR 35 OR push_bit 12 2"
| "InstructionFactory (F_SD s1 s2 imm) = store_operands s1 s2 imm OR 35 OR push_bit 12 3"
| "InstructionFactory (F_FSW s1 s2 imm) = store_operands s1 s2 imm OR 39 OR push_bit 12 2"
| "InstructionFactory (F_FSD s1 s2 imm) = store_operands s1 s2 imm OR 39 OR push_bit 12 3"
| "InstructionFactory (F_LUI d imm) = (imm AND push_bit 12 1048575) OR push_bit 7 (d AND 0x1f) OR 55"
| "InstructionFactory (F_ADDI d s1 imm) = imm_operands d s1 imm OR 19 OR push_bit 12 0"
| "InstructionFactory (F_ANDI d s1 imm) = imm_operands d s1 imm OR 19 OR push_bit 12 7"
| "InstructionFactory (F_SRLI d s1 sh) = shift_operands d s1 sh OR 19 OR push_bit 12 5 OR push_bit 25 0"
| "InstructionFactory (F_SRAI d s1 sh) = shift_operands d s1 sh OR 19 OR push_bit 12 5 OR push_bit 25 32"
| "InstructionFactory (F_SLLI d s1 sh) = shift_operands d s1 sh OR 19 OR push_bit 12 1 OR push_bit 25 0"
| "InstructionFactory (F_JAL d imm) = 111 OR push_bit 7 (d AND 0x1f)
     OR ((imm AND push_bit 12 0b11111111) OR push_bit 9 (imm AND push_bit 11 1)
         OR push_bit 20 (imm AND 0b11111111110) OR push_bit 11 (imm AND push_bit 20 1))"
| "InstructionFactory (F_JALR d s1 imm) = imm_operands d s1 imm OR 103 OR push_bit 12 0"
| "InstructionFactory (F_BEQ s1 s2 imm) = branch_operands s1 s2 imm OR 99 OR push_bit 12 0"
| "InstructionFactory (F_BNE s1 s2 imm) = branch_operands s1 s2 imm OR 99 OR push_bit 12 1"
| "InstructionFactory F_EBREAK = 1048691"
| "InstructionFactory (F_ADDIW d s1 imm) = imm_operands d s1 imm OR 0x1b"
| "InstructionFactory (F_ADDW d s1 s2) = reg_operands d s1 s2 OR 0x3b"
| "InstructionFactory (F_SUBW d s1 s2) = reg_operands d s1 s2 OR 0x3b OR 0x40000000"

section \<open>Compressed instructions\<close>

text \<open>
  \<^verbatim>\<open>decode_16\<close> throws on a word of quadrant 3 (\<open>None\<close>); a \<open>switch\<close> that matches nothing falls through
  to \<open>C_Illegal\<close>.
\<close>

definition decode_16 :: "Instruction \<Rightarrow> Compressed_Opcode option" where
  "decode_16 i = (
     if quadrant i = 0 then Some (
       if c_opcode i = 0b000 then (if c_format i = 0 then C_Illegal else C_ADDI4SPN)
       else if c_opcode i = 0b001 then C_FLD
       else if c_opcode i = 0b010 then C_LW
       else if c_opcode i = 0b011 then C_LD
       else if c_opcode i = 0b100 then C_Reserved
       else if c_opcode i = 0b101 then C_FSD
       else if c_opcode i = 0b110 then C_SW
       else if c_opcode i = 0b111 then C_SD
       else C_Illegal)
     else if quadrant i = 1 then Some (
       if c_opcode i = 0b000 then (if c_format i = 1 then C_NOP else C_ADDI)
       else if c_opcode i = 0b001 then C_ADDIW
       else if c_opcode i = 0b010 then C_LI
       else if c_opcode i = 0b011 then (if c_rd i = 2 then C_ADDI16SP else C_LUI)
       else if c_opcode i = 0b100 then
         (if c_f2_high i = 0b00 then C_SRLI
          else if c_f2_high i = 0b01 then C_SRAI
          else if c_f2_high i = 0b10 then C_ANDI
          else if c_f2_high i = 0b11 then
            (if c_b12 i \<noteq> 0 then
               (if c_f2_low i = 0b00 then C_SUBW
                else if c_f2_low i = 0b01 then C_ADDW
                else C_Reserved)
             else
               (if c_f2_low i = 0b00 then C_SUB
                else if c_f2_low i = 0b01 then C_XOR
                else if c_f2_low i = 0b10 then C_OR
                else if c_f2_low i = 0b11 then C_AND
                else C_Illegal))
          else C_Illegal)
       else if c_opcode i = 0b101 then C_J
       else if c_opcode i = 0b110 then C_BEQZ
       else if c_opcode i = 0b111 then C_BNEZ
       else C_Illegal)
     else if quadrant i = 2 then Some (
       if c_opcode i = 0b000 then C_SLLI
       else if c_opcode i = 0b001 then C_FLDSP
       else if c_opcode i = 0b010 then C_LWSP
       else if c_opcode i = 0b011 then C_LDSP
       else if c_opcode i = 0b100 then
         (if c_b12 i \<noteq> 0 then
            (if c_rd i \<noteq> 0 then (if c_rs2 i \<noteq> 0 then C_ADD else C_JALR) else C_EBREAK)
          else (if c_rs2 i \<noteq> 0 then C_MV else C_JR))
       else if c_opcode i = 0b101 then C_FSDSP
       else if c_opcode i = 0b110 then C_SWSP
       else if c_opcode i = 0b111 then C_SDSP
       else C_Illegal)
     else None)"

text \<open>
  The switch of \<^verbatim>\<open>expand_16\<close>: the mapping it returns and, unless that is \<open>UNDEF\<close>, the call that
  rebuilds the instruction word.
\<close>

fun expand_call :: "Instruction \<Rightarrow> Compressed_Opcode \<Rightarrow> (Mapping \<times> factory_call) option" where
  "expand_call i C_Illegal = None"
| "expand_call i C_LQ = None"
| "expand_call i C_LQSP = None"
| "expand_call i C_SQ = None"
| "expand_call i C_SQSP = None"
| "expand_call i C_Reserved = None"
| "expand_call i C_NOP = Some (RV32I ADD, F_ADD 0 0 0)"
| "expand_call i C_ADD = Some (RV32I ADD, F_ADD (c_rd i) (c_rd i) (c_rs2 i))"
| "expand_call i C_MV = Some (RV32I ADD, F_ADD (c_rd i) 0 (c_rs2 i))"
| "expand_call i C_AND = Some (RV32I AND_op, F_AND (c_rd_small i) (c_rd_small i) (c_rs2_small i))"
| "expand_call i C_OR = Some (RV32I OR_op, F_OR (c_rd_small i) (c_rd_small i) (c_rs2_small i))"
| "expand_call i C_XOR = Some (RV32I XOR_op, F_XOR (c_rd_small i) (c_rd_small i) (c_rs2_small i))"
| "expand_call i C_SUB = Some (RV32I SUB, F_SUB (c_rd_small i) (c_rd_small i) (c_rs2_small i))"
| "expand_call i C_ADDW = Some (RV64I ADDW, F_ADDW (c_rd_small i) (c_rd_small i) (c_rs2_small i))"
| "expand_call i C_SUBW = Some (RV64I SUBW, F_SUBW (c_rd_small i) (c_rd_small i) (c_rs2_small i))"
| "expand_call i C_LW = Some (RV32I LW, F_LW (c_rs2_small i) (c_rd_small i) (C_LW_UIMM i))"
| "expand_call i C_LD = Some (RV64I LD, F_LD (c_rs2_small i) (c_rd_small i) (C_LD_UIMM i))"
| "expand_call i C_FLW = Some (RV32F FLW, F_FLW (c_rs2_small i) (c_rd_small i) (C_LW_UIMM i))"
| "expand_call i C_FLD = Some (RV32D FLD, F_FLD (c_rs2_small i) (c_rd_small i) (C_LD_UIMM i))"
| "expand_call i C_SW = Some (RV32I SW, F_SW (c_rd_small i) (c_rs2_small i) (C_SW_UIMM i))"
| "expand_call i C_SD = Some (RV64I SD, F_SD (c_rd_small i) (c_rs2_small i) (C_SD_UIMM i))"
| "expand_call i C_FSW = Some (RV32F FSW, F_FSW (c_rd_small i) (c_rs2_small i) (C_SW_UIMM i))"
| "expand_call i C_FSD = Some (RV32D FSD, F_FSD (c_rd_small i) (c_rs2_small i) (C_SD_UIMM i))"
| "expand_call i C_ADDI4SPN =
     (if C_ADDI4SPN_NZUIMM i = 0 then None
      else Some (RV32I ADDI, F_ADDI (c_rs2_small i) 2 (C_ADDI4SPN_NZUIMM i)))"
| "expand_call i C_ADDI = Some (RV32I ADDI, F_ADDI (c_rd i) (c_rd i) (c_imm i))"
| "expand_call i C_JAL = Some (RV32I JAL, F_JAL 1 (C_JAL_IMM i))"
| "expand_call i C_ADDIW =
     (if c_rd i = 0 then None else Some (RV64I ADDIW, F_ADDI (c_rd i) (c_rd i) (c_imm i)))"
| "expand_call i C_LI = Some (RV32I ADDI, F_ADDI (c_rd i) 0 (c_imm i))"
| "expand_call i C_ADDI16SP =
     (if C_ADDI16SP_NZIMM i = 0 then None else Some (RV32I ADDI, F_ADDI 2 2 (C_ADDI16SP_NZIMM i)))"
| "expand_call i C_LUI =
     (if C_LUI_NZIMM i = 0 then None else Some (RV32I LUI, F_LUI (c_rd i) (C_LUI_NZIMM i)))"
| "expand_call i C_SLLI = Some (RV32I SLLI, F_SLLI (c_rd i) (c_rd i) (c_uimm i))"
| "expand_call i C_SRLI = Some (RV32I SRLI, F_SRLI (c_rd_small i) (c_rd_small i) (c_uimm i))"
| "expand_call i C_SRAI = Some (RV32I SRAI, F_SRAI (c_rd_small i) (c_rd_small i) (c_uimm i))"
| "expand_call i C_ANDI = Some (RV32I ANDI, F_ANDI (c_rd_small i) (c_rd_small i) (c_imm i))"
| "expand_call i C_J = Some (RV32I JAL, F_JAL 0 (C_J_IMM i))"
| "expand_call i C_BEQZ = Some (RV32I BEQ, F_BEQ (c_rd_small i) 0 (C_BRANCH_IMM i))"
| "expand_call i C_BNEZ = Some (RV32I BNE, F_BNE (c_rd_small i) 0 (C_BRANCH_IMM i))"
| "expand_call i C_LWSP =
     (if c_rd i = 0 then None else Some (RV32I LW, F_LW (c_rd i) 2 (C_LWSP_UIMM i)))"
| "expand_call i C_LDSP =
     (if c_rd i = 0 then None else Some (RV64I LD, F_LD (c_rd i) 2 (C_LDSP_UIMM i)))"
| "expand_call i C_FLWSP = Some (RV32F FLW, F_FLW (c_rd i) 2 (C_LWSP_UIMM i))"
| "expand_call i C_FLDSP = Some (RV32D FLD, F_FLD (c_rd i) 2 (C_LDSP_UIMM i))"
| "expand_call i C_SWSP = Some (RV32I SW, F_SW 2 (c_rs2 i) (C_SWSP_UIMM i))"
| "expand_call i C_SDSP = Some (RV64I SD, F_SD 2 (c_rs2 i) (C_SDSP_UIMM i))"
| "expand_call i C_FSWSP = Some (RV32F FSW, F_FSW 2 (c_rs2 i) (C_SWSP_UIMM i))"
| "expand_call i C_FSDSP = Some (RV32D FSD, F_FSD 2 (c_rs2 i) (C_SDSP_UIMM i))"
| "expand_call i C_EBREAK = Some (RV32I EBREAK, F_EBREAK)"
| "expand_call i C_JR = (if c_rd i = 0 then None else Some (RV32I JALR, F_JALR 0 (c_rd i) 0))"
| "expand_call i C_JALR = Some (RV32I JALR, F_JALR 1 (c_rd i) 0)"

definition expand_16 :: "Instruction \<Rightarrow> Compressed_Opcode \<Rightarrow> Mapping \<times> Instruction" where
  "expand_16 i op =
     (case expand_call i op of
        None \<Rightarrow> (UNDEF, i)
      | Some (m, c) \<Rightarrow> (m, InstructionFactory c))"

definition decode :: "Instruction \<Rightarrow> (Mapping \<times> Instruction) option" where
  "decode i =
     (if is_compressed i then map_option (expand_16 i) (decode_16 i)
      else Some (decode_32 i, i))"

section \<open>The decoder implements the encoding table\<close>

lemma and_covered:
  fixes i :: u32
  assumes "i AND m = e" "m AND k = k"
  shows "i AND k = e AND k"
  using assms by (metis and.assoc and.commute)

lemma field_masks:
  "opcode i = i AND 0x7F" "funct3 i = drop_bit 12 (i AND 0x7000)"
  "funct7 i = drop_bit 25 (i AND 0xFE000000)" "funct6 i = drop_bit 26 (i AND 0xFC000000)"
  "funct5 i = drop_bit 27 (i AND 0xF8000000)" "funct12 i = drop_bit 20 (i AND 0xFFF00000)"
  "funct2 i = drop_bit 25 (i AND 0x06000000)" "rs2 i = drop_bit 20 (i AND 0x01F00000)"
proof -
  have nonneg: "signed_drop_bit k w = drop_bit k w" if "\<not> bit w 31" for k and w :: u32
  proof (intro bit_word_eqI)
    fix n
    assume "n < LENGTH(32)"
    moreover have "bit w (n + k) \<Longrightarrow> n + k < 31"
      using that bit_imp_le_length [of w "n + k"] by (cases "n + k = 31") auto
    ultimately show "bit (signed_drop_bit k w) n \<longleftrightarrow> bit (drop_bit k w) n"
      using that by (auto simp: field_bits)
  qed
  show "opcode i = i AND 0x7F" "funct3 i = drop_bit 12 (i AND 0x7000)"
    "funct7 i = drop_bit 25 (i AND 0xFE000000)" "funct6 i = drop_bit 26 (i AND 0xFC000000)"
    "funct5 i = drop_bit 27 (i AND 0xF8000000)" "funct12 i = drop_bit 20 (i AND 0xFFF00000)"
    "funct2 i = drop_bit 25 (i AND 0x06000000)" "rs2 i = drop_bit 20 (i AND 0x01F00000)"
    by (simp_all add: field_defs BIT_RANGE_def nonneg bit_simps)
qed

lemma match_fields:
  assumes "matches i op"
  shows "fst (instr_code op) AND 0x7F = 0x7F \<longrightarrow> opcode i = snd (instr_code op) AND 0x7F"
    and "fst (instr_code op) AND 0x7000 = 0x7000 \<longrightarrow> funct3 i = drop_bit 12 (snd (instr_code op) AND 0x7000)"
    and "fst (instr_code op) AND 0xFE000000 = 0xFE000000 \<longrightarrow>
           funct7 i = drop_bit 25 (snd (instr_code op) AND 0xFE000000)"
    and "fst (instr_code op) AND 0xFC000000 = 0xFC000000 \<longrightarrow>
           funct6 i = drop_bit 26 (snd (instr_code op) AND 0xFC000000)"
    and "fst (instr_code op) AND 0xF8000000 = 0xF8000000 \<longrightarrow>
           funct5 i = drop_bit 27 (snd (instr_code op) AND 0xF8000000)"
    and "fst (instr_code op) AND 0xFFF00000 = 0xFFF00000 \<longrightarrow>
           funct12 i = drop_bit 20 (snd (instr_code op) AND 0xFFF00000)"
    and "fst (instr_code op) AND 0x06000000 = 0x06000000 \<longrightarrow>
           funct2 i = drop_bit 25 (snd (instr_code op) AND 0x06000000)"
    and "fst (instr_code op) AND 0x01F00000 = 0x01F00000 \<longrightarrow>
           rs2 i = drop_bit 20 (snd (instr_code op) AND 0x01F00000)"
  using assms and_covered [of i "fst (instr_code op)" "snd (instr_code op)"]
  by (simp_all add: matches_def field_masks)

lemmas decode_defs = decode_32_def decode_branch_def decode_load_def decode_store_def
  decode_op_imm_def decode_op_imm_32_def decode_op_def decode_op_32_def decode_system_def
  decode_amo_def decode_op_fp_def

definition decoded :: "Instruction \<Rightarrow> Mapping \<Rightarrow> bool" where
  "decoded i x \<longleftrightarrow> x = UNDEF \<or> matches i x"

lemma decoded_intros:
  "decoded i UNDEF" "decoded i (match_and_return i op)"
  "decoded i a \<Longrightarrow> decoded i b \<Longrightarrow> decoded i (if c then a else b)"
  by (simp_all add: decoded_def match_and_return_def)

lemma decode_32_decoded: "decoded i (decode_32 i)"
  unfolding decode_defs by (intro decoded_intros)

lemma sfence_funct12:
  assumes "matches i (Privileged SFENCE_VMA)"
  shows "funct12 i \<noteq> 0" "funct12 i \<noteq> 1" "funct12 i \<noteq> 2" "funct12 i \<noteq> 0x102" "funct12 i \<noteq> 0x302"
    "funct12 i \<noteq> 0x105"
proof -
  have "i AND 0xFE000000 = 0x12000000"
    using and_covered [of i "0xFE007FFF" "0x12000073" "0xFE000000"] assms by (simp add: matches_def)
  moreover have "funct12 i AND 0xFE0 = drop_bit 20 (i AND 0xFE000000)"
    using drop_bit_and [of 20 "i AND 0xFFF00000" "0xFE000000"] by (simp add: field_masks and.assoc)
  ultimately have "funct12 i AND 0xFE0 = 0x120" by simp
  then show "funct12 i \<noteq> 0" "funct12 i \<noteq> 1" "funct12 i \<noteq> 2" "funct12 i \<noteq> 0x102" "funct12 i \<noteq> 0x302"
    "funct12 i \<noteq> 0x105" by auto
qed

text \<open>A matching word has the fields that lead the switches to its case.\<close>

lemma matches_decode_RV32I: "matches i (RV32I c) \<Longrightarrow> decode_32 i = RV32I c"
  by (frule match_fields(1), frule match_fields(2), frule match_fields(3), frule match_fields(4),
      frule match_fields(5), frule match_fields(6), frule match_fields(7), frule match_fields(8))
    (cases c; simp add: decode_defs match_and_return_def)

lemma matches_decode_Zifencei: "matches i (Zifencei c) \<Longrightarrow> decode_32 i = Zifencei c"
  by (frule match_fields(1), frule match_fields(2), frule match_fields(3), frule match_fields(4),
      frule match_fields(5), frule match_fields(6), frule match_fields(7), frule match_fields(8))
    (cases c; simp add: decode_defs match_and_return_def)

lemma matches_decode_Zicsr: "matches i (Zicsr c) \<Longrightarrow> decode_32 i = Zicsr c"
  by (frule match_fields(1), frule match_fields(2), frule match_fields(3), frule match_fields(4),
      frule match_fields(5), frule match_fields(6), frule match_fields(7), frule match_fields(8))
    (cases c; simp add: decode_defs match_and_return_def)

lemma matches_decode_RV32M: "matches i (RV32M c) \<Longrightarrow> decode_32 i = RV32M c"
  by (frule match_fields(1), frule match_fields(2), frule match_fields(3), frule match_fields(4),
      frule match_fields(5), frule match_fields(6), frule match_fields(7), frule match_fields(8))
    (cases c; simp add: decode_defs match_and_return_def)

lemma matches_decode_RV32A: "matches i (RV32A c) \<Longrightarrow> decode_32 i = RV32A c"
  by (frule match_fields(1), frule match_fields(2), frule match_fields(3), frule match_fields(4),
      frule match_fields(5), frule match_fields(6), frule match_fields(7), frule match_fields(8))
    (cases c; simp add: decode_defs match_and_return_def)

lemma matches_decode_RV64I: "matches i (RV64I c) \<Longrightarrow> decode_32 i = RV64I c"
  by (frule match_fields(1), frule match_fields(2), frule match_fields(3), frule match_fields(4),
      frule match_fields(5), frule match_fields(6), frule match_fields(7), frule match_fields(8))
    (cases c; simp add: decode_defs match_and_return_def)

lemma matches_decode_RV64M: "matches i (RV64M c) \<Longrightarrow> decode_32 i = RV64M c"
  by (frule match_fields(1), frule match_fields(2), frule match_fields(3), frule match_fields(4),
      frule match_fields(5), frule match_fields(6), frule match_fields(7), frule match_fields(8))
    (cases c; simp add: decode_defs match_and_return_def)

lemma matches_decode_RV64A: "matches i (RV64A c) \<Longrightarrow> decode_32 i = RV64A c"
  by (frule match_fields(1), frule match_fields(2), frule match_fields(3), frule match_fields(4),
      frule match_fields(5), frule match_fields(6), frule match_fields(7), frule match_fields(8))
    (cases c; simp add: decode_defs match_and_return_def)

lemma matches_decode_RV32F: "matches i (RV32F c) \<Longrightarrow> decode_32 i = RV32F c"
  by (frule match_fields(1), frule match_fields(2), frule match_fields(3), frule match_fields(4),
      frule match_fields(5), frule match_fields(6), frule match_fields(7), frule match_fields(8))
    (cases c; simp add: decode_defs match_and_return_def)

lemma matches_decode_RV64F: "matches i (RV64F c) \<Longrightarrow> decode_32 i = RV64F c"
  by (frule match_fields(1), frule match_fields(2), frule match_fields(3), frule match_fields(4),
      frule match_fields(5), frule match_fields(6), frule match_fields(7), frule match_fields(8))
    (cases c; simp add: decode_defs match_and_return_def)

lemma matches_decode_RV32D: "matches i (RV32D c) \<Longrightarrow> decode_32 i = RV32D c"
  by (frule match_fields(1), frule match_fields(2), frule match_fields(3), frule match_fields(4),
      frule match_fields(5), frule match_fields(6), frule match_fields(7), frule match_fields(8))
    (cases c; simp add: decode_defs match_and_return_def)

lemma matches_decode_RV64D: "matches i (RV64D c) \<Longrightarrow> decode_32 i = RV64D c"
  by (frule match_fields(1), frule match_fields(2), frule match_fields(3), frule match_fields(4),
      frule match_fields(5), frule match_fields(6), frule match_fields(7), frule match_fields(8))
    (cases c; simp add: decode_defs match_and_return_def)

lemma matches_decode_Privileged: "matches i (Privileged c) \<Longrightarrow> decode_32 i = Privileged c"
  by (frule match_fields(1), frule match_fields(2), frule match_fields(3), frule match_fields(4),
      frule match_fields(5), frule match_fields(6), frule match_fields(7), frule match_fields(8))
    (cases c; simp add: decode_defs match_and_return_def sfence_funct12)

lemma decode_32_iff: "op \<noteq> UNDEF \<Longrightarrow> decode_32 i = op \<longleftrightarrow> matches i op"
  using decode_32_decoded [of i]
  by (cases op)
    (auto simp: decoded_def matches_decode_RV32I matches_decode_Zifencei matches_decode_Zicsr
      matches_decode_RV32M matches_decode_RV32A matches_decode_RV64I matches_decode_RV64M
      matches_decode_RV64A matches_decode_RV32F matches_decode_RV64F matches_decode_RV32D
      matches_decode_RV64D matches_decode_Privileged)

section \<open>Words compared bit by bit\<close>

lemma u32_eqI:
  fixes a b :: u32
  assumes "list_all (\<lambda>n. bit a n \<longleftrightarrow> bit b n) [0, 1, 2, 3, 4, 5, 6, 7, 8, 9, 10, 11, 12, 13, 14, 15,
    16, 17, 18, 19, 20, 21, 22, 23, 24, 25, 26, 27, 28, 29, 30, 31]"
  shows "a = b"
proof (intro bit_word_eqI)
  fix n
  assume "n < LENGTH(32)"
  then have "n \<in> set [0..<32]" by simp
  moreover have "[0..<32] = [0, 1, 2, 3, 4, 5, 6, 7, 8, 9, 10, 11, 12, 13, 14, 15,
    16, 17, 18, 19, 20, 21, 22, 23, 24, 25, 26, 27, 28, 29, 30, 31]" by code_simp
  ultimately show "bit a n \<longleftrightarrow> bit b n" using assms unfolding list_all_iff by metis
qed

lemmas bit_blast = bit_simps field_bits min_def

section \<open>The factory and the 32-bit decoder agree\<close>

text \<open>
  What a factory call encodes: the instruction, and the operands the interpreter reads back from
  the word.  Registers are reduced to five bits and immediates to the width of their format.
\<close>

fun call_mapping :: "factory_call \<Rightarrow> Mapping" where
  "call_mapping (F_ADD d s1 s2) = RV32I ADD"
| "call_mapping (F_AND d s1 s2) = RV32I AND_op"
| "call_mapping (F_OR d s1 s2) = RV32I OR_op"
| "call_mapping (F_XOR d s1 s2) = RV32I XOR_op"
| "call_mapping (F_SUB d s1 s2) = RV32I SUB"
| "call_mapping (F_LW d s1 imm) = RV32I LW"
| "call_mapping (F_LD d s1 imm) = RV64I LD"
| "call_mapping (F_FLW d s1 imm) = RV32F FLW"
| "call_mapping (F_FLD d s1 imm) = RV32D FLD"
| "call_mapping (F_SW s1 s2 imm) = RV32I SW"
| "call_mapping (F_SD s1 s2 imm) = RV64I SD"
| "call_mapping (F_FSW s1 s2 imm) = RV32F FSW"
| "call_mapping (F_FSD s1 s2 imm) = RV32D FSD"
| "call_mapping (F_LUI d imm) = RV32I LUI"
| "call_mapping (F_ADDI d s1 imm) = RV32I ADDI"
| "call_mapping (F_ANDI d s1 imm) = RV32I ANDI"
| "call_mapping (F_SRLI d s1 sh) = RV32I SRLI"
| "call_mapping (F_SRAI d s1 sh) = RV32I SRAI"
| "call_mapping (F_SLLI d s1 sh) = RV32I SLLI"
| "call_mapping (F_JAL d imm) = RV32I JAL"
| "call_mapping (F_JALR d s1 imm) = RV32I JALR"
| "call_mapping (F_BEQ s1 s2 imm) = RV32I BEQ"
| "call_mapping (F_BNE s1 s2 imm) = RV32I BNE"
| "call_mapping F_EBREAK = RV32I EBREAK"
| "call_mapping (F_ADDIW d s1 imm) = RV64I ADDIW"
| "call_mapping (F_ADDW d s1 s2) = RV64I ADDW"
| "call_mapping (F_SUBW d s1 s2) = RV64I SUBW"

definition R_carries :: "u32 \<Rightarrow> u32 \<Rightarrow> u32 \<Rightarrow> Instruction \<Rightarrow> bool" where
  "R_carries d s1 s2 j \<longleftrightarrow> rd j = d \<and> rs1 j = s1 \<and> rs2 j = s2"

definition I_carries :: "u32 \<Rightarrow> u32 \<Rightarrow> u32 \<Rightarrow> Instruction \<Rightarrow> bool" where
  "I_carries d s1 imm j \<longleftrightarrow> rd j = d \<and> rs1 j = s1 \<and> I_imm j = imm"

definition S_carries :: "u32 \<Rightarrow> u32 \<Rightarrow> u32 \<Rightarrow> Instruction \<Rightarrow> bool" where
  "S_carries s1 s2 imm j \<longleftrightarrow> rs1 j = s1 \<and> rs2 j = s2 \<and> S_imm j = imm"

definition shift_carries :: "u32 \<Rightarrow> u32 \<Rightarrow> u32 \<Rightarrow> Instruction \<Rightarrow> bool" where
  "shift_carries d s1 sh j \<longleftrightarrow> rd j = d \<and> rs1 j = s1 \<and> instr_shamt j = sh"

definition B_carries :: "u32 \<Rightarrow> u32 \<Rightarrow> u32 \<Rightarrow> Instruction \<Rightarrow> bool" where
  "B_carries s1 s2 imm j \<longleftrightarrow> rs1 j = s1 \<and> rs2 j = s2 \<and> B_imm j = imm"

fun carries :: "factory_call \<Rightarrow> Instruction \<Rightarrow> bool" where
  "carries (F_ADD d s1 s2) j = R_carries d s1 s2 j"
| "carries (F_AND d s1 s2) j = R_carries d s1 s2 j"
| "carries (F_OR d s1 s2) j = R_carries d s1 s2 j"
| "carries (F_XOR d s1 s2) j = R_carries d s1 s2 j"
| "carries (F_SUB d s1 s2) j = R_carries d s1 s2 j"
| "carries (F_LW d s1 imm) j = I_carries d s1 imm j"
| "carries (F_LD d s1 imm) j = I_carries d s1 imm j"
| "carries (F_FLW d s1 imm) j = I_carries d s1 imm j"
| "carries (F_FLD d s1 imm) j = I_carries d s1 imm j"
| "carries (F_SW s1 s2 imm) j = S_carries s1 s2 imm j"
| "carries (F_SD s1 s2 imm) j = S_carries s1 s2 imm j"
| "carries (F_FSW s1 s2 imm) j = S_carries s1 s2 imm j"
| "carries (F_FSD s1 s2 imm) j = S_carries s1 s2 imm j"
| "carries (F_LUI d imm) j = (rd j = d \<and> U_imm j = imm)"
| "carries (F_ADDI d s1 imm) j = I_carries d s1 imm j"
| "carries (F_ANDI d s1 imm) j = I_carries d s1 imm j"
| "carries (F_SRLI d s1 sh) j = shift_carries d s1 sh j"
| "carries (F_SRAI d s1 sh) j = shift_carries d s1 sh j"
| "carries (F_SLLI d s1 sh) j = shift_carries d s1 sh j"
| "carries (F_JAL d imm) j = (rd j = d \<and> J_imm j = imm)"
| "carries (F_JALR d s1 imm) j = I_carries d s1 imm j"
| "carries (F_BEQ s1 s2 imm) j = B_carries s1 s2 imm j"
| "carries (F_BNE s1 s2 imm) j = B_carries s1 s2 imm j"
| "carries F_EBREAK j = True"
| "carries (F_ADDIW d s1 imm) j = I_carries d s1 imm j"
| "carries (F_ADDW d s1 s2) j = R_carries d s1 s2 j"
| "carries (F_SUBW d s1 s2) j = R_carries d s1 s2 j"

text \<open>The operand ranges of the formats.\<close>

definition is_reg :: "u32 \<Rightarrow> bool" where
  "is_reg r \<longleftrightarrow> r AND 0x1f = r"

definition is_simm :: "nat \<Rightarrow> u32 \<Rightarrow> bool" where
  "is_simm n imm \<longleftrightarrow> signed_take_bit n imm = imm"

definition is_target :: "nat \<Rightarrow> u32 \<Rightarrow> bool" where
  "is_target n imm \<longleftrightarrow> signed_take_bit n imm AND NOT 1 = imm"

fun fits :: "factory_call \<Rightarrow> bool" where
  "fits (F_ADD d s1 s2) = (is_reg d \<and> is_reg s1 \<and> is_reg s2)"
| "fits (F_AND d s1 s2) = (is_reg d \<and> is_reg s1 \<and> is_reg s2)"
| "fits (F_OR d s1 s2) = (is_reg d \<and> is_reg s1 \<and> is_reg s2)"
| "fits (F_XOR d s1 s2) = (is_reg d \<and> is_reg s1 \<and> is_reg s2)"
| "fits (F_SUB d s1 s2) = (is_reg d \<and> is_reg s1 \<and> is_reg s2)"
| "fits (F_LW d s1 imm) = (is_reg d \<and> is_reg s1 \<and> is_simm 11 imm)"
| "fits (F_LD d s1 imm) = (is_reg d \<and> is_reg s1 \<and> is_simm 11 imm)"
| "fits (F_FLW d s1 imm) = (is_reg d \<and> is_reg s1 \<and> is_simm 11 imm)"
| "fits (F_FLD d s1 imm) = (is_reg d \<and> is_reg s1 \<and> is_simm 11 imm)"
| "fits (F_SW s1 s2 imm) = (is_reg s1 \<and> is_reg s2 \<and> is_simm 11 imm)"
| "fits (F_SD s1 s2 imm) = (is_reg s1 \<and> is_reg s2 \<and> is_simm 11 imm)"
| "fits (F_FSW s1 s2 imm) = (is_reg s1 \<and> is_reg s2 \<and> is_simm 11 imm)"
| "fits (F_FSD s1 s2 imm) = (is_reg s1 \<and> is_reg s2 \<and> is_simm 11 imm)"
| "fits (F_LUI d imm) = (is_reg d \<and> imm AND 0xFFFFF000 = imm)"
| "fits (F_ADDI d s1 imm) = (is_reg d \<and> is_reg s1 \<and> is_simm 11 imm)"
| "fits (F_ANDI d s1 imm) = (is_reg d \<and> is_reg s1 \<and> is_simm 11 imm)"
| "fits (F_SRLI d s1 sh) = (is_reg d \<and> is_reg s1 \<and> sh AND 63 = sh)"
| "fits (F_SRAI d s1 sh) = (is_reg d \<and> is_reg s1 \<and> sh AND 63 = sh)"
| "fits (F_SLLI d s1 sh) = (is_reg d \<and> is_reg s1 \<and> sh AND 63 = sh)"
| "fits (F_JAL d imm) = (is_reg d \<and> is_target 20 imm)"
| "fits (F_JALR d s1 imm) = (is_reg d \<and> is_reg s1 \<and> is_simm 11 imm)"
| "fits (F_BEQ s1 s2 imm) = (is_reg s1 \<and> is_reg s2 \<and> is_target 12 imm)"
| "fits (F_BNE s1 s2 imm) = (is_reg s1 \<and> is_reg s2 \<and> is_target 12 imm)"
| "fits F_EBREAK = True"
| "fits (F_ADDIW d s1 imm) = (is_reg d \<and> is_reg s1 \<and> is_simm 11 imm)"
| "fits (F_ADDW d s1 s2) = (is_reg d \<and> is_reg s1 \<and> is_reg s2)"
| "fits (F_SUBW d s1 s2) = (is_reg d \<and> is_reg s1 \<and> is_reg s2)"

lemmas carries_defs = R_carries_def I_carries_def S_carries_def shift_carries_def B_carries_def

lemmas operand_defs = reg_operands_def imm_operands_def store_operands_def shift_operands_def
  branch_operands_def

lemma factory_matches: "matches (InstructionFactory c) (call_mapping c)"
  unfolding matches_def by (cases c; simp; intro u32_eqI; simp add: operand_defs bit_blast)

lemma no_bits_outside:
  fixes K :: u32
  assumes "K AND M = 0" "bit M n"
  shows "\<not> bit K n"
  using assms by (metis bit_0_eq bit_and_iff bot_apply bot_bool_def)

lemma reg_carries:
  assumes "K AND 0x01FF8F80 = 0" "is_reg d" "is_reg s1" "is_reg s2"
  shows "R_carries d s1 s2 (reg_operands d s1 s2 OR K)"
proof -
  have "rd (reg_operands d s1 s2 OR K) = d AND 0x1f" "rs1 (reg_operands d s1 s2 OR K) = s1 AND 0x1f"
    "rs2 (reg_operands d s1 s2 OR K) = s2 AND 0x1f"
    unfolding field_defs
    by (intro u32_eqI; simp add: operand_defs bit_blast no_bits_outside [OF assms(1)])+
  with assms show ?thesis by (simp add: R_carries_def is_reg_def)
qed

lemma imm_carries:
  assumes "K AND 0xFFFF8F80 = 0" "is_reg d" "is_reg s1" "is_simm 11 imm"
  shows "I_carries d s1 imm (imm_operands d s1 imm OR K)"
proof -
  have "rd (imm_operands d s1 imm OR K) = d AND 0x1f" "rs1 (imm_operands d s1 imm OR K) = s1 AND 0x1f"
    "I_imm (imm_operands d s1 imm OR K) = signed_take_bit 11 imm"
    unfolding field_defs
    by (intro u32_eqI; simp add: operand_defs bit_blast no_bits_outside [OF assms(1)])+
  with assms show ?thesis by (simp add: I_carries_def is_reg_def is_simm_def)
qed

lemma store_carries:
  assumes "K AND 0xFFFF8F80 = 0" "is_reg s1" "is_reg s2" "is_simm 11 imm"
  shows "S_carries s1 s2 imm (store_operands s1 s2 imm OR K)"
proof -
  have "rs1 (store_operands s1 s2 imm OR K) = s1 AND 0x1f" "rs2 (store_operands s1 s2 imm OR K) = s2 AND 0x1f"
    "S_imm (store_operands s1 s2 imm OR K) = signed_take_bit 11 imm"
    unfolding field_defs
    by (intro u32_eqI; simp add: operand_defs bit_blast no_bits_outside [OF assms(1)])+
  with assms show ?thesis by (simp add: S_carries_def is_reg_def is_simm_def)
qed

lemma shamt_carries:
  assumes "K AND 0x03FF8F80 = 0" "is_reg d" "is_reg s1" "sh AND 63 = sh"
  shows "shift_carries d s1 sh (shift_operands d s1 sh OR K)"
proof -
  have "rd (shift_operands d s1 sh OR K) = d AND 0x1f" "rs1 (shift_operands d s1 sh OR K) = s1 AND 0x1f"
    "instr_shamt (shift_operands d s1 sh OR K) = sh AND 63"
    unfolding field_defs
    by (intro u32_eqI; simp add: operand_defs bit_blast no_bits_outside [OF assms(1)])+
  with assms show ?thesis by (simp add: shift_carries_def is_reg_def)
qed

lemma branch_carries:
  assumes "K AND 0xFFFF8F80 = 0" "is_reg s1" "is_reg s2" "is_target 12 imm"
  shows "B_carries s1 s2 imm (branch_operands s1 s2 imm OR K)"
proof -
  have "rs1 (branch_operands s1 s2 imm OR K) = s1 AND 0x1f" "rs2 (branch_operands s1 s2 imm OR K) = s2 AND 0x1f"
    "B_imm (branch_operands s1 s2 imm OR K) = signed_take_bit 12 imm AND NOT 1"
    unfolding field_defs
    by (intro u32_eqI; simp add: operand_defs bit_blast no_bits_outside [OF assms(1)])+
  with assms show ?thesis by (simp add: B_carries_def is_reg_def is_target_def)
qed

lemma lui_carries:
  "rd (InstructionFactory (F_LUI d imm)) = d AND 0x1f"
  "U_imm (InstructionFactory (F_LUI d imm)) = imm AND 0xFFFFF000"
  unfolding field_defs InstructionFactory.simps by (intro u32_eqI; simp add: bit_blast)+

lemma jal_carries:
  "rd (InstructionFactory (F_JAL d imm)) = d AND 0x1f"
  "J_imm (InstructionFactory (F_JAL d imm)) = signed_take_bit 20 imm AND NOT 1"
  unfolding field_defs InstructionFactory.simps by (intro u32_eqI; simp add: bit_blast)+

lemma factory_carries:
  assumes "fits c"
  shows "carries c (InstructionFactory c)"
  using assms
  by (cases c)
    (simp_all add: or.assoc reg_carries imm_carries store_carries shamt_carries branch_carries
      lui_carries jal_carries is_reg_def is_target_def del: InstructionFactory.simps(14,20))

lemma factory_decodes: "decode_32 (InstructionFactory c) = call_mapping c"
  using factory_matches [of c] decode_32_iff [of "call_mapping c"] by (cases c) auto

section \<open>Compressed instructions expand to what they abbreviate\<close>

lemmas compressed_fields = c_rd_def c_rd_small_def c_rs2_small_def c_rs2_def c_imm_def c_uimm_def
  C_ADDI4SPN_NZUIMM_def C_LW_UIMM_def C_LD_UIMM_def C_SW_UIMM_def C_SD_UIMM_def C_JAL_IMM_def
  C_ADDI16SP_NZIMM_def C_LUI_NZIMM_def C_J_IMM_def C_BRANCH_IMM_def C_LWSP_UIMM_def C_SWSP_UIMM_def
  C_LDSP_UIMM_def C_SDSP_UIMM_def rd_def

lemmas bit_macros = BIT_SLICE_def BIT_SLICE_U_def BIT_SINGLE_P1_def BIT_SINGLE_P1_U_def
  BIT_SINGLE_PN_def BIT_SINGLE_PN_U_def EXTRACT_SIGN_BIT_def

lemma compressed_regs:
  "is_reg (c_rd i)" "is_reg (c_rs2 i)" "is_reg (c_rd_small i)" "is_reg (c_rs2_small i)"
  "is_reg 0" "is_reg 1" "is_reg 2"
  unfolding is_reg_def by (intro u32_eqI; simp add: compressed_fields bit_macros bit_blast)+

lemma compressed_imms:
  "is_simm 11 (c_imm i)" "is_simm 11 (C_ADDI4SPN_NZUIMM i)" "is_simm 11 (C_LW_UIMM i)"
  "is_simm 11 (C_LD_UIMM i)" "is_simm 11 (C_SW_UIMM i)" "is_simm 11 (C_SD_UIMM i)"
  "is_simm 11 (C_ADDI16SP_NZIMM i)" "is_simm 11 (C_LWSP_UIMM i)" "is_simm 11 (C_SWSP_UIMM i)"
  "is_simm 11 (C_LDSP_UIMM i)" "is_simm 11 (C_SDSP_UIMM i)" "is_simm 11 0"
  unfolding is_simm_def by (intro u32_eqI; simp add: compressed_fields bit_macros bit_blast)+

lemma bit_times_2 [field_bits]: "bit (x * 2 :: u32) n \<longleftrightarrow> 0 < n \<and> n < 32 \<and> bit x (n - 1)"
  using bit_double_iff [of x n] by (auto simp: ac_simps dest: bit_imp_le_length)

lemma compressed_targets:
  "is_target 20 (C_JAL_IMM i)" "is_target 20 (C_J_IMM i)" "is_target 12 (C_BRANCH_IMM i)"
  unfolding is_target_def by (intro u32_eqI; simp add: compressed_fields bit_macros bit_blast field_bits)+

lemma compressed_shamt: "c_uimm i AND 63 = c_uimm i"
  by (intro u32_eqI; simp add: compressed_fields bit_macros bit_blast)

lemma compressed_lui: "C_LUI_NZIMM i AND 0xFFFFF000 = C_LUI_NZIMM i"
  by (intro u32_eqI; simp add: compressed_fields bit_macros bit_blast)

lemma expand_fits:
  assumes "expand_call i op = Some (m, c)"
  shows "fits c"
  using assms
  by (cases op)
    (auto simp: compressed_regs compressed_imms compressed_targets compressed_shamt compressed_lui
      split: if_splits)

lemma expand_mapping:
  assumes "expand_call i op = Some (m, c)"
  shows "m = call_mapping c \<or> (op = C_ADDIW \<and> m = RV64I ADDIW \<and> call_mapping c = RV32I ADDI)"
  using assms by (cases op) (auto split: if_splits)

lemma factory_not_compressed: "\<not> is_compressed (InstructionFactory c)"
proof -
  have "quadrant (InstructionFactory c) = 3"
    unfolding quadrant_def by (cases c; simp; intro u32_eqI; simp add: operand_defs bit_blast)
  then show ?thesis by (simp add: is_compressed_def)
qed

lemma quadrant_compressed:
  assumes "is_compressed i"
  shows "quadrant i = 0 \<or> quadrant i = 1 \<or> quadrant i = 2"
proof -
  have "unat (quadrant i) < 3"
    using assms by (simp add: is_compressed_def word_less_nat_alt)
  then have "unat (quadrant i) = 0 \<or> unat (quadrant i) = 1 \<or> unat (quadrant i) = 2" by linarith
  then show ?thesis by (auto simp: word_unat_eq_iff)
qed

lemma decode_16_total: "is_compressed i \<Longrightarrow> \<exists>op. decode_16 i = Some op"
  by (auto dest!: quadrant_compressed simp: decode_16_def)

lemma decode_total: "\<exists>m j. decode i = Some (m, j)"
  using decode_16_total [of i] by (cases "is_compressed i") (auto simp: decode_def)

section \<open>Layout of the compressed immediates\<close>

text \<open>
  The immediate formats of the compressed extension, written as the standard tabulates them: the
  instruction bit that supplies each immediate bit, from bit 0 upwards.
\<close>

definition layout :: "nat option list \<Rightarrow> u32 \<Rightarrow> u32" where
  "layout ps i = horner_sum of_bool 2 (map (\<lambda>p. case p of None \<Rightarrow> False | Some k \<Rightarrow> bit i k) ps)"

lemma bit_layout:
  "bit (layout ps i) n \<longleftrightarrow> n < 32 \<and> n < length ps \<and> (case ps ! n of None \<Rightarrow> False | Some k \<Rightarrow> bit i k)"
  by (simp add: layout_def bit_horner_sum_bit_word_iff) (auto simp: min_def)

text \<open>
  C9. The 32-bit decoder implements the table of masks and encodings exactly: a word is decoded
  to an instruction other than \<open>UNDEF\<close> if and only if it matches that instruction's mask and
  encoding, whatever order the switches test the fields in.  So no two rows of the table match
  the same word, every row is reached, and a word that matches no row is \<open>UNDEF\<close>.
\<close>

theorem decode_32_exact: "matches i op \<longleftrightarrow> op \<noteq> UNDEF \<and> decode_32 i = op"
proof (cases "op = UNDEF")
  case True
  then show ?thesis by (simp add: matches_def)
next
  case False
  then show ?thesis by (simp add: decode_32_iff)
qed

text \<open>
  C22. Decoding never throws, and the word a compressed instruction is replaced by is an
  uncompressed instruction that the 32-bit decoder reads as the mapping returned, carrying
  exactly the operands the expansion chose: no register number or immediate is truncated when
  it is encoded.  The one deviation is \<^verbatim>\<open>C.ADDIW\<close>, which is rebuilt as an \<^verbatim>\<open>ADDI\<close> word but executed as
  \<^verbatim>\<open>ADDIW\<close>, whose operand fields are the same.
\<close>

theorem compressed_decode_correct:
  assumes "is_compressed i"
  shows "\<exists>op. decode_16 i = Some op \<and> decode i = Some (expand_16 i op) \<and>
    (case expand_call i op of
       None \<Rightarrow> expand_16 i op = (UNDEF, i)
     | Some (m, c) \<Rightarrow>
         expand_16 i op = (m, InstructionFactory c) \<and>
         \<not> is_compressed (InstructionFactory c) \<and>
         fits c \<and> carries c (InstructionFactory c) \<and>
         (decode_32 (InstructionFactory c) = m \<or>
          op = C_ADDIW \<and> m = RV64I ADDIW \<and> decode_32 (InstructionFactory c) = RV32I ADDI))"
proof -
  from decode_16_total [OF assms] obtain op where op: "decode_16 i = Some op" ..
  with assms have "decode i = Some (expand_16 i op)" by (simp add: decode_def)
  with op show ?thesis
    by (auto simp: expand_16_def factory_not_compressed factory_decodes
        dest: expand_fits expand_mapping intro: factory_carries split: option.split)
qed

theorem compressed_decode_correct_witness:
  "\<exists>op. decode_16 0x4501 = Some op \<and> decode 0x4501 = Some (expand_16 0x4501 op) \<and>
    decode 0x4501 = Some (RV32I ADDI, 0x00000513)"
proof -
  have "is_compressed 0x4501" by (simp add: is_compressed_def quadrant_def)
  moreover have "decode 0x4501 = Some (RV32I ADDI, 0x00000513)" by code_simp
  ultimately show ?thesis using compressed_decode_correct [of "0x4501"] by auto
qed

text \<open>
  C36. The immediates that the expansion extracts are those of the compressed extension's
  formats: every bit comes from the instruction bit the format assigns to it, and the signed
  ones are extended from their top bit.
\<close>

theorem compressed_immediates:
  "C_ADDI4SPN_NZUIMM i =
     layout [None, None, Some 6, Some 5, Some 11, Some 12, Some 7, Some 8, Some 9, Some 10] i \<and>
   C_LW_UIMM i = layout [None, None, Some 6, Some 10, Some 11, Some 12, Some 5] i \<and>
   C_LD_UIMM i = layout [None, None, None, Some 10, Some 11, Some 12, Some 5, Some 6] i \<and>
   C_LWSP_UIMM i = layout [None, None, Some 4, Some 5, Some 6, Some 12, Some 2, Some 3] i \<and>
   C_LDSP_UIMM i = layout [None, None, None, Some 5, Some 6, Some 12, Some 2, Some 3, Some 4] i \<and>
   C_SWSP_UIMM i = layout [None, None, Some 9, Some 10, Some 11, Some 12, Some 7, Some 8] i \<and>
   C_SDSP_UIMM i = layout [None, None, None, Some 10, Some 11, Some 12, Some 7, Some 8, Some 9] i \<and>
   c_uimm i = layout [Some 2, Some 3, Some 4, Some 5, Some 6, Some 12] i \<and>
   c_imm i = signed_take_bit 5 (layout [Some 2, Some 3, Some 4, Some 5, Some 6, Some 12] i) \<and>
   C_JAL_IMM i = signed_take_bit 11
     (layout [None, Some 3, Some 4, Some 5, Some 11, Some 2, Some 7, Some 6, Some 9, Some 10,
        Some 8, Some 12] i) \<and>
   C_BRANCH_IMM i = signed_take_bit 8
     (layout [None, Some 3, Some 4, Some 10, Some 11, Some 2, Some 5, Some 6, Some 12] i) \<and>
   C_ADDI16SP_NZIMM i = signed_take_bit 9
     (layout [None, None, None, None, Some 6, Some 2, Some 5, Some 3, Some 4, Some 12] i) \<and>
   C_LUI_NZIMM i = signed_take_bit 17
     (layout [None, None, None, None, None, None, None, None, None, None, None, None,
        Some 2, Some 3, Some 4, Some 5, Some 6, Some 12] i)"
  by (intro conjI; intro u32_eqI;
      simp add: compressed_fields bit_macros bit_blast field_bits bit_layout
        numeral_2_eq_2 [symmetric] numeral_3_eq_3 [symmetric])

end
