(* ===== verification/Rv64_Csr.thy ===== *)
theory Rv64_Csr
  imports Rv64_Decode Command_Packet
begin

text \<open>
  The control and status registers of the RV64 interpreter (\<^verbatim>\<open>rv64/csr.h\<close>): the table of registers,
  the bit-fields of those the core interprets, the masks that govern reads and writes, and the
  mapping from CSR addresses to registers.  The C++ table holds pointers to its own members, so
  the model names the members and keeps the table as a store from names to values.
\<close>

section \<open>Registers and bit-fields\<close>

datatype csr_reg =
    Cycle | Time | Instret | Mvendorid | Marchid | Mimpid | Mhartid
  | Mstatus | Misa | Medeleg | Mideleg | Mie | Mtvec | Mcounteren | Mcountinhibit
  | Mscratch | Mepc | Mcause | Mtval | Mip | Pmpaddr nat | Pmpcfg nat
  | Sedeleg | Sideleg | Stvec | Scounteren | Sscratch | Sepc | Scause | Stval | Satp
  | Utvec | Uscratch | Uepc | Ucause | Utval | Fcsr

type_synonym csr_table = "csr_reg \<Rightarrow> u64"

text \<open>A bit-field is its lowest bit and its width; storing truncates to the width.\<close>

type_synonym bit_field = "nat \<times> nat"

definition get_field :: "bit_field \<Rightarrow> u64 \<Rightarrow> u64" where
  "get_field f x = drop_bit (fst f) x AND mask (snd f)"

definition set_field :: "bit_field \<Rightarrow> u64 \<Rightarrow> u64 \<Rightarrow> u64" where
  "set_field f v x = (x AND NOT (push_bit (fst f) (mask (snd f)))) OR push_bit (fst f) (v AND mask (snd f))"

datatype mstatus_field = UIE | SIE | MIE | UPIE | SPIE | MPIE | SPP | MPP | TVM | TW | TSR | UXL | SXL

fun mstatus_bits :: "mstatus_field \<Rightarrow> bit_field" where
  "mstatus_bits UIE = (0, 1)"
| "mstatus_bits SIE = (1, 1)"
| "mstatus_bits MIE = (3, 1)"
| "mstatus_bits UPIE = (4, 1)"
| "mstatus_bits SPIE = (5, 1)"
| "mstatus_bits MPIE = (7, 1)"
| "mstatus_bits SPP = (8, 1)"
| "mstatus_bits MPP = (11, 2)"
| "mstatus_bits TVM = (20, 1)"
| "mstatus_bits TW = (21, 1)"
| "mstatus_bits TSR = (22, 1)"
| "mstatus_bits UXL = (32, 2)"
| "mstatus_bits SXL = (34, 2)"

datatype mip_field = USIP | SSIP | MSIP | UTIP | STIP | MTIP | UEIP | SEIP | MEIP

fun mip_bits :: "mip_field \<Rightarrow> bit_field" where
  "mip_bits USIP = (0, 1)"
| "mip_bits SSIP = (1, 1)"
| "mip_bits MSIP = (3, 1)"
| "mip_bits UTIP = (4, 1)"
| "mip_bits STIP = (5, 1)"
| "mip_bits MTIP = (7, 1)"
| "mip_bits UEIP = (8, 1)"
| "mip_bits SEIP = (9, 1)"
| "mip_bits MEIP = (11, 1)"

abbreviation (input) mtvec_mode :: bit_field where "mtvec_mode \<equiv> (0, 2)"
abbreviation (input) mtvec_base :: bit_field where "mtvec_base \<equiv> (2, 62)"
abbreviation (input) mcause_exception_code :: bit_field where "mcause_exception_code \<equiv> (0, 63)"
abbreviation (input) mcause_interrupt :: bit_field where "mcause_interrupt \<equiv> (63, 1)"
abbreviation (input) satp_mode :: bit_field where "satp_mode \<equiv> (60, 4)"
abbreviation (input) fcsr_fflags :: bit_field where "fcsr_fflags \<equiv> (0, 5)"
abbreviation (input) fcsr_frm :: bit_field where "fcsr_frm \<equiv> (5, 3)"
abbreviation (input) mcountinhibit_IR :: bit_field where "mcountinhibit_IR \<equiv> (2, 1)"

definition get_base_address :: "u64 \<Rightarrow> u64" where
  "get_base_address mtvec = push_bit 2 (get_field mtvec_base mtvec)"

section \<open>misa\<close>

definition csr_misa_init :: u64 where
  "csr_misa_init =
     set_field (62, 2) 2 (set_field (0, 26)
       (push_bit 8 1 OR push_bit 12 1 OR 1 OR push_bit 5 1 OR push_bit 3 1 OR push_bit 2 1
        OR push_bit 13 1 OR push_bit 20 1 OR push_bit 18 1) 0)"

definition has_C_extension :: "csr_table \<Rightarrow> bool" where
  "has_C_extension t \<longleftrightarrow> get_field (0, 26) (t Misa) AND push_bit 2 1 \<noteq> 0"

definition has_user_mode_extension :: "csr_table \<Rightarrow> bool" where
  "has_user_mode_extension t \<longleftrightarrow> get_field (0, 26) (t Misa) AND push_bit 20 1 \<noteq> 0"

definition has_supervisor_mode_extension :: "csr_table \<Rightarrow> bool" where
  "has_supervisor_mode_extension t \<longleftrightarrow> get_field (0, 26) (t Misa) AND push_bit 18 1 \<noteq> 0"

section \<open>Masks\<close>

abbreviation (input) MIE_MASK :: u64 where "MIE_MASK \<equiv> 0b101110111011"
abbreviation (input) SIE_MASK :: u64 where "SIE_MASK \<equiv> 0b001100110011"
abbreviation (input) UIE_MASK :: u64 where "UIE_MASK \<equiv> 0b000100010001"
abbreviation (input) MIP_WRITE_MASK :: u64 where "MIP_WRITE_MASK \<equiv> 0b001100110011"
abbreviation (input) MIP_READ_MASK :: u64 where "MIP_READ_MASK \<equiv> MIE_MASK"
abbreviation (input) SIP_MASK :: u64 where "SIP_MASK \<equiv> 0b11"
abbreviation (input) UIP_MASK :: u64 where "UIP_MASK \<equiv> 0b1"
abbreviation (input) MEDELEG_MASK :: u64 where "MEDELEG_MASK \<equiv> 0b1011101111111111"
abbreviation (input) MIDELEG_MASK :: u64 where "MIDELEG_MASK \<equiv> MIE_MASK"
abbreviation (input) MTVEC_MASK :: u64 where "MTVEC_MASK \<equiv> 0xFFFFFFFFFFFFFFFD"
abbreviation (input) MCOUNTEREN_MASK :: u64 where "MCOUNTEREN_MASK \<equiv> 0b111"
abbreviation (input) MCOUNTINHIBIT_MASK :: u64 where "MCOUNTINHIBIT_MASK \<equiv> 0b101"
abbreviation (input) SEDELEG_MASK :: u64 where "SEDELEG_MASK \<equiv> 0b1011000111111111"
abbreviation (input) SIDELEG_MASK :: u64 where "SIDELEG_MASK \<equiv> MIDELEG_MASK"
abbreviation (input) MSTATUS_WRITE_MASK :: u64 where "MSTATUS_WRITE_MASK \<equiv> 0x80000000007FF9BB"
abbreviation (input) MSTATUS_READ_MASK :: u64 where "MSTATUS_READ_MASK \<equiv> 0x8000000F007FF9BB"
abbreviation (input) SSTATUS_WRITE_MASK :: u64 where "SSTATUS_WRITE_MASK \<equiv> 0x80000000000DE133"
abbreviation (input) SSTATUS_READ_MASK :: u64 where "SSTATUS_READ_MASK \<equiv> 0x80000003000DE133"
abbreviation (input) USTATUS_MASK :: u64 where "USTATUS_MASK \<equiv> 0b10001"
abbreviation (input) SATP_MASK :: u64 where "SATP_MASK \<equiv> 0xF0000FFFFFFFFFFF"
abbreviation (input) FCSR_MASK :: u64 where "FCSR_MASK \<equiv> 0b11111111"

section \<open>The table\<close>

definition csr_table_init :: csr_table where
  "csr_table_init = (\<lambda>_. 0)
     (Misa := csr_misa_init,
      Mstatus := set_field (mstatus_bits UXL) 2 (set_field (mstatus_bits SXL) 2 0))"

definition register_mapping :: "u32 \<Rightarrow> csr_reg option" where
  "register_mapping = map_of (
     [(0xC00, Cycle), (0xC01, Time), (0xC02, Instret),
      (0xB00, Cycle), (0xB01, Time), (0xB02, Instret),
      (0xF11, Mvendorid), (0xF12, Marchid), (0xF13, Mimpid), (0xF14, Mhartid),
      (0x300, Mstatus), (0x301, Misa), (0x302, Medeleg), (0x303, Mideleg), (0x304, Mie),
      (0x305, Mtvec), (0x306, Mcounteren), (0x320, Mcountinhibit),
      (0x340, Mscratch), (0x341, Mepc), (0x342, Mcause), (0x343, Mtval), (0x344, Mip)]
     @ map (\<lambda>i. (0x3B0 + of_nat i, Pmpaddr i)) [0..<16]
     @ map (\<lambda>i. (0x3A0 + of_nat i, Pmpcfg i)) [0..<4]
     @ [(0x102, Sedeleg), (0x103, Sideleg), (0x105, Stvec), (0x106, Scounteren),
      (0x140, Sscratch), (0x141, Sepc), (0x142, Scause), (0x143, Stval), (0x180, Satp),
      (0x005, Utvec), (0x040, Uscratch), (0x041, Uepc), (0x042, Ucause), (0x043, Utval),
      (0x003, Fcsr)])"

definition is_valid_csr64_addr :: "u32 \<Rightarrow> bool" where
  "is_valid_csr64_addr a \<longleftrightarrow> register_mapping a \<noteq> None"

text \<open>
  The table has two \<^verbatim>\<open>pmpcfg\<close> registers but maps four addresses to them: the last two point past the
  array, where an access is undefined.
\<close>

fun in_table :: "csr_reg \<Rightarrow> bool" where
  "in_table (Pmpaddr i) \<longleftrightarrow> i < 16"
| "in_table (Pmpcfg i) \<longleftrightarrow> i < 2"
| "in_table _ \<longleftrightarrow> True"

text \<open>The macro \<^verbatim>\<open>SWITCH_CASE_MATCH_ANY_HPMCOUNTER_RV64\<close>.\<close>

definition any_hpmcounter :: "u32 \<Rightarrow> bool" where
  "any_hpmcounter a \<longleftrightarrow> 0xC03 \<le> a \<and> a \<le> 0xC1F \<or> 0xB03 \<le> a \<and> a \<le> 0xB1F \<or> 0x323 \<le> a \<and> a \<le> 0x33F"

definition is_bitset :: "u64 \<Rightarrow> u32 \<Rightarrow> bool" where
  "is_bitset r bitpos \<longleftrightarrow> r AND scast (push_bit (unat bitpos) (1 :: u32)) \<noteq> 0"

section \<open>Bits of fields\<close>

lemma bit_get_field [bit_simps]: "bit (get_field f x) n \<longleftrightarrow> n < snd f \<and> bit x (n + fst f)"
  by (auto simp: get_field_def bit_simps ac_simps dest: bit_imp_le_length)

lemma bit_set_field [bit_simps]:
  "bit (set_field f v x) n \<longleftrightarrow>
     n < 64 \<and> (if fst f \<le> n \<and> n < fst f + snd f then bit v (n - fst f) else bit x n)"
  by (auto simp: set_field_def bit_simps dest: bit_imp_le_length)

lemma get_set_field_same:
  assumes "fst f + snd f \<le> 64" "v AND mask (snd f) = v"
  shows "get_field f (set_field f v x) = v"
proof (intro bit_word_eqI)
  fix n
  have "bit v n \<Longrightarrow> n < snd f" using assms(2) by (metis bit_and_iff bit_mask_iff)
  with assms show "bit (get_field f (set_field f v x)) n = bit v n"
    by (auto simp: bit_simps)
qed

lemma get_set_field_other:
  assumes "fst f + snd f \<le> fst g \<or> fst g + snd g \<le> fst f"
  shows "get_field f (set_field g v x) = get_field f x"
  using assms by (intro bit_word_eqI) (auto simp: bit_simps dest: bit_imp_le_length)

end
