(* ===== verification/Rv64_Core.thy ===== *)
theory Rv64_Core
  imports Rv64_Csr "HOL-Library.Signed_Division"
begin

text \<open>
  The RV64 interpreter that runs the command processor's firmware (\<^verbatim>\<open>rv64/rv64.cc\<close>, \<^verbatim>\<open>rv64/Regfile.cc\<close>
  and the memory port \<^verbatim>\<open>TLM_MemIF\<close> of \<^verbatim>\<open>command_processor.cc\<close>): one definition per member function of
  \<^verbatim>\<open>Core\<close> and one per group of opcodes of \<^verbatim>\<open>exec_step\<close>.  Registers are 64-bit words; signed
  arithmetic wraps as on the two's complement targets the simulator is built for.  A simulation
  trap is a value that carries the state at the \<^verbatim>\<open>throw\<close>; a C++ exception that nothing catches, a
  failed \<^verbatim>\<open>assert\<close>, a shift beyond the width of its operand and a dereferenced missing table entry are the
  values \<open>Aborted\<close>.
\<close>

section \<open>State\<close>

text \<open>
  What is behind the TLM socket is not part of the sources: a target is a read and a write
  function on a state of its own.
\<close>

record 'm mem_port =
  port_read :: "'m \<Rightarrow> u64 \<Rightarrow> nat \<Rightarrow> u8 list \<times> 'm"
  port_write :: "'m \<Rightarrow> u64 \<Rightarrow> u8 list \<Rightarrow> 'm"

record 'm core =
  regs :: "u64 list"
  csr :: csr_table
  debug_mode :: bool
  shall_exit :: bool
  pc :: u64
  last_pc :: u64
  prv :: PrivilegeLevel
  instr :: Instruction
  op :: Mapping
  status :: CoreExecStatus
  breakpoints :: "u64 set"
  single_step :: bool
  mem :: 'm

datatype abort = UnknownOpcode | UnknownPrivilege | NoPendingInterrupt | AssertionFailed | UndefinedBehaviour

datatype 's outcome = Done 's | Trapped 's u64 u64 | Aborted abort

fun and_then :: "'s outcome \<Rightarrow> ('s \<Rightarrow> 's outcome) \<Rightarrow> 's outcome" where
  "and_then (Done s) k = k s"
| "and_then (Trapped s e v) k = Trapped s e v"
| "and_then (Aborted a) k = Aborted a"

abbreviation (input) EXC_INSTR_ADDR_MISALIGNED :: u64 where "EXC_INSTR_ADDR_MISALIGNED \<equiv> 0"
abbreviation (input) EXC_ILLEGAL_INSTR :: u64 where "EXC_ILLEGAL_INSTR \<equiv> 2"
abbreviation (input) EXC_LOAD_ADDR_MISALIGNED :: u64 where "EXC_LOAD_ADDR_MISALIGNED \<equiv> 4"
abbreviation (input) EXC_STORE_AMO_ADDR_MISALIGNED :: u64 where "EXC_STORE_AMO_ADDR_MISALIGNED \<equiv> 6"
abbreviation (input) EXC_ECALL_U_MODE :: u64 where "EXC_ECALL_U_MODE \<equiv> 8"
abbreviation (input) EXC_ECALL_S_MODE :: u64 where "EXC_ECALL_S_MODE \<equiv> 9"
abbreviation (input) EXC_ECALL_M_MODE :: u64 where "EXC_ECALL_M_MODE \<equiv> 11"

section \<open>Register file\<close>

definition reg_read :: "'m core \<Rightarrow> u32 \<Rightarrow> u64" where
  "reg_read c i = regs c ! unat i"

definition reg_write :: "'m core \<Rightarrow> u32 \<Rightarrow> u64 \<Rightarrow> 'm core" where
  "reg_write c i v = c\<lparr>regs := (regs c)[unat i := v]\<rparr>"

definition reg_shamt :: "'m core \<Rightarrow> u32 \<Rightarrow> nat" where
  "reg_shamt c i = unat (reg_read c i AND 63)"

definition reg_shamt_w :: "'m core \<Rightarrow> u32 \<Rightarrow> nat" where
  "reg_shamt_w c i = unat (reg_read c i AND 63)"

text \<open>The operands and the destination of the instruction in execution.\<close>

definition x1 :: "'m core \<Rightarrow> u64" where
  "x1 c = reg_read c (rs1 (instr c))"

definition x2 :: "'m core \<Rightarrow> u64" where
  "x2 c = reg_read c (rs2 (instr c))"

definition to_rd :: "'m core \<Rightarrow> u64 \<Rightarrow> 'm core outcome" where
  "to_rd c v = Done (reg_write c (rd (instr c)) v)"

section \<open>Memory port\<close>

definition mem_load :: "'m mem_port \<Rightarrow> nat \<Rightarrow> 'm core \<Rightarrow> u64 \<Rightarrow> u8 list \<times> 'm core" where
  "mem_load b len c addr = (let (bs, m) = port_read b (mem c) addr len in (bs, c\<lparr>mem := m\<rparr>))"

definition mem_store :: "'m mem_port \<Rightarrow> nat \<Rightarrow> 'm core \<Rightarrow> u64 \<Rightarrow> u64 \<Rightarrow> 'm core" where
  "mem_store b len c addr v = c\<lparr>mem := port_write b (mem c) addr (le_bytes len v)\<rparr>"

definition load_instr :: "'m mem_port \<Rightarrow> 'm core \<Rightarrow> u64 \<Rightarrow> u32 \<times> 'm core" where
  "load_instr b c addr = (let (bs, c') = mem_load b 4 c addr in (le_word bs, c'))"

definition load_double :: "'m mem_port \<Rightarrow> 'm core \<Rightarrow> u64 \<Rightarrow> u64 \<times> 'm core" where
  "load_double b c addr = (let (bs, c') = mem_load b 8 c addr in (le_word bs, c'))"

definition load_word :: "'m mem_port \<Rightarrow> 'm core \<Rightarrow> u64 \<Rightarrow> u64 \<times> 'm core" where
  "load_word b c addr = (let (bs, c') = mem_load b 4 c addr in (scast (le_word bs :: u32), c'))"

definition load_half :: "'m mem_port \<Rightarrow> 'm core \<Rightarrow> u64 \<Rightarrow> u64 \<times> 'm core" where
  "load_half b c addr = (let (bs, c') = mem_load b 2 c addr in (scast (le_word bs :: u16), c'))"

definition load_byte :: "'m mem_port \<Rightarrow> 'm core \<Rightarrow> u64 \<Rightarrow> u64 \<times> 'm core" where
  "load_byte b c addr = (let (bs, c') = mem_load b 1 c addr in (scast (le_word bs :: u8), c'))"

definition load_uword :: "'m mem_port \<Rightarrow> 'm core \<Rightarrow> u64 \<Rightarrow> u64 \<times> 'm core" where
  "load_uword b c addr = (let (bs, c') = mem_load b 4 c addr in (ucast (le_word bs :: u32), c'))"

definition load_uhalf :: "'m mem_port \<Rightarrow> 'm core \<Rightarrow> u64 \<Rightarrow> u64 \<times> 'm core" where
  "load_uhalf b c addr = (let (bs, c') = mem_load b 2 c addr in (ucast (le_word bs :: u16), c'))"

definition load_ubyte :: "'m mem_port \<Rightarrow> 'm core \<Rightarrow> u64 \<Rightarrow> u64 \<times> 'm core" where
  "load_ubyte b c addr = (let (bs, c') = mem_load b 1 c addr in (ucast (le_word bs :: u8), c'))"

section \<open>Traps raised by an instruction\<close>

text \<open>\<^verbatim>\<open>raise_trap(EXC_ILLEGAL_INSTR, instr.data())\<close>.\<close>

definition illegal :: "'m core \<Rightarrow> 'm core outcome" where
  "illegal c = Trapped c EXC_ILLEGAL_INSTR (ucast (instr c))"

definition trap_check_pc_alignment :: "'m core \<Rightarrow> 'm core outcome" where
  "trap_check_pc_alignment c =
     (if pc c AND 1 \<noteq> 0 then Aborted AssertionFailed
      else if pc c AND 3 \<noteq> 0 \<and> \<not> has_C_extension (csr c) then Trapped c EXC_INSTR_ADDR_MISALIGNED (pc c)
      else Done c)"

definition trap_check_addr_alignment :: "u64 \<Rightarrow> bool \<Rightarrow> 'm core \<Rightarrow> u64 \<Rightarrow> 'm core outcome" where
  "trap_check_addr_alignment alignment isLoad c addr =
     (if addr mod alignment \<noteq> 0
      then Trapped c (if isLoad then EXC_LOAD_ADDR_MISALIGNED else EXC_STORE_AMO_ADDR_MISALIGNED) addr
      else Done c)"

section \<open>CSR access\<close>

definition mstatus :: "'m core \<Rightarrow> mstatus_field \<Rightarrow> u64" where
  "mstatus c f = get_field (mstatus_bits f) (csr c Mstatus)"

definition set_csr :: "csr_reg \<Rightarrow> u64 \<Rightarrow> 'm core \<Rightarrow> 'm core" where
  "set_csr r v c = c\<lparr>csr := (csr c)(r := v)\<rparr>"

definition set_mstatus :: "mstatus_field \<Rightarrow> u64 \<Rightarrow> 'm core \<Rightarrow> 'm core" where
  "set_mstatus f v c = set_csr Mstatus (set_field (mstatus_bits f) v (csr c Mstatus)) c"

definition is_invalid_csr_access :: "'m core \<Rightarrow> u32 \<Rightarrow> bool \<Rightarrow> bool" where
  "is_invalid_csr_access c a is_write =
     (let csr_prv = drop_bit 8 (0x300 AND a);
          csr_readonly = (drop_bit 10 (0xC00 AND a) = 3)
      in (is_write \<and> csr_readonly) \<or> prv c < csr_prv)"

definition validate_csr_counter_read_access_rights :: "'m core \<Rightarrow> u32 \<Rightarrow> bool" where
  "validate_csr_counter_read_access_rights c a \<longleftrightarrow>
     (if 0xC00 \<le> a \<and> a \<le> 0xC1F then
        let cnt = a AND 0x1F in
        \<not> (prv c = SupervisorMode \<and> \<not> is_bitset (csr c Mcounteren) cnt) \<and>
        \<not> (prv c = UserMode \<and> (\<not> is_bitset (csr c Mcounteren) cnt \<or> \<not> is_bitset (csr c Scounteren) cnt))
      else True)"

datatype csr_read = CsrValue u64 | CsrIllegal | CsrUndefined

definition default_read64 :: "'m core \<Rightarrow> u32 \<Rightarrow> csr_read" where
  "default_read64 c a =
     (case register_mapping a of
        None \<Rightarrow> CsrIllegal
      | Some r \<Rightarrow> if in_table r then CsrValue (csr c r) else CsrUndefined)"

definition get_csr_value :: "'m core \<Rightarrow> u32 \<Rightarrow> csr_read" where
  "get_csr_value c a =
     (if \<not> validate_csr_counter_read_access_rights c a then CsrIllegal
      else if a = 0xC01 \<or> a = 0xB01 then CsrValue (csr c Time)
      else if a = 0xB00 then CsrValue (csr c Cycle)
      else if a = 0xB02 then CsrValue (csr c Instret)
      else if any_hpmcounter a then CsrValue 0
      else if a = 0x300 then CsrValue (csr c Mstatus AND MSTATUS_READ_MASK)
      else if a = 0x100 then CsrValue (csr c Mstatus AND SSTATUS_READ_MASK)
      else if a = 0x000 then CsrValue (csr c Mstatus AND USTATUS_MASK)
      else if a = 0x344 then CsrValue (csr c Mip AND MIP_READ_MASK)
      else if a = 0x144 then CsrValue (csr c Mip AND SIP_MASK)
      else if a = 0x044 then CsrValue (csr c Mip AND UIP_MASK)
      else if a = 0x304 then CsrValue (csr c Mie AND MIE_MASK)
      else if a = 0x104 then CsrValue (csr c Mie AND SIE_MASK)
      else if a = 0x004 then CsrValue (csr c Mie AND UIE_MASK)
      else if a = 0x180 \<and> mstatus c TVM \<noteq> 0 then CsrIllegal
      else if a = 0x003 then CsrValue (csr c Fcsr AND FCSR_MASK)
      else if a = 0x001 then CsrValue (get_field fcsr_fflags (csr c Fcsr))
      else if a = 0x002 then CsrValue (get_field fcsr_frm (csr c Fcsr))
      else if a = 0xF14 then CsrValue 0
      else default_read64 c a)"

definition pc_alignment_mask :: "'m core \<Rightarrow> u64" where
  "pc_alignment_mask c = (if has_C_extension (csr c) then NOT 0x1 else NOT 0x3)"

text \<open>The lambda \<^verbatim>\<open>write\<close> of \<^verbatim>\<open>set_csr_value\<close>.\<close>

definition csr_write :: "csr_reg \<Rightarrow> u64 \<Rightarrow> u64 \<Rightarrow> 'm core \<Rightarrow> 'm core" where
  "csr_write r msk val c = set_csr r ((csr c r AND NOT msk) OR (val AND msk)) c"

definition write_satp :: "'m core \<Rightarrow> u64 \<Rightarrow> 'm core outcome" where
  "write_satp c val =
     (if mstatus c TVM \<noteq> 0 then illegal c
      else
        let mode = get_field satp_mode (csr c Satp);
            c1 = csr_write Satp SATP_MASK val c;
            new_mode = get_field satp_mode (csr c1 Satp)
        in Done (if new_mode \<noteq> 0 \<and> new_mode \<noteq> 8 \<and> new_mode \<noteq> 9
                 then set_csr Satp (set_field satp_mode mode (csr c1 Satp)) c1 else c1))"

definition default_write64 :: "'m core \<Rightarrow> u32 \<Rightarrow> u64 \<Rightarrow> 'm core outcome" where
  "default_write64 c a val =
     (case register_mapping a of
        None \<Rightarrow> illegal c
      | Some r \<Rightarrow> if in_table r then Done (set_csr r val c) else Aborted UndefinedBehaviour)"

definition set_csr_value :: "'m core \<Rightarrow> u32 \<Rightarrow> u64 \<Rightarrow> 'm core outcome" where
  "set_csr_value c a val =
     (if a = 0x301 \<or> any_hpmcounter a then Done c
      else if a = 0x180 then write_satp c val
      else if a = 0x305 then Done (csr_write Mtvec MTVEC_MASK val c)
      else if a = 0x105 then Done (csr_write Stvec MTVEC_MASK val c)
      else if a = 0x005 then Done (csr_write Utvec MTVEC_MASK val c)
      else if a = 0x341 then Done (csr_write Mepc (pc_alignment_mask c) val c)
      else if a = 0x141 then Done (csr_write Sepc (pc_alignment_mask c) val c)
      else if a = 0x041 then Done (csr_write Uepc (pc_alignment_mask c) val c)
      else if a = 0x300 then Done (csr_write Mstatus MSTATUS_WRITE_MASK val c)
      else if a = 0x100 then Done (csr_write Mstatus SSTATUS_WRITE_MASK val c)
      else if a = 0x000 then Done (csr_write Mstatus USTATUS_MASK val c)
      else if a = 0x344 then Done (csr_write Mip MIP_WRITE_MASK val c)
      else if a = 0x144 then Done (csr_write Mip SIP_MASK val c)
      else if a = 0x044 then Done (csr_write Mip UIP_MASK val c)
      else if a = 0x304 then Done (csr_write Mie MIE_MASK val c)
      else if a = 0x104 then Done (csr_write Mie SIE_MASK val c)
      else if a = 0x004 then Done (csr_write Mie UIE_MASK val c)
      else if a = 0x303 then Done (csr_write Mideleg MIDELEG_MASK val c)
      else if a = 0x302 then Done (csr_write Medeleg MEDELEG_MASK val c)
      else if a = 0x103 then Done (csr_write Sideleg SIDELEG_MASK val c)
      else if a = 0x102 then Done (csr_write Sedeleg SEDELEG_MASK val c)
      else if a = 0x306 then Done (csr_write Mcounteren MCOUNTEREN_MASK val c)
      else if a = 0x106 then Done (csr_write Scounteren MCOUNTEREN_MASK val c)
      else if a = 0x320 then Done (csr_write Mcountinhibit MCOUNTINHIBIT_MASK val c)
      else if a = 0x003 then Done (csr_write Fcsr FCSR_MASK val c)
      else if a = 0x001 then Done (set_csr Fcsr (set_field fcsr_fflags val (csr c Fcsr)) c)
      else if a = 0x002 then Done (set_csr Fcsr (set_field fcsr_frm val (csr c Fcsr)) c)
      else default_write64 c a val)"

section \<open>Instructions\<close>

text \<open>A taken branch or jump to \<open>target\<close>.\<close>

definition jump_to :: "'m core \<Rightarrow> u64 \<Rightarrow> 'm core outcome" where
  "jump_to c target = trap_check_pc_alignment (c\<lparr>pc := target\<rparr>)"

definition branch_if :: "'m core \<Rightarrow> bool \<Rightarrow> 'm core outcome" where
  "branch_if c taken = (if taken then jump_to c (last_pc c + scast (B_imm (instr c))) else Done c)"

definition load_to_rd :: "('m core \<Rightarrow> u64 \<Rightarrow> u64 \<times> 'm core) \<Rightarrow> u64 \<Rightarrow> 'm core \<Rightarrow> 'm core outcome" where
  "load_to_rd load alignment c =
     (let addr = x1 c + scast (I_imm (instr c)) in
      and_then (trap_check_addr_alignment alignment True c addr)
        (\<lambda>c. let (v, c') = load c addr in to_rd c' v))"

definition store_from_rs2 :: "'m mem_port \<Rightarrow> nat \<Rightarrow> 'm core \<Rightarrow> 'm core outcome" where
  "store_from_rs2 b len c =
     (let addr = x1 c + scast (S_imm (instr c)) in
      and_then (trap_check_addr_alignment (of_nat len) False c addr)
        (\<lambda>c. Done (mem_store b len c addr (x2 c))))"

fun exec_RV32I :: "'m mem_port \<Rightarrow> 'm core \<Rightarrow> RV32I_op \<Rightarrow> 'm core outcome" where
  "exec_RV32I b c ADDI = to_rd c (x1 c + scast (I_imm (instr c)))"
| "exec_RV32I b c SLTI = to_rd c (of_bool (x1 c <s scast (I_imm (instr c))))"
| "exec_RV32I b c SLTIU = to_rd c (of_bool (x1 c < scast (I_imm (instr c))))"
| "exec_RV32I b c XORI = to_rd c (x1 c XOR scast (I_imm (instr c)))"
| "exec_RV32I b c ORI = to_rd c (x1 c OR scast (I_imm (instr c)))"
| "exec_RV32I b c ANDI = to_rd c (x1 c AND scast (I_imm (instr c)))"
| "exec_RV32I b c ADD = to_rd c (x1 c + x2 c)"
| "exec_RV32I b c SUB = to_rd c (x1 c - x2 c)"
| "exec_RV32I b c SLL = to_rd c (push_bit (reg_shamt c (rs2 (instr c))) (x1 c))"
| "exec_RV32I b c SLT = to_rd c (of_bool (x1 c <s x2 c))"
| "exec_RV32I b c SLTU = to_rd c (of_bool (x1 c < x2 c))"
| "exec_RV32I b c SRL = to_rd c (drop_bit (reg_shamt c (rs2 (instr c))) (x1 c))"
| "exec_RV32I b c SRA = to_rd c (signed_drop_bit (reg_shamt c (rs2 (instr c))) (x1 c))"
| "exec_RV32I b c XOR_op = to_rd c (x1 c XOR x2 c)"
| "exec_RV32I b c OR_op = to_rd c (x1 c OR x2 c)"
| "exec_RV32I b c AND_op = to_rd c (x1 c AND x2 c)"
| "exec_RV32I b c SLLI = to_rd c (push_bit (unat (instr_shamt (instr c))) (x1 c))"
| "exec_RV32I b c SRLI = to_rd c (drop_bit (unat (instr_shamt (instr c))) (x1 c))"
| "exec_RV32I b c SRAI = to_rd c (signed_drop_bit (unat (instr_shamt (instr c))) (x1 c))"
| "exec_RV32I b c LUI = to_rd c (scast (U_imm (instr c)))"
| "exec_RV32I b c AUIPC = to_rd c (last_pc c + scast (U_imm (instr c)))"
| "exec_RV32I b c JAL =
     and_then (jump_to c (last_pc c + scast (J_imm (instr c)))) (\<lambda>c'. to_rd c' (pc c))"
| "exec_RV32I b c JALR =
     and_then (jump_to c ((x1 c + scast (I_imm (instr c))) AND NOT 1)) (\<lambda>c'. to_rd c' (pc c))"
| "exec_RV32I b c SB = store_from_rs2 b 1 c"
| "exec_RV32I b c SH = store_from_rs2 b 2 c"
| "exec_RV32I b c SW = store_from_rs2 b 4 c"
| "exec_RV32I b c LB = load_to_rd (load_byte b) 1 c"
| "exec_RV32I b c LH = load_to_rd (load_half b) 2 c"
| "exec_RV32I b c LW = load_to_rd (load_word b) 4 c"
| "exec_RV32I b c LBU = load_to_rd (load_ubyte b) 1 c"
| "exec_RV32I b c LHU = load_to_rd (load_uhalf b) 2 c"
| "exec_RV32I b c BEQ = branch_if c (x1 c = x2 c)"
| "exec_RV32I b c BNE = branch_if c (x1 c \<noteq> x2 c)"
| "exec_RV32I b c BLT = branch_if c (x1 c <s x2 c)"
| "exec_RV32I b c BGE = branch_if c (x2 c \<le>s x1 c)"
| "exec_RV32I b c BLTU = branch_if c (x1 c < x2 c)"
| "exec_RV32I b c BGEU = branch_if c (x2 c \<le> x1 c)"
| "exec_RV32I b c FENCE = Done c"
| "exec_RV32I b c ECALL =
     (if prv c = MachineMode then Trapped c EXC_ECALL_M_MODE (last_pc c)
      else if prv c = SupervisorMode then Trapped c EXC_ECALL_S_MODE (last_pc c)
      else if prv c = UserMode then Trapped c EXC_ECALL_U_MODE (last_pc c)
      else Aborted UnknownPrivilege)"
| "exec_RV32I b c EBREAK = Done (c\<lparr>status := HitBreakpoint\<rparr>)"

text \<open>
  The 32-bit shifts by a register take the amount from six bits of it; shifting a 32-bit operand
  by 32 or more is undefined.
\<close>

definition shift_w :: "'m core \<Rightarrow> (nat \<Rightarrow> u32 \<Rightarrow> u32) \<Rightarrow> 'm core outcome" where
  "shift_w c f =
     (let sh = reg_shamt_w c (rs2 (instr c)) in
      if 32 \<le> sh then Aborted UndefinedBehaviour else to_rd c (scast (f sh (ucast (x1 c)))))"

fun exec_RV64I :: "'m mem_port \<Rightarrow> 'm core \<Rightarrow> RV64I_op \<Rightarrow> 'm core outcome" where
  "exec_RV64I b c LWU = load_to_rd (load_uword b) 4 c"
| "exec_RV64I b c LD = load_to_rd (load_double b) 8 c"
| "exec_RV64I b c SD = store_from_rs2 b 8 c"
| "exec_RV64I b c ADDIW = to_rd c (scast ((ucast (x1 c) :: u32) + I_imm (instr c)))"
| "exec_RV64I b c SLLIW = to_rd c (scast (push_bit (unat (instr_shamt_w (instr c))) (ucast (x1 c) :: u32)))"
| "exec_RV64I b c SRLIW = to_rd c (scast (drop_bit (unat (instr_shamt_w (instr c))) (ucast (x1 c) :: u32)))"
| "exec_RV64I b c SRAIW =
     to_rd c (scast (signed_drop_bit (unat (instr_shamt_w (instr c))) (ucast (x1 c) :: u32)))"
| "exec_RV64I b c ADDW = to_rd c (scast ((ucast (x1 c) :: u32) + ucast (x2 c)))"
| "exec_RV64I b c SUBW = to_rd c (scast ((ucast (x1 c) :: u32) - ucast (x2 c)))"
| "exec_RV64I b c SLLW = shift_w c push_bit"
| "exec_RV64I b c SRLW = shift_w c drop_bit"
| "exec_RV64I b c SRAW = shift_w c signed_drop_bit"

text \<open>The M extension as functions of the operands.\<close>

type_synonym u128 = "128 word"

abbreviation (input) INT64_MIN :: u64 where "INT64_MIN \<equiv> 0x8000000000000000"
abbreviation (input) INT32_MIN :: u32 where "INT32_MIN \<equiv> 0x80000000"

fun RV32M_result :: "RV32M_op \<Rightarrow> u64 \<Rightarrow> u64 \<Rightarrow> u64" where
  "RV32M_result MUL a b = ucast (scast a * scast b :: u128)"
| "RV32M_result MULH a b = ucast (signed_drop_bit 64 (scast a * scast b :: u128))"
| "RV32M_result MULHU a b = ucast (signed_drop_bit 64 (ucast a * ucast b :: u128))"
| "RV32M_result MULHSU a b = ucast (signed_drop_bit 64 (scast a * ucast b :: u128))"
| "RV32M_result DIV a b =
     (if b = 0 then -1 else if a = INT64_MIN \<and> b = -1 then a else word_of_int (sint a sdiv sint b))"
| "RV32M_result DIVU a b = (if b = 0 then -1 else a div b)"
| "RV32M_result REM a b =
     (if b = 0 then a else if a = INT64_MIN \<and> b = -1 then 0 else word_of_int (sint a smod sint b))"
| "RV32M_result REMU a b = (if b = 0 then a else a mod b)"

fun RV64M_result :: "RV64M_op \<Rightarrow> u64 \<Rightarrow> u64 \<Rightarrow> u64" where
  "RV64M_result MULW x y = scast (ucast (x * y) :: u32)"
| "RV64M_result DIVW x y =
     (let a = ucast x :: u32; b = ucast y :: u32 in
      if b = 0 then -1 else if a = INT32_MIN \<and> b = -1 then scast a
      else word_of_int (sint a sdiv sint b))"
| "RV64M_result DIVUW x y =
     (let a = ucast x :: u32; b = ucast y :: u32 in if b = 0 then -1 else scast (a div b))"
| "RV64M_result REMW x y =
     (let a = ucast x :: u32; b = ucast y :: u32 in
      if b = 0 then scast a else if a = INT32_MIN \<and> b = -1 then 0
      else word_of_int (sint a smod sint b))"
| "RV64M_result REMUW x y =
     (let a = ucast x :: u32; b = ucast y :: u32 in if b = 0 then scast a else scast (a mod b))"

section \<open>CSR instructions\<close>

definition with_csr :: "'m core \<Rightarrow> u32 \<Rightarrow> (u64 \<Rightarrow> 'm core outcome) \<Rightarrow> 'm core outcome" where
  "with_csr c a k =
     (case get_csr_value c a of
        CsrValue v \<Rightarrow> k v
      | CsrIllegal \<Rightarrow> illegal c
      | CsrUndefined \<Rightarrow> Aborted UndefinedBehaviour)"

definition rd_unless_zero :: "'m core \<Rightarrow> u64 \<Rightarrow> 'm core" where
  "rd_unless_zero c v = (if rd (instr c) \<noteq> 0 then reg_write c (rd (instr c)) v else c)"

text \<open>\<^verbatim>\<open>CSRRW\<close> and \<^verbatim>\<open>CSRRWI\<close>: the old value is only read when there is a register to receive it.\<close>

definition csr_swap :: "'m core \<Rightarrow> u64 \<Rightarrow> 'm core outcome" where
  "csr_swap c new =
     (let a = csr_field (instr c) in
      if is_invalid_csr_access c a True then illegal c
      else if rd (instr c) \<noteq> 0 then with_csr c a (\<lambda>v. set_csr_value (rd_unless_zero c v) a new)
      else set_csr_value c a new)"

text \<open>The set and clear forms: written only when the operand field is not zero.\<close>

definition csr_modify :: "'m core \<Rightarrow> bool \<Rightarrow> (u64 \<Rightarrow> u64) \<Rightarrow> 'm core outcome" where
  "csr_modify c write f =
     (let a = csr_field (instr c) in
      if is_invalid_csr_access c a write then illegal c
      else with_csr c a (\<lambda>v.
        if write then set_csr_value (rd_unless_zero c v) a (f v) else Done (rd_unless_zero c v)))"

text \<open>
  In \<^verbatim>\<open>CSRRCI\<close> the complement is taken of the 32-bit immediate and then widened, so the upper half of
  the mask is zero.
\<close>

fun exec_Zicsr :: "'m core \<Rightarrow> Zicsr_op \<Rightarrow> 'm core outcome" where
  "exec_Zicsr c CSRRW = csr_swap c (x1 c)"
| "exec_Zicsr c CSRRS = csr_modify c (rs1 (instr c) \<noteq> 0) (\<lambda>v. v OR x1 c)"
| "exec_Zicsr c CSRRC = csr_modify c (rs1 (instr c) \<noteq> 0) (\<lambda>v. v AND NOT (x1 c))"
| "exec_Zicsr c CSRRWI = csr_swap c (ucast (zimm (instr c)))"
| "exec_Zicsr c CSRRSI = csr_modify c (zimm (instr c) \<noteq> 0) (\<lambda>v. v OR ucast (zimm (instr c)))"
| "exec_Zicsr c CSRRCI = csr_modify c (zimm (instr c) \<noteq> 0) (\<lambda>v. v AND ucast (NOT (zimm (instr c))))"

section \<open>Trap entry and return\<close>

definition return_from_trap_handler :: "'m core \<Rightarrow> PrivilegeLevel \<Rightarrow> 'm core outcome" where
  "return_from_trap_handler c return_mode =
     (if return_mode = MachineMode then
        let c1 = c\<lparr>prv := ucast (mstatus c MPP)\<rparr>;
            c2 = set_mstatus MPIE 1 (set_mstatus MIE (mstatus c1 MPIE) c1);
            c3 = c2\<lparr>pc := csr c2 Mepc\<rparr>
        in Done (set_mstatus MPP
             (ucast (if has_user_mode_extension (csr c3) then UserMode else MachineMode)) c3)
      else if return_mode = SupervisorMode then
        let c1 = c\<lparr>prv := ucast (mstatus c SPP)\<rparr>;
            c2 = set_mstatus SPIE 1 (set_mstatus SIE (mstatus c1 SPIE) c1);
            c3 = c2\<lparr>pc := csr c2 Sepc\<rparr>
        in Done (set_mstatus SPP
             (ucast (if has_user_mode_extension (csr c3) then UserMode else SupervisorMode)) c3)
      else if return_mode = UserMode then
        let c1 = c\<lparr>prv := UserMode\<rparr>;
            c2 = set_mstatus UPIE 1 (set_mstatus UIE (mstatus c1 UPIE) c1)
        in Done (c2\<lparr>pc := csr c2 Uepc\<rparr>)
      else Aborted UnknownPrivilege)"

text \<open>The program counter a handler starts at: the base, or an entry of the vector for interrupts.\<close>

definition handler_pc :: "'m core \<Rightarrow> csr_reg \<Rightarrow> csr_reg \<Rightarrow> u64" where
  "handler_pc c tvec cause =
     get_base_address (csr c tvec) +
     (if get_field mcause_interrupt (csr c cause) \<noteq> 0 \<and> get_field mtvec_mode (csr c tvec) = 1
      then 4 * get_field mcause_exception_code (csr c cause) else 0)"

definition switch_to_trap_handler :: "'m core \<Rightarrow> PrivilegeLevel \<Rightarrow> 'm core outcome" where
  "switch_to_trap_handler c target_mode =
     (let pp = prv c; c0 = c\<lparr>prv := target_mode\<rparr> in
      if target_mode = MachineMode then
        let c1 = set_csr Mepc (pc c0) c0;
            c2 = set_mstatus MPP (ucast pp) (set_mstatus MIE 0 (set_mstatus MPIE (mstatus c1 MIE) c1))
        in Done (c2\<lparr>pc := handler_pc c2 Mtvec Mcause\<rparr>)
      else if target_mode = SupervisorMode then
        (if \<not> (prv c0 = SupervisorMode \<or> prv c0 = UserMode) then Aborted AssertionFailed
         else
           let c1 = set_csr Sepc (pc c0) c0;
               c2 = set_mstatus SPP (ucast pp) (set_mstatus SIE 0 (set_mstatus SPIE (mstatus c1 SIE) c1))
           in Done (c2\<lparr>pc := handler_pc c2 Stvec Scause\<rparr>))
      else if target_mode = UserMode then
        (if prv c0 \<noteq> UserMode then Aborted AssertionFailed
         else
           let c1 = set_csr Uepc (pc c0) c0;
               c2 = set_mstatus UIE 0 (set_mstatus UPIE (mstatus c1 UIE) c1)
           in Done (c2\<lparr>pc := handler_pc c2 Utvec Ucause\<rparr>))
      else Aborted UnknownPrivilege)"

fun exec_Privileged :: "'m core \<Rightarrow> Privileged_op \<Rightarrow> 'm core outcome" where
  "exec_Privileged c WFI =
     (if prv c = SupervisorMode \<and> mstatus c TW \<noteq> 0 then illegal c
      else if prv c = UserMode \<and> has_supervisor_mode_extension (csr c) then illegal c
      else Done c)"
| "exec_Privileged c SFENCE_VMA =
     (if prv c = SupervisorMode \<and> mstatus c TVM \<noteq> 0 then illegal c else Done c)"
| "exec_Privileged c URET =
     (if \<not> has_user_mode_extension (csr c) then illegal c else return_from_trap_handler c UserMode)"
| "exec_Privileged c SRET =
     (if \<not> has_supervisor_mode_extension (csr c) \<or> prv c = SupervisorMode \<and> mstatus c TSR \<noteq> 0
      then illegal c else return_from_trap_handler c SupervisorMode)"
| "exec_Privileged c MRET = return_from_trap_handler c MachineMode"

section \<open>One step\<close>

text \<open>The switch of \<^verbatim>\<open>exec_step\<close>; the atomic and floating-point groups have no case in it.\<close>

fun exec_op :: "'m mem_port \<Rightarrow> 'm core \<Rightarrow> Mapping \<Rightarrow> 'm core outcome" where
  "exec_op b c UNDEF = illegal c"
| "exec_op b c (RV32I x) = exec_RV32I b c x"
| "exec_op b c (Zifencei x) = Done c"
| "exec_op b c (Zicsr x) = exec_Zicsr c x"
| "exec_op b c (RV32M x) = to_rd c (RV32M_result x (x1 c) (x2 c))"
| "exec_op b c (RV64I x) = exec_RV64I b c x"
| "exec_op b c (RV64M x) = to_rd c (RV64M_result x (x1 c) (x2 c))"
| "exec_op b c (Privileged x) = exec_Privileged c x"
| "exec_op b c _ = Aborted UnknownOpcode"

text \<open>Fetch and decode: \<open>None\<close> when decoding throws.\<close>

definition fetch :: "'m mem_port \<Rightarrow> 'm core \<Rightarrow> 'm core option" where
  "fetch b c =
     (let (mem_word, c1) = load_instr b c (pc c);
          c2 = c1\<lparr>instr := mem_word,
                  pc := pc c1 + (if is_compressed mem_word then 2 else 4)\<rparr>
      in map_option (\<lambda>(m, j). c2\<lparr>instr := j, op := m\<rparr>) (decode mem_word))"

definition exec_step :: "'m mem_port \<Rightarrow> 'm core \<Rightarrow> 'm core outcome" where
  "exec_step b c =
     (case fetch b c of None \<Rightarrow> Aborted UnknownOpcode | Some c' \<Rightarrow> exec_op b c' (op c'))"

definition compute_pending_interrupts :: "'m core \<Rightarrow> PrivilegeLevel \<times> u64" where
  "compute_pending_interrupts c =
     (let pending = csr c Mie AND csr c Mip in
      if pending = 0 then (NoneMode, 0)
      else
        let m_pending = pending AND NOT (csr c Mideleg) in
        if m_pending \<noteq> 0 \<and> (prv c < MachineMode \<or> prv c = MachineMode \<and> mstatus c MIE \<noteq> 0)
        then (MachineMode, m_pending)
        else
          let pending = pending AND csr c Mideleg;
              s_pending = pending AND NOT (csr c Sideleg) in
          if s_pending \<noteq> 0 \<and> (prv c < SupervisorMode \<or> prv c = SupervisorMode \<and> mstatus c SIE \<noteq> 0)
          then (SupervisorMode, s_pending)
          else
            let u_pending = pending AND csr c Sideleg in
            if u_pending \<noteq> 0 \<and> (prv c = UserMode \<and> mstatus c UIE \<noteq> 0)
            then (UserMode, u_pending)
            else (NoneMode, 0))"

text \<open>The cause of the interrupt to take, by fixed priority; \<open>None\<close> when no known bit is set.\<close>

definition interrupt_cause :: "u64 \<Rightarrow> u64 option" where
  "interrupt_cause x =
     (if get_field (mip_bits MEIP) x \<noteq> 0 then Some 11
      else if get_field (mip_bits MSIP) x \<noteq> 0 then Some 3
      else if get_field (mip_bits MTIP) x \<noteq> 0 then Some 7
      else if get_field (mip_bits SEIP) x \<noteq> 0 then Some 9
      else if get_field (mip_bits SSIP) x \<noteq> 0 then Some 1
      else if get_field (mip_bits STIP) x \<noteq> 0 then Some 5
      else if get_field (mip_bits UEIP) x \<noteq> 0 then Some 8
      else if get_field (mip_bits USIP) x \<noteq> 0 then Some 0
      else if get_field (mip_bits UTIP) x \<noteq> 0 then Some 4
      else None)"

definition set_cause :: "csr_reg \<Rightarrow> u64 \<Rightarrow> u64 \<Rightarrow> 'm core \<Rightarrow> 'm core" where
  "set_cause r code interrupt c =
     set_csr r (set_field mcause_interrupt interrupt (set_field mcause_exception_code code (csr c r))) c"

definition prepare_interrupt :: "'m core \<Rightarrow> PrivilegeLevel \<times> u64 \<Rightarrow> 'm core outcome" where
  "prepare_interrupt c e =
     (case interrupt_cause (snd e) of
        None \<Rightarrow> Aborted NoPendingInterrupt
      | Some exc \<Rightarrow>
          if fst e = MachineMode then Done (set_cause Mcause exc 1 c)
          else if fst e = SupervisorMode then Done (set_cause Scause exc 1 c)
          else if fst e = UserMode then Done (set_cause Ucause exc 1 c)
          else Aborted UnknownPrivilege)"

text \<open>The mode that handles a trap, or \<open>None\<close> when the assertion on the way to user mode fails.\<close>

definition prepare_trap :: "'m core \<Rightarrow> u64 \<Rightarrow> u64 \<Rightarrow> ('m core \<times> PrivilegeLevel) option" where
  "prepare_trap c reason mtval =
     (let c0 = c\<lparr>pc := last_pc c\<rparr>;
          exc_bit = ucast (push_bit (unat reason) (1 :: u32)) :: u64 in
      if prv c0 = MachineMode \<or> exc_bit AND csr c0 Medeleg = 0
      then Some (set_csr Mtval mtval (set_cause Mcause reason 0 c0), MachineMode)
      else if prv c0 = SupervisorMode \<or> exc_bit AND csr c0 Sedeleg = 0
      then Some (set_csr Stval mtval (set_cause Scause reason 0 c0), SupervisorMode)
      else if prv c0 = UserMode
      then Some (set_csr Utval mtval (set_cause Ucause reason 0 c0), UserMode)
      else None)"

definition counter_update :: "'m core \<Rightarrow> 'm core" where
  "counter_update c =
     (if get_field mcountinhibit_IR (csr c Mcountinhibit) = 0 then set_csr Instret (csr c Instret + 1) c else c)"

text \<open>The body of the \<^verbatim>\<open>try\<close> of \<^verbatim>\<open>run_step\<close> and its handler.\<close>

definition take_interrupts :: "'m core \<Rightarrow> 'm core outcome" where
  "take_interrupts c =
     (let x = compute_pending_interrupts c in
      if fst x \<noteq> NoneMode
      then and_then (prepare_interrupt c x) (\<lambda>c'. switch_to_trap_handler c' (fst x))
      else Done c)"

definition handle_trap :: "'m core \<Rightarrow> u64 \<Rightarrow> u64 \<Rightarrow> 'm core outcome" where
  "handle_trap c reason mtval =
     (case prepare_trap c reason mtval of
        None \<Rightarrow> Aborted AssertionFailed
      | Some (c', target_mode) \<Rightarrow> switch_to_trap_handler c' target_mode)"

definition try_step :: "'m mem_port \<Rightarrow> 'm core \<Rightarrow> 'm core outcome" where
  "try_step b c =
     (case and_then (exec_step b c) take_interrupts of
        Trapped c' reason mtval \<Rightarrow> handle_trap c' reason mtval
      | r \<Rightarrow> r)"

definition end_step :: "'m core \<Rightarrow> 'm core" where
  "end_step c =
     (let c1 = reg_write c 0 0;
          c2 = (if shall_exit c1 then c1\<lparr>status := Terminated\<rparr> else c1);
          c3 = counter_update c2
      in if single_step c3 then c3\<lparr>status := HitBreakpoint, single_step := False\<rparr> else c3)"

definition run_step :: "'m mem_port \<Rightarrow> 'm core \<Rightarrow> 'm core outcome" where
  "run_step b c =
     (if reg_read c 0 \<noteq> 0 then Aborted AssertionFailed
      else if debug_mode c \<and> pc c \<in> breakpoints c then Done (c\<lparr>status := HitBreakpoint\<rparr>)
      else and_then (try_step b (c\<lparr>last_pc := pc c\<rparr>)) (\<lambda>c'. Done (end_step c')))"

text \<open>The loop of \<^verbatim>\<open>run\<close>, which need not end; the result is undefined when it does not.\<close>

partial_function (option) run :: "'m mem_port \<Rightarrow> 'm core \<Rightarrow> 'm core outcome option" where
  "run b c =
     (case run_step b c of
        Done c' \<Rightarrow> if status c' = Runnable then run b c' else Some (Done c')
      | r \<Rightarrow> Some r)"

section \<open>Construction and the other member functions\<close>

definition Core_init :: "u64 \<Rightarrow> 'm \<Rightarrow> 'm core" where
  "Core_init hart_id m =
     \<lparr>regs = replicate 32 0, csr = csr_table_init(Mhartid := hart_id), debug_mode = False,
      shall_exit = False, pc = 0, last_pc = 0, prv = MachineMode, instr = 0, op = UNDEF,
      status = Runnable, breakpoints = {}, single_step = False, mem = m\<rparr>"

definition set_pc :: "'m core \<Rightarrow> u64 \<Rightarrow> 'm core" where
  "set_pc c p = c\<lparr>pc := p, last_pc := p\<rparr>"

definition set_mip :: "mip_field \<Rightarrow> bool \<Rightarrow> 'm core \<Rightarrow> 'm core" where
  "set_mip f v c = set_csr Mip (set_field (mip_bits f) (of_bool v) (csr c Mip)) c"

definition ext_interrupt :: "'m core \<Rightarrow> bool \<Rightarrow> 'm core" where
  "ext_interrupt c v = set_mip MEIP v c"

definition sw_interrupt :: "'m core \<Rightarrow> bool \<Rightarrow> 'm core" where
  "sw_interrupt c v = set_mip MSIP v c"

definition timer_interrupt :: "'m core \<Rightarrow> bool \<Rightarrow> 'm core" where
  "timer_interrupt c v = set_mip MTIP v c"

end
