(* ===== verification/Rv64_Safety.thy ===== *)
theory Rv64_Safety
  imports Rv64_Core
begin

text \<open>
  What every step of the RV64 interpreter preserves and where it can go wrong: the well-formedness
  of the core, precise traps, and an account of the ways a step of the model can leave the simulator:
  by an uncaught exception, a failed assertion, a 32-bit shift by 32 or more, or a register table lookup that finds nothing.  Signed
  overflow, which ISO C++ also leaves undefined, is not among them: the model gives it the wrapped
  result of two's complement targets.
\<close>

section \<open>Well-formed cores\<close>

definition csr_ok :: "csr_table \<Rightarrow> bool" where
  "csr_ok t \<longleftrightarrow> \<not> bit (t Mepc) 0 \<and> \<not> bit (t Sepc) 0 \<and> \<not> bit (t Uepc) 0 \<and>
     t Mie AND NOT MIE_MASK = 0 \<and> t Mip AND NOT MIE_MASK = 0 \<and> t Misa = csr_misa_init"

definition core_ok :: "'m core \<Rightarrow> bool" where
  "core_ok c \<longleftrightarrow> length (regs c) = 32 \<and> csr_ok (csr c) \<and> \<not> bit (pc c) 0 \<and> \<not> bit (last_pc c) 0 \<and>
     prv c \<le> 3"

text \<open>A predicate on the state an outcome carries and one on the way it aborts.\<close>

fun holds :: "('s \<Rightarrow> bool) \<Rightarrow> (abort \<Rightarrow> bool) \<Rightarrow> 's outcome \<Rightarrow> bool" where
  "holds P A (Done s) \<longleftrightarrow> P s"
| "holds P A (Trapped s e v) \<longleftrightarrow> P s"
| "holds P A (Aborted a) \<longleftrightarrow> A a"

lemma holds_and_then:
  assumes "holds P A r" "\<And>s. P s \<Longrightarrow> holds P A (k s)"
  shows "holds P A (and_then r k)"
  using assms by (cases r) auto

lemma holds_if: "(c \<Longrightarrow> holds P A x) \<Longrightarrow> (\<not> c \<Longrightarrow> holds P A y) \<Longrightarrow> holds P A (if c then x else y)"
  by simp

section \<open>Register addressing\<close>

lemma fields_lt_32: "unat (rd i) < 32" "unat (rs1 i) < 32" "unat (rs2 i) < 32"
proof -
  have eq: "rd i = rd i AND mask 5" "rs1 i = rs1 i AND mask 5" "rs2 i = rs2 i AND mask 5"
    by (intro u32_eqI; simp add: field_defs bit_blast)+
  have lt: "unat (w AND mask 5) < 32" for w :: u32
    by (simp add: and_mask_lt_2p word_less_nat_alt [symmetric] flip: take_bit_eq_mask)
       (simp add: unsigned_take_bit_eq take_bit_nat_less_exp [of 5, simplified])
  show "unat (rd i) < 32" by (subst eq(1)) (rule lt)
  show "unat (rs1 i) < 32" by (subst eq(2)) (rule lt)
  show "unat (rs2 i) < 32" by (subst eq(3)) (rule lt)
qed

lemma misa_extensions:
  assumes "csr_ok t"
  shows "has_C_extension t" "has_user_mode_extension t" "has_supervisor_mode_extension t"
proof -
  have m: "t Misa = csr_misa_init" using assms by (simp add: csr_ok_def)
  have v: "csr_misa_init = 0x800000000014312D" by code_simp
  show "has_C_extension t" "has_user_mode_extension t" "has_supervisor_mode_extension t"
    by (simp_all add: has_C_extension_def has_user_mode_extension_def has_supervisor_mode_extension_def m v
        get_field_def mask_eq_exp_minus_1)
qed

section \<open>CSR writes\<close>

lemma register_mapping_special:
  assumes "register_mapping a = Some r"
  shows "r = Mepc \<Longrightarrow> a = 0x341" "r = Sepc \<Longrightarrow> a = 0x141" "r = Uepc \<Longrightarrow> a = 0x041"
    "r = Mie \<Longrightarrow> a = 0x304" "r = Mip \<Longrightarrow> a = 0x344" "r = Misa \<Longrightarrow> a = 0x301"
  using map_of_SomeD [OF assms [unfolded register_mapping_def]] by auto

lemma bit0_masked: "\<not> bit (x :: u64) 0 \<Longrightarrow> \<not> bit ((x AND NOT (NOT 1)) OR (v AND NOT 1)) 0"
  by (simp add: bit_simps)

lemma within_iff: "(x :: u64) AND NOT w = 0 \<longleftrightarrow> (\<forall>n. bit x n \<longrightarrow> bit w n)"
proof -
  have "bit x n \<Longrightarrow> n < 64" for n using bit_imp_le_length [of x n] by simp
  then show ?thesis by (auto simp: bit_eq_iff bit_simps)
qed

lemma masked_within:
  fixes x :: u64
  assumes "x AND NOT w = 0" "msk AND NOT w = 0"
  shows "((x AND NOT msk) OR (v AND msk)) AND NOT w = 0"
  using assms unfolding within_iff by (auto simp: bit_simps)

text \<open>Writing one register: only the registers with a restriction matter.\<close>

lemma csr_ok_update:
  assumes "csr_ok t"
    and "r = Mepc \<or> r = Sepc \<or> r = Uepc \<Longrightarrow> \<not> bit v 0"
    and "r = Mie \<or> r = Mip \<Longrightarrow> v AND NOT MIE_MASK = 0"
    and "r = Misa \<Longrightarrow> v = csr_misa_init"
  shows "csr_ok (t(r := v))"
  using assms unfolding csr_ok_def by auto

lemma core_ok_set_csr:
  assumes "core_ok c" "csr_ok ((csr c)(r := v))"
  shows "core_ok (set_csr r v c)"
  using assms by (simp add: core_ok_def set_csr_def)

lemma core_ok_write_plain:
  assumes "core_ok c" "r \<notin> {Mepc, Sepc, Uepc, Mie, Mip, Misa}"
  shows "core_ok (set_csr r v c)"
  using assms by (intro core_ok_set_csr csr_ok_update) (auto simp: core_ok_def)

lemma core_ok_csr_write_plain:
  assumes "core_ok c" "r \<notin> {Mepc, Sepc, Uepc, Mie, Mip, Misa}"
  shows "core_ok (csr_write r msk v c)"
  using assms unfolding csr_write_def by (rule core_ok_write_plain)

lemma core_ok_write_epc:
  assumes "core_ok c" "r \<in> {Mepc, Sepc, Uepc}"
  shows "core_ok (csr_write r (pc_alignment_mask c) v c)"
proof -
  have ok: "csr_ok (csr c)" using assms(1) by (simp add: core_ok_def)
  then have "\<not> bit (csr c r) 0" using assms(2) by (auto simp: csr_ok_def)
  then have "\<not> bit ((csr c r AND NOT (pc_alignment_mask c)) OR (v AND pc_alignment_mask c)) 0"
    using misa_extensions(1) [OF ok] by (simp add: pc_alignment_mask_def bit_simps)
  then show ?thesis
    unfolding csr_write_def using assms ok by (intro core_ok_set_csr csr_ok_update) auto
qed

lemma core_ok_write_mie_mip:
  assumes "core_ok c" "r \<in> {Mie, Mip}" "msk AND NOT MIE_MASK = 0"
  shows "core_ok (csr_write r msk v c)"
proof -
  have "csr c r AND NOT MIE_MASK = 0" using assms(1,2) by (auto simp: core_ok_def csr_ok_def)
  from masked_within [OF this assms(3)] show ?thesis
    unfolding csr_write_def using assms(1,2)
    by (intro core_ok_set_csr csr_ok_update) (auto simp: core_ok_def)
qed

lemma holds_write_satp: "core_ok c \<Longrightarrow> holds core_ok A (write_satp c v)"
  by (auto simp: write_satp_def illegal_def Let_def intro!: core_ok_write_plain core_ok_csr_write_plain)

lemma holds_default_write64:
  assumes "core_ok c" "a \<notin> {0x341, 0x141, 0x041, 0x304, 0x344, 0x301}"
    and "A UndefinedBehaviour \<or> a \<notin> {0x3A2, 0x3A3}"
  shows "holds core_ok A (default_write64 c a v)"
proof (cases "register_mapping a")
  case None
  then show ?thesis using assms(1) by (simp add: default_write64_def illegal_def)
next
  case (Some r)
  then have "r \<notin> {Mepc, Sepc, Uepc, Mie, Mip, Misa}"
    using register_mapping_special [OF Some] assms(2) by auto
  moreover have "in_table r \<or> a = 0x3A2 \<or> a = 0x3A3"
    using map_of_SomeD [OF Some [unfolded register_mapping_def]] by (auto simp: less_Suc_eq numeral_eq_Suc)
  ultimately show ?thesis
    using assms Some by (auto simp: default_write64_def intro: core_ok_write_plain)
qed

lemma holds_set_csr_value:
  assumes "core_ok c" "A UndefinedBehaviour \<or> a \<notin> {0x3A2, 0x3A3}"
  shows "holds core_ok A (set_csr_value c a v)"
  unfolding set_csr_value_def
  using assms holds_write_satp [OF assms(1)] holds_default_write64 [where A = A and a = a and v = v, OF assms(1)]
  by (auto simp: core_ok_csr_write_plain core_ok_write_plain core_ok_write_epc core_ok_write_mie_mip)

section \<open>Instructions\<close>

definition unsupported :: "Mapping \<Rightarrow> bool" where
  "unsupported m \<longleftrightarrow>
     (case m of RV32A _ \<Rightarrow> True | RV64A _ \<Rightarrow> True | RV32F _ \<Rightarrow> True | RV64F _ \<Rightarrow> True | RV32D _ \<Rightarrow> True
      | RV64D _ \<Rightarrow> True | _ \<Rightarrow> False)"

definition undefined_use :: "'m core \<Rightarrow> bool" where
  "undefined_use c \<longleftrightarrow>
     op c \<in> {RV64I SLLW, RV64I SRLW, RV64I SRAW} \<and> 32 \<le> reg_shamt_w c (rs2 (instr c)) \<or>
     (\<exists>x. op c = Zicsr x) \<and> csr_field (instr c) \<in> {0x3A2, 0x3A3}"

text \<open>How the execution of the fetched instruction can abort.\<close>

definition exec_abort :: "'m core \<Rightarrow> abort \<Rightarrow> bool" where
  "exec_abort c a \<longleftrightarrow>
     a = UnknownOpcode \<and> unsupported (op c) \<or>
     a = UnknownPrivilege \<and> op c = RV32I ECALL \<and> prv c = HypervisorMode \<or>
     a = UndefinedBehaviour \<and> undefined_use c"

lemma core_ok_fields [simp]:
  "core_ok (c\<lparr>mem := m\<rparr>) = core_ok c" "core_ok (c\<lparr>status := st\<rparr>) = core_ok c"
  "core_ok (c\<lparr>instr := i\<rparr>) = core_ok c" "core_ok (c\<lparr>op := mp\<rparr>) = core_ok c"
  "core_ok (c\<lparr>single_step := b\<rparr>) = core_ok c"
  by (simp_all add: core_ok_def)

lemma core_ok_reg_write [simp]: "core_ok (reg_write c i v) = core_ok c"
  by (simp add: core_ok_def reg_write_def)

lemma core_ok_pc: "core_ok c \<Longrightarrow> core_ok (c\<lparr>pc := p\<rparr>) \<longleftrightarrow> \<not> bit p 0"
  by (simp add: core_ok_def)

lemma holds_to_rd [simp]: "holds core_ok A (to_rd c v) = core_ok c"
  by (simp add: to_rd_def)

lemma holds_illegal [simp]: "holds core_ok A (illegal c) = core_ok c"
  by (simp add: illegal_def)

lemma imm_even: "\<not> bit (scast (J_imm i) :: u64) 0" "\<not> bit (scast (B_imm i) :: u64) 0"
  by (simp_all add: bit_simps J_imm_def B_imm_def field_bits)

lemma even_word_add: "\<not> bit a 0 \<Longrightarrow> \<not> bit b 0 \<Longrightarrow> \<not> bit (a + b :: u64) 0"
  by (simp add: bit_0)

lemma holds_jump_to: "core_ok c \<Longrightarrow> \<not> bit t 0 \<Longrightarrow> holds core_ok A (jump_to c t)"
  by (simp add: jump_to_def trap_check_pc_alignment_def core_ok_pc and_one_eq bit_0 mod_2_eq_odd)

lemma core_ok_last_pc: "core_ok c \<Longrightarrow> \<not> bit (last_pc c) 0"
  by (simp add: core_ok_def)

lemma holds_branch_if: "core_ok c \<Longrightarrow> holds core_ok A (branch_if c t)"
  using core_ok_last_pc [of c] by (simp add: branch_if_def holds_jump_to even_word_add imm_even)

lemma holds_alignment: "core_ok c \<Longrightarrow> holds core_ok A (trap_check_addr_alignment n l c a)"
  by (simp add: trap_check_addr_alignment_def)

definition only_mem :: "('m core \<Rightarrow> u64 \<Rightarrow> u64 \<times> 'm core) \<Rightarrow> bool" where
  "only_mem load \<longleftrightarrow> (\<forall>c a. \<exists>v m. load c a = (v, c\<lparr>mem := m\<rparr>))"

lemma mem_load_eq:
  "mem_load b n c a = (fst (port_read b (mem c) a n), c\<lparr>mem := snd (port_read b (mem c) a n)\<rparr>)"
  by (simp add: mem_load_def split: prod.split)

lemma loads_only_mem:
  "only_mem (load_double b)" "only_mem (load_word b)" "only_mem (load_half b)" "only_mem (load_byte b)"
  "only_mem (load_uword b)" "only_mem (load_uhalf b)" "only_mem (load_ubyte b)"
  by (simp_all only: only_mem_def load_double_def load_word_def load_half_def load_byte_def load_uword_def
      load_uhalf_def load_ubyte_def mem_load_eq Let_def prod.case) blast+

lemma holds_load_to_rd:
  assumes "core_ok c" "only_mem load"
  shows "holds core_ok A (load_to_rd load n c)"
  unfolding load_to_rd_def Let_def
proof (intro holds_and_then [OF holds_alignment [OF assms(1)]])
  fix s :: "'a core"
  assume "core_ok s"
  moreover obtain v m where "load s (x1 c + scast (I_imm (instr c))) = (v, s\<lparr>mem := m\<rparr>)"
    using assms(2) unfolding only_mem_def by blast
  ultimately show "holds core_ok A (case load s (x1 c + scast (I_imm (instr c))) of (v, c') \<Rightarrow> to_rd c' v)"
    by simp
qed

lemma holds_store: "core_ok c \<Longrightarrow> holds core_ok A (store_from_rs2 b n c)"
  unfolding store_from_rs2_def Let_def
  by (intro holds_and_then [OF holds_alignment]) (simp_all add: mem_store_def)

lemma jalr_even: "\<not> bit (x AND NOT 1 :: u64) 0"
  by (simp add: bit_simps)

lemma prv_cases: "p \<le> (3 :: u32) \<Longrightarrow> p = 0 \<or> p = 1 \<or> p = 2 \<or> p = 3"
proof -
  assume "p \<le> 3"
  then have "unat p \<le> 3" by (simp add: word_le_nat_alt)
  then have "unat p = 0 \<or> unat p = 1 \<or> unat p = 2 \<or> unat p = 3" by linarith
  then show ?thesis by (auto simp: word_unat_eq_iff)
qed

lemma holds_RV32I:
  assumes "core_ok c" "op c = RV32I x"
  shows "holds core_ok (exec_abort c) (exec_RV32I b c x)"
proof -
  have even: "\<not> bit (last_pc c) 0" and p: "prv c \<le> 3" using assms(1) by (simp_all add: core_ok_def)
  have jal: "holds core_ok A (and_then (jump_to c t) (\<lambda>c'. to_rd c' v))" if "\<not> bit t 0" for A t v
    using assms(1) that by (intro holds_and_then holds_jump_to) simp_all
  show ?thesis
  proof (cases x)
    case ECALL
    then show ?thesis using assms prv_cases [OF p] by (auto simp: exec_abort_def)
  next
    case JALR
    then show ?thesis by (simp only: exec_RV32I.simps) (rule jal [OF jalr_even])
  qed (use assms(1) in \<open>simp_all add: jal even_word_add even imm_even jalr_even holds_store
        holds_load_to_rd loads_only_mem holds_branch_if\<close>)
qed

lemma holds_RV64I:
  assumes "core_ok c" "op c = RV64I x"
  shows "holds core_ok (exec_abort c) (exec_RV64I b c x)"
  using assms
  by (cases x)
    (auto simp: shift_w_def Let_def exec_abort_def undefined_use_def holds_store holds_load_to_rd loads_only_mem)

lemma get_csr_undefined: "get_csr_value c a = CsrUndefined \<Longrightarrow> a \<in> {0x3A2, 0x3A3}"
proof -
  assume "get_csr_value c a = CsrUndefined"
  then obtain r where r: "register_mapping a = Some r" "\<not> in_table r"
    by (auto simp: get_csr_value_def default_read64_def split: if_splits option.splits)
  from map_of_SomeD [OF r(1) [unfolded register_mapping_def]] r(2)
  show ?thesis by (auto simp: less_Suc_eq numeral_eq_Suc)
qed

lemma core_ok_rd_unless_zero [simp]: "core_ok (rd_unless_zero c v) = core_ok c"
  by (simp add: rd_unless_zero_def)

lemma holds_Zicsr:
  assumes "core_ok c" "op c = Zicsr x"
  shows "holds core_ok (exec_abort c) (exec_Zicsr c x)"
proof -
  have ub: "exec_abort c UndefinedBehaviour \<or> csr_field (instr c) \<notin> {0x3A2, 0x3A3}"
    using assms(2) by (auto simp: exec_abort_def undefined_use_def)
  have w: "holds core_ok (exec_abort c) (with_csr c (csr_field (instr c)) k)"
    if "\<And>v. holds core_ok (exec_abort c) (k v)" for k
    using that assms(1) ub get_csr_undefined [of c "csr_field (instr c)"]
    by (auto simp: with_csr_def split: csr_read.split)
  have s: "holds core_ok (exec_abort c) (set_csr_value c' (csr_field (instr c)) v)" if "core_ok c'" for c' v
    using that ub by (rule holds_set_csr_value)
  show ?thesis
    by (cases x) (auto simp: csr_swap_def csr_modify_def Let_def assms(1) intro!: w s)
qed

section \<open>Trap entry and return\<close>

lemma core_ok_set_mstatus [simp]: "core_ok (set_mstatus f v c) = core_ok c"
  by (auto simp: set_mstatus_def set_csr_def core_ok_def csr_ok_def)

lemma set_csr_fields [simp]:
  "regs (set_csr r v c) = regs c" "pc (set_csr r v c) = pc c" "last_pc (set_csr r v c) = last_pc c"
  "prv (set_csr r v c) = prv c" "mem (set_csr r v c) = mem c" "instr (set_csr r v c) = instr c"
  "op (set_csr r v c) = op c" "status (set_csr r v c) = status c"
  "csr (set_csr r v c) = (csr c)(r := v)"
  by (simp_all add: set_csr_def)

lemma set_mstatus_fields [simp]:
  "regs (set_mstatus f v c) = regs c" "pc (set_mstatus f v c) = pc c"
  "last_pc (set_mstatus f v c) = last_pc c" "prv (set_mstatus f v c) = prv c"
  "mem (set_mstatus f v c) = mem c" "instr (set_mstatus f v c) = instr c" "op (set_mstatus f v c) = op c"
  "status (set_mstatus f v c) = status c"
  "r \<noteq> Mstatus \<Longrightarrow> csr (set_mstatus f v c) r = csr c r"
  by (simp_all add: set_mstatus_def)

lemma core_ok_prv: "core_ok c \<Longrightarrow> core_ok (c\<lparr>prv := p\<rparr>) \<longleftrightarrow> p \<le> 3"
  by (simp add: core_ok_def)

lemma field_le_3: "snd (mstatus_bits f) \<le> 2 \<Longrightarrow> ucast (mstatus c f) \<le> (3 :: u32)"
proof -
  assume w: "snd (mstatus_bits f) \<le> 2"
  have "(ucast (mstatus c f) :: u32) AND mask 2 = ucast (mstatus c f)"
    using w by (intro bit_word_eqI) (auto simp: mstatus_def bit_simps)
  moreover have "x AND mask 2 \<le> (3 :: u32)" for x
    using word_and_le1 [of x 3] by (simp add: mask_eq_exp_minus_1)
  ultimately show ?thesis by metis
qed

lemma core_ok_epc: "core_ok c \<Longrightarrow> \<not> bit (csr c Mepc) 0 \<and> \<not> bit (csr c Sepc) 0 \<and> \<not> bit (csr c Uepc) 0"
  by (simp add: core_ok_def csr_ok_def)

lemma holds_return: "core_ok c \<Longrightarrow> r \<in> {0, 1, 3} \<Longrightarrow> holds core_ok A (return_from_trap_handler c r)"
  using core_ok_epc [of c] field_le_3 [of MPP c] field_le_3 [of SPP c]
  by (auto simp: return_from_trap_handler_def Let_def core_ok_pc core_ok_prv)

lemma holds_Privileged: "core_ok c \<Longrightarrow> holds core_ok A (exec_Privileged c x)"
  by (cases x) (simp_all add: holds_return)

lemma handler_pc_even: "\<not> bit (handler_pc c tvec cause) 0"
proof -
  have "4 * x = push_bit 2 x" for x :: u64 by (simp add: push_bit_eq_mult)
  then show ?thesis
    by (simp add: handler_pc_def get_base_address_def even_word_add bit_simps)
qed

lemma holds_switch:
  assumes "core_ok c" "t \<in> {0, 1, 3}"
  shows "holds core_ok A (switch_to_trap_handler c t)"
proof -
  have "core_ok (set_csr r (pc c) (c\<lparr>prv := t\<rparr>))" if "r \<in> {Mepc, Sepc, Uepc}" for r
    using assms that by (auto simp: core_ok_def csr_ok_def set_csr_def)
  then have ok: "core_ok (set_csr Mepc (pc c) (c\<lparr>prv := t\<rparr>))" "core_ok (set_csr Sepc (pc c) (c\<lparr>prv := t\<rparr>))"
    "core_ok (set_csr Uepc (pc c) (c\<lparr>prv := t\<rparr>))" by simp_all
  from assms(2) consider "t = 3" | "t = 1" | "t = 0" by blast
  then show ?thesis
    by cases (use ok in \<open>simp_all add: switch_to_trap_handler_def Let_def core_ok_pc handler_pc_even\<close>)
qed

lemma bit_MIE_MASK: "bit MIE_MASK n \<longleftrightarrow> n \<in> {0, 1, 3, 4, 5, 7, 8, 9, 11}"
proof (cases "n < 12")
  case True
  then have "n \<in> {0, 1, 2, 3, 4, 5, 6, 7, 8, 9, 10, 11}" by (simp add: less_Suc_eq numeral_eq_Suc)
  then show ?thesis by auto
next
  case False
  have "MIE_MASK = take_bit 12 MIE_MASK" by simp
  with False have "\<not> bit MIE_MASK n" by (metis bit_take_bit_iff)
  with False show ?thesis by auto
qed

lemma one_bit_field: "get_field (p, Suc 0) x = 0 \<longleftrightarrow> \<not> bit x p"
  by (simp add: get_field_def and_one_eq bit_iff_odd_drop_bit mod_2_eq_odd)

lemma interrupt_cause_total:
  assumes "x \<noteq> 0" "x AND NOT MIE_MASK = 0"
  shows "interrupt_cause x \<noteq> None"
proof -
  obtain n where n: "bit x n" using assms(1) by (auto simp: bit_eq_iff)
  with assms(2) have "bit MIE_MASK n" unfolding within_iff by blast
  then have "n \<in> {0, 1, 3, 4, 5, 7, 8, 9, 11}" by (simp only: bit_MIE_MASK)
  with n show ?thesis by (auto simp: interrupt_cause_def one_bit_field)
qed

lemma pending_within:
  assumes "core_ok c" "compute_pending_interrupts c = (t, p)" "t \<noteq> NoneMode"
  shows "t \<in> {0, 1, 3}" "p \<noteq> 0" "p AND NOT MIE_MASK = 0"
proof -
  have "csr c Mie AND NOT MIE_MASK = 0" using assms(1) by (simp add: core_ok_def csr_ok_def)
  then have w: "(csr c Mie AND y) AND NOT MIE_MASK = 0" for y unfolding within_iff by (simp add: bit_simps)
  show "t \<in> {0, 1, 3}" "p \<noteq> 0"
    using assms(2,3) by (auto simp: compute_pending_interrupts_def Let_def split: if_splits)
  have "\<exists>y. p = csr c Mie AND y"
    using assms(2,3) by (auto simp: compute_pending_interrupts_def Let_def and.assoc split: if_splits)
  with w show "p AND NOT MIE_MASK = 0" by blast
qed

lemma core_ok_set_cause: "core_ok c \<Longrightarrow> r \<in> {Mcause, Scause, Ucause} \<Longrightarrow> core_ok (set_cause r e i c)"
  unfolding set_cause_def by (rule core_ok_write_plain) auto

lemma holds_interrupts:
  assumes "core_ok c"
  shows "holds core_ok A (take_interrupts c)"
proof (cases "compute_pending_interrupts c")
  case (Pair t p)
  show ?thesis
  proof (cases "t = NoneMode")
    case True
    with Pair assms show ?thesis by (simp add: take_interrupts_def)
  next
    case False
    note pw = pending_within [OF assms Pair False]
    then obtain e where "interrupt_cause p = Some e" using interrupt_cause_total by fastforce
    with pw have "\<exists>c'. prepare_interrupt c (t, p) = Done c' \<and> core_ok c'"
      using assms by (auto simp: prepare_interrupt_def core_ok_set_cause)
    with Pair False pw(1) show ?thesis by (auto simp: take_interrupts_def Let_def holds_switch)
  qed
qed

section \<open>Precise traps\<close>

lemma jump_to_eq: "core_ok c \<Longrightarrow> \<not> bit t 0 \<Longrightarrow> jump_to c t = Done (c\<lparr>pc := t\<rparr>)"
  using misa_extensions(1) [of "csr c"]
  by (simp add: jump_to_def trap_check_pc_alignment_def core_ok_def and_one_eq bit_0 mod_2_eq_odd)

lemma set_csr_value_traps:
  assumes "set_csr_value c a v = Trapped s e w"
  shows "s = c" "e = 2" "a = 0x180 \<and> mstatus c TVM \<noteq> 0 \<or> register_mapping a = None \<and> \<not> any_hpmcounter a \<and>
     a \<notin> {0x300, 0x100, 0, 0x344, 0x144, 0x44, 0x304, 0x104, 4, 3, 1, 2}"
  using assms
  by (auto simp: set_csr_value_def write_satp_def default_write64_def illegal_def Let_def
      split: if_splits option.splits)

lemma register_mapping_counters:
  "register_mapping 0xC01 = Some Time" "register_mapping 0xB01 = Some Time"
  "register_mapping 0xB00 = Some Cycle" "register_mapping 0xB02 = Some Instret"
  "register_mapping 0xF14 = Some Mhartid"
  by (simp_all add: register_mapping_def)

lemma readable_is_writable:
  assumes "get_csr_value c a = CsrValue v" "csr c' = csr c"
  shows "set_csr_value c' a w \<noteq> Trapped s e x"
proof
  assume "set_csr_value c' a w = Trapped s e x"
  moreover have "\<not> any_hpmcounter 0x180" by (simp add: any_hpmcounter_def)
  ultimately show False
    using assms set_csr_value_traps(3) [of c' a w s e x]
    by (auto simp: get_csr_value_def default_read64_def mstatus_def register_mapping_counters
        split: if_splits)
qed

lemma csr_rd_unless_zero [simp]: "csr (rd_unless_zero c v) = csr c"
  by (simp add: rd_unless_zero_def reg_write_def)

lemma Zicsr_traps:
  assumes "exec_Zicsr c x = Trapped s e v"
  shows "s = c \<and> e = 2"
proof -
  have s: "set_csr_value c a w = Trapped s e v \<Longrightarrow> s = c \<and> e = 2" for a w
    by (simp add: set_csr_value_traps)
  have "csr_swap c new = Trapped s e v \<Longrightarrow> s = c \<and> e = 2" for new
    using readable_is_writable [of c _ _ "rd_unless_zero c _"] s
    by (auto simp: csr_swap_def with_csr_def illegal_def Let_def split: if_splits csr_read.splits)
  moreover have "csr_modify c wr f = Trapped s e v \<Longrightarrow> s = c \<and> e = 2" for wr f
    using readable_is_writable [of c _ _ "rd_unless_zero c _"]
    by (auto simp: csr_modify_def with_csr_def illegal_def Let_def split: if_splits csr_read.splits)
  ultimately show ?thesis using assms by (cases x) auto
qed

lemma load_traps:
  assumes "load_to_rd load n c = Trapped s e v"
  shows "s = c \<and> e = 4"
  using assms
  by (auto simp: load_to_rd_def trap_check_addr_alignment_def to_rd_def Let_def split: if_splits prod.splits)

lemma store_traps: "store_from_rs2 b n c = Trapped s e v \<Longrightarrow> s = c \<and> e = 6"
  by (auto simp: store_from_rs2_def trap_check_addr_alignment_def Let_def split: if_splits)

lemma branch_never_traps: "core_ok c \<Longrightarrow> branch_if c t \<noteq> Trapped s e v"
  using core_ok_last_pc [of c] by (simp add: branch_if_def jump_to_eq even_word_add imm_even)

lemma RV32I_traps:
  assumes "core_ok c" "exec_RV32I b c x = Trapped s e v"
  shows "s = c \<and> e \<in> {4, 6, 8, 9, 11}"
proof (cases x)
  case ECALL
  then show ?thesis using assms(2) by (auto split: if_splits)
next
  case JALR
  have "jump_to c ((x1 c + scast (I_imm (instr c))) AND NOT 1) =
      Done (c\<lparr>pc := (x1 c + scast (I_imm (instr c))) AND NOT 1\<rparr>)"
    using assms(1) jalr_even by (rule jump_to_eq)
  with JALR assms(2) show ?thesis by (simp add: to_rd_def)
qed (use assms core_ok_last_pc [OF assms(1)] in
    \<open>auto simp: to_rd_def jump_to_eq even_word_add imm_even branch_never_traps dest: load_traps store_traps\<close>)

lemma RV64I_traps:
  assumes "exec_RV64I b c x = Trapped s e v"
  shows "s = c \<and> e \<in> {4, 6}"
  using assms by (cases x) (auto simp: to_rd_def shift_w_def Let_def dest: load_traps store_traps split: if_splits)

lemma Privileged_traps: "exec_Privileged c x = Trapped s e v \<Longrightarrow> s = c \<and> e = 2"
  by (cases x) (auto simp: illegal_def return_from_trap_handler_def Let_def split: if_splits)

lemma exec_traps:
  assumes "core_ok c" "exec_op b c m = Trapped s e v"
  shows "s = c \<and> e \<in> {2, 4, 6, 8, 9, 11}"
  using assms(2)
  by (cases m)
    (auto simp: to_rd_def illegal_def
      dest!: RV32I_traps [OF assms(1)] RV64I_traps Zicsr_traps Privileged_traps)

section \<open>Steps\<close>

lemma holds_exec_op:
  assumes "core_ok c"
  shows "holds core_ok (exec_abort c) (exec_op b c (op c))"
  using assms
  by (cases "op c")
    (simp_all add: holds_RV32I holds_RV64I holds_Zicsr holds_Privileged exec_abort_def unsupported_def)

lemma fetch_ok:
  assumes "core_ok c"
  shows "\<exists>c' m i p o'. fetch b c = Some c' \<and> c' = c\<lparr>mem := m, pc := p, instr := i, op := o'\<rparr> \<and> core_ok c'"
proof -
  obtain m j where d: "decode (fst (load_instr b c (pc c))) = Some (m, j)"
    using decode_total by blast
  have "\<not> bit (pc c + 2) 0" "\<not> bit (pc c + 4) 0"
    using assms even_word_add [of "pc c" 2] even_word_add [of "pc c" 4] by (simp_all add: core_ok_def)
  with d assms show ?thesis
    by (auto simp: fetch_def load_instr_def mem_load_eq core_ok_def intro!: exI split: prod.splits)
qed

lemma handle_trap_ok:
  assumes "core_ok c"
  shows "holds core_ok (\<lambda>a. a = AssertionFailed \<and> prv c = HypervisorMode) (handle_trap c e v)"
proof -
  have pc: "core_ok (c\<lparr>pc := last_pc c\<rparr>)" using assms by (simp add: core_ok_def)
  have w: "core_ok (set_csr r v (set_cause r' e 0 (c\<lparr>pc := last_pc c\<rparr>)))"
    if "r \<in> {Mtval, Stval, Utval}" "r' \<in> {Mcause, Scause, Ucause}" for r r'
    using that by (intro core_ok_write_plain core_ok_set_cause pc) auto
  show ?thesis
  proof (cases "prepare_trap c e v")
    case None
    then have "prv c \<notin> {0, 1, 3}" by (auto simp: prepare_trap_def Let_def split: if_splits)
    then have "prv c = 2" using assms prv_cases [of "prv c"] by (auto simp: core_ok_def)
    with None show ?thesis by (simp add: handle_trap_def)
  next
    case (Some x)
    then have "core_ok (fst x) \<and> snd x \<in> {0, 1, 3}"
      using w by (auto simp: prepare_trap_def Let_def split: if_splits)
    with Some show ?thesis by (cases x) (simp add: handle_trap_def holds_switch)
  qed
qed

lemma core_ok_end_step: "core_ok c \<Longrightarrow> core_ok (end_step c) \<and> reg_read (end_step c) 0 = 0"
  by (auto simp: end_step_def counter_update_def Let_def core_ok_def csr_ok_def set_csr_def reg_write_def reg_read_def)

lemma switch_done: "t \<in> {0, 1, 3} \<Longrightarrow> \<exists>c'. switch_to_trap_handler c t = Done c'"
  by (auto simp: switch_to_trap_handler_def Let_def)

lemma interrupts_not_trapped:
  assumes "core_ok c"
  shows "\<exists>c'. take_interrupts c = Done c' \<and> core_ok c'"
proof -
  have "prepare_interrupt c x \<noteq> Trapped s e v" for x s e v
    by (auto simp: prepare_interrupt_def split: option.split)
  moreover have "switch_to_trap_handler c' t \<noteq> Trapped s e v" for c' s :: "'a core" and t e v
    by (auto simp: switch_to_trap_handler_def Let_def)
  ultimately have "take_interrupts c \<noteq> Trapped s e v" for s e v
    by (cases "prepare_interrupt c (compute_pending_interrupts c)") (auto simp: take_interrupts_def Let_def)
  then show ?thesis
    using holds_interrupts [OF assms, of "\<lambda>_. False"] by (cases "take_interrupts c") auto
qed

lemma try_step_ok:
  assumes "core_ok c"
  shows "\<exists>c'. fetch b c = Some c' \<and>
    (case try_step b c of
       Done s \<Rightarrow> core_ok s
     | Trapped _ _ _ \<Rightarrow> False
     | Aborted a \<Rightarrow> exec_abort c' a \<or> a = AssertionFailed \<and> prv c' = HypervisorMode)"
proof -
  obtain c' where f: "fetch b c = Some c'" "core_ok c'" "prv c' = prv c"
    using fetch_ok [OF assms, of b] by fastforce
  have "case try_step b c of Done s \<Rightarrow> core_ok s | Trapped _ _ _ \<Rightarrow> False
     | Aborted a \<Rightarrow> exec_abort c' a \<or> a = AssertionFailed \<and> prv c' = HypervisorMode"
  proof (cases "exec_op b c' (op c')")
    case (Done s)
    then have "core_ok s" using holds_exec_op [OF f(2), of b] by simp
    then obtain s' where "take_interrupts s = Done s'" "core_ok s'" using interrupts_not_trapped by blast
    with Done f(1) show ?thesis by (simp add: try_step_def exec_step_def)
  next
    case (Trapped s e v)
    with exec_traps [OF f(2)] have s: "s = c'" by blast
    have "handle_trap c' e v \<noteq> Trapped x y z" for x y z
      by (auto simp: handle_trap_def switch_to_trap_handler_def Let_def split: option.split)
    with handle_trap_ok [OF f(2), of e v] s Trapped f show ?thesis
      by (cases "handle_trap c' e v") (auto simp: try_step_def exec_step_def)
  next
    case (Aborted a)
    with holds_exec_op [OF f(2), of b] f(1) show ?thesis by (simp add: try_step_def exec_step_def)
  qed
  with f(1) show ?thesis by blast
qed

lemma run_step_eq:
  assumes "reg_read c 0 = 0" "\<not> (debug_mode c \<and> pc c \<in> breakpoints c)"
  shows "run_step b c = and_then (try_step b (c\<lparr>last_pc := pc c\<rparr>)) (\<lambda>c'. Done (end_step c'))"
  using assms by (auto simp: run_step_def)

lemma core_ok_start: "core_ok c \<Longrightarrow> core_ok (c\<lparr>last_pc := pc c\<rparr>)"
  by (simp add: core_ok_def)

lemma run_step_ok:
  assumes "core_ok c" "reg_read c 0 = 0"
  shows "case run_step b c of
      Done c' \<Rightarrow> core_ok c' \<and> reg_read c' 0 = 0
    | Trapped _ _ _ \<Rightarrow> False
    | Aborted a \<Rightarrow> (\<exists>c'. fetch b (c\<lparr>last_pc := pc c\<rparr>) = Some c' \<and>
        (exec_abort c' a \<or> a = AssertionFailed \<and> prv c' = HypervisorMode))"
proof (cases "debug_mode c \<and> pc c \<in> breakpoints c")
  case True
  with assms show ?thesis by (simp add: run_step_def reg_read_def)
next
  case False
  obtain c' where c': "fetch b (c\<lparr>last_pc := pc c\<rparr>) = Some c'"
    "case try_step b (c\<lparr>last_pc := pc c\<rparr>) of Done s \<Rightarrow> core_ok s | Trapped _ _ _ \<Rightarrow> False
     | Aborted a \<Rightarrow> exec_abort c' a \<or> a = AssertionFailed \<and> prv c' = HypervisorMode"
    using try_step_ok [OF core_ok_start [OF assms(1)], of b] by blast
  then show ?thesis
    using core_ok_end_step
    by (cases "try_step b (c\<lparr>last_pc := pc c\<rparr>)")
      (auto simp: run_step_eq [OF assms(2) False])
qed

text \<open>
  C4. A step of the interpreter keeps the core well formed, whatever word is fetched: thirty-two
  registers with \<^verbatim>\<open>x0\<close> zero, an even program counter and even exception program counters, only
  defined interrupt bits in \<^verbatim>\<open>mie\<close> and \<^verbatim>\<open>mip\<close>, a two-bit privilege level, and the constant \<^verbatim>\<open>misa\<close>.  A
  simulation trap never escapes the step, and it leaves the simulator only in these ways: an
  atomic or floating-point instruction, which the interpreter has no case for; \<^verbatim>\<open>ECALL\<close> or a
  delegated trap at the reserved privilege level 2; a 32-bit shift by a register amount of 32
  or more; or an access to \<^verbatim>\<open>pmpcfg2\<close> or \<^verbatim>\<open>pmpcfg3\<close>.  In particular the assertion on jump targets and
  the exception for a missing pending interrupt are unreachable.
\<close>

theorem core_step_safe:
  assumes "core_ok c" "reg_read c 0 = 0"
  shows "case run_step b c of
      Done c' \<Rightarrow> core_ok c' \<and> reg_read c' 0 = 0
    | Trapped _ _ _ \<Rightarrow> False
    | Aborted a \<Rightarrow> (\<exists>c'. fetch b (c\<lparr>last_pc := pc c\<rparr>) = Some c' \<and>
        (exec_abort c' a \<or> a = AssertionFailed \<and> prv c' = HypervisorMode))"
  using assms by (rule run_step_ok)

text \<open>A memory that answers every read with one instruction word.\<close>

definition rom_port :: "u32 mem_port" where
  "rom_port = \<lparr>port_read = (\<lambda>w a n. (le_bytes n w, w)), port_write = (\<lambda>w a bs. w)\<rparr>"

lemma core_ok_init: "core_ok (Core_init h m)" "reg_read (Core_init h m) 0 = 0"
  by (simp_all add: core_ok_def csr_ok_def Core_init_def csr_table_init_def reg_read_def)

text \<open>The core fetching \<^verbatim>\<open>addi x5, x0, 7\<close> from reset.\<close>

theorem core_step_safe_witness:
  "core_ok (Core_init 0 (0x00700293 :: u32)) \<and> reg_read (Core_init 0 (0x00700293 :: u32)) 0 = 0 \<and>
   (\<exists>c'. run_step rom_port (Core_init 0 0x00700293) = Done c' \<and> core_ok c' \<and> reg_read c' 0 = 0 \<and>
      reg_read c' 5 = 7 \<and> pc c' = 4)"
proof -
  have "case run_step rom_port (Core_init 0 0x00700293) of
      Done c' \<Rightarrow> reg_read c' 5 = 7 \<and> pc c' = 4 | _ \<Rightarrow> False"
    by code_simp
  then show ?thesis
    using core_step_safe [OF core_ok_init, of rom_port 0 "0x00700293"] core_ok_init
    by (auto split: outcome.splits)
qed

end
