(* ===== verification/Rv64_Traps.thy ===== *)
theory Rv64_Traps
  imports Rv64_Safety
begin

text \<open>
  The privileged behaviour of the RV64 interpreter: traps are precise and recorded where the
  handler finds them, entering and leaving a handler restores the interrupted context, the
  delivery of interrupts follows the enable and delegation registers, and the multiply and divide
  instructions compute exact products, quotients and remainders.
\<close>

section \<open>Fields of mstatus\<close>

lemma mstatus_set_same:
  assumes "v AND mask (snd (mstatus_bits f)) = v"
  shows "mstatus (set_mstatus f v c) f = v"
  using assms unfolding mstatus_def set_mstatus_def
  by (cases f) (simp_all add: get_set_field_same)

lemma mstatus_set_other: "f \<noteq> g \<Longrightarrow> mstatus (set_mstatus g v c) f = mstatus c f"
  unfolding mstatus_def set_mstatus_def
  by (cases f; cases g) (simp_all add: get_set_field_other)

lemma mstatus_frame [simp]:
  "r \<noteq> Mstatus \<Longrightarrow> mstatus (set_csr r v c) f = mstatus c f"
  "mstatus (c\<lparr>pc := p\<rparr>) f = mstatus c f" "mstatus (c\<lparr>prv := q\<rparr>) f = mstatus c f"
  "mstatus (c\<lparr>regs := x\<rparr>) f = mstatus c f" "mstatus (c\<lparr>mem := m\<rparr>) f = mstatus c f"
  by (simp_all add: mstatus_def set_csr_def)

lemma one_bit_fields: "snd (mstatus_bits f) = 1 \<Longrightarrow> mstatus c f AND 1 = mstatus c f"
  by (intro bit_word_eqI) (auto simp: mstatus_def bit_simps)

lemma prv_fits: "p \<le> (3 :: u32) \<Longrightarrow> (ucast p :: u64) AND mask 2 = ucast p" "p \<le> (1 :: u32) \<Longrightarrow> (ucast p :: u64) AND 1 = ucast p"
  using prv_cases [of p] by (auto simp: word_le_nat_alt mask_eq_exp_minus_1)

lemma prv_back: "ucast (ucast p :: u64) = (p :: u32)"
  by (intro bit_word_eqI) (simp add: bit_simps)

section \<open>Entering and leaving a handler\<close>

text \<open>The interrupt-enable bit of a mode.\<close>

definition enable_bit :: "PrivilegeLevel \<Rightarrow> mstatus_field" where
  "enable_bit t = (if t = MachineMode then MIE else if t = SupervisorMode then SIE else UIE)"

lemmas mstatus_simps = mstatus_set_same mstatus_set_other one_bit_fields prv_fits prv_back

text \<open>
  C18. Entering a trap handler and returning from it restores the interrupted context: for every
  mode at or above the current one, the return instruction of that mode resumes at the
  program counter, the privilege level and the interrupt-enable state that the entry saved,
  with the registers and the memory the handler left.
\<close>

theorem trap_return_roundtrip:
  assumes "core_ok c" "t \<in> {MachineMode, SupervisorMode, UserMode}" "prv c \<le> t"
  shows "\<exists>c1 c2. switch_to_trap_handler c t = Done c1 \<and> return_from_trap_handler c1 t = Done c2 \<and>
    prv c1 = t \<and> mstatus c1 (enable_bit t) = 0 \<and>
    pc c2 = pc c \<and> prv c2 = prv c \<and> mstatus c2 (enable_bit t) = mstatus c (enable_bit t) \<and>
    regs c2 = regs c \<and> mem c2 = mem c"
proof -
  from assms(2) consider "t = 3" | "t = 1" | "t = 0" by auto
  then show ?thesis
  proof cases
    case 1
    then show ?thesis using assms(1,3)
      by (simp add: switch_to_trap_handler_def return_from_trap_handler_def Let_def enable_bit_def mstatus_simps)
  next
    case 2
    then show ?thesis using assms(1,3)
      by (simp add: switch_to_trap_handler_def return_from_trap_handler_def Let_def enable_bit_def mstatus_simps)
  next
    case 3
    then show ?thesis using assms(1,3)
      by (simp add: switch_to_trap_handler_def return_from_trap_handler_def Let_def enable_bit_def mstatus_simps)
  qed
qed

text \<open>The reset state takes a machine-mode trap and returns.\<close>

theorem trap_return_roundtrip_witness:
  "core_ok (Core_init 0 ()) \<and> prv (Core_init 0 ()) \<le> MachineMode \<and>
   (\<exists>c1 c2. switch_to_trap_handler (Core_init 0 ()) MachineMode = Done c1 \<and>
      return_from_trap_handler c1 MachineMode = Done c2 \<and> prv c1 = MachineMode \<and>
      pc c2 = pc (Core_init 0 ()) \<and> prv c2 = prv (Core_init 0 ()))"
proof -
  have le: "prv (Core_init 0 ()) \<le> MachineMode" by (simp add: Core_init_def)
  have m: "MachineMode \<in> {MachineMode, SupervisorMode, UserMode}" by simp
  show ?thesis using trap_return_roundtrip [OF core_ok_init(1) m le] by (auto simp: core_ok_init(1) le)
qed

section \<open>Precise traps\<close>

lemma set_cause_value:
  assumes "e \<in> {2, 4, 6, 8, 9, 11}"
  shows "set_field (63, Suc 0) 0 (set_field mcause_exception_code e x) = e"
proof (intro bit_word_eqI)
  fix n
  assume n: "n < LENGTH(64)"
  have "\<not> bit e 63" using assms by auto
  with n show "bit (set_field (63, Suc 0) 0 (set_field mcause_exception_code e x)) n = bit e n"
    by (cases "n = 63") (auto simp: bit_simps)
qed

lemma u64_zero_iff: "x = (0 :: u64) \<longleftrightarrow> (\<forall>n. \<not> bit x n)"
proof
  assume "\<forall>n. \<not> bit x n"
  then show "x = 0" by (intro bit_word_eqI) simp
qed simp

lemma exc_bit_zero:
  assumes "e \<in> {2, 4, 6, 8, 9, 11 :: u64}"
  shows "(ucast (push_bit (unat e) (1 :: u32)) :: u64) AND d = 0 \<longleftrightarrow> \<not> bit d (unat e)"
proof -
  have e: "unat e < 32" using assms by auto
  have "bit (ucast (push_bit (unat e) (1 :: u32)) AND d :: u64) n \<longleftrightarrow> n = unat e \<and> bit d (unat e)" for n
    using e by (auto simp: bit_simps)
  then show ?thesis unfolding u64_zero_iff by blast
qed

lemma end_step_frame:
  "pc (end_step c) = pc c" "prv (end_step c) = prv c" "mem (end_step c) = mem c"
  "regs (end_step c) = (regs c)[0 := 0]" "r \<noteq> Instret \<Longrightarrow> csr (end_step c) r = csr c r"
  by (simp_all add: end_step_def counter_update_def Let_def reg_write_def set_csr_def)

lemma mstatus_end_step: "mstatus (end_step c) f = mstatus c f"
  by (simp add: mstatus_def end_step_frame)

text \<open>The mode that handles an exception, and the registers it uses.\<close>

definition trap_target :: "'m core \<Rightarrow> u64 \<Rightarrow> PrivilegeLevel" where
  "trap_target c e =
     (if prv c = MachineMode \<or> \<not> bit (csr c Medeleg) (unat e) then MachineMode
      else if prv c = SupervisorMode \<or> \<not> bit (csr c Sedeleg) (unat e) then SupervisorMode
      else UserMode)"

definition epc_reg :: "PrivilegeLevel \<Rightarrow> csr_reg" where
  "epc_reg t = (if t = MachineMode then Mepc else if t = SupervisorMode then Sepc else Uepc)"

definition cause_reg :: "PrivilegeLevel \<Rightarrow> csr_reg" where
  "cause_reg t = (if t = MachineMode then Mcause else if t = SupervisorMode then Scause else Ucause)"

definition tval_reg :: "PrivilegeLevel \<Rightarrow> csr_reg" where
  "tval_reg t = (if t = MachineMode then Mtval else if t = SupervisorMode then Stval else Utval)"

definition tvec_reg :: "PrivilegeLevel \<Rightarrow> csr_reg" where
  "tvec_reg t = (if t = MachineMode then Mtvec else if t = SupervisorMode then Stvec else Utvec)"

definition previous_enable_bit :: "PrivilegeLevel \<Rightarrow> mstatus_field" where
  "previous_enable_bit t = (if t = MachineMode then MPIE else if t = SupervisorMode then SPIE else UPIE)"

text \<open>A handler in user mode has no field for the previous mode, which can only be user mode.\<close>

definition saved_mode :: "'m core \<Rightarrow> PrivilegeLevel \<Rightarrow> u64" where
  "saved_mode c t = (if t = MachineMode then mstatus c MPP else if t = SupervisorMode then mstatus c SPP else 0)"

lemmas mode_regs = epc_reg_def cause_reg_def tval_reg_def tvec_reg_def previous_enable_bit_def saved_mode_def enable_bit_def

lemma prepare_trap_target:
  assumes "e \<in> {2, 4, 6, 8, 9, 11}" "prv c \<in> {MachineMode, SupervisorMode, UserMode} \<or> trap_target c e = MachineMode"
  shows "prepare_trap c e v =
    Some (set_csr (tval_reg (trap_target c e)) v (set_cause (cause_reg (trap_target c e)) e 0 (c\<lparr>pc := last_pc c\<rparr>)), trap_target c e)"
proof -
  have z: "(ucast (2 ^ unat e :: u32) :: u64) AND d = 0 \<longleftrightarrow> \<not> bit d (unat e)" for d
    using exc_bit_zero [OF assms(1), of d] by simp
  consider "prv c = 3 \<or> \<not> bit (csr c Medeleg) (unat e)"
    | "prv c \<noteq> 3" "bit (csr c Medeleg) (unat e)" "prv c = 1 \<or> \<not> bit (csr c Sedeleg) (unat e)"
    | "prv c \<noteq> 3" "bit (csr c Medeleg) (unat e)" "prv c \<noteq> 1" "bit (csr c Sedeleg) (unat e)" by blast
  then show ?thesis
  proof cases
    case 1
    then show ?thesis by (simp add: prepare_trap_def trap_target_def tval_reg_def cause_reg_def Let_def z)
  next
    case 2
    then show ?thesis by (simp add: prepare_trap_def trap_target_def tval_reg_def cause_reg_def Let_def z)
  next
    case 3
    then have "prv c = 0" using assms(2) by (auto simp: trap_target_def)
    with 3 show ?thesis by (simp add: prepare_trap_def trap_target_def tval_reg_def cause_reg_def Let_def z)
  qed
qed

lemma switch_records:
  assumes "t \<in> {MachineMode, SupervisorMode, UserMode}" "prv g \<le> t" "get_field mcause_interrupt (csr g (cause_reg t)) = 0"
  shows "\<exists>h. switch_to_trap_handler g t = Done h \<and> regs h = regs g \<and> mem h = mem g \<and> prv h = t \<and>
    pc h = get_base_address (csr g (tvec_reg t)) \<and> csr h (epc_reg t) = pc g \<and>
    csr h (cause_reg t) = csr g (cause_reg t) \<and> csr h (tval_reg t) = csr g (tval_reg t) \<and>
    saved_mode h t = ucast (prv g) \<and> mstatus h (enable_bit t) = 0 \<and>
    mstatus h (previous_enable_bit t) = mstatus g (enable_bit t)"
proof -
  from assms(1) consider "t = 3" | "t = 1" | "t = 0" by auto
  then show ?thesis
    by cases (use assms(2,3) in \<open>simp add: switch_to_trap_handler_def Let_def handler_pc_def mode_regs mstatus_simps\<close>)+
qed

text \<open>
  C14. A trap is precise and goes to the mode the architecture prescribes: machine mode unless the
  exception is delegated and the current mode is below, then supervisor mode unless it is delegated
  again and the current mode is user mode. When the fetched instruction traps, the step leaves
  every register as it was before the instruction and the memory as the fetch left it, records the address of the
  instruction, the exception code and its value in the \<^verbatim>\<open>epc\<close>, \<^verbatim>\<open>cause\<close> and \<^verbatim>\<open>tval\<close> registers of that mode and the
  previous privilege level and interrupt enable in \<^verbatim>\<open>mstatus\<close>, disables the interrupts of the mode and
  continues there at the base of its trap vector. Excluded are delegated traps at the reserved privilege level 2.
\<close>

theorem trap_recorded:
  assumes "core_ok c" "reg_read c 0 = 0" "\<not> (debug_mode c \<and> pc c \<in> breakpoints c)"
    and "fetch b (c\<lparr>last_pc := pc c\<rparr>) = Some f" "exec_op b f (op f) = Trapped s e v"
    and "t = trap_target c e" "prv c \<noteq> HypervisorMode \<or> t = MachineMode"
  shows "\<exists>c'. run_step b c = Done c' \<and> regs c' = regs c \<and> mem c' = mem f \<and>
    prv c' = t \<and> pc c' = get_base_address (csr c (tvec_reg t)) \<and>
    csr c' (epc_reg t) = pc c \<and> csr c' (cause_reg t) = e \<and> csr c' (tval_reg t) = v \<and>
    saved_mode c' t = ucast (prv c) \<and> mstatus c' (enable_bit t) = 0 \<and>
    mstatus c' (previous_enable_bit t) = mstatus c (enable_bit t)"
proof -
  obtain m p i o' where f: "f = c\<lparr>last_pc := pc c, mem := m, pc := p, instr := i, op := o'\<rparr>" "core_ok f"
    using fetch_ok [OF core_ok_start [OF assms(1)], of b] assms(4) by auto
  have s: "s = f" and e: "e \<in> {2, 4, 6, 8, 9, 11}" using exec_traps [OF f(2) assms(5)] by auto
  have modes: "t \<in> {MachineMode, SupervisorMode, UserMode}" by (simp add: assms(6) trap_target_def)
  have "prv c \<le> 3" using assms(1) by (simp add: core_ok_def)
  then have "prv c = 0 \<or> prv c = 1 \<or> prv c = 2 \<or> prv c = 3" by (rule prv_cases)
  then have prv: "prv c \<in> {MachineMode, SupervisorMode, UserMode} \<or> t = MachineMode" "prv c \<le> t"
    using assms(7) by (auto simp: assms(6) trap_target_def)
  have tt: "trap_target f e = t" "prv f = prv c" and lp: "last_pc f = pc c"
    by (simp_all add: f(1) assms(6) trap_target_def)
  define g where "g = set_csr (tval_reg t) v (set_cause (cause_reg t) e 0 (f\<lparr>pc := pc c\<rparr>))"
  have prep: "prepare_trap f e v = Some (g, t)"
    using prepare_trap_target [OF e, of f v] prv(1) unfolding tt lp g_def by simp
  have g: "csr g (tvec_reg t) = csr c (tvec_reg t)" "csr g (cause_reg t) = e" "csr g (tval_reg t) = v"
    "pc g = pc c" "prv g = prv c" "regs g = regs c" "mem g = mem f" "mstatus g x = mstatus c x" for x
    using modes by (auto simp: g_def f(1) set_cause_def mode_regs mstatus_def set_cause_value [OF e])
  have ne: "get_field mcause_interrupt e = 0" using e by (auto simp: get_field_def)
  obtain h where h: "switch_to_trap_handler g t = Done h" "regs h = regs c" "mem h = mem f" "prv h = t"
    "pc h = get_base_address (csr c (tvec_reg t))" "csr h (epc_reg t) = pc c" "csr h (cause_reg t) = e"
    "csr h (tval_reg t) = v" "saved_mode h t = ucast (prv c)" "mstatus h (enable_bit t) = 0"
    "mstatus h (previous_enable_bit t) = mstatus c (enable_bit t)"
    using switch_records [OF modes, of g] prv(2) ne unfolding g by blast
  have "run_step b c = Done (end_step h)"
    using assms(4,5) s prep h(1)
    by (simp add: run_step_eq [OF assms(2,3)] try_step_def exec_step_def handle_trap_def)
  moreover have "regs (end_step h) = regs c"
    using assms(2) by (simp add: end_step_frame h(2) reg_read_def list_update_same_conv)
      (metis list_update_id)
  moreover have "csr (end_step h) (epc_reg t) = csr h (epc_reg t)" "csr (end_step h) (cause_reg t) = csr h (cause_reg t)"
    "csr (end_step h) (tval_reg t) = csr h (tval_reg t)" "saved_mode (end_step h) t = saved_mode h t"
    by (simp_all add: end_step_frame mstatus_end_step mode_regs)
  ultimately show ?thesis
    using h by (simp add: end_step_frame mstatus_end_step)
qed

text \<open>From reset, the all-zero word is an illegal instruction.\<close>

theorem trap_recorded_witness:
  "\<exists>c'. run_step rom_port (Core_init 0 0) = Done c' \<and> csr c' Mepc = 0 \<and> csr c' Mcause = 2 \<and>
     prv c' = MachineMode \<and> mstatus c' MPP = 3"
proof -
  let ?c = "Core_init 0 0 :: u32 core"
  have "case fetch rom_port (?c\<lparr>last_pc := pc ?c\<rparr>) of None \<Rightarrow> False
      | Some f \<Rightarrow> (case exec_op rom_port f (op f) of Trapped s e v \<Rightarrow> e = 2 | _ \<Rightarrow> False)"
    by code_simp
  then obtain f s v where f: "fetch rom_port (?c\<lparr>last_pc := pc ?c\<rparr>) = Some f"
    "exec_op rom_port f (op f) = Trapped s 2 v"
    by (auto split: option.splits outcome.splits)
  have nd: "\<not> (debug_mode ?c \<and> pc ?c \<in> breakpoints ?c)" "MachineMode = trap_target ?c 2"
    "prv ?c \<noteq> HypervisorMode \<or> MachineMode = MachineMode"
    by (simp_all add: Core_init_def trap_target_def)
  show ?thesis
    using trap_recorded [OF core_ok_init nd(1) f nd(2,3)] by (auto simp: Core_init_def mode_regs)
qed

section \<open>Interrupt delivery\<close>

text \<open>
  The reference: an interrupt is pending when it is raised and enabled, goes to the mode the
  delegation registers choose for it, and can be taken from a lower mode, or from that mode
  itself when its interrupt-enable bit is set.
\<close>

definition pending :: "'m core \<Rightarrow> nat \<Rightarrow> bool" where
  "pending c n \<longleftrightarrow> bit (csr c Mie) n \<and> bit (csr c Mip) n"

definition target_mode :: "'m core \<Rightarrow> nat \<Rightarrow> PrivilegeLevel" where
  "target_mode c n =
     (if \<not> bit (csr c Mideleg) n then MachineMode
      else if \<not> bit (csr c Sideleg) n then SupervisorMode else UserMode)"

definition takes :: "'m core \<Rightarrow> PrivilegeLevel \<Rightarrow> bool" where
  "takes c t \<longleftrightarrow> prv c < t \<or> prv c = t \<and> mstatus c (enable_bit t) \<noteq> 0"

text \<open>The pending interrupts that go to a mode, as a word.\<close>

lemma pending_words:
  "bit ((csr c Mie AND csr c Mip) AND NOT (csr c Mideleg)) n \<longleftrightarrow> pending c n \<and> target_mode c n = MachineMode"
  "bit (((csr c Mie AND csr c Mip) AND csr c Mideleg) AND NOT (csr c Sideleg)) n \<longleftrightarrow>
     pending c n \<and> target_mode c n = SupervisorMode"
  "bit (((csr c Mie AND csr c Mip) AND csr c Mideleg) AND csr c Sideleg) n \<longleftrightarrow>
     pending c n \<and> target_mode c n = UserMode"
  by (auto simp: pending_def target_mode_def bit_simps dest: bit_imp_le_length)

lemma target_mode_cases: "target_mode c n = 3 \<or> target_mode c n = 1 \<or> target_mode c n = 0"
  by (simp add: target_mode_def)

definition words_for :: "'m core \<Rightarrow> PrivilegeLevel \<Rightarrow> u64" where
  "words_for c t =
     (if t = MachineMode then (csr c Mie AND csr c Mip) AND NOT (csr c Mideleg)
      else if t = SupervisorMode then ((csr c Mie AND csr c Mip) AND csr c Mideleg) AND NOT (csr c Sideleg)
      else ((csr c Mie AND csr c Mip) AND csr c Mideleg) AND csr c Sideleg)"

lemma bit_words_for: "t \<in> {3, 1, 0} \<Longrightarrow> bit (words_for c t) n \<longleftrightarrow> pending c n \<and> target_mode c n = t"
  unfolding words_for_def by (auto simp only: pending_words insert_iff empty_iff simp_thms split: if_split)

lemma compute_pending_eq:
  "compute_pending_interrupts c =
     (if words_for c 3 \<noteq> 0 \<and> takes c 3 then (MachineMode, words_for c 3)
      else if words_for c 1 \<noteq> 0 \<and> takes c 1 then (SupervisorMode, words_for c 1)
      else if words_for c 0 \<noteq> 0 \<and> takes c 0 then (UserMode, words_for c 0)
      else (NoneMode, 0))"
  by (auto simp: compute_pending_interrupts_def words_for_def takes_def enable_bit_def Let_def)

text \<open>
  C25. The interrupt the interpreter takes is the right one.  If it takes none, no pending
  interrupt may be taken in the current state; otherwise it reports exactly the pending
  interrupts that go to the highest mode for which one may be taken, at least one of them, and
  that mode is never below the current one.
\<close>

theorem interrupt_selection:
  assumes "compute_pending_interrupts c = (t, p)"
  shows "(t = NoneMode \<and> p = 0 \<and> (\<nexists>n. pending c n \<and> takes c (target_mode c n))) \<or>
    (t \<in> {MachineMode, SupervisorMode, UserMode} \<and> prv c \<le> t \<and> takes c t \<and> p \<noteq> 0 \<and>
     (\<forall>n. bit p n \<longleftrightarrow> pending c n \<and> target_mode c n = t) \<and>
     (\<nexists>n. pending c n \<and> takes c (target_mode c n) \<and> t < target_mode c n))"
proof -
  have none: "\<nexists>n. pending c n \<and> takes c (target_mode c n) \<and> target_mode c n = t'"
    if "t' \<in> {3, 1, 0}" "words_for c t' = 0 \<or> \<not> takes c t'" for t'
    using that bit_words_for [OF that(1), of c] unfolding u64_zero_iff by blast
  have le: "prv c \<le> t'" if "takes c t'" for t' using that by (auto simp: takes_def)
  have above: "target_mode c n = 3 \<or> target_mode c n = 1" if "0 < target_mode c n" for n
    using that target_mode_cases [of c n] by auto
  have above1: "target_mode c n = 3" if "1 < target_mode c n" for n
    using that target_mode_cases [of c n] by auto
  consider (m) "words_for c 3 \<noteq> 0" "takes c 3"
    | (s) "words_for c 3 = 0 \<or> \<not> takes c 3" "words_for c 1 \<noteq> 0" "takes c 1"
    | (u) "words_for c 3 = 0 \<or> \<not> takes c 3" "words_for c 1 = 0 \<or> \<not> takes c 1" "words_for c 0 \<noteq> 0" "takes c 0"
    | (no) "words_for c 3 = 0 \<or> \<not> takes c 3" "words_for c 1 = 0 \<or> \<not> takes c 1" "words_for c 0 = 0 \<or> \<not> takes c 0"
    by blast
  then show ?thesis
  proof cases
    case m
    then have "t = 3" "p = words_for c 3" using assms by (simp_all add: compute_pending_eq)
    moreover have "\<not> 3 < target_mode c n" for n using target_mode_cases [of c n] by auto
    ultimately show ?thesis using m le [OF m(2)] bit_words_for [of 3 c] by simp
  next
    case s
    then have "t = 1" "p = words_for c 1" using assms by (auto simp: compute_pending_eq)
    then show ?thesis using s le [OF s(3)] bit_words_for [of 1 c] none [of 3] above1 by simp blast
  next
    case u
    then have "t = 0" "p = words_for c 0" using assms by (auto simp: compute_pending_eq)
    moreover have "\<nexists>n. pending c n \<and> takes c (target_mode c n) \<and> 0 < target_mode c n"
      using none [OF _ u(1)] none [OF _ u(2)] above by blast
    ultimately show ?thesis using u le [OF u(4)] bit_words_for [of 0 c] by simp
  next
    case no
    then have "t = NoneMode" "p = 0" using assms by (auto simp: compute_pending_eq)
    moreover have "\<nexists>n. pending c n \<and> takes c (target_mode c n)"
      using none [OF _ no(1)] none [OF _ no(2)] none [OF _ no(3)] target_mode_cases [of c] by blast
    ultimately show ?thesis by blast
  qed
qed

text \<open>A machine external interrupt that is enabled and raised while machine interrupts are on.\<close>

definition interrupted_core :: "unit core" where
  "interrupted_core =
     ext_interrupt (set_mstatus MIE 1 (set_csr Mie MIE_MASK (Core_init 0 ()))) True"

theorem interrupt_selection_witness:
  "compute_pending_interrupts interrupted_core = (MachineMode, 0x800) \<and>
   takes interrupted_core MachineMode \<and> pending interrupted_core 11"
proof -
  have c: "compute_pending_interrupts interrupted_core = (MachineMode, 0x800)" by code_simp
  have "bit (0x800 :: u64) 11" by simp
  with c interrupt_selection [OF c] show ?thesis by auto
qed

section \<open>Multiplication and division\<close>

lemma bits_128:
  fixes w :: u128
  shows "bit (ucast (signed_drop_bit 64 w) :: u64) n \<longleftrightarrow> n < 64 \<and> bit w (n + 64)"
    and "bit (ucast w :: u64) n \<longleftrightarrow> n < 64 \<and> bit w n"
  by (auto simp: bit_simps ac_simps)

lemma take_bit_uint_64: "take_bit 64 (uint (x :: u64)) = uint x"
  using uint_bounded [of x] by (simp add: take_bit_int_eq_self_iff)

lemma split_128:
  fixes w :: u128
  shows "sint (ucast (signed_drop_bit 64 w) :: u64) * 2 ^ 64 + uint (ucast w :: u64) = sint w"
    and "uint (ucast (signed_drop_bit 64 w) :: u64) * 2 ^ 64 + uint (ucast w :: u64) = uint w"
proof -
  define hi where "hi = (ucast (signed_drop_bit 64 w) :: u64)"
  define lo where "lo = (ucast w :: u64)"
  have b: "bit hi n \<longleftrightarrow> n < 64 \<and> bit w (n + 64)" "bit lo n \<longleftrightarrow> n < 64 \<and> bit w n" for n
    unfolding hi_def lo_def by (rule bits_128)+
  have c: "k * 2 ^ 64 + uint lo = concat_bit 64 (uint lo) k" for k
    by (simp add: concat_bit_eq push_bit_eq_mult take_bit_uint_64)
  have lt: "bit w n \<Longrightarrow> n < 128" for n using bit_imp_le_length [of w n] by simp
  have "concat_bit 64 (uint lo) (sint hi) = sint w"
    by (rule bit_eqI) (auto simp: bit_concat_bit_iff bit_sint_iff bit_uint_iff b not_less dest: lt)
  moreover have "concat_bit 64 (uint lo) (uint hi) = uint w"
    by (rule bit_eqI) (auto simp: bit_concat_bit_iff bit_uint_iff b dest: lt)
  ultimately show "sint (ucast (signed_drop_bit 64 w) :: u64) * 2 ^ 64 + uint (ucast w :: u64) = sint w"
    "uint (ucast (signed_drop_bit 64 w) :: u64) * 2 ^ 64 + uint (ucast w :: u64) = uint w"
    by (simp_all only: c flip: hi_def lo_def)
qed

lemma low_product:
  "(ucast (scast a * scast b :: u128) :: u64) = a * b"
  "(ucast (ucast a * ucast b :: u128) :: u64) = a * b"
  "(ucast (scast a * ucast b :: u128) :: u64) = a * b"
proof -
  have "take_bit 64 (take_bit 128 x * take_bit 128 y) = take_bit 64 (x * y)" for x y :: int
    by (subst take_bit_mult [symmetric]) (simp add: take_bit_mult)
  then have m: "ucast (x * y :: u128) = (ucast x * ucast y :: u64)" for x y
    by transfer simp
  have s: "ucast (scast a :: u128) = a" "ucast (ucast a :: u128) = a" for a :: u64
    by (intro bit_word_eqI; simp add: bit_simps)+
  show "(ucast (scast a * scast b :: u128) :: u64) = a * b"
    "(ucast (ucast a * ucast b :: u128) :: u64) = a * b"
    "(ucast (scast a * ucast b :: u128) :: u64) = a * b"
    by (simp_all add: m s)
qed

lemma sint_range_64: "- (2 ^ 63) \<le> sint (a :: u64)" "sint (a :: u64) < 2 ^ 63"
  using sint_greater_eq [of a] sint_less [of a] by simp_all

lemma product_bound:
  fixes x y :: int
  assumes "- m \<le> x" "x < m" "- n \<le> y" "y \<le> n" "0 < n"
  shows "- (m * n) \<le> x * y" "x * y \<le> m * n"
proof -
  have "\<bar>x\<bar> \<le> m" "\<bar>y\<bar> \<le> n" using assms by auto
  then have "\<bar>x\<bar> * \<bar>y\<bar> \<le> m * n" by (intro mult_mono) auto
  then have "\<bar>x * y\<bar> \<le> m * n" by (simp add: abs_mult)
  then show "- (m * n) \<le> x * y" "x * y \<le> m * n" by auto
qed

lemma wide_products:
  "sint (scast a * scast b :: u128) = sint (a :: u64) * sint (b :: u64)"
  "uint (ucast a * ucast b :: u128) = uint (a :: u64) * uint (b :: u64)"
  "sint (scast a * ucast b :: u128) = sint (a :: u64) * uint (b :: u64)"
proof -
  have sc: "sint (scast x :: u128) = sint x" for x :: u64
    by (rule bit_eqI) (auto simp: bit_simps bit_sint_iff min_def not_less)
  have uc: "sint (ucast x :: u128) = uint x" "uint (ucast x :: u128) = uint x" for x :: u64
  proof -
    have "- (2 ^ 127) \<le> uint x" by (rule order_trans [OF _ uint_ge_0]) simp
    moreover have "uint x < 2 ^ 127" "uint x < 2 ^ 128"
      using uint_bounded [of x] by simp_all
    ultimately show "sint (ucast x :: u128) = uint x" "uint (ucast x :: u128) = uint x"
      by (simp_all add: signed_ucast_eq unsigned_ucast_eq signed_take_bit_int_eq_self take_bit_int_eq_self_iff)
  qed
  have ub: "uint b < 2 ^ 64" "uint a < 2 ^ 64" "0 \<le> uint a" "0 \<le> uint b"
    using uint_bounded [of b] uint_bounded [of a] by simp_all
  have "- (2 ^ 127) \<le> sint a * sint b" "sint a * sint b < 2 ^ 127"
    using product_bound [of "2 ^ 63" "sint a" "2 ^ 63" "sint b"] sint_range_64 [of a] sint_range_64 [of b] by auto
  then show "sint (scast a * scast b :: u128) = sint a * sint b"
    by (simp add: sint_word_mult sc signed_take_bit_int_eq_self)
  have "uint a * uint b < 2 ^ 64 * 2 ^ 64"
    using ub by (intro mult_strict_mono) auto
  then show "uint (ucast a * ucast b :: u128) = uint a * uint b"
    using uint_mult_lem [of "ucast a :: u128" "ucast b"] by (simp add: uc)
  have "- (2 ^ 127) \<le> sint a * uint b" "sint a * uint b \<le> 2 ^ 63 * (2 ^ 64 - 1)"
    using product_bound [of "2 ^ 63" "sint a" "2 ^ 64 - 1" "uint b"] sint_range_64 [of a] ub by auto
  then show "sint (scast a * ucast b :: u128) = sint a * uint b"
    by (simp add: sint_word_mult sc uc signed_take_bit_int_eq_self)
qed

text \<open>
  Division as the architecture defines it, for any width. The quotient is rounded towards zero: the
  remainder is smaller than the divisor and has the sign of the dividend. These conditions
  determine quotient and remainder.
\<close>

definition signed_division :: "'a::len word \<Rightarrow> 'a word \<Rightarrow> 'a word \<Rightarrow> 'a word \<Rightarrow> bool" where
  "signed_division a b q r \<longleftrightarrow>
     (if b = 0 then q = -1 \<and> r = a
      else if b = -1 \<and> sint a = - (2 ^ (LENGTH('a) - 1)) then q = a \<and> r = 0
      else sint a = sint q * sint b + sint r \<and> \<bar>sint r\<bar> < \<bar>sint b\<bar> \<and> (sint r = 0 \<or> sgn (sint r) = sgn (sint a)))"

definition unsigned_division :: "'a::len word \<Rightarrow> 'a word \<Rightarrow> 'a word \<Rightarrow> 'a word \<Rightarrow> bool" where
  "unsigned_division a b q r \<longleftrightarrow>
     (if b = 0 then q = -1 \<and> r = a else uint a = uint q * uint b + uint r \<and> uint r < uint b)"

lemma sint_inject: "sint a = sint b \<longleftrightarrow> a = b"
  by (auto intro: signed_word_eqI)

lemma smod_bounds:
  fixes x y :: int
  assumes "y \<noteq> 0"
  shows "\<bar>x smod y\<bar> < \<bar>y\<bar>" "x smod y = 0 \<or> sgn (x smod y) = sgn x" "\<bar>x smod y\<bar> \<le> \<bar>x\<bar>"
proof -
  have m: "0 \<le> \<bar>x\<bar> mod \<bar>y\<bar>" "\<bar>x\<bar> mod \<bar>y\<bar> < \<bar>y\<bar>" "\<bar>x\<bar> mod \<bar>y\<bar> \<le> \<bar>x\<bar>"
    using assms by (auto intro: zmod_le_nonneg_dividend)
  have eq: "x smod y = sgn x * (\<bar>x\<bar> mod \<bar>y\<bar>)" by (simp add: signed_modulo_int_def)
  then have "\<bar>x smod y\<bar> = (if x = 0 then 0 else \<bar>x\<bar> mod \<bar>y\<bar>)" using m(1) by (simp add: abs_mult)
  with m show "\<bar>x smod y\<bar> < \<bar>y\<bar>" "\<bar>x smod y\<bar> \<le> \<bar>x\<bar>" using assms by auto
  show "x smod y = 0 \<or> sgn (x smod y) = sgn x"
    using m(1) by (cases "\<bar>x\<bar> mod \<bar>y\<bar> = 0") (auto simp: eq sgn_mult)
qed

lemma sdiv_bounds:
  fixes x y m :: int
  assumes "y \<noteq> 0" "- m \<le> x" "x < m" "\<not> (y = -1 \<and> x = - m)"
  shows "- m \<le> x sdiv y" "x sdiv y < m"
proof -
  have eq: "x sdiv y = sgn x * sgn y * (\<bar>x\<bar> div \<bar>y\<bar>)" by (simp add: signed_divide_int_def)
  have "0 \<le> \<bar>x\<bar> div \<bar>y\<bar>" using assms(1) by (simp add: pos_imp_zdiv_nonneg_iff)
  then have le: "\<bar>x sdiv y\<bar> \<le> \<bar>x\<bar> div \<bar>y\<bar>" by (simp add: eq abs_mult abs_sgn_eq)
  have q: "\<bar>x\<bar> div \<bar>y\<bar> \<le> \<bar>x\<bar>"
  proof (cases "x = 0 \<or> \<bar>y\<bar> = 1")
    case False
    then have "0 < \<bar>x\<bar>" "1 < \<bar>y\<bar>" using assms(1) by linarith+
    then have "\<bar>x\<bar> div \<bar>y\<bar> < \<bar>x\<bar>" by (rule int_div_less_self)
    then show ?thesis by simp
  qed auto
  show "- m \<le> x sdiv y" using le q assms(2,3) by linarith
  show "x sdiv y < m"
  proof (cases "x = - m")
    case False
    then show ?thesis using le q assms(2,3) by linarith
  next
    case True
    then have "0 < m" "y \<noteq> -1" using assms by auto
    show ?thesis
    proof (cases "y = 1")
      case False
      then have "1 < \<bar>y\<bar>" using assms(1) \<open>y \<noteq> -1\<close> by linarith
      then have "\<bar>x\<bar> div \<bar>y\<bar> < \<bar>x\<bar>" using True \<open>0 < m\<close> by (intro int_div_less_self) auto
      then show ?thesis using le True \<open>0 < m\<close> by linarith
    qed (use True \<open>0 < m\<close> in \<open>simp add: eq\<close>)
  qed
qed

text \<open>Truncating division of the values satisfies the conditions at every width.\<close>

lemma signed_division_words:
  fixes a b :: "'a::len word"
  assumes "b \<noteq> 0" "\<not> (b = -1 \<and> sint a = - (2 ^ (LENGTH('a) - 1)))"
  shows "sint (word_of_int (sint a sdiv sint b) :: 'a word) = sint a sdiv sint b"
    "sint (word_of_int (sint a smod sint b) :: 'a word) = sint a smod sint b"
    "signed_division a b (word_of_int (sint a sdiv sint b)) (word_of_int (sint a smod sint b))"
proof -
  let ?m = "2 ^ (LENGTH('a) - 1) :: int"
  have b: "sint b \<noteq> 0" using assms(1) sint_inject [of b 0] by simp
  have "b = -1" if "sint b = -1" using that sint_inject [of b "-1"] by simp
  then have no: "\<not> (sint b = -1 \<and> sint a = - ?m)" using assms(2) by blast
  have a: "- ?m \<le> sint a" "sint a < ?m" using sint_greater_eq [of a] sint_less [of a] by simp_all
  have bb: "- ?m \<le> sint b" "sint b < ?m" using sint_greater_eq [of b] sint_less [of b] by simp_all
  note d = sdiv_bounds [OF b a no] and m = smod_bounds [OF b, of "sint a"]
  have r: "- ?m \<le> sint a smod sint b" "sint a smod sint b < ?m" using m(1) bb by linarith+
  show q: "sint (word_of_int (sint a sdiv sint b) :: 'a word) = sint a sdiv sint b"
    using d by (simp add: signed_of_int signed_take_bit_int_eq_self)
  show r: "sint (word_of_int (sint a smod sint b) :: 'a word) = sint a smod sint b"
    using r by (simp add: signed_of_int signed_take_bit_int_eq_self)
  show "signed_division a b (word_of_int (sint a sdiv sint b)) (word_of_int (sint a smod sint b))"
    using assms m(1,2) by (auto simp: signed_division_def q r sdiv_mult_smod_eq)
qed

lemma unsigned_division_words:
  fixes a b :: "'a::len word"
  assumes "b \<noteq> 0"
  shows "unsigned_division a b (a div b) (a mod b)"
proof -
  have "0 < uint b" using assms uint_ge_0 [of b] by (simp add: order_less_le unsigned_eq_0_iff)
  then show ?thesis using assms by (simp add: unsigned_division_def uint_div_distrib uint_mod_distrib)
qed

lemma INT_MIN_iff: "a = INT64_MIN \<longleftrightarrow> sint (a :: u64) = - (2 ^ 63)" "c = INT32_MIN \<longleftrightarrow> sint (c :: u32) = - (2 ^ 31)"
proof -
  have "sint (INT64_MIN :: u64) = - (2 ^ 63)" "sint (INT32_MIN :: u32) = - (2 ^ 31)" by simp_all
  then show "a = INT64_MIN \<longleftrightarrow> sint (a :: u64) = - (2 ^ 63)" "c = INT32_MIN \<longleftrightarrow> sint (c :: u32) = - (2 ^ 31)"
    by (metis sint_inject)+
qed

lemma division_64: "signed_division a b (RV32M_result DIV a b) (RV32M_result REM a b)"
proof (cases "b = 0 \<or> b = -1 \<and> a = INT64_MIN")
  case True
  then show ?thesis by (auto simp: signed_division_def)
next
  case False
  then have "b \<noteq> 0" "\<not> (b = -1 \<and> sint a = - (2 ^ (LENGTH(64) - 1)))" using INT_MIN_iff(1) [of a] by auto
  from signed_division_words(3) [OF this] show ?thesis using False by auto
qed

text \<open>The word forms divide the lower halves and extend the sign of the result.\<close>

lemma word_form:
  fixes x :: int
  assumes "- (2 ^ 31) \<le> x" "x < 2 ^ 31"
  shows "(word_of_int x :: u64) = scast (word_of_int x :: u32)"
proof -
  have "sint (word_of_int x :: u32) = x" using assms by (simp add: signed_of_int signed_take_bit_int_eq_self)
  then show ?thesis by (simp add: scast_eq)
qed

lemma ucast_mult_32: "ucast (x * y :: u64) = (ucast x * ucast y :: u32)"
proof -
  have "take_bit 32 (take_bit 64 p * take_bit 64 q) = take_bit 32 (p * q)" for p q :: int
    by (subst take_bit_mult [symmetric]) (simp add: take_bit_mult)
  then show ?thesis by transfer simp
qed

lemma sint_range_32: "- (2 ^ 31) \<le> sint (a :: u32)" "sint (a :: u32) < 2 ^ 31"
  using sint_greater_eq [of a] sint_less [of a] by simp_all

lemma division_32:
  fixes x y :: u64
  defines "a \<equiv> ucast x :: u32" and "b \<equiv> ucast y :: u32"
  obtains q r where "RV64M_result DIVW x y = scast (q :: u32)" "RV64M_result REMW x y = scast (r :: u32)"
    "signed_division a b q r"
proof (cases "b = 0 \<or> b = -1 \<and> a = INT32_MIN")
  case True
  then show ?thesis
  proof
    assume "b = 0"
    then show ?thesis
      using that [of "-1" a] by (simp add: signed_division_def Let_def a_def [symmetric] b_def [symmetric])
  next
    assume "b = -1 \<and> a = INT32_MIN"
    then show ?thesis
      using that [of a 0] by (simp add: signed_division_def Let_def a_def [symmetric] b_def [symmetric])
  qed
next
  case False
  then have n: "b \<noteq> 0" "\<not> (b = -1 \<and> sint a = - (2 ^ (LENGTH(32) - 1)))" using INT_MIN_iff(2) [of a] by auto
  note d = signed_division_words [OF n]
  have q: "(word_of_int (sint a sdiv sint b) :: u64) = scast (word_of_int (sint a sdiv sint b) :: u32)"
    by (rule word_form) (use sint_range_32 [of "word_of_int (sint a sdiv sint b)"] in \<open>simp_all only: d\<close>)
  have r: "(word_of_int (sint a smod sint b) :: u64) = scast (word_of_int (sint a smod sint b) :: u32)"
    by (rule word_form) (use sint_range_32 [of "word_of_int (sint a smod sint b)"] in \<open>simp_all only: d\<close>)
  show ?thesis
    by (rule that [OF _ _ d(3)]) (use False in \<open>auto simp: Let_def a_def [symmetric] b_def [symmetric] q r\<close>)
qed

lemma unsigned_division_32:
  fixes x y :: u64
  defines "a \<equiv> ucast x :: u32" and "b \<equiv> ucast y :: u32"
  obtains q r where "RV64M_result DIVUW x y = scast (q :: u32)" "RV64M_result REMUW x y = scast (r :: u32)"
    "unsigned_division a b q r"
proof (cases "b = 0")
  case True
  then show ?thesis
    using that [of "-1" a] by (simp add: unsigned_division_def Let_def a_def [symmetric] b_def [symmetric])
next
  case False
  then show ?thesis
    using that [OF _ _ unsigned_division_words [OF False, of a]]
    by (simp add: Let_def a_def [symmetric] b_def [symmetric])
qed

text \<open>
  C34. The M extension computes exact results. The upper and lower halves of a product, as
  \<^verbatim>\<open>MULH\<close>, \<^verbatim>\<open>MULHU\<close> or \<^verbatim>\<open>MULHSU\<close> and \<^verbatim>\<open>MUL\<close> deliver them, make up the full 128-bit product of the operands
  read as signed, unsigned and mixed. Quotient and remainder are those of division towards zero,
  signed and unsigned, with all ones and the dividend for a zero divisor and the dividend and zero for the
  quotient that overflows. The word forms do the same on the lower halves of the operands and extend
  the sign of the 32-bit result.
\<close>

theorem mul_div_exact:
  "sint (RV32M_result MULH a b) * 2 ^ 64 + uint (RV32M_result MUL a b) = sint a * sint b \<and>
   uint (RV32M_result MULHU a b) * 2 ^ 64 + uint (RV32M_result MUL a b) = uint a * uint b \<and>
   sint (RV32M_result MULHSU a b) * 2 ^ 64 + uint (RV32M_result MUL a b) = sint a * uint b \<and>
   signed_division a b (RV32M_result DIV a b) (RV32M_result REM a b) \<and>
   unsigned_division a b (RV32M_result DIVU a b) (RV32M_result REMU a b) \<and>
   RV64M_result MULW a b = scast (ucast a * ucast b :: u32) \<and>
   (\<exists>q r. RV64M_result DIVW a b = scast (q :: u32) \<and> RV64M_result REMW a b = scast (r :: u32) \<and>
      signed_division (ucast a) (ucast b) q r) \<and>
   (\<exists>q r. RV64M_result DIVUW a b = scast (q :: u32) \<and> RV64M_result REMUW a b = scast (r :: u32) \<and>
      unsigned_division (ucast a) (ucast b) q r)"
proof -
  have l: "RV32M_result MUL a b = ucast (ucast a * ucast b :: u128)"
    "RV32M_result MUL a b = ucast (scast a * ucast b :: u128)"
    by (simp_all add: low_product)
  have "sint (RV32M_result MULH a b) * 2 ^ 64 + uint (RV32M_result MUL a b) = sint a * sint b"
    using split_128(1) [of "scast a * scast b"] by (simp add: wide_products)
  moreover have "uint (RV32M_result MULHU a b) * 2 ^ 64 + uint (RV32M_result MUL a b) = uint a * uint b"
    unfolding l(1) using split_128(2) [of "ucast a * ucast b"] by (simp add: wide_products)
  moreover have "sint (RV32M_result MULHSU a b) * 2 ^ 64 + uint (RV32M_result MUL a b) = sint a * uint b"
    unfolding l(2) using split_128(1) [of "scast a * ucast b"] by (simp add: wide_products)
  moreover have "unsigned_division a b (RV32M_result DIVU a b) (RV32M_result REMU a b)"
    using unsigned_division_words [of b a] by (auto simp: unsigned_division_def)
  moreover have "RV64M_result MULW a b = scast (ucast a * ucast b :: u32)"
    by (simp add: ucast_mult_32)
  moreover have "\<exists>q r. RV64M_result DIVW a b = scast (q :: u32) \<and> RV64M_result REMW a b = scast (r :: u32) \<and>
      signed_division (ucast a) (ucast b) q r"
    by (rule division_32 [of a b]) blast
  moreover have "\<exists>q r. RV64M_result DIVUW a b = scast (q :: u32) \<and> RV64M_result REMUW a b = scast (r :: u32) \<and>
      unsigned_division (ucast a) (ucast b) q r"
    by (rule unsigned_division_32 [of a b]) blast
  ultimately show ?thesis using division_64 [of a b] by blast
qed

section \<open>Runs\<close>

text \<open>
  Every history of a core from reset: a program counter set by the platform, steps, and changes
  of the interrupt inputs in between.
\<close>

inductive core_reachable :: "'m mem_port \<Rightarrow> 'm core \<Rightarrow> bool" for b where
  reset: "\<not> bit p 0 \<Longrightarrow> core_reachable b (set_pc (Core_init h m) p)"
| step: "core_reachable b c \<Longrightarrow> run_step b c = Done c' \<Longrightarrow> core_reachable b c'"
| ext: "core_reachable b c \<Longrightarrow> core_reachable b (ext_interrupt c v)"
| sw: "core_reachable b c \<Longrightarrow> core_reachable b (sw_interrupt c v)"
| timer: "core_reachable b c \<Longrightarrow> core_reachable b (timer_interrupt c v)"

lemma set_mip_ok:
  assumes "core_ok c" "f \<in> {MEIP, MSIP, MTIP}"
  shows "core_ok (set_mip f v c)"
proof -
  have w: "bit (csr c Mip) n \<Longrightarrow> bit MIE_MASK n" for n
    using assms(1) unfolding core_ok_def csr_ok_def within_iff by blast
  obtain p where p: "mip_bits f = (p, 1)" "p = 3 \<or> p = 7 \<or> p = 11" using assms(2) by auto
  have "set_field (mip_bits f) (of_bool v) (csr c Mip) AND NOT MIE_MASK = 0"
    unfolding within_iff
  proof (intro allI impI)
    fix n
    assume "bit (set_field (mip_bits f) (of_bool v) (csr c Mip)) n"
    then have "n = p \<or> bit (csr c Mip) n" by (auto simp: p(1) bit_set_field split: if_splits)
    moreover have "bit MIE_MASK p" unfolding bit_MIE_MASK using p(2) by blast
    ultimately show "bit MIE_MASK n" using w by blast
  qed
  then show ?thesis
    unfolding set_mip_def using assms(1) by (intro core_ok_set_csr csr_ok_update) (auto simp: core_ok_def)
qed

lemma reg_read_set_mip [simp]: "reg_read (set_mip f v c) i = reg_read c i"
  by (simp add: set_mip_def reg_read_def)

lemma reachable_ok: "core_reachable b c \<Longrightarrow> core_ok c \<and> reg_read c 0 = 0"
proof (induction rule: core_reachable.induct)
  case (reset p h m)
  then show ?case using core_ok_init [of h m] by (simp add: set_pc_def core_ok_def reg_read_def)
next
  case (step c c')
  then show ?case using run_step_ok [of c b] by simp
qed (simp_all add: ext_interrupt_def sw_interrupt_def timer_interrupt_def set_mip_ok)

text \<open>The loop of \<^verbatim>\<open>run\<close> with a bound on the number of steps.\<close>

fun run_for :: "nat \<Rightarrow> 'm mem_port \<Rightarrow> 'm core \<Rightarrow> 'm core outcome option" where
  "run_for 0 b c = None"
| "run_for (Suc n) b c =
     (case run_step b c of
        Done c' \<Rightarrow> if status c' = Runnable then run_for n b c' else Some (Done c')
      | r \<Rightarrow> Some r)"

lemma run_for_run: "run_for n b c = Some r \<Longrightarrow> run b c = Some r"
proof (induction n arbitrary: c)
  case (Suc n)
  then show ?case by (subst run.simps) (auto split: outcome.splits if_splits)
qed simp

lemma run_run_for:
  assumes "run b c = Some r"
  shows "\<exists>n. run_for n b c = Some r"
  using assms
proof (induction rule: run.raw_induct)
  case (1 f b c r)
  show ?case
  proof (cases "\<exists>c'. run_step b c = Done c' \<and> status c' = Runnable")
    case True
    then obtain c' where c': "run_step b c = Done c'" "status c' = Runnable" by blast
    have "run b c' = Some r" using 1(3) c' by (subst (asm) run.simps) simp
    moreover have "f b c' = Some r" using 1(2) c' by simp
    ultimately obtain n where "run_for n b c' = Some r" using 1(1) by blast
    with c' have "run_for (Suc n) b c = Some r" by simp
    then show ?thesis ..
  next
    case False
    with 1(2) have "run_for (Suc 0) b c = Some r" by (auto split: outcome.splits if_splits)
    then show ?thesis ..
  qed
qed (rule assms)

lemma run_iff_run_for: "run b c = Some r \<longleftrightarrow> (\<exists>n. run_for n b c = Some r)"
  using run_run_for run_for_run by blast

end
