(* ===== verification/Plic.thy ===== *)
theory Plic
  imports Command_Packet
begin

text \<open>
  The platform-level interrupt controller of the virtual platform
  (\<^verbatim>\<open>lv/bindings/simple/plic.cc\<close>, offsets from \<^verbatim>\<open>lv/mmio/simple/plic.h\<close>): its registers, arbitration,
  claim and completion, the decoding of MMIO accesses and the method that accepts sources and
  drives the interrupt outputs.  Each output is shown to be exactly what the contract in the
  class comment says although only contexts marked dirty are recomputed.
\<close>

section \<open>State\<close>

abbreviation (input) LV_PLIC_REGISTER_BYTES :: "'a::len word" where "LV_PLIC_REGISTER_BYTES \<equiv> 4"
abbreviation (input) LV_PLIC_PENDING_BASE :: u64 where "LV_PLIC_PENDING_BASE \<equiv> 0x1000"
abbreviation (input) LV_PLIC_BITMAP_BYTES :: u64 where "LV_PLIC_BITMAP_BYTES \<equiv> 0x80"
abbreviation (input) LV_PLIC_ENABLE_BASE :: u64 where "LV_PLIC_ENABLE_BASE \<equiv> 0x2000"
abbreviation (input) LV_PLIC_ENABLE_STRIDE :: u64 where "LV_PLIC_ENABLE_STRIDE \<equiv> 0x80"
abbreviation (input) LV_PLIC_CONTEXT_BASE :: u64 where "LV_PLIC_CONTEXT_BASE \<equiv> 0x200000"
abbreviation (input) LV_PLIC_CONTEXT_STRIDE :: u64 where "LV_PLIC_CONTEXT_STRIDE \<equiv> 0x1000"
abbreviation (input) LV_PLIC_THRESHOLD_OFFSET :: u64 where "LV_PLIC_THRESHOLD_OFFSET \<equiv> 0"
abbreviation (input) LV_PLIC_CLAIM_COMPLETE_OFFSET :: u64 where "LV_PLIC_CLAIM_COMPLETE_OFFSET \<equiv> 4"
abbreviation (input) LV_PLIC_WINDOW_BYTES :: u64 where "LV_PLIC_WINDOW_BYTES \<equiv> 0x4000000"
abbreviation (input) kMaxContexts :: "'a::len word" where "kMaxContexts \<equiv> 15872"
abbreviation (input) kPriorityMask :: u32 where "kPriorityMask \<equiv> 7"

text \<open>
  The output ports keep the value last written; \<open>state_changed\<close> is whether the event that wakes the
  source method has been notified.
\<close>

record plic =
  num_sources :: u32
  num_contexts :: u32
  enable_words :: u32
  priorities :: "u32 list"
  pendings :: "bool list"
  gateway_busy :: "bool list"
  irq_dirty :: bool
  all_contexts_dirty :: bool
  context_irq_dirty :: "bool list"
  enables :: "u32 list list"
  thresholds :: "u32 list"
  irq :: "bool list"
  state_changed :: bool

definition plic_Validate :: "u32 \<Rightarrow> u32 \<Rightarrow> bool" where
  "plic_Validate ns nc \<longleftrightarrow> \<not> (ns = 0 \<or> ns > 1023) \<and> \<not> (nc = 0 \<or> nc > kMaxContexts)"

text \<open>The constructor, which throws when the counts are out of range.\<close>

definition Plic_init :: "u32 \<Rightarrow> u32 \<Rightarrow> plic option" where
  "Plic_init ns nc =
     (if \<not> plic_Validate ns nc then None
      else Some
        \<lparr>num_sources = ns, num_contexts = nc, enable_words = ns div 32 + 1,
         priorities = replicate (unat ns + 1) 0, pendings = replicate (unat ns + 1) False,
         gateway_busy = replicate (unat ns + 1) False, irq_dirty = False, all_contexts_dirty = False,
         context_irq_dirty = replicate (unat nc) False,
         enables = replicate (unat nc) (replicate (unat (ns div 32 + 1)) 0),
         thresholds = replicate (unat nc) 0, irq = replicate (unat nc) False, state_changed = False\<rparr>)"

section \<open>Arbitration\<close>

definition Enabled :: "plic \<Rightarrow> nat \<Rightarrow> nat \<Rightarrow> bool" where
  "Enabled p context source \<longleftrightarrow> enables p ! context ! (source div 32) AND push_bit (source mod 32) 1 \<noteq> 0"

definition MarkContextIrqDirty :: "nat \<Rightarrow> plic \<Rightarrow> plic" where
  "MarkContextIrqDirty context p =
     p\<lparr>context_irq_dirty := (context_irq_dirty p)[context := True], irq_dirty := True\<rparr>"

definition MarkAllIrqsDirty :: "plic \<Rightarrow> plic" where
  "MarkAllIrqsDirty p = p\<lparr>all_contexts_dirty := True, irq_dirty := True\<rparr>"

definition best_step :: "plic \<Rightarrow> nat \<Rightarrow> nat \<Rightarrow> nat \<times> u32 \<Rightarrow> nat \<times> u32" where
  "best_step p context sid b =
     (if pendings p ! sid \<and> priorities p ! sid > snd b \<and> Enabled p context sid
      then (sid, priorities p ! sid) else b)"

definition BestSource :: "plic \<Rightarrow> nat \<Rightarrow> nat" where
  "BestSource p context = fst (fold (best_step p context) [1..<Suc (unat (num_sources p))] (0, 0))"

definition Claim :: "plic \<Rightarrow> nat \<Rightarrow> u32 \<times> plic" where
  "Claim p context =
     (let sid = BestSource p context in
      (of_nat sid, if sid \<noteq> 0 then MarkAllIrqsDirty (p\<lparr>pendings := (pendings p)[sid := False]\<rparr>) else p))"

definition Complete :: "plic \<Rightarrow> nat \<Rightarrow> u32 \<Rightarrow> plic" where
  "Complete p context sid =
     (if sid \<noteq> 0 \<and> sid \<le> num_sources p \<and> Enabled p context (unat sid)
      then p\<lparr>gateway_busy := (gateway_busy p)[unat sid := False], state_changed := True\<rparr> else p)"

definition SourceMask :: "plic \<Rightarrow> u32 \<Rightarrow> u32" where
  "SourceMask p word =
     (let first = word * 32 in
      fold (\<lambda>b m. if first + of_nat b \<noteq> 0 \<and> first + of_nat b \<le> num_sources p then m OR push_bit b 1 else m)
        [0..<32] 0)"

section \<open>Register accesses\<close>

text \<open>
  \<^verbatim>\<open>Access\<close>, one definition per window of the register map.  A result \<open>None\<close> is the return value
  \<^verbatim>\<open>false\<close>; otherwise the value left in \<^verbatim>\<open>*value\<close> and the new state.
\<close>

definition access_priority :: "plic \<Rightarrow> u64 \<Rightarrow> bool \<Rightarrow> u32 \<Rightarrow> (u32 \<times> plic) option" where
  "access_priority p address write v =
     (let sid = ucast (address div LV_PLIC_REGISTER_BYTES) in
      if sid = 0 \<or> sid > num_sources p then Some (if \<not> write then 0 else v, p)
      else if write then
        let priority = v AND kPriorityMask in
        Some (v, if priorities p ! unat sid \<noteq> priority
                 then MarkAllIrqsDirty (p\<lparr>priorities := (priorities p)[unat sid := priority]\<rparr>) else p)
      else Some (priorities p ! unat sid, p))"

definition pending_word :: "plic \<Rightarrow> u32 \<Rightarrow> u32" where
  "pending_word p first =
     fold (\<lambda>b m. let sid = first + of_nat b in
        if sid \<le> num_sources p \<and> pendings p ! unat sid then m OR push_bit b 1 else m) [0..<32] 0"

definition access_pending :: "plic \<Rightarrow> u64 \<Rightarrow> bool \<Rightarrow> u32 \<Rightarrow> (u32 \<times> plic) option" where
  "access_pending p address write v =
     Some (if \<not> write
           then pending_word p (ucast ((address - LV_PLIC_PENDING_BASE) div LV_PLIC_REGISTER_BYTES * 32))
           else v, p)"

definition access_enable :: "plic \<Rightarrow> u64 \<Rightarrow> bool \<Rightarrow> u32 \<Rightarrow> (u32 \<times> plic) option" where
  "access_enable p address write v =
     (let context = ucast ((address - LV_PLIC_ENABLE_BASE) div LV_PLIC_ENABLE_STRIDE) :: u32;
          word = ucast (((address - LV_PLIC_ENABLE_BASE) mod LV_PLIC_ENABLE_STRIDE) div LV_PLIC_REGISTER_BYTES) :: u32
      in
      if context \<ge> num_contexts p then None
      else if word \<ge> enable_words p then Some (if \<not> write then 0 else v, p)
      else if write then
        let en = v AND SourceMask p word in
        Some (v, if enables p ! unat context ! unat word \<noteq> en
                 then MarkContextIrqDirty (unat context)
                   (p\<lparr>enables := (enables p)[unat context := (enables p ! unat context)[unat word := en]]\<rparr>)
                 else p)
      else Some (enables p ! unat context ! unat word, p))"

definition access_context :: "plic \<Rightarrow> u64 \<Rightarrow> bool \<Rightarrow> u32 \<Rightarrow> (u32 \<times> plic) option" where
  "access_context p address write v =
     (let context = ucast ((address - LV_PLIC_CONTEXT_BASE) div LV_PLIC_CONTEXT_STRIDE) :: u32;
          offset = (address - LV_PLIC_CONTEXT_BASE) mod LV_PLIC_CONTEXT_STRIDE
      in
      if context \<ge> num_contexts p then None
      else if offset = LV_PLIC_THRESHOLD_OFFSET then
        (if write then
           let threshold = v AND kPriorityMask in
           Some (v, if thresholds p ! unat context \<noteq> threshold
                    then MarkContextIrqDirty (unat context)
                      (p\<lparr>thresholds := (thresholds p)[unat context := threshold]\<rparr>)
                    else p)
         else Some (thresholds p ! unat context, p))
      else if offset = LV_PLIC_CLAIM_COMPLETE_OFFSET then
        (if write then Some (v, Complete p (unat context) v) else Some (Claim p (unat context)))
      else None)"

definition plic_Access :: "plic \<Rightarrow> u64 \<Rightarrow> bool \<Rightarrow> u32 \<Rightarrow> (u32 \<times> plic) option" where
  "plic_Access p address write v =
     (if address < LV_PLIC_PENDING_BASE then access_priority p address write v
      else if address < LV_PLIC_PENDING_BASE + LV_PLIC_BITMAP_BYTES then access_pending p address write v
      else if LV_PLIC_ENABLE_BASE \<le> address \<and> address < LV_PLIC_ENABLE_BASE + kMaxContexts * LV_PLIC_ENABLE_STRIDE
      then access_enable p address write v
      else if LV_PLIC_CONTEXT_BASE \<le> address \<and> address < LV_PLIC_WINDOW_BYTES
      then access_context p address write v
      else None)"

section \<open>Transactions\<close>

datatype tlm_command = TLM_READ_COMMAND | TLM_WRITE_COMMAND | TLM_IGNORE_COMMAND

datatype tlm_response_status =
    TLM_OK_RESPONSE | TLM_INCOMPLETE_RESPONSE | TLM_GENERIC_ERROR_RESPONSE | TLM_ADDRESS_ERROR_RESPONSE
  | TLM_COMMAND_ERROR_RESPONSE | TLM_BURST_ERROR_RESPONSE | TLM_BYTE_ENABLE_ERROR_RESPONSE

text \<open>A generic payload: a null pointer is \<open>None\<close>, a buffer its bytes.\<close>

record tlm_payload =
  command :: tlm_command
  tlm_address :: u64
  data_ptr :: "u8 list option"
  data_length :: u32
  streaming_width :: u32
  byte_enable_ptr :: "u8 list option"
  byte_enable_length :: u32
  response_status :: tlm_response_status

definition byte_enables_ok :: "tlm_payload \<Rightarrow> bool" where
  "byte_enables_ok t =
     (case byte_enable_ptr t of
        None \<Rightarrow> True
      | Some be \<Rightarrow> list_all (\<lambda>i. byte_enable_length t \<noteq> 0 \<and>
          be ! unat ((of_nat i :: u32) mod byte_enable_length t) = 0xff) [0..<4])"

definition plic_ProcessRequest :: "plic \<Rightarrow> tlm_payload \<Rightarrow> tlm_payload \<times> plic" where
  "plic_ProcessRequest p t =
     (let reject = (\<lambda>st. (t\<lparr>response_status := st\<rparr>, p)) in
      if command t \<noteq> TLM_READ_COMMAND \<and> command t \<noteq> TLM_WRITE_COMMAND then reject TLM_COMMAND_ERROR_RESPONSE
      else if tlm_address t mod LV_PLIC_REGISTER_BYTES \<noteq> 0 then reject TLM_ADDRESS_ERROR_RESPONSE
      else
        case data_ptr t of
          None \<Rightarrow> reject TLM_GENERIC_ERROR_RESPONSE
        | Some d \<Rightarrow>
            if data_length t \<noteq> LV_PLIC_REGISTER_BYTES then reject TLM_GENERIC_ERROR_RESPONSE
            else if streaming_width t \<noteq> 0 \<and> streaming_width t < LV_PLIC_REGISTER_BYTES
            then reject TLM_BURST_ERROR_RESPONSE
            else if \<not> byte_enables_ok t then reject TLM_BYTE_ENABLE_ERROR_RESPONSE
            else
              let v = (if command t = TLM_WRITE_COMMAND then le_word (take 4 d) else 0) in
              case plic_Access p (tlm_address t) (command t = TLM_WRITE_COMMAND) v of
                None \<Rightarrow> reject TLM_ADDRESS_ERROR_RESPONSE
              | Some (v', p') \<Rightarrow>
                  (t\<lparr>data_ptr := Some (if command t = TLM_READ_COMMAND then le_bytes 4 v' @ drop 4 d else d),
                     response_status := TLM_OK_RESPONSE\<rparr>, p'))"

section \<open>Source and interrupt processing\<close>

definition accept_source :: "bool list \<Rightarrow> nat \<Rightarrow> plic \<Rightarrow> plic" where
  "accept_source srcs sid p =
     (if \<not> gateway_busy p ! sid \<and> \<not> pendings p ! sid \<and> srcs ! (sid - 1)
      then MarkAllIrqsDirty
        (p\<lparr>pendings := (pendings p)[sid := True], gateway_busy := (gateway_busy p)[sid := True]\<rparr>)
      else p)"

definition update_irq :: "nat \<Rightarrow> plic \<Rightarrow> plic" where
  "update_irq context p =
     (if \<not> all_contexts_dirty p \<and> \<not> context_irq_dirty p ! context then p
      else p\<lparr>irq := (irq p)[context := priorities p ! BestSource p context > thresholds p ! context],
             context_irq_dirty := (context_irq_dirty p)[context := False]\<rparr>)"

definition ProcessSourcesAndIrq :: "bool list \<Rightarrow> plic \<Rightarrow> plic" where
  "ProcessSourcesAndIrq srcs p =
     (let p1 = fold (accept_source srcs) [1..<Suc (unat (num_sources p))] (p\<lparr>state_changed := False\<rparr>) in
      if irq_dirty p1
      then (fold update_irq [0..<unat (num_contexts p1)] p1)\<lparr>all_contexts_dirty := False, irq_dirty := False\<rparr>
      else p1)"

text \<open>
  One activation of the MMIO method: the requests waiting, the free places for responses and
  whether the clock rises.
\<close>

definition ProcessMmio ::
  "bool \<Rightarrow> tlm_payload list \<Rightarrow> nat \<Rightarrow> plic \<Rightarrow> tlm_payload list \<times> tlm_payload option \<times> plic" where
  "ProcessMmio posedge reqs num_free p =
     (case reqs of
        [] \<Rightarrow> (reqs, None, p)
      | t # rest \<Rightarrow>
          if num_free = 0 then (reqs, None, p)
          else if posedge then
            (let (t', p') = plic_ProcessRequest p t in
             (rest, Some t', if irq_dirty p' then p'\<lparr>state_changed := True\<rparr> else p'))
          else (reqs, None, p))"

section \<open>Arbitration picks the best candidate\<close>

text \<open>A source that a context may claim.\<close>

definition candidate :: "plic \<Rightarrow> nat \<Rightarrow> nat \<Rightarrow> bool" where
  "candidate p ctx i \<longleftrightarrow>
     1 \<le> i \<and> i \<le> unat (num_sources p) \<and> pendings p ! i \<and> Enabled p ctx i \<and> 0 < priorities p ! i"

definition best_among :: "plic \<Rightarrow> nat \<Rightarrow> nat \<Rightarrow> nat \<times> u32 \<Rightarrow> bool" where
  "best_among p ctx k b \<longleftrightarrow>
     (b = (0, 0) \<and> (\<forall>i < k. \<not> candidate p ctx i)) \<or>
     (candidate p ctx (fst b) \<and> fst b < k \<and> snd b = priorities p ! fst b \<and>
      (\<forall>i < k. candidate p ctx i \<longrightarrow>
         priorities p ! i \<le> snd b \<and> (i < fst b \<longrightarrow> priorities p ! i < snd b)))"

lemma best_among_step:
  assumes "best_among p ctx k b" "1 \<le> k" "k \<le> unat (num_sources p)"
  shows "best_among p ctx (Suc k) (best_step p ctx k b)"
proof (cases "pendings p ! k \<and> snd b < priorities p ! k \<and> Enabled p ctx k")
  case True
  then have "0 < priorities p ! k" by (metis word_neq_0_conv word_not_simps(1))
  with True have "candidate p ctx k" using assms(2,3) by (simp add: candidate_def)
  moreover have "\<And>i. i < k \<Longrightarrow> candidate p ctx i \<Longrightarrow> priorities p ! i < priorities p ! k"
    using assms(1) True by (auto simp: best_among_def dest: le_less_trans)
  ultimately show ?thesis
    using True unfolding best_among_def best_step_def by (auto simp: less_Suc_eq intro: less_imp_le)
next
  case False
  have "candidate p ctx k \<Longrightarrow> priorities p ! k \<le> snd b \<and> fst b < k"
    using False assms(1) unfolding best_among_def candidate_def by (auto simp: not_less)
  with False assms(1) show ?thesis
    unfolding best_among_def best_step_def by (auto simp: less_Suc_eq candidate_def)
qed

lemma best_among_fold:
  assumes "n \<le> unat (num_sources p)"
  shows "best_among p ctx (Suc n) (fold (best_step p ctx) [1..<Suc n] (0, 0))"
  using assms
proof (induction n)
  case 0
  then show ?case by (auto simp: best_among_def candidate_def)
next
  case (Suc n)
  then show ?case using best_among_step [of p ctx "Suc n"] by simp
qed

lemma BestSource_spec:
  "(BestSource p ctx = 0 \<and> (\<forall>i. \<not> candidate p ctx i)) \<or>
   (candidate p ctx (BestSource p ctx) \<and>
    (\<forall>i. candidate p ctx i \<longrightarrow> priorities p ! i \<le> priorities p ! BestSource p ctx \<and>
       (i < BestSource p ctx \<longrightarrow> priorities p ! i < priorities p ! BestSource p ctx)))"
proof -
  have "candidate p ctx i \<Longrightarrow> i < Suc (unat (num_sources p))" for i by (simp add: candidate_def)
  then show ?thesis
    using best_among_fold [of "unat (num_sources p)" p ctx]
    unfolding best_among_def BestSource_def [symmetric] by (auto simp: BestSource_def)
qed

section \<open>Well-formed controllers\<close>

definition plic_ok :: "plic \<Rightarrow> bool" where
  "plic_ok p \<longleftrightarrow> plic_Validate (num_sources p) (num_contexts p) \<and>
     length (priorities p) = unat (num_sources p) + 1 \<and> length (pendings p) = unat (num_sources p) + 1 \<and>
     length (gateway_busy p) = unat (num_sources p) + 1 \<and>
     length (context_irq_dirty p) = unat (num_contexts p) \<and> length (enables p) = unat (num_contexts p) \<and>
     length (thresholds p) = unat (num_contexts p) \<and> length (irq p) = unat (num_contexts p) \<and>
     enable_words p = num_sources p div 32 + 1 \<and>
     list_all (\<lambda>row. length row = unat (num_sources p div 32 + 1)) (enables p) \<and> priorities p ! 0 = 0"

text \<open>What the interrupt output of a context should be.\<close>

definition irq_level :: "plic \<Rightarrow> nat \<Rightarrow> bool" where
  "irq_level p ctx \<longleftrightarrow> priorities p ! BestSource p ctx > thresholds p ! ctx"

lemma irq_level_iff:
  assumes "plic_ok p"
  shows "irq_level p ctx \<longleftrightarrow>
    (\<exists>i. 1 \<le> i \<and> i \<le> unat (num_sources p) \<and> pendings p ! i \<and> Enabled p ctx i \<and>
       thresholds p ! ctx < priorities p ! i)"
proof
  assume l: "irq_level p ctx"
  then have "candidate p ctx (BestSource p ctx)"
    using BestSource_spec [of p ctx] assms by (auto simp: irq_level_def plic_ok_def)
  with l show "\<exists>i. 1 \<le> i \<and> i \<le> unat (num_sources p) \<and> pendings p ! i \<and> Enabled p ctx i \<and>
       thresholds p ! ctx < priorities p ! i"
    by (auto simp: candidate_def irq_level_def)
next
  assume "\<exists>i. 1 \<le> i \<and> i \<le> unat (num_sources p) \<and> pendings p ! i \<and> Enabled p ctx i \<and>
       thresholds p ! ctx < priorities p ! i"
  then obtain i where i: "1 \<le> i" "i \<le> unat (num_sources p)" "pendings p ! i" "Enabled p ctx i"
    and t: "thresholds p ! ctx < priorities p ! i" by blast
  from t have "0 < priorities p ! i" by (metis word_neq_0_conv word_not_simps(1))
  with i have "candidate p ctx i" by (simp add: candidate_def)
  with t BestSource_spec [of p ctx] show "irq_level p ctx"
    by (auto simp: irq_level_def dest: less_le_trans)
qed

text \<open>An output is either up to date or marked for recomputation.\<close>

definition synced :: "plic \<Rightarrow> bool" where
  "synced p \<longleftrightarrow>
     (\<forall>ctx < unat (num_contexts p).
        irq p ! ctx = irq_level p ctx \<or>
        irq_dirty p \<and> (all_contexts_dirty p \<or> context_irq_dirty p ! ctx))"

lemma irq_level_cong:
  assumes "num_sources q = num_sources p" "priorities q = priorities p" "pendings q = pendings p"
    "enables q ! ctx = enables p ! ctx" "thresholds q ! ctx = thresholds p ! ctx"
  shows "irq_level q ctx = irq_level p ctx"
proof -
  have "best_step q ctx = best_step p ctx"
    using assms by (intro ext) (simp add: best_step_def Enabled_def)
  then show ?thesis using assms by (simp add: irq_level_def BestSource_def)
qed

lemma plic_ok_mark [simp]:
  "plic_ok (MarkAllIrqsDirty p) = plic_ok p" "plic_ok (MarkContextIrqDirty ctx p) = plic_ok p"
  by (simp_all add: plic_ok_def MarkAllIrqsDirty_def MarkContextIrqDirty_def)

lemma synced_mark_all [simp]: "synced (MarkAllIrqsDirty p)"
  by (simp add: synced_def MarkAllIrqsDirty_def)

lemma synced_mark_context:
  assumes "synced p" "plic_ok p"
    and "num_sources q = num_sources p" "num_contexts q = num_contexts p" "priorities q = priorities p"
    and "pendings q = pendings p" "irq q = irq p" "all_contexts_dirty q = all_contexts_dirty p"
    and "irq_dirty q = irq_dirty p" "context_irq_dirty q = context_irq_dirty p"
    and "\<And>c. c \<noteq> ctx \<Longrightarrow> enables q ! c = enables p ! c \<and> thresholds q ! c = thresholds p ! c"
  shows "synced (MarkContextIrqDirty ctx q)"
  unfolding synced_def
proof (intro allI impI)
  fix c
  assume c: "c < unat (num_contexts (MarkContextIrqDirty ctx q))"
  let ?m = "MarkContextIrqDirty ctx q"
  show "irq ?m ! c = irq_level ?m c \<or>
      irq_dirty ?m \<and> (all_contexts_dirty ?m \<or> context_irq_dirty ?m ! c)"
  proof (cases "c = ctx")
    case True
    with c assms(2,4,10) show ?thesis by (simp add: MarkContextIrqDirty_def plic_ok_def)
  next
    case False
    have "irq_level ?m c = irq_level p c"
      by (rule irq_level_cong) (use False assms in \<open>simp_all add: MarkContextIrqDirty_def\<close>)
    with False c assms show ?thesis by (auto simp: synced_def MarkContextIrqDirty_def)
  qed
qed

lemma synced_frame:
  assumes "synced p" "num_sources q = num_sources p" "num_contexts q = num_contexts p"
    "priorities q = priorities p" "pendings q = pendings p" "irq q = irq p" "enables q = enables p"
    "thresholds q = thresholds p" "all_contexts_dirty q = all_contexts_dirty p"
    "irq_dirty q = irq_dirty p" "context_irq_dirty q = context_irq_dirty p"
  shows "synced q"
  using assms irq_level_cong [of q p] unfolding synced_def by simp

section \<open>Requests keep the outputs accounted for\<close>

lemma plic_ok_priority:
  "plic_ok p \<Longrightarrow> (sid :: u32) \<noteq> 0 \<Longrightarrow> plic_ok (p\<lparr>priorities := (priorities p)[unat sid := x]\<rparr>)"
  by (simp add: plic_ok_def nth_list_update unat_eq_0)

lemma plic_ok_pending [simp]: "plic_ok (p\<lparr>pendings := (pendings p)[i := x]\<rparr>) = plic_ok p"
  by (simp add: plic_ok_def)

lemma plic_ok_threshold [simp]: "plic_ok (p\<lparr>thresholds := (thresholds p)[i := x]\<rparr>) = plic_ok p"
  by (simp add: plic_ok_def)

lemma plic_ok_enable:
  assumes "plic_ok p"
  shows "plic_ok (p\<lparr>enables := (enables p)[c := (enables p ! c)[j := x]]\<rparr>)"
proof (cases "c < length (enables p)")
  case True
  with assms show ?thesis by (auto simp: plic_ok_def list_all_length nth_list_update)
next
  case False
  then have "(enables p)[c := (enables p ! c)[j := x]] = enables p" by (simp add: list_update_beyond)
  with assms show ?thesis by simp
qed

lemma access_priority_ok:
  assumes "plic_ok p" "synced p" "access_priority p a w v = Some (v', p')"
  shows "plic_ok p' \<and> synced p'"
proof -
  define sid :: u32 where "sid = ucast (a div LV_PLIC_REGISTER_BYTES)"
  have "p' = p \<or> (sid \<noteq> 0 \<and> (\<exists>x. p' = MarkAllIrqsDirty (p\<lparr>priorities := (priorities p)[unat sid := x]\<rparr>)))"
    using assms(3) unfolding access_priority_def Let_def sid_def [symmetric] by (auto split: if_splits)
  with assms(1,2) plic_ok_priority show ?thesis by auto
qed

lemma access_pending_ok:
  "plic_ok p \<Longrightarrow> synced p \<Longrightarrow> access_pending p a w v = Some (v', p') \<Longrightarrow> plic_ok p' \<and> synced p'"
  by (simp add: access_pending_def)

lemma access_enable_ok:
  assumes "plic_ok p" "synced p" "access_enable p a w v = Some (v', p')"
  shows "plic_ok p' \<and> synced p'"
proof -
  let ?upd = "\<lambda>c j x. p\<lparr>enables := (enables p)[c := (enables p ! c)[j := x]]\<rparr>"
  have "p' = p \<or> (\<exists>c j x. p' = MarkContextIrqDirty c (?upd c j x))"
    using assms(3) unfolding access_enable_def Let_def by (auto split: if_splits)
  moreover have "synced (MarkContextIrqDirty c (?upd c j x))" for c j x
    by (rule synced_mark_context [OF assms(2,1)]) simp_all
  ultimately show ?thesis using assms(1,2) plic_ok_enable by auto
qed

lemma Claim_ok:
  assumes "plic_ok p" "synced p"
  shows "plic_ok (snd (Claim p c)) \<and> synced (snd (Claim p c))"
  using assms by (simp add: Claim_def Let_def)

lemma Complete_ok:
  assumes "plic_ok p" "synced p"
  shows "plic_ok (Complete p c v) \<and> synced (Complete p c v)"
proof
  show "plic_ok (Complete p c v)" using assms(1) by (simp add: Complete_def plic_ok_def)
  show "synced (Complete p c v)" by (rule synced_frame [OF assms(2)]) (simp_all add: Complete_def)
qed

lemma access_context_cases:
  assumes "access_context p a w v = Some (v', p')"
  obtains "p' = p"
  | c t where "p' = MarkContextIrqDirty c (p\<lparr>thresholds := (thresholds p)[c := t]\<rparr>)"
  | c where "w" "p' = Complete p c v" "(a - LV_PLIC_CONTEXT_BASE) mod LV_PLIC_CONTEXT_STRIDE = LV_PLIC_CLAIM_COMPLETE_OFFSET"
  | c where "p' = snd (Claim p c)"
proof -
  define c where "c = unat (ucast ((a - LV_PLIC_CONTEXT_BASE) div LV_PLIC_CONTEXT_STRIDE) :: u32)"
  define off where "off = (a - LV_PLIC_CONTEXT_BASE) mod LV_PLIC_CONTEXT_STRIDE"
  note r = assms [unfolded access_context_def Let_def, folded c_def off_def]
  consider "off = 0" w | "off = 0" "\<not> w" | "off = 4" w | "off = 4" "\<not> w" | "off \<noteq> 0" "off \<noteq> 4" by blast
  then show ?thesis
  proof cases
    case 1
    with r that(1) that(2) [of c "v AND kPriorityMask"] show ?thesis by (auto split: if_splits)
  next
    case 2
    with r that(1) show ?thesis by (simp split: if_splits)
  next
    case 3
    with r have "p' = Complete p c v" by (auto split: if_splits)
    with 3 that(3) [of c] show ?thesis unfolding off_def by blast
  next
    case 4
    with r have "Claim p c = (v', p')" by (simp split: if_splits)
    with that(4) [of c] show ?thesis by simp
  next
    case 5
    with r show ?thesis by (simp split: if_splits)
  qed
qed

lemma access_context_ok:
  assumes "plic_ok p" "synced p" "access_context p a w v = Some (v', p')"
  shows "plic_ok p' \<and> synced p'"
  using assms(3)
proof (cases rule: access_context_cases)
  case (2 c t)
  have "synced (MarkContextIrqDirty c (p\<lparr>thresholds := (thresholds p)[c := t]\<rparr>))"
    by (rule synced_mark_context [OF assms(2,1)]) simp_all
  with 2 assms(1) show ?thesis by simp
qed (use assms(1,2) Complete_ok Claim_ok in blast)+

lemma Access_ok:
  assumes "plic_ok p" "synced p" "plic_Access p a w v = Some (v', p')"
  shows "plic_ok p' \<and> synced p'"
  using assms(3) access_priority_ok [OF assms(1,2)] access_pending_ok [OF assms(1,2)]
    access_enable_ok [OF assms(1,2)] access_context_ok [OF assms(1,2)]
  unfolding plic_Access_def by (metis option.distinct(1))

lemma ProcessRequest_cases:
  obtains st where "plic_ProcessRequest p t = (t\<lparr>response_status := st\<rparr>, p)" "st \<noteq> TLM_OK_RESPONSE"
  | d v v' p' where "data_ptr t = Some d"
      "v = (if command t = TLM_WRITE_COMMAND then le_word (take 4 d) else 0)"
      "plic_Access p (tlm_address t) (command t = TLM_WRITE_COMMAND) v = Some (v', p')"
      "plic_ProcessRequest p t =
        (t\<lparr>data_ptr := Some (if command t = TLM_READ_COMMAND then le_bytes 4 v' @ drop 4 d else d),
           response_status := TLM_OK_RESPONSE\<rparr>, p')"
proof (cases "\<exists>st. plic_ProcessRequest p t = (t\<lparr>response_status := st\<rparr>, p) \<and> st \<noteq> TLM_OK_RESPONSE")
  case True
  with that(1) show ?thesis by blast
next
  case False
  define v where "v d = (if command t = TLM_WRITE_COMMAND then le_word (take 4 d) else 0 :: u32)" for d
  note r = plic_ProcessRequest_def [of p t, unfolded Let_def, folded v_def]
  from False r obtain d where d: "data_ptr t = Some d" by (auto split: option.splits if_splits)
  with False r obtain x where x: "plic_Access p (tlm_address t) (command t = TLM_WRITE_COMMAND) (v d) = Some x"
    by (cases "plic_Access p (tlm_address t) (command t = TLM_WRITE_COMMAND) (v d)") (auto split: if_splits)
  obtain v' p' where "x = (v', p')" by (cases x)
  with d x False r that(2) [of d "v d" v' p'] show ?thesis unfolding v_def by (auto split: if_splits)
qed

lemma ProcessRequest_ok:
  assumes "plic_ok p" "synced p"
  shows "plic_ok (snd (plic_ProcessRequest p t)) \<and> synced (snd (plic_ProcessRequest p t))"
  by (cases rule: ProcessRequest_cases [of p t]) (use Access_ok [OF assms] assms in auto)

section \<open>The source method brings every output up to date\<close>

lemma accept_source_ok:
  "plic_ok p \<Longrightarrow> synced p \<Longrightarrow> plic_ok (accept_source srcs i p) \<and> synced (accept_source srcs i p)"
  by (simp add: accept_source_def) (simp add: plic_ok_def)

lemma accept_sources_ok:
  assumes "plic_ok p" "synced p"
  shows "plic_ok (fold (accept_source srcs) is p) \<and> synced (fold (accept_source srcs) is p)"
  using assms by (induction "is" arbitrary: p) (auto simp: accept_source_ok)

lemma accept_sources_simps [simp]:
  "num_sources (fold (accept_source srcs) is p) = num_sources p"
  "num_contexts (fold (accept_source srcs) is p) = num_contexts p"
  "state_changed (fold (accept_source srcs) is p) = state_changed p"
  by (induction "is" arbitrary: p) (simp_all add: accept_source_def MarkAllIrqsDirty_def)

text \<open>The fields that recomputing the outputs leaves alone.\<close>

lemma update_irq_simps [simp]:
  "num_sources (update_irq c p) = num_sources p" "num_contexts (update_irq c p) = num_contexts p"
  "priorities (update_irq c p) = priorities p" "pendings (update_irq c p) = pendings p"
  "gateway_busy (update_irq c p) = gateway_busy p" "enables (update_irq c p) = enables p"
  "thresholds (update_irq c p) = thresholds p" "all_contexts_dirty (update_irq c p) = all_contexts_dirty p"
  "irq_dirty (update_irq c p) = irq_dirty p" "state_changed (update_irq c p) = state_changed p"
  "enable_words (update_irq c p) = enable_words p"
  by (simp_all add: update_irq_def)

lemma update_irqs_simps [simp]:
  "num_sources (fold update_irq cs p) = num_sources p" "num_contexts (fold update_irq cs p) = num_contexts p"
  "priorities (fold update_irq cs p) = priorities p" "pendings (fold update_irq cs p) = pendings p"
  "gateway_busy (fold update_irq cs p) = gateway_busy p" "enables (fold update_irq cs p) = enables p"
  "thresholds (fold update_irq cs p) = thresholds p"
  "state_changed (fold update_irq cs p) = state_changed p"
  by (induction cs arbitrary: p) simp_all

lemma update_irq_level [simp]: "irq_level (update_irq c p) ctx = irq_level p ctx"
  by (rule irq_level_cong) simp_all

lemma update_irq_ok: "plic_ok p \<Longrightarrow> plic_ok (update_irq c p)"
  by (simp add: plic_ok_def) (simp add: update_irq_def)

text \<open>What the loop over the contexts has achieved before context \<open>n\<close>.\<close>

lemma update_irqs:
  assumes "plic_ok p" "synced p" "irq_dirty p" "n \<le> unat (num_contexts p)"
  shows "plic_ok (fold update_irq [0..<n] p) \<and>
    (\<forall>c < unat (num_contexts p).
       (c < n \<longrightarrow> irq (fold update_irq [0..<n] p) ! c = irq_level p c) \<and>
       (n \<le> c \<longrightarrow> irq (fold update_irq [0..<n] p) ! c = irq p ! c \<and>
          context_irq_dirty (fold update_irq [0..<n] p) ! c = context_irq_dirty p ! c)) \<and>
    all_contexts_dirty (fold update_irq [0..<n] p) = all_contexts_dirty p"
  using assms(4)
proof (induction n)
  case 0
  then show ?case using assms(1) by simp
next
  case (Suc n)
  define q where "q = fold update_irq [0..<n] p"
  have q: "plic_ok q" "all_contexts_dirty q = all_contexts_dirty p"
    "\<And>c. c < n \<Longrightarrow> irq q ! c = irq_level p c"
    "\<And>c. n \<le> c \<Longrightarrow> c < unat (num_contexts p) \<Longrightarrow> irq q ! c = irq p ! c"
    "\<And>c. n \<le> c \<Longrightarrow> c < unat (num_contexts p) \<Longrightarrow> context_irq_dirty q ! c = context_irq_dirty p ! c"
    using Suc unfolding q_def by auto
  have len: "length (irq q) = unat (num_contexts p)" "length (context_irq_dirty q) = unat (num_contexts p)"
    using q(1) by (simp_all add: plic_ok_def q_def)
  have lev: "irq_level q n = irq_level p n"
    unfolding q_def by (rule irq_level_cong) simp_all
  have sn: "irq p ! n = irq_level p n \<or> all_contexts_dirty p \<or> context_irq_dirty p ! n"
    using Suc.prems assms(2) [unfolded synced_def, rule_format, of n] by auto
  have s: "fold update_irq [0..<Suc n] p = update_irq n q" by (simp add: q_def)
  have n: "irq (update_irq n q) ! n = irq_level p n"
    using Suc.prems sn q(2) q(4,5) [of n] len lev by (auto simp: update_irq_def irq_level_def [of q])
  have o: "c \<noteq> n \<Longrightarrow> irq (update_irq n q) ! c = irq q ! c \<and>
      context_irq_dirty (update_irq n q) ! c = context_irq_dirty q ! c" for c
    by (simp add: update_irq_def)
  show ?case
    unfolding s using q n o update_irq_ok [OF q(1), of n] by (auto simp: less_Suc_eq)
qed

lemma ProcessSourcesAndIrq_simps [simp]:
  "state_changed (ProcessSourcesAndIrq srcs p) = False" "irq_dirty (ProcessSourcesAndIrq srcs p) = False"
  "num_sources (ProcessSourcesAndIrq srcs p) = num_sources p"
  "num_contexts (ProcessSourcesAndIrq srcs p) = num_contexts p"
  by (simp_all add: ProcessSourcesAndIrq_def Let_def)

lemma ProcessSourcesAndIrq_ok:
  assumes "plic_ok p" "synced p"
  shows "plic_ok (ProcessSourcesAndIrq srcs p) \<and> synced (ProcessSourcesAndIrq srcs p)"
proof -
  let ?p0 = "p\<lparr>state_changed := False\<rparr>"
  have "plic_ok ?p0" "synced ?p0"
    using assms synced_frame [of p ?p0] by (simp_all add: plic_ok_def)
  define q where "q = fold (accept_source srcs) [1..<Suc (unat (num_sources p))] ?p0"
  have q: "plic_ok q" "synced q"
    unfolding q_def using accept_sources_ok [OF \<open>plic_ok ?p0\<close> \<open>synced ?p0\<close>] by blast+
  show ?thesis
  proof (cases "irq_dirty q")
    case False
    with q show ?thesis by (simp add: ProcessSourcesAndIrq_def Let_def q_def)
  next
    case True
    let ?f = "fold update_irq [0..<unat (num_contexts q)] q"
    let ?r = "?f\<lparr>all_contexts_dirty := False, irq_dirty := False\<rparr>"
    have r: "ProcessSourcesAndIrq srcs p = ?r" using True by (simp add: ProcessSourcesAndIrq_def Let_def q_def)
    note u = update_irqs [OF q True order_refl]
    have "irq_level ?r c = irq_level q c" for c by (rule irq_level_cong) simp_all
    with u have "synced ?r" by (simp add: synced_def)
    moreover have "plic_ok ?r" using u by (simp add: plic_ok_def)
    ultimately show ?thesis by (simp add: r)
  qed
qed

section \<open>Reachable controllers\<close>

text \<open>The events of the simulation: an activation of the MMIO method or of the source method.\<close>

datatype plic_event = Mmio bool "tlm_payload list" nat | Sources "bool list"

fun plic_step :: "plic_event \<Rightarrow> plic \<Rightarrow> plic" where
  "plic_step (Mmio posedge reqs num_free) p = snd (snd (ProcessMmio posedge reqs num_free p))"
| "plic_step (Sources srcs) p = ProcessSourcesAndIrq srcs p"

inductive plic_reachable :: "plic \<Rightarrow> bool" where
  reset: "Plic_init ns nc = Some p \<Longrightarrow> plic_reachable p"
| event: "plic_reachable p \<Longrightarrow> plic_reachable (plic_step e p)"

definition plic_inv :: "plic \<Rightarrow> bool" where
  "plic_inv p \<longleftrightarrow> plic_ok p \<and> synced p \<and> (irq_dirty p \<longrightarrow> state_changed p)"

lemma ProcessMmio_cases:
  obtains "snd (snd (ProcessMmio e r n p)) = p"
  | t rest where "r = t # rest"
      "snd (snd (ProcessMmio e r n p)) =
        (let q = snd (plic_ProcessRequest p t) in if irq_dirty q then q\<lparr>state_changed := True\<rparr> else q)"
proof (cases "r = [] \<or> n = 0 \<or> \<not> e")
  case True
  with that(1) show ?thesis by (auto simp: ProcessMmio_def split: list.splits)
next
  case False
  then obtain t rest where "r = t # rest" by (auto simp: neq_Nil_conv)
  with False that(2) show ?thesis by (auto simp: ProcessMmio_def split_beta Let_def)
qed

lemma Plic_init_inv:
  assumes "Plic_init ns nc = Some p"
  shows "plic_inv p"
proof -
  have "plic_ok p" using assms by (auto simp: Plic_init_def plic_ok_def list_all_length split: if_splits)
  moreover have "\<not> irq_level p c" for c
    using irq_level_iff [OF calculation] assms
    by (auto simp: Plic_init_def simp del: replicate.simps split: if_splits)
  then have "synced p" using assms by (auto simp: Plic_init_def synced_def split: if_splits)
  ultimately show ?thesis using assms by (auto simp: plic_inv_def Plic_init_def split: if_splits)
qed

lemma plic_step_inv:
  assumes "plic_inv p"
  shows "plic_inv (plic_step e p)"
proof (cases e)
  case (Sources srcs)
  with assms ProcessSourcesAndIrq_ok show ?thesis by (simp add: plic_inv_def)
next
  case (Mmio posedge reqs num_free)
  show ?thesis
  proof (cases rule: ProcessMmio_cases [of posedge reqs num_free p])
    case 1
    with assms Mmio show ?thesis by simp
  next
    case (2 t rest)
    define q where "q = snd (plic_ProcessRequest p t)"
    have q: "plic_ok q" "synced q" unfolding q_def using assms ProcessRequest_ok by (auto simp: plic_inv_def)
    then have "plic_ok (q\<lparr>state_changed := True\<rparr>)" "synced (q\<lparr>state_changed := True\<rparr>)"
      using synced_frame [of q "q\<lparr>state_changed := True\<rparr>"] by (simp_all add: plic_ok_def)
    with q 2 Mmio show ?thesis by (auto simp: plic_inv_def Let_def q_def [symmetric])
  qed
qed

lemma plic_reachable_inv: "plic_reachable p \<Longrightarrow> plic_inv p"
  by (induction rule: plic_reachable.induct) (auto intro: Plic_init_inv plic_step_inv)

section \<open>The claim register\<close>

lemma claim_address:
  assumes "ctx < 15872"
  defines "a \<equiv> LV_PLIC_CONTEXT_BASE + of_nat ctx * LV_PLIC_CONTEXT_STRIDE + LV_PLIC_CLAIM_COMPLETE_OFFSET"
  shows "unat a = 0x200004 + ctx * 0x1000"
    "unat (a - LV_PLIC_CONTEXT_BASE) = 4 + ctx * 0x1000"
proof -
  have eq: "a = of_nat (0x200004 + ctx * 0x1000)" "a - LV_PLIC_CONTEXT_BASE = of_nat (4 + ctx * 0x1000)"
    unfolding a_def by simp_all
  show "unat a = 0x200004 + ctx * 0x1000"
    unfolding eq(1) by (rule unat_of_nat_lt) (use assms(1) in simp)
  show "unat (a - LV_PLIC_CONTEXT_BASE) = 4 + ctx * 0x1000"
    unfolding eq(2) by (rule unat_of_nat_lt) (use assms(1) in simp)
qed

text \<open>A well-formed word access to the claim and completion register of a context reaches that register.\<close>

lemma Access_claim:
  assumes "plic_ok p" "ctx < unat (num_contexts p)"
    and a: "a = LV_PLIC_CONTEXT_BASE + of_nat ctx * LV_PLIC_CONTEXT_STRIDE + LV_PLIC_CLAIM_COMPLETE_OFFSET"
  shows "a mod 4 = 0" "plic_Access p a w v = Some (if w then (v, Complete p ctx v) else Claim p ctx)"
proof -
  have "unat (num_contexts p) \<le> 15872"
    using assms(1) by (simp add: plic_ok_def plic_Validate_def word_less_nat_alt)
  then have ctx: "ctx < 15872" using assms(2) by simp
  note u = claim_address [OF ctx, folded a]
  show "a mod 4 = 0" using u(1) by (simp add: word_unat_eq_iff unat_mod_distrib)
  have c: "(ucast ((a - LV_PLIC_CONTEXT_BASE) div LV_PLIC_CONTEXT_STRIDE) :: u32) = of_nat ctx"
    using u(2) ctx by (simp add: word_unat_eq_iff unsigned_ucast_eq unat_div_distrib unsigned_of_nat take_bit_eq_mod)
  have o: "(a - LV_PLIC_CONTEXT_BASE) mod LV_PLIC_CONTEXT_STRIDE = LV_PLIC_CLAIM_COMPLETE_OFFSET"
    using u(2) by (simp add: word_unat_eq_iff unat_mod_distrib)
  have n: "unat (of_nat ctx :: u32) = ctx" using ctx by (simp add: unsigned_of_nat take_bit_eq_mod)
  have b: "\<not> num_contexts p \<le> of_nat ctx" using assms(2) n by (simp add: word_le_nat_alt)
  have w: "\<not> a < LV_PLIC_PENDING_BASE" "\<not> a < LV_PLIC_PENDING_BASE + LV_PLIC_BITMAP_BYTES"
    "\<not> a < LV_PLIC_ENABLE_BASE + kMaxContexts * LV_PLIC_ENABLE_STRIDE" "LV_PLIC_CONTEXT_BASE \<le> a" "a < LV_PLIC_WINDOW_BYTES"
    using u(1) ctx by (simp_all add: word_less_nat_alt word_le_nat_alt)
  have "access_context p a w v = Some (if w then (v, Complete p ctx v) else Claim p ctx)"
    unfolding access_context_def Let_def c o n using b by simp
  with w show "plic_Access p a w v = Some (if w then (v, Complete p ctx v) else Claim p ctx)"
    by (simp add: plic_Access_def)
qed

text \<open>The format that a transaction must have to be executed.\<close>

definition word_access :: "tlm_payload \<Rightarrow> bool" where
  "word_access t \<longleftrightarrow> data_ptr t \<noteq> None \<and> data_length t = 4 \<and>
     (streaming_width t = 0 \<or> 4 \<le> streaming_width t) \<and> byte_enables_ok t"

lemma ProcessRequest_word:
  assumes "word_access t" "command t = TLM_READ_COMMAND" "tlm_address t mod 4 = 0" "data_ptr t = Some d"
    and "plic_Access p (tlm_address t) False 0 = Some (v', p')"
  shows "plic_ProcessRequest p t =
    (t\<lparr>data_ptr := Some (le_bytes 4 v' @ drop 4 d), response_status := TLM_OK_RESPONSE\<rparr>, p')"
  using assms by (auto simp: plic_ProcessRequest_def word_access_def not_less)

lemma Claim_cases:
  "(fst (Claim p ctx) = 0 \<and> snd (Claim p ctx) = p \<and> (\<forall>i. \<not> candidate p ctx i)) \<or>
   (\<exists>i. fst (Claim p ctx) = of_nat i \<and> candidate p ctx i \<and>
      (\<forall>j. candidate p ctx j \<longrightarrow> priorities p ! j < priorities p ! i \<or> priorities p ! j = priorities p ! i \<and> i \<le> j) \<and>
      snd (Claim p ctx) = MarkAllIrqsDirty (p\<lparr>pendings := (pendings p)[i := False]\<rparr>))"
proof (cases "BestSource p ctx = 0")
  case True
  with BestSource_spec [of p ctx] show ?thesis by (auto simp: Claim_def Let_def candidate_def)
next
  case False
  with BestSource_spec [of p ctx] have b: "candidate p ctx (BestSource p ctx)"
    "\<And>j. candidate p ctx j \<Longrightarrow> priorities p ! j \<le> priorities p ! BestSource p ctx \<and>
       (j < BestSource p ctx \<longrightarrow> priorities p ! j < priorities p ! BestSource p ctx)" by auto
  have "candidate p ctx j \<Longrightarrow> priorities p ! j < priorities p ! BestSource p ctx \<or>
      priorities p ! j = priorities p ! BestSource p ctx \<and> BestSource p ctx \<le> j" for j
    using b(2) [of j] by (metis not_less order_le_less)
  with False b(1) show ?thesis
    by (intro disjI2 exI [of _ "BestSource p ctx"]) (simp add: Claim_def Let_def)
qed

section \<open>A claimed source stays with its claimant\<close>

definition held :: "nat \<Rightarrow> plic \<Rightarrow> bool" where
  "held i p \<longleftrightarrow> gateway_busy p ! i \<and> \<not> pendings p ! i"

text \<open>
  The event executes a write of source \<open>i\<close> to the completion register of some context. Writes that the
  controller ignores, because the context is not implemented or does not enable the source, count as well.
\<close>

fun completes :: "nat \<Rightarrow> plic_event \<Rightarrow> bool" where
  "completes i (Mmio posedge (t # ts) num_free) \<longleftrightarrow>
     command t = TLM_WRITE_COMMAND \<and> LV_PLIC_CONTEXT_BASE \<le> tlm_address t \<and> tlm_address t < LV_PLIC_WINDOW_BYTES \<and>
     (tlm_address t - LV_PLIC_CONTEXT_BASE) mod LV_PLIC_CONTEXT_STRIDE = LV_PLIC_CLAIM_COMPLETE_OFFSET \<and>
     (case data_ptr t of None \<Rightarrow> False | Some d \<Rightarrow> unat (le_word (take 4 d) :: u32) = i)"
| "completes i _ \<longleftrightarrow> False"

lemma clear_bit: "xs[j := False] ! i \<Longrightarrow> xs ! i"
  by (metis linorder_le_less_linear list_update_beyond nth_list_update)

lemma held_mark [simp]: "held i (MarkAllIrqsDirty p) = held i p" "held i (MarkContextIrqDirty c p) = held i p"
  by (simp_all add: held_def MarkAllIrqsDirty_def MarkContextIrqDirty_def)

lemma held_frame:
  "pendings q = pendings p \<Longrightarrow> gateway_busy q = gateway_busy p \<Longrightarrow> held i q = held i p"
  by (simp add: held_def)

lemma held_Access:
  assumes "held i p" "plic_Access p a w v = Some (v', p')"
    and "\<not> (w \<and> LV_PLIC_CONTEXT_BASE \<le> a \<and> a < LV_PLIC_WINDOW_BYTES \<and> (a - LV_PLIC_CONTEXT_BASE) mod LV_PLIC_CONTEXT_STRIDE = LV_PLIC_CLAIM_COMPLETE_OFFSET \<and> unat v = i)"
  shows "held i p'"
proof -
  have "held i p'" if "access_context p a w v = Some (v', p')" "LV_PLIC_CONTEXT_BASE \<le> a" "a < LV_PLIC_WINDOW_BYTES"
    using that(1)
  proof (cases rule: access_context_cases)
    case (2 c t)
    with assms(1) held_frame [of "p\<lparr>thresholds := (thresholds p)[c := t]\<rparr>" p] show ?thesis by simp
  next
    case (3 c)
    with assms(1,3) that(2,3) show ?thesis by (simp add: held_def Complete_def)
  next
    case (4 c)
    with assms(1) show ?thesis by (auto simp: held_def Claim_def Let_def MarkAllIrqsDirty_def dest: clear_bit)
  qed (use assms(1) in simp)
  moreover have "held i p'" if "access_priority p a w v = Some (v', p')"
    using that assms(1) by (auto simp: access_priority_def Let_def held_def MarkAllIrqsDirty_def split: if_splits)
  moreover have "held i p'" if "access_enable p a w v = Some (v', p')"
    using that assms(1) by (auto simp: access_enable_def Let_def held_def MarkContextIrqDirty_def split: if_splits)
  moreover have "held i p'" if "access_pending p a w v = Some (v', p')"
    using that assms(1) by (simp add: access_pending_def)
  ultimately show ?thesis using assms(2) unfolding plic_Access_def by (metis option.distinct(1))
qed

lemma held_sources: "held i p \<Longrightarrow> held i (fold (accept_source srcs) ids p)"
proof (induction ids arbitrary: p)
  case (Cons j ids)
  have "held i (accept_source srcs j p)"
    using Cons.prems by (cases "j = i") (auto simp: held_def accept_source_def MarkAllIrqsDirty_def)
  with Cons.IH show ?case by simp
qed simp

lemma held_ProcessSources: "held i p \<Longrightarrow> held i (ProcessSourcesAndIrq srcs p)"
proof -
  assume "held i p"
  then have "held i (p\<lparr>state_changed := False\<rparr>)" by (simp add: held_def)
  from held_sources [OF this] show ?thesis by (simp add: ProcessSourcesAndIrq_def Let_def held_def)
qed

lemma held_step:
  assumes "held i p" "\<not> completes i e"
  shows "held i (plic_step e p)"
proof (cases e)
  case (Sources srcs)
  with assms(1) held_ProcessSources show ?thesis by simp
next
  case (Mmio posedge reqs num_free)
  show ?thesis
  proof (cases rule: ProcessMmio_cases [of posedge reqs num_free p])
    case 1
    with Mmio assms(1) show ?thesis by simp
  next
    case (2 t rest)
    have "held i (snd (plic_ProcessRequest p t))"
    proof (cases rule: ProcessRequest_cases [of p t])
      case 1
      with assms(1) show ?thesis by simp
    next
      case (2 d v v' p')
      have "held i p'"
        by (rule held_Access [OF assms(1) 2(3)])
          (use assms(2) 2(1,2) Mmio \<open>reqs = t # rest\<close> in simp)
      with 2(4) show ?thesis by simp
    qed
    with 2(2) Mmio show ?thesis by (simp add: Let_def held_def)
  qed
qed

lemma held_steps:
  "held i p \<Longrightarrow> (\<And>e. e \<in> set es \<Longrightarrow> \<not> completes i e) \<Longrightarrow> held i (fold plic_step es p)"
  by (induction es arbitrary: p) (simp_all add: held_step)

lemma held_not_claimed:
  assumes "held i p" "1 \<le> i" "i \<le> unat (num_sources p)"
  shows "fst (Claim p ctx) \<noteq> of_nat i"
proof
  assume "fst (Claim p ctx) = of_nat i"
  then have eq: "(of_nat (BestSource p ctx) :: u32) = of_nat i" by (simp add: Claim_def Let_def)
  have le: "BestSource p ctx \<le> unat (num_sources p)"
    using BestSource_spec [of p ctx] by (auto simp: candidate_def)
  have lt: "unat (num_sources p) < 2 ^ LENGTH(32)" by (rule unsigned_less)
  have "unat (of_nat (BestSource p ctx) :: u32) = BestSource p ctx" "unat (of_nat i :: u32) = i"
    by (rule unat_of_nat_lt, use le lt assms(3) in simp)+
  with eq have "BestSource p ctx = i" by metis
  with BestSource_spec [of p ctx] assms show False by (auto simp: candidate_def held_def)
qed

lemma num_sources_step [simp]: "num_sources (plic_step e p) = num_sources p"
proof -
  have a: "plic_Access p a w v = Some (v', p') \<Longrightarrow> num_sources p' = num_sources p" for a w v v' p'
    by (auto simp: plic_Access_def access_priority_def access_pending_def access_enable_def access_context_def
        Claim_def Complete_def MarkAllIrqsDirty_def MarkContextIrqDirty_def Let_def split: if_splits)
  have r: "num_sources (snd (plic_ProcessRequest p t)) = num_sources p" for t
    by (cases rule: ProcessRequest_cases [of p t]) (use a in auto)
  show ?thesis
  proof (cases e)
    case (Sources srcs)
    then show ?thesis by simp
  next
    case (Mmio posedge reqs num_free)
    then show ?thesis
      by (cases rule: ProcessMmio_cases [of posedge reqs num_free p]) (simp_all add: Let_def r)
  qed
qed

lemma num_sources_steps: "num_sources (fold plic_step es p) = num_sources p"
  by (induction es arbitrary: p) simp_all

section \<open>Guarantees\<close>

text \<open>The condition of the class comment under which an output is to be high.\<close>

definition irq_wanted :: "plic \<Rightarrow> nat \<Rightarrow> bool" where
  "irq_wanted p ctx \<longleftrightarrow>
     (\<exists>i \<in> {1..unat (num_sources p)}. pendings p ! i \<and> Enabled p ctx i \<and> thresholds p ! ctx < priorities p ! i)"

text \<open>A controller with two sources and one context, and the traffic that makes it raise its output.\<close>

definition demo_access :: "tlm_command \<Rightarrow> u64 \<Rightarrow> u32 \<Rightarrow> tlm_payload" where
  "demo_access c a v =
     \<lparr>command = c, tlm_address = a, data_ptr = Some (le_bytes 4 v), data_length = 4, streaming_width = 4,
      byte_enable_ptr = None, byte_enable_length = 0, response_status = TLM_INCOMPLETE_RESPONSE\<rparr>"

definition demo_plic :: plic where
  "demo_plic = the (Plic_init 2 1)"

definition demo_traffic :: "plic_event list" where
  "demo_traffic =
     [Mmio True [demo_access TLM_WRITE_COMMAND 4 3] 1, Mmio True [demo_access TLM_WRITE_COMMAND 8 5] 1,
      Mmio True [demo_access TLM_WRITE_COMMAND 0x2000 6] 1, Sources [True, True]]"

definition demo_asserted :: plic where
  "demo_asserted = fold plic_step demo_traffic demo_plic"

definition demo_claimed :: plic where
  "demo_claimed = snd (plic_ProcessRequest demo_asserted (demo_access TLM_READ_COMMAND 0x200004 0))"

lemma reachable_steps: "plic_reachable p \<Longrightarrow> plic_reachable (fold plic_step es p)"
  by (induction es arbitrary: p) (simp_all add: plic_reachable.event)

lemma demo_asserted_reachable: "plic_reachable demo_asserted"
proof -
  have "Plic_init 2 1 = Some demo_plic" unfolding demo_plic_def by (simp add: Plic_init_def plic_Validate_def)
  then show ?thesis unfolding demo_asserted_def by (intro reachable_steps plic_reachable.reset)
qed

text \<open>
  C10. The interrupt outputs are exact although only contexts marked dirty are recomputed: in every
  reachable state, an output is high if and only if some pending source that the context enables has
  a priority above the context's threshold, unless the source method has been notified to run; and
  after every run of that method, whatever the source lines are, all outputs are exact.
\<close>

theorem plic_irq_exact:
  assumes "plic_reachable p" "ctx < unat (num_contexts p)"
  shows "(state_changed p \<or> (irq p ! ctx \<longleftrightarrow> irq_wanted p ctx)) \<and>
    (irq (ProcessSourcesAndIrq srcs p) ! ctx \<longleftrightarrow> irq_wanted (ProcessSourcesAndIrq srcs p) ctx)"
proof -
  have wanted: "irq_level q c \<longleftrightarrow> irq_wanted q c" if "plic_ok q" for q c
    unfolding irq_wanted_def irq_level_iff [OF that] by auto
  have inv: "plic_inv p" using assms(1) by (rule plic_reachable_inv)
  then have now: "state_changed p \<or> (irq p ! ctx \<longleftrightarrow> irq_wanted p ctx)"
    using assms(2) wanted [of p ctx] by (auto simp: plic_inv_def synced_def)
  define q where "q = ProcessSourcesAndIrq srcs p"
  have "plic_inv q" using plic_step_inv [OF inv, of "Sources srcs"] by (simp add: q_def)
  moreover have "\<not> irq_dirty q" by (simp add: q_def)
  moreover have "num_contexts q = num_contexts p" by (simp add: q_def)
  ultimately have "irq q ! ctx \<longleftrightarrow> irq_wanted q ctx"
    using assms(2) wanted [of q ctx] by (auto simp: plic_inv_def synced_def)
  with now show ?thesis by (simp add: q_def)
qed

theorem plic_irq_exact_witness: "irq demo_asserted ! 0 \<and> irq_wanted demo_asserted 0"
proof -
  have "num_contexts demo_asserted = 1" "\<not> state_changed demo_asserted" "irq demo_asserted ! 0" by code_simp+
  with plic_irq_exact [OF demo_asserted_reachable, of 0] show ?thesis by simp
qed

text \<open>
  C23. Reading a context's claim register arbitrates correctly: the transaction is answered with the
  pending, enabled source of the highest priority, the lowest identifier among equals, and clears
  only that source's pending bit while its gateway stays busy; with no such source it is answered
  with zero and changes nothing.
\<close>

theorem plic_claim_correct:
  assumes "plic_reachable p" "ctx < unat (num_contexts p)" "word_access t" "command t = TLM_READ_COMMAND"
    and "tlm_address t = LV_PLIC_CONTEXT_BASE + of_nat ctx * LV_PLIC_CONTEXT_STRIDE + LV_PLIC_CLAIM_COMPLETE_OFFSET"
    and "data_ptr t = Some d" "plic_ProcessRequest p t = (t', p')"
  shows "response_status t' = TLM_OK_RESPONSE \<and>
    (data_ptr t' = Some (le_bytes 4 (0 :: u32) @ drop 4 d) \<and> p' = p \<and> (\<forall>i. \<not> candidate p ctx i) \<or>
     (\<exists>i. data_ptr t' = Some (le_bytes 4 (of_nat i :: u32) @ drop 4 d) \<and> candidate p ctx i \<and>
        (\<forall>j. candidate p ctx j \<longrightarrow>
           priorities p ! j < priorities p ! i \<or> priorities p ! j = priorities p ! i \<and> i \<le> j) \<and>
        p' = p\<lparr>pendings := (pendings p)[i := False], all_contexts_dirty := True, irq_dirty := True\<rparr>))"
proof -
  have ok: "plic_ok p" using plic_reachable_inv [OF assms(1)] by (simp add: plic_inv_def)
  note a = Access_claim [OF ok assms(2,5)]
  have "plic_Access p (tlm_address t) False 0 = Some (fst (Claim p ctx), snd (Claim p ctx))" by (simp add: a(2))
  from ProcessRequest_word [OF assms(3,4) a(1) assms(6) this] assms(7)
  have "t' = t\<lparr>data_ptr := Some (le_bytes 4 (fst (Claim p ctx)) @ drop 4 d), response_status := TLM_OK_RESPONSE\<rparr>"
    "p' = snd (Claim p ctx)" by simp_all
  with Claim_cases [of p ctx] show ?thesis by (auto simp: MarkAllIrqsDirty_def)
qed

theorem plic_claim_correct_witness:
  "response_status (fst (plic_ProcessRequest demo_asserted (demo_access TLM_READ_COMMAND 0x200004 0))) = TLM_OK_RESPONSE"
proof -
  have "(0 :: nat) < unat (num_contexts demo_asserted)" "word_access (demo_access TLM_READ_COMMAND 0x200004 0)" by code_simp+
  then show ?thesis
    using plic_claim_correct [OF demo_asserted_reachable, of 0 "demo_access TLM_READ_COMMAND 0x200004 0" "le_bytes 4 (0 :: u32)"
        "fst (plic_ProcessRequest demo_asserted (demo_access TLM_READ_COMMAND 0x200004 0))"
        "snd (plic_ProcessRequest demo_asserted (demo_access TLM_READ_COMMAND 0x200004 0))"]
    by (simp add: demo_access_def)
qed

text \<open>
  C27. A claimed source stays with its claimant: from the moment its gateway is busy and it is no
  longer pending, no sequence of register accesses by any context and of changes of the source
  lines makes it pending or claimable again, until its identifier is written to a completion
  register.
\<close>

theorem plic_claim_exclusive:
  assumes "1 \<le> i" "i \<le> unat (num_sources p)" "gateway_busy p ! i" "\<not> pendings p ! i"
    and "\<forall>e \<in> set es. \<not> completes i e"
  shows "gateway_busy (fold plic_step es p) ! i \<and> \<not> pendings (fold plic_step es p) ! i \<and>
    fst (Claim (fold plic_step es p) ctx) \<noteq> of_nat i"
proof -
  have "held i (fold plic_step es p)" by (rule held_steps) (use assms in \<open>auto simp: held_def\<close>)
  with held_not_claimed [OF this assms(1)] assms(2) num_sources_steps [of es p] show ?thesis
    by (simp add: held_def)
qed

theorem plic_claim_exclusive_witness:
  "fst (Claim (fold plic_step [Sources [True, True], Mmio True [demo_access TLM_WRITE_COMMAND 0x200004 1] 1, Sources [True, True]]
     demo_claimed) 0) \<noteq> of_nat 2"
proof -
  have "num_sources demo_claimed = 2" "gateway_busy demo_claimed ! 2" "\<not> pendings demo_claimed ! 2"
    "\<not> completes 2 (Mmio True [demo_access TLM_WRITE_COMMAND 0x200004 1] 1)" by code_simp+
  then show ?thesis
    using plic_claim_exclusive [of 2 demo_claimed "[Sources [True, True],
        Mmio True [demo_access TLM_WRITE_COMMAND 0x200004 1] 1, Sources [True, True]]" 0]
    by (simp only: set_simps) auto
qed

end
