(* ===== verification/Spec2Isabelle.thy ===== *)
theory Spec2Isabelle
  imports Completion_Abi Command_Packet Lmem_Allocator Falloc Host_Firmware Rv64_Traps Plic
begin

text \<open>
  A verification development for FORMOSA, a GPGPU platform: the firmware of its command processor,
  the host library that submits work to it, and the parts of the virtual platform that execute the
  firmware and route its interrupts.

  \<^bold>\<open>How the parts interact.\<close>  A client calls the host library (\<^verbatim>\<open>hal/src/hal/hal.cc\<close>).  The library claims a
  completion slot, writes a 64-byte packet into the command ring and advances the write pointer,
  all through a socket protocol (\<^verbatim>\<open>libcomm\<close>) to the simulated device.  The firmware (\<^verbatim>\<open>fw/*.c\<close>) runs as
  four FreeRTOS tasks on an RV64 core: the dispatcher takes packets from the ring, launches the
  work-groups of a kernel on SMs, starts cache maintenance or a memory copy; the retire tasks
  collect finished work-groups and cache operations; the result goes back into the completion
  slot, where the host polls for it.  The core itself is an interpreter
  (\<^verbatim>\<open>lv/src/lv/bindings/cp/rv64\<close>), and interrupts reach contexts through a PLIC
  (\<^verbatim>\<open>lv/src/lv/bindings/simple/plic.cc\<close>).  Paths are relative to \<^verbatim>\<open>src\<close>.

  \<^bold>\<open>Shared theories.\<close>
  \<^item> \<open>Prelude\<close>: word types, little-endian encoding and the list, map and word lemmas of all components.
  \<^item> \<open>Regions\<close>: address ranges, alignment and the locale \<open>region_allocator\<close>, the contract of an
    allocator of disjoint blocks, with its consequences for histories of requests.  It is interpreted on
    the local-memory and on the device-memory allocator.
  \<^item> \<open>Slot_Pool\<close>: the locale \<open>slot_pool\<close> for fixed tables of slots, interpreted on the firmware's tables.
  \<^item> \<open>Addr_Map\<close>: the constants of the address map that the build generates, as a parameter record.

  \<^bold>\<open>Formats shared by host and firmware.\<close>
  \<^item> \<open>Completion_Abi\<close> (\<^verbatim>\<open>hal/include/formosa-hal/api.h\<close>): tokens and completion slots; both decode to what
    they were built from.
  \<^item> \<open>Command_Packet\<close> (\<^verbatim>\<open>hal/src/hal/command_packet.h\<close>): the packet union as bytes and its views; each kind
    survives the ring.

  \<^bold>\<open>Firmware.\<close>
  \<^item> \<open>Lmem_Allocator\<close> (\<^verbatim>\<open>cp_lmem_allocator.c\<close>): initialisation, allocation, release and coalescing of local
    memory.  Blocks are aligned, inside the window and disjoint over every history, a release restores
    the free regions, and every error answer is characterised.
  \<^item> \<open>Fw_State\<close> (\<^verbatim>\<open>cp_defs.h\<close>, \<^verbatim>\<open>cp_context.*\<close>): registers, globals and tables as one record.
  \<^item> \<open>Fw_Hwinfo\<close> (\<^verbatim>\<open>cp_hwinfo.c\<close>, \<^verbatim>\<open>cp_stack_remap.c\<close>, \<^verbatim>\<open>cp_wgi_buffer.c\<close>): discovery and the slot pools it sizes.
  \<^item> \<open>Fw_Completion\<close> (\<^verbatim>\<open>cp_status.c\<close>, \<^verbatim>\<open>cp_completion.h\<close>): publication changes exactly the pending slot of its token.
  \<^item> \<open>Fw_Cache\<close> (\<^verbatim>\<open>cp_cache.c\<close>) and \<open>Fw_Memory_Copy\<close> (\<^verbatim>\<open>cp_memory_copy.c\<close>): cache maintenance and the copy task as
    one turn at a time; acceptance is exact, down to the status of every refusal, the copy protocol is an
    invariant, and under the responsive schedule every non-empty copy finishes.
  \<^item> \<open>Fw_Kernel\<close> (\<^verbatim>\<open>cp_kernel_dispatch.c\<close>, \<^verbatim>\<open>cp_retire.c\<close>) with \<open>Fw_Kernel_Inv\<close>, \<open>Fw_Kernel_Lmem\<close> and \<open>Fw_Kernel_Own\<close>: launch
    and retirement, the count of remaining work-groups, the local memory each holds and who holds it.
  \<^item> \<open>Fw_Dispatch\<close>, \<open>Fw_Boot\<close> (\<^verbatim>\<open>cp_dispatch.c\<close>, \<^verbatim>\<open>cp_reboot.c\<close>, \<^verbatim>\<open>main.c\<close>): the dispatcher, reboot and start-up, which
    establishes the invariants.
  \<^item> \<open>Fw_System\<close>, \<open>Fw_Properties\<close>, \<open>Fw_Guarantees\<close>: all tasks, the interrupt, the SMs, the DMA engines and the host as
    a step relation, its invariant, and what follows for every reachable state: no panic, exact kernel
    completion, isolation of local memory, a ring that refines a FIFO queue, completions that only advance.
    The states are those reachable with launches \<open>packet_fits\<close> holds of: the firmware does not check that the
    product of the three grid dimensions fits its 32-bit counter of work-groups.

  \<^bold>\<open>Host.\<close>
  \<^item> \<open>Falloc\<close> (\<^verbatim>\<open>hal/src/common/falloc/falloc.c\<close>): the device-memory allocator.
  \<^item> \<open>Libcomm\<close> (\<^verbatim>\<open>libcomm.h\<close>): messages survive any segmentation by the socket.
  \<^item> \<open>Hal_Driver\<close> (\<^verbatim>\<open>lv-driver.cc\<close>, \<^verbatim>\<open>lv-config.cc\<close>) and \<open>Hal\<close> (\<^verbatim>\<open>hal.cc\<close>): requests to the device and every call of the
    library, error paths included.
  \<^item> \<open>Hal_Slots\<close>, \<open>Hal_Session\<close>, \<open>Hal_Order\<close>, \<open>Hal_Memory\<close>: outstanding tokens over every sequence of calls, reset, the
    order of the writes of a submission, and disjointness of the memory handed out.
  \<^item> \<open>Host_Firmware\<close>: the locale \<open>completion_channel\<close> on the two sides' definitions, and that the firmware reads in
    each packet what the host call meant.

  \<^bold>\<open>Virtual platform.\<close>
  \<^item> \<open>Rv64_Isa\<close> (\<^verbatim>\<open>riscv.h\<close>, \<^verbatim>\<open>instr.h\<close>, \<^verbatim>\<open>util.h\<close>, the tables of \<^verbatim>\<open>instr.cc\<close>): opcodes, encodings, fields and immediates.
    The opcode enumeration is one datatype per extension under \<open>Mapping\<close>.
  \<^item> \<open>Rv64_Decode\<close> (\<^verbatim>\<open>instr.cc\<close>): both decoders and the words that compressed instructions become.  The nested
    switches decide exactly the table of masks; every compressed word is rebuilt without losing an operand bit.
  \<^item> \<open>Rv64_Csr\<close> (\<^verbatim>\<open>csr.h\<close>) and \<open>Rv64_Core\<close> (\<^verbatim>\<open>rv64.cc\<close>, \<^verbatim>\<open>Regfile.cc\<close>, the loads and stores of \<^verbatim>\<open>command_processor.cc\<close>): the
    core's state and one definition per member function.  A step ends normally, traps, or aborts
    with the exception, over-long shift or missing table entry that ends the simulation; signed overflow
    wraps.  The memory behind the bus is a parameter.
  \<^item> \<open>Rv64_Safety\<close>, \<open>Rv64_Traps\<close>: the core invariant and the list of ways a step of the model can abort; traps are
    precise and recorded in the mode they are delegated to, trap entry and return are inverse, the interrupt taken is the right one, and
    the M extension computes exact results.
  \<^item> \<open>Plic\<close> (\<^verbatim>\<open>plic.cc\<close>): interrupt outputs are exact in spite of the dirty flags, a claim arbitrates
    correctly, and a claimed source stays with its claimant.

  \<^bold>\<open>Conventions and bounds.\<close>  Machine integers are words of their width.  Errors, panics, exceptions and
  failed assertions are values.  Loops with a static bound are structural recursion or folds; the
  poll loops of the firmware are turns of a task, so that waiting is a step that changes nothing.
  The connection of the host library has a finite life, the list of the peer's answers, and every call
  fails once it is over; the library's wait loops end with it in the model, and no theorem claims that they
  end on a connection that lives on.  The interpreter's \<^verbatim>\<open>run\<close> loop is a partial function whose result is
  undefined when the loop does not end; it agrees with a run of some number of steps.  No result
  depends on a fuel bound chosen by hand.

  \<^bold>\<open>Not modelled.\<close>  The FreeRTOS kernel and its port, the C library and console output of the firmware; the
  cycle-level models of the SM cores and caches, the interconnect, the DMA engine and the timers,
  which the firmware sees only through registers that are inputs of its model; SystemC scheduling,
  logging, tracing, statistics and Lua bindings; the GDB stub.  Atomic and floating-point instructions
  are decoded but not executed, as in the source.
\<close>

end
